(* ===== verification/Prelude.thy ===== *)
theory Prelude
  imports Main "HOL-Library.Word" "HOL-Library.Monad_Syntax"
begin

text \<open>
  Shared vocabulary of the development.

  \<^item> Machine integers: \<open>u8\<close>, \<open>u16\<close>, \<open>u32\<close> are the unsigned types of
    \<^verbatim>\<open>lib/stdint.h\<close>.  Indices and counters that stay far below their width are \<open>nat\<close>;
    the well-formedness predicates of the components give the bounds.
  \<^item> Control flow: an operation that the C code may fail to come back from has a result in
    \<open>option\<close>.  \<open>None\<close> means that the code does not return: it went through \<open>panic_spin\<close>
    (\<^verbatim>\<open>kernel/debug.c\<close>, a failed \<open>ASSERT\<close> or a \<open>PANIC\<close> ends in \<open>while (1);\<close>), it
    touched memory outside of the object it indexes, or it loops forever.  Error codes that the code
    returns to its caller (\<open>-1\<close>, \<open>NULL\<close>) are ordinary values of the model.
\<close>

unbundle bit_operations_syntax

type_synonym u8 = "8 word"
type_synonym u16 = "16 word"
type_synonym u32 = "32 word"

named_theorems array_simps "reading and writing C arrays"
named_theorems bitmap_simps "bits of bytes and bitmaps"
named_theorems frame_simps "what an operation leaves alone"


section \<open>Control flow\<close>

text \<open>\<^verbatim>\<open>kernel/debug.h\<close>: the macro \<open>ASSERT\<close>.\<close>

definition ASSERT :: "bool \<Rightarrow> unit option" where
  "ASSERT c = (if c then Some () else None)"

lemma ASSERT_True [simp]: "ASSERT True = Some ()"
  by (simp add: ASSERT_def)

lemma ASSERT_False [simp]: "ASSERT False = None"
  by (simp add: ASSERT_def)

lemma ASSERT_eq_Some [simp]: "ASSERT c = Some u \<longleftrightarrow> c"
  by (simp add: ASSERT_def)

lemma ASSERT_eq_None [simp]: "ASSERT c = None \<longleftrightarrow> \<not> c"
  by (simp add: ASSERT_def)

lemma ASSERT_bind [simp]: "Option.bind (ASSERT c) f = (if c then f () else None)"
  by (simp add: ASSERT_def)

lemmas bind_Some_iff = Option.bind_eq_Some_conv


section \<open>Arrays\<close>

text \<open>
  An array read or write at index \<open>i\<close>.  Outside of the object the C code has no defined
  result, and the model gives \<open>None\<close>.
\<close>

definition rd :: "'a list \<Rightarrow> nat \<Rightarrow> 'a option" where
  "rd xs i = (if i < length xs then Some (xs ! i) else None)"

definition wr :: "'a list \<Rightarrow> nat \<Rightarrow> 'a \<Rightarrow> 'a list option" where
  "wr xs i v = (if i < length xs then Some (xs[i := v]) else None)"

lemma rd_Some_iff [array_simps]: "rd xs i = Some x \<longleftrightarrow> i < length xs \<and> x = xs ! i"
  by (auto simp: rd_def)

lemma rd_None_iff [array_simps]: "rd xs i = None \<longleftrightarrow> length xs \<le> i"
  by (auto simp: rd_def)

lemma rd_in [simp]: "i < length xs \<Longrightarrow> rd xs i = Some (xs ! i)"
  by (simp add: rd_def)

lemma wr_Some_iff [array_simps]: "wr xs i v = Some ys \<longleftrightarrow> i < length xs \<and> ys = xs[i := v]"
  by (auto simp: wr_def)

lemma wr_in [simp]: "i < length xs \<Longrightarrow> wr xs i v = Some (xs[i := v])"
  by (simp add: wr_def)


section \<open>Rounding\<close>

text \<open>\<^verbatim>\<open>kernel/global.h\<close>: the macro \<open>DIV_ROUND_UP\<close>.\<close>

definition DIV_ROUND_UP :: "nat \<Rightarrow> nat \<Rightarrow> nat" where
  "DIV_ROUND_UP X STEP = (X + STEP - 1) div STEP"

lemma DIV_ROUND_UP_bounds:
  assumes "0 < k"
  shows "n \<le> DIV_ROUND_UP n k * k" and "DIV_ROUND_UP n k * k < n + k"
proof -
  have e: "DIV_ROUND_UP n k * k + (n + k - 1) mod k = n + k - 1"
    unfolding DIV_ROUND_UP_def by (rule div_mult_mod_eq)
  moreover have "(n + k - 1) mod k < k" using assms by simp
  ultimately show "n \<le> DIV_ROUND_UP n k * k" and "DIV_ROUND_UP n k * k < n + k"
    using assms by linarith+
qed


section \<open>Bits of a byte\<close>

lemma and_mask_eq_0_iff [bitmap_simps]:
  fixes b :: "'a::len word"
  shows "b AND push_bit k 1 = 0 \<longleftrightarrow> \<not> bit b k"
  by (simp only: push_bit_of_1 and_exp_eq_0_iff_not_bit)

lemma mask_and_eq_0_iff [bitmap_simps]:
  fixes b :: "'a::len word"
  shows "push_bit k 1 AND b = 0 \<longleftrightarrow> \<not> bit b k"
  by (subst and.commute) (rule and_mask_eq_0_iff)

lemma bit_or_mask [bitmap_simps]:
  fixes b :: "'a::len word"
  shows "bit (b OR push_bit k 1) n \<longleftrightarrow> bit b n \<or> (n = k \<and> k < LENGTH('a))"
  by (auto simp: bit_simps push_bit_of_1)

lemma bit_and_not_mask [bitmap_simps]:
  fixes b :: "'a::len word"
  shows "bit (b AND NOT (push_bit k 1)) n \<longleftrightarrow> bit b n \<and> n \<noteq> k"
  by (auto simp: bit_simps push_bit_of_1 dest: bit_imp_le_length)

lemma byte_full_iff: "(b :: u8) = 0xff \<longleftrightarrow> (\<forall>k < 8. bit b k)"
proof -
  have "bit (0xff :: u8) k" if "k < 8" for k
    using that by (simp add: numeral_eq_Suc less_Suc_eq) (elim disjE; simp)
  then show ?thesis by (auto intro!: bit_word_eqI)
qed

end
