(* ===== verification/CString.thy ===== *)
theory CString
  imports Prelude
begin

text \<open>
  \<^verbatim>\<open>lib/string.c\<close> on a flat 32-bit byte memory, so that pointer arithmetic wraps and source and
  destination may overlap as they may in C.  \<open>char\<close> is signed (gcc on x86).  A loop that follows a
  string with no terminator does not return; such loops are \<open>partial_function (option)\<close>.  A failed
  \<open>assert\<close> (\<^verbatim>\<open>lib/user/assert.h\<close>) spins forever.
\<close>

section \<open>Operations\<close>

type_synonym mem = "u32 \<Rightarrow> u8"

fun memcpy_loop :: "mem \<Rightarrow> u32 \<Rightarrow> u32 \<Rightarrow> nat \<Rightarrow> mem" where
  "memcpy_loop m To From 0 = m"
| "memcpy_loop m To From (Suc len) = memcpy_loop (m(To := m From)) (To + 1) (From + 1) len"

definition memcpy :: "mem \<Rightarrow> u32 \<Rightarrow> u32 \<Rightarrow> u32 \<Rightarrow> mem option" where
  "memcpy m dest src len = do {
     ASSERT (dest \<noteq> 0 \<and> src \<noteq> 0);
     Some (memcpy_loop m dest src (unat len))
   }"

fun memset_loop :: "mem \<Rightarrow> u32 \<Rightarrow> u8 \<Rightarrow> nat \<Rightarrow> mem" where
  "memset_loop m dst val 0 = m"
| "memset_loop m dst val (Suc len) = memset_loop (m(dst := val)) (dst + 1) val len"

definition memset :: "mem \<Rightarrow> u32 \<Rightarrow> u8 \<Rightarrow> u32 \<Rightarrow> mem option" where
  "memset m dest val len = do {
     ASSERT (dest \<noteq> 0);
     Some (memset_loop m dest val (unat len))
   }"

fun memcmp_loop :: "mem \<Rightarrow> u32 \<Rightarrow> u32 \<Rightarrow> nat \<Rightarrow> int" where
  "memcmp_loop m a b 0 = 0"
| "memcmp_loop m a b (Suc n) =
     (if m a \<noteq> m b then sint (m a) - sint (m b) else memcmp_loop m (a + 1) (b + 1) n)"

definition memcmp :: "mem \<Rightarrow> u32 \<Rightarrow> u32 \<Rightarrow> u32 \<Rightarrow> int option" where
  "memcmp m a b n = do {
     ASSERT (a \<noteq> 0 \<or> b \<noteq> 0);
     Some (memcmp_loop m a b (unat n))
   }"

definition bzero :: "mem \<Rightarrow> u32 \<Rightarrow> u32 \<Rightarrow> mem option" where
  "bzero m dest len = memset m dest 0 len"

partial_function (option) strcmp_loop :: "mem \<Rightarrow> u32 \<Rightarrow> u32 \<Rightarrow> int option" where
  "strcmp_loop m str1 str2 =
     (if m str1 = m str2 \<and> m str1 \<noteq> 0 then strcmp_loop m (str1 + 1) (str2 + 1)
      else Some (sint (m str1) - sint (m str2)))"

definition strcmp :: "mem \<Rightarrow> u32 \<Rightarrow> u32 \<Rightarrow> int option" where
  "strcmp m str1 str2 = do {
     ASSERT (str1 \<noteq> 0 \<or> str2 \<noteq> 0);
     strcmp_loop m str1 str2
   }"

partial_function (option) strcpy_loop :: "mem \<Rightarrow> u32 \<Rightarrow> u32 \<Rightarrow> mem option" where
  "strcpy_loop m dest src =
     (if m src \<noteq> 0 then strcpy_loop (m(dest := m src)) (dest + 1) (src + 1) else Some m)"

definition strcpy :: "mem \<Rightarrow> u32 \<Rightarrow> u32 \<Rightarrow> (mem \<times> u32) option" where
  "strcpy m dest src = do {
     ASSERT (dest \<noteq> 0 \<and> src \<noteq> 0);
     m' \<leftarrow> strcpy_loop m dest src;
     Some (m', dest)
   }"

text \<open>\<open>while (*p++) {}\<close>: the result is the pointer behind the terminator.\<close>

partial_function (option) skip_string :: "mem \<Rightarrow> u32 \<Rightarrow> u32 option" where
  "skip_string m p = (if m p \<noteq> 0 then skip_string m (p + 1) else Some (p + 1))"

definition strlen :: "mem \<Rightarrow> u32 \<Rightarrow> u32 option" where
  "strlen m s = do {
     ASSERT (s \<noteq> 0);
     p \<leftarrow> skip_string m s;
     Some (p - s - 1)
   }"

text \<open>\<open>*str\<close> is a signed \<open>char\<close>, \<open>ch\<close> an unsigned byte: they are compared as \<open>int\<close>.\<close>

definition char_is :: "u8 \<Rightarrow> u8 \<Rightarrow> bool" where
  "char_is c ch \<longleftrightarrow> sint c = uint ch"

partial_function (option) strchr_loop :: "mem \<Rightarrow> u32 \<Rightarrow> u8 \<Rightarrow> u32 option" where
  "strchr_loop m str ch =
     (if m str \<noteq> 0 then if char_is (m str) ch then Some str else strchr_loop m (str + 1) ch
      else Some 0)"

definition strchr :: "mem \<Rightarrow> u32 \<Rightarrow> u8 \<Rightarrow> u32 option" where
  "strchr m str ch = do {
     ASSERT (str \<noteq> 0);
     strchr_loop m str ch
   }"

text \<open>\<open>while ((*str++ = *src++));\<close>: the terminator is copied too.\<close>

partial_function (option) strcat_loop :: "mem \<Rightarrow> u32 \<Rightarrow> u32 \<Rightarrow> mem option" where
  "strcat_loop m str src =
     (let m' = m(str := m src) in if m' str \<noteq> 0 then strcat_loop m' (str + 1) (src + 1) else Some m')"

definition strcat :: "mem \<Rightarrow> u32 \<Rightarrow> u32 \<Rightarrow> (mem \<times> u32) option" where
  "strcat m dst src = do {
     ASSERT (dst \<noteq> 0 \<and> src \<noteq> 0);
     str \<leftarrow> skip_string m dst;
     m' \<leftarrow> strcat_loop m (str - 1) src;
     Some (m', dst)
   }"

partial_function (option) strrchr_loop :: "mem \<Rightarrow> u32 \<Rightarrow> u8 \<Rightarrow> u32 \<Rightarrow> u32 option" where
  "strrchr_loop m str ch temp =
     (if m str \<noteq> 0 then strrchr_loop m (str + 1) ch (if char_is (m str) ch then str else temp)
      else Some temp)"

definition strrchr :: "mem \<Rightarrow> u32 \<Rightarrow> u8 \<Rightarrow> u32 option" where
  "strrchr m str ch = do {
     ASSERT (str \<noteq> 0);
     strrchr_loop m str ch 0
   }"


section \<open>Regions and strings in memory\<close>

definition region :: "u32 \<Rightarrow> nat \<Rightarrow> u32 set" where
  "region p n = (\<lambda>i. p + of_nat i) ` {..<n}"

lemma region_0 [simp]: "region p 0 = {}"
  by (simp add: region_def)

lemma region_Suc [simp]: "region p (Suc n) = insert p (region (p + 1) n)"
  unfolding region_def lessThan_Suc_eq_insert_0 by (auto simp: image_image algebra_simps)

lemma region_add: "region p (n + k) = region p n \<union> region (p + of_nat n) k"
  by (induction n arbitrary: p) (simp_all add: algebra_simps)

lemma mem_region: "i < n \<Longrightarrow> p + of_nat i \<in> region p n"
  by (auto simp: region_def)

lemma not_in_next_region:
  assumes "n < 2 ^ 32"
  shows "p \<notin> region (p + 1) n"
proof
  assume "p \<in> region (p + 1) n"
  then obtain i where i: "i < n" "p = p + 1 + of_nat i" by (auto simp: region_def)
  then have "of_nat (Suc i) = (0 :: u32)" by (simp add: add.assoc)
  then have "2 ^ LENGTH(32) dvd Suc i" by (simp only: word_of_nat_eq_0_iff)
  then show False using i(1) assms by (auto dest: dvd_imp_le)
qed

text \<open>\<open>str_at m p xs\<close>: a terminated string with the bytes \<open>xs\<close> starts at \<open>p\<close>.\<close>

fun str_at :: "mem \<Rightarrow> u32 \<Rightarrow> u8 list \<Rightarrow> bool" where
  "str_at m p [] \<longleftrightarrow> m p = 0"
| "str_at m p (x # xs) \<longleftrightarrow> m p = x \<and> x \<noteq> 0 \<and> str_at m (p + 1) xs"

lemma str_at_cong:
  "(\<And>a. a \<in> region p (Suc (length xs)) \<Longrightarrow> m' a = m a) \<Longrightarrow> str_at m' p xs = str_at m p xs"
proof (induction xs arbitrary: p)
  case (Cons x xs)
  have "str_at m' (p + 1) xs = str_at m (p + 1) xs" by (rule Cons.IH) (simp add: Cons.prems)
  then show ?case by (simp add: Cons.prems)
qed simp

lemma str_at_unique: "str_at m p xs \<Longrightarrow> str_at m p ys \<Longrightarrow> xs = ys"
proof (induction xs arbitrary: p ys)
  case Nil
  then show ?case by (cases ys) auto
next
  case (Cons x xs)
  then show ?case by (cases ys) auto
qed

lemma str_at_nth: "str_at m p xs \<Longrightarrow> i < length xs \<Longrightarrow> m (p + of_nat i) = xs ! i"
proof (induction xs arbitrary: p i)
  case (Cons x xs)
  then show ?case by (cases i) (auto simp: add.assoc [symmetric])
qed simp

lemma str_at_append:
  assumes "str_at m d xs" and "length xs + length ys < 2 ^ 32" and "str_at m' (d + of_nat (length xs)) ys"
    and "\<forall>a. a \<notin> region (d + of_nat (length xs)) (Suc (length ys)) \<longrightarrow> m' a = m a"
  shows "str_at m' d (xs @ ys)"
  using assms
proof (induction xs arbitrary: d)
  case (Cons x xs)
  let ?e = "d + of_nat (length (x # xs))"
  have "d \<notin> region ?e (Suc (length ys))"
  proof
    assume "d \<in> region ?e (Suc (length ys))"
    moreover have "region (d + 1) (length xs + Suc (length ys)) = region (d + 1) (length xs) \<union> region ?e (Suc (length ys))"
      by (subst region_add) (simp add: add.assoc)
    ultimately have "d \<in> region (d + 1) (length xs + Suc (length ys))" by blast
    then show False using not_in_next_region [of "length xs + Suc (length ys)" d] Cons.prems(2) by simp
  qed
  then have "m' d = x" using Cons.prems(1,4) by (auto simp del: region_Suc)
  moreover have "str_at m' (d + 1) (xs @ ys)"
    using Cons.prems by (intro Cons.IH) (simp_all add: algebra_simps)
  ultimately show ?case using Cons.prems(1) by simp
qed simp

lemma of_nat_inj_below: "of_nat i = (of_nat n :: u32) \<Longrightarrow> i < n \<Longrightarrow> n < 2 ^ 32 \<Longrightarrow> False"
  by (drule arg_cong [where f = unat]) (simp add: unat_of_nat)

lemma str_at_nonzero: "str_at m p xs \<Longrightarrow> 0 \<notin> set xs"
  by (induction xs arbitrary: p) auto


section \<open>Block operations\<close>

lemma memcpy_loop_spec:
  assumes "n \<le> 2 ^ 32" and "region To n \<inter> region From n = {}"
  shows "(\<forall>i < n. memcpy_loop m To From n (To + of_nat i) = m (From + of_nat i)) \<and>
    (\<forall>a. a \<notin> region To n \<longrightarrow> memcpy_loop m To From n a = m a)"
  using assms
proof (induction n arbitrary: m To From)
  case 0
  then show ?case by simp
next
  case (Suc n)
  define m1 where "m1 = m(To := m From)"
  have m1: "m1 a = (if a = To then m From else m a)" for a by (simp add: m1_def)
  have fresh: "To \<notin> region (To + 1) n" using Suc.prems(1) by (intro not_in_next_region) simp
  have IH: "\<forall>i < n. memcpy_loop m1 (To + 1) (From + 1) n (To + 1 + of_nat i) = m1 (From + 1 + of_nat i)"
    "\<forall>a. a \<notin> region (To + 1) n \<longrightarrow> memcpy_loop m1 (To + 1) (From + 1) n a = m1 a"
    using Suc.IH [of "To + 1" "From + 1" m1] Suc.prems by auto
  have unf: "memcpy_loop m To From (Suc n) = memcpy_loop m1 (To + 1) (From + 1) n"
    by (simp add: m1_def)
  have src: "From + 1 + of_nat i \<noteq> To" if "i < n" for i
    using mem_region [OF that, of "From + 1"] Suc.prems(2) by auto
  have "memcpy_loop m To From (Suc n) (To + of_nat i) = m (From + of_nat i)" if "i < Suc n" for i
  proof (cases i)
    case 0
    then show ?thesis using IH(2) fresh by (simp add: unf m1 del: memcpy_loop.simps)
  next
    case (Suc j)
    then have "j < n" using that by simp
    then show ?thesis using IH(1) src [OF \<open>j < n\<close>] Suc
      by (simp add: unf m1 add.assoc del: memcpy_loop.simps)
  qed
  moreover have "memcpy_loop m To From (Suc n) a = m a" if "a \<notin> region To (Suc n)" for a
    using that IH(2) by (simp add: unf m1 del: memcpy_loop.simps)
  ultimately show ?case by blast
qed

lemma memset_loop_spec:
  "n \<le> 2 ^ 32 \<Longrightarrow> memset_loop m p v n a = (if a \<in> region p n then v else m a)"
proof (induction n arbitrary: m p)
  case (Suc n)
  then have "p \<notin> region (p + 1) n" by (intro not_in_next_region) simp
  with Suc show ?case by auto
qed simp

lemma unat_le_2p32: "unat (n :: u32) \<le> 2 ^ 32"
  using unsigned_less [of n, where 'a = nat] by simp

lemma sint_eq_sint_iff: "sint a = sint b \<longleftrightarrow> a = (b :: u8)"
  by (auto intro: signed_word_eqI)

lemma sint_eq_0_iff: "sint a = 0 \<longleftrightarrow> a = (0 :: u8)" "0 = sint a \<longleftrightarrow> a = (0 :: u8)"
  using sint_eq_sint_iff [of a 0] by auto

lemma memcmp_loop_0_iff:
  "memcmp_loop m a b n = 0 \<longleftrightarrow> (\<forall>i < n. m (a + of_nat i) = m (b + of_nat i))"
proof (induction n arbitrary: a b)
  case (Suc n)
  show ?case
    by (auto simp: Suc.IH All_less_Suc2 add.assoc sint_eq_sint_iff)
qed simp


section \<open>String operations\<close>

lemma skip_string_at: "str_at m p xs \<Longrightarrow> skip_string m p = Some (p + of_nat (length xs) + 1)"
  by (induction xs arbitrary: p) (simp_all add: skip_string.simps algebra_simps)

lemma strlen_at: "str_at m s xs \<Longrightarrow> s \<noteq> 0 \<Longrightarrow> strlen m s = Some (of_nat (length xs))"
  by (simp add: strlen_def skip_string_at)

lemma strcmp_loop_at:
  "str_at m p xs \<Longrightarrow> str_at m q ys \<Longrightarrow> \<exists>r. strcmp_loop m p q = Some r \<and> (r = 0 \<longleftrightarrow> xs = ys)"
proof (induction xs arbitrary: p q ys)
  case Nil
  then show ?case by (cases ys) (auto simp: strcmp_loop.simps [of m p q] sint_eq_sint_iff sint_eq_0_iff)
next
  case (Cons x xs)
  show ?case
  proof (cases ys)
    case Nil
    with Cons.prems show ?thesis by (auto simp: strcmp_loop.simps [of m p q] sint_eq_sint_iff sint_eq_0_iff)
  next
    case (Cons y ys')
    show ?thesis
    proof (cases "x = y")
      case True
      with Cons Cons.prems Cons.IH [of "p + 1" "q + 1" ys'] show ?thesis
        by (auto simp: strcmp_loop.simps [of m p q] sint_eq_sint_iff sint_eq_0_iff)
    next
      case False
      with Cons Cons.prems show ?thesis by (auto simp: strcmp_loop.simps [of m p q] sint_eq_sint_iff sint_eq_0_iff)
    qed
  qed
qed

lemma strcpy_loop_spec:
  assumes "str_at m src xs" and "length xs \<le> 2 ^ 32"
    and "region dest (length xs) \<inter> region src (Suc (length xs)) = {}"
  shows "strcpy_loop m dest src = Some (memcpy_loop m dest src (length xs))"
  using assms
proof (induction xs arbitrary: m dest src)
  case Nil
  then show ?case by (simp add: strcpy_loop.simps)
next
  case (Cons x xs)
  let ?m = "m(dest := m src)"
  have "str_at ?m (src + 1) xs = str_at m (src + 1) xs"
    by (rule str_at_cong) (use Cons.prems(3) in auto)
  then have "strcpy_loop ?m (dest + 1) (src + 1) = Some (memcpy_loop ?m (dest + 1) (src + 1) (length xs))"
    using Cons.prems by (intro Cons.IH) (auto simp del: fun_upd_apply)
  moreover have "m src \<noteq> 0" using Cons.prems(1) by simp
  ultimately show ?case by (subst strcpy_loop.simps) (simp del: fun_upd_apply)
qed

lemma strcat_loop_spec:
  assumes "str_at m src ys" and "length ys < 2 ^ 32"
    and "region str (Suc (length ys)) \<inter> region src (Suc (length ys)) = {}"
  shows "\<exists>m'. strcat_loop m str src = Some m' \<and> str_at m' str ys \<and>
    (\<forall>a. a \<notin> region str (Suc (length ys)) \<longrightarrow> m' a = m a)"
  using assms
proof (induction ys arbitrary: m str src)
  case Nil
  then show ?case by (auto simp: strcat_loop.simps [of m str src])
next
  case (Cons y ys)
  let ?m = "m(str := m src)"
  have "str_at ?m (src + 1) ys = str_at m (src + 1) ys"
    by (rule str_at_cong) (use Cons.prems(3) in auto)
  then have IHp: "str_at ?m (src + 1) ys" "length ys < 2 ^ 32"
    "region (str + 1) (Suc (length ys)) \<inter> region (src + 1) (Suc (length ys)) = {}"
    using Cons.prems by auto
  from Cons.IH [OF IHp] obtain m' where m': "strcat_loop ?m (str + 1) (src + 1) = Some m'" "str_at m' (str + 1) ys"
    "\<forall>a. a \<notin> region (str + 1) (Suc (length ys)) \<longrightarrow> m' a = ?m a" by blast
  have "str \<notin> region (str + 1) (Suc (length ys))"
    using Cons.prems(2) by (intro not_in_next_region) simp
  then have "m' str = y" using m'(3) Cons.prems(1) by auto
  moreover have "m' a = m a" if "a \<notin> region str (Suc (length (y # ys)))" for a
    using that m'(3) by (auto simp del: region_Suc simp add: region_Suc [of str])
  ultimately show ?case
    using m'(1,2) Cons.prems(1) by (auto simp: strcat_loop.simps [of m str src])
qed

lemma char_is_ascii: "uint ch < 128 \<Longrightarrow> char_is c ch \<longleftrightarrow> c = ch"
proof -
  assume a: "uint ch < 128"
  have "- (2 ^ 7) \<le> uint ch" by (rule order_trans [OF _ unsigned_greater_eq]) simp
  then have "signed_take_bit 7 (uint ch) = uint ch"
    using a by (intro signed_take_bit_int_eq_self) simp_all
  then have "sint ch = uint ch" by (simp add: sint_uint)
  then show ?thesis by (metis char_is_def signed_word_eqI)
qed

lemma strchr_loop_at:
  "str_at m p xs \<Longrightarrow> uint ch < 128 \<Longrightarrow>
   strchr_loop m p ch = Some (if ch \<in> set xs then p + of_nat (length (takeWhile (\<lambda>x. x \<noteq> ch) xs)) else 0)"
  by (induction xs arbitrary: p) (auto simp: strchr_loop.simps char_is_ascii algebra_simps)

lemma strrchr_loop_at:
  "str_at m p xs \<Longrightarrow> uint ch < 128 \<Longrightarrow>
   strrchr_loop m p ch t = Some (if ch \<in> set xs
     then p + of_nat (length xs - 1 - length (takeWhile (\<lambda>x. x \<noteq> ch) (rev xs))) else t)"
proof (induction xs arbitrary: p t)
  case Nil
  then show ?case by (simp add: strrchr_loop.simps)
next
  case (Cons x xs)
  let ?tw = "\<lambda>ys. length (takeWhile (\<lambda>x. x \<noteq> ch) ys)"
  have step: "strrchr_loop m p ch t = strrchr_loop m (p + 1) ch (if x = ch then p else t)"
    using Cons.prems by (simp add: strrchr_loop.simps [of m p] char_is_ascii)
  show ?case
  proof (cases "ch \<in> set xs")
    case True
    then have "?tw (rev (x # xs)) = ?tw (rev xs)" by (auto simp: takeWhile_append)
    moreover have "?tw (rev xs) < length xs"
      using True length_takeWhile_le [of "\<lambda>x. x \<noteq> ch" "rev xs"]
      by (metis (full_types) length_rev le_neq_implies_less set_rev takeWhile_eq_all_conv take_all takeWhile_eq_take)
    ultimately have "length (x # xs) - 1 - ?tw (rev (x # xs)) = Suc (length xs - 1 - ?tw (rev xs))"
      by simp
    with True step Cons show ?thesis by (simp add: algebra_simps)
  next
    case False
    then have "takeWhile (\<lambda>x. x \<noteq> ch) (rev xs) = rev xs" by (auto simp: takeWhile_eq_all_conv)
    with False step Cons show ?thesis by (auto simp: takeWhile_append)
  qed
qed


section \<open>Termination\<close>

text \<open>
  The address space is finite: a scan from any address meets a zero byte unless there is none at all.
\<close>

lemma str_at_first_zero:
  "\<forall>k < n. m (p + of_nat k) \<noteq> 0 \<Longrightarrow> m (p + of_nat n) = 0 \<Longrightarrow> \<exists>xs. str_at m p xs \<and> length xs = n"
proof (induction n arbitrary: p)
  case 0
  then show ?case by (intro exI [of _ "[]"]) simp
next
  case (Suc n)
  have "\<forall>k < n. m (p + 1 + of_nat k) \<noteq> 0" using Suc.prems(1) by (auto simp: add.assoc dest: spec [of _ "Suc _"])
  moreover have "m (p + 1 + of_nat n) = 0" using Suc.prems(2) by (simp add: add.assoc)
  ultimately obtain xs where "str_at m (p + 1) xs" "length xs = n" using Suc.IH by blast
  moreover have "m p \<noteq> 0" using Suc.prems(1) by (auto dest: spec [of _ 0])
  ultimately show ?case by (intro exI [of _ "m p # xs"]) simp
qed

lemma str_at_exists:
  assumes "m a = 0"
  obtains xs where "str_at m p xs" "length xs < 2 ^ 32"
proof -
  let ?zero = "\<lambda>k. m (p + of_nat k) = 0"
  have here: "?zero (unat (a - p))" using assms by simp
  have "?zero (Least ?zero)" by (rule LeastI [of ?zero, OF here])
  moreover have "\<forall>k < Least ?zero. \<not> ?zero k" by (blast dest: not_less_Least)
  ultimately obtain xs where "str_at m p xs" "length xs = Least ?zero" using str_at_first_zero [of "Least ?zero" m p] by blast
  moreover have "Least ?zero < 2 ^ 32"
    using Least_le [of ?zero, OF here] unsigned_less [of "a - p", where 'a = nat] by simp
  ultimately show thesis using that by simp
qed

lemma skip_string_returns_zero: "skip_string m p = Some r \<Longrightarrow> \<exists>a. m a = 0"
  by (rule skip_string.raw_induct [where P = "\<lambda>m p r. \<exists>a. m a = 0"]) (auto split: if_splits)


section \<open>Properties\<close>



text \<open>
  \<open>strcmp\<close> decides equality of strings: on two terminated strings it returns, and the result is
  0 exactly when the strings are equal.
\<close>

theorem strcmp_decides:
  assumes "str_at m p xs" and "str_at m q ys" and "p \<noteq> 0"
  shows "\<exists>r. strcmp m p q = Some r \<and> (r = 0 \<longleftrightarrow> xs = ys)"
  using strcmp_loop_at [OF assms(1,2)] assms(3) by (simp add: strcmp_def)

lemma strcmp_decides_witness:
  "\<exists>r. strcmp (\<lambda>_. 0) 4 5 = Some r \<and> (r = 0 \<longleftrightarrow> [] = ([] :: u8 list))"
  by (rule strcmp_decides [of "\<lambda>_. 0" 4 "[]" 5 "[]"]) simp_all

text \<open>
  \<open>strcat\<close> concatenates: when the room for the result does not overlap the source, the
  destination afterwards holds the concatenation, terminated, and nothing behind it has changed.
\<close>

theorem strcat_concatenates:
  assumes "str_at m d xs" and "str_at m p ys" and "d \<noteq> 0" and "p \<noteq> 0"
    and "length xs + length ys < 2 ^ 32"
    and "region d (length xs + Suc (length ys)) \<inter> region p (Suc (length ys)) = {}"
  shows "\<exists>m'. strcat m d p = Some (m', d) \<and> str_at m' d (xs @ ys) \<and>
    (\<forall>a. a \<notin> region d (length xs + Suc (length ys)) \<longrightarrow> m' a = m a)"
proof -
  let ?e = "d + of_nat (length xs)"
  have reg: "region d (length xs + Suc (length ys)) = region d (length xs) \<union> region ?e (Suc (length ys))"
    by (rule region_add)
  have "region ?e (Suc (length ys)) \<inter> region p (Suc (length ys)) = {}"
    using assms(6) unfolding reg by blast
  then obtain m' where m': "strcat_loop m ?e p = Some m'" "str_at m' ?e ys"
    "\<forall>a. a \<notin> region ?e (Suc (length ys)) \<longrightarrow> m' a = m a"
    using strcat_loop_spec [OF assms(2), of ?e] assms(5) by (auto simp del: region_Suc)
  have "strcat m d p = Some (m', d)"
    using assms(3,4) m'(1) by (simp add: strcat_def skip_string_at [OF assms(1)])
  moreover have "str_at m' d (xs @ ys)"
    using assms(1,5) m'(2,3) by (rule str_at_append)
  moreover have "\<forall>a. a \<notin> region d (length xs + Suc (length ys)) \<longrightarrow> m' a = m a"
    using m'(3) unfolding reg by blast
  ultimately show ?thesis by blast
qed

lemma strcat_concatenates_witness:
  "\<exists>m'. strcat ((\<lambda>_. 0)(8 := 65, 16 := 66)) 8 16 = Some (m', 8) \<and> str_at m' 8 [65, 66]"
proof -
  let ?m = "(\<lambda>_. 0)(8 := 65, 16 := 66) :: mem"
  have "str_at ?m 8 [65]" "str_at ?m 16 [66]" by simp_all
  moreover have "region 8 (length [65 :: u8] + Suc (length [66 :: u8])) \<inter> region 16 (Suc (length [66 :: u8])) = {}"
    by simp
  ultimately show ?thesis using strcat_concatenates [of ?m 8 "[65]" 16 "[66]"] by auto
qed

text \<open>
  \<open>strcpy\<close> copies the characters of the source but not its terminator: the byte behind the copy
  keeps the value it had, so the destination is the source string only where that byte was 0 before.
\<close>

theorem strcpy_no_terminator:
  assumes "str_at m p xs" and "d \<noteq> 0" and "p \<noteq> 0" and "length xs < 2 ^ 32"
    and "region d (Suc (length xs)) \<inter> region p (Suc (length xs)) = {}"
  shows "\<exists>m'. strcpy m d p = Some (m', d)
    \<and> (\<forall>i < length xs. m' (d + of_nat i) = xs ! i)
    \<and> (\<forall>a. a \<notin> region d (length xs) \<longrightarrow> m' a = m a)
    \<and> m' (d + of_nat (length xs)) = m (d + of_nat (length xs))"
proof -
  let ?n = "length xs"
  let ?m' = "memcpy_loop m d p ?n"
  have sub: "region q ?n \<subseteq> region q (Suc ?n)" for q
    using region_add [of q ?n 1] by auto
  have "strcpy_loop m d p = Some ?m'"
    using assms(1,4,5) sub by (intro strcpy_loop_spec) auto
  then have "strcpy m d p = Some (?m', d)" using assms(2,3) by (simp add: strcpy_def)
  moreover have cp: "\<forall>i < ?n. ?m' (d + of_nat i) = m (p + of_nat i)"
    and fr: "\<forall>a. a \<notin> region d ?n \<longrightarrow> ?m' a = m a"
    using memcpy_loop_spec [of ?n d p m] assms(4,5) sub [of d] sub [of p] by (auto simp del: region_Suc)
  moreover have "d + of_nat ?n \<notin> region d ?n"
  proof
    assume "d + of_nat ?n \<in> region d ?n"
    then obtain i where "i < ?n" "of_nat i = (of_nat ?n :: u32)" by (auto simp: region_def)
    then show False using of_nat_inj_below assms(4) by blast
  qed
  ultimately show ?thesis using str_at_nth [OF assms(1)] by auto
qed

lemma strcpy_no_terminator_witness:
  "\<exists>m'. strcpy ((\<lambda>_. 7)(16 := 66, 17 := 0)) 8 16 = Some (m', 8) \<and> m' 8 = 66 \<and> m' 9 = 7"
proof -
  let ?m = "(\<lambda>_. 7)(16 := 66, 17 := 0) :: mem"
  have "str_at ?m 16 [66]" by simp
  moreover have "region 8 (Suc (length [66 :: u8])) \<inter> region 16 (Suc (length [66 :: u8])) = {}" by simp
  ultimately show ?thesis using strcpy_no_terminator [of ?m 16 "[66]" 8] by auto
qed

end
