(* ===== verification/Interrupt.thy ===== *)
theory Interrupt
  imports Prelude
begin

text \<open>
  \<^verbatim>\<open>kernel/interrupt.c\<close>: the interrupt flag and the interrupt descriptor table.

  The processor state the C code reads and writes with \<open>pushfl\<close>, \<open>sti\<close> and \<open>cli\<close> is the word
  \<open>eflags\<close>; components that disable interrupts extend the record \<open>cpu\<close>.  Writes to I/O ports are
  the list of (port, value) pairs in the order the code issues them.
\<close>

section \<open>The interrupt flag\<close>

datatype intr_status = INTR_OFF | INTR_ON

record cpu =
  eflags :: u32

definition EFLAGS_IF :: u32 where
  "EFLAGS_IF = 0x200"

definition sti :: "'b cpu_scheme \<Rightarrow> 'b cpu_scheme" where
  "sti s = s\<lparr>eflags := eflags s OR EFLAGS_IF\<rparr>"

definition cli :: "'b cpu_scheme \<Rightarrow> 'b cpu_scheme" where
  "cli s = s\<lparr>eflags := eflags s AND NOT EFLAGS_IF\<rparr>"

definition intr_get_status :: "'b cpu_scheme \<Rightarrow> intr_status" where
  "intr_get_status s = (if EFLAGS_IF AND eflags s \<noteq> 0 then INTR_ON else INTR_OFF)"

definition intr_enable :: "'b cpu_scheme \<Rightarrow> 'b cpu_scheme \<times> intr_status" where
  "intr_enable s =
     (if INTR_ON = intr_get_status s then (s, INTR_ON) else (sti s, INTR_OFF))"

definition intr_disable :: "'b cpu_scheme \<Rightarrow> 'b cpu_scheme \<times> intr_status" where
  "intr_disable s =
     (if INTR_ON = intr_get_status s then (cli s, INTR_ON) else (s, INTR_OFF))"

definition intr_set_status :: "'b cpu_scheme \<Rightarrow> intr_status \<Rightarrow> 'b cpu_scheme \<times> intr_status" where
  "intr_set_status s status = (if status = INTR_ON then intr_enable s else intr_disable s)"

lemma EFLAGS_IF_mask: "EFLAGS_IF = push_bit 9 1"
  by (simp add: EFLAGS_IF_def)

lemma intr_get_status_ON: "intr_get_status s = INTR_ON \<longleftrightarrow> bit (eflags s) 9"
  by (simp add: intr_get_status_def EFLAGS_IF_mask bitmap_simps del: push_bit_of_1 push_bit_numeral)

lemma intr_get_status_OFF: "intr_get_status s = INTR_OFF \<longleftrightarrow> \<not> bit (eflags s) 9"
  using intr_get_status_ON [of s] by (cases "intr_get_status s") auto

lemma eflags_sti_bit: "bit (eflags (sti s)) n \<longleftrightarrow> bit (eflags s) n \<or> n = 9"
  by (simp add: sti_def EFLAGS_IF_mask bitmap_simps del: push_bit_of_1 push_bit_numeral)

lemma eflags_cli_bit: "bit (eflags (cli s)) n \<longleftrightarrow> bit (eflags s) n \<and> n \<noteq> 9"
  by (simp add: cli_def EFLAGS_IF_mask bitmap_simps del: push_bit_of_1 push_bit_numeral)

lemma sti_cli: "intr_get_status s = INTR_ON \<Longrightarrow> sti (cli s) = s"
proof -
  assume "intr_get_status s = INTR_ON"
  then have "eflags (sti (cli s)) = eflags s"
    by (intro bit_word_eqI) (auto simp: eflags_sti_bit eflags_cli_bit intr_get_status_ON)
  then show ?thesis by (cases s) (simp add: sti_def cli_def)
qed

lemma intr_get_status_upd [simp]:
  "intr_get_status (sti s) = INTR_ON" "intr_get_status (cli s) = INTR_OFF"
  by (simp_all add: intr_get_status_ON intr_get_status_OFF eflags_sti_bit eflags_cli_bit)

lemma intr_disable_off: "intr_get_status (fst (intr_disable s)) = INTR_OFF"
  by (cases "intr_get_status s") (simp_all add: intr_disable_def)

lemma snd_intr_disable: "snd (intr_disable s) = intr_get_status s"
  by (cases "intr_get_status s") (simp_all add: intr_disable_def)

lemma fst_intr_disable: "fst (intr_disable s) = (if intr_get_status s = INTR_ON then cli s else s)"
  by (simp add: intr_disable_def)

text \<open>
  A section between \<open>intr_disable\<close> and \<open>intr_set_status\<close> whose body does not depend on the flag: the
  state afterwards is that of the body alone.
\<close>

lemma critical_section:
  assumes "\<And>e. f (s\<lparr>eflags := e\<rparr>) = (f s)\<lparr>eflags := e\<rparr>"
  shows "fst (intr_set_status (f (fst (intr_disable s))) (snd (intr_disable s))) = f s"
proof -
  have e: "eflags (f (s\<lparr>eflags := e\<rparr>)) = e" for e by (simp add: assms)
  have s: "s\<lparr>eflags := eflags s\<rparr> = s" by simp
  have fs: "eflags (f s) = eflags s" using e [of "eflags s"] s by simp
  show ?thesis
  proof (cases "intr_get_status s")
    case INTR_OFF
    then have "intr_get_status (f s) = INTR_OFF" by (simp add: intr_get_status_def fs)
    then show ?thesis using INTR_OFF by (simp add: intr_disable_def intr_set_status_def)
  next
    case INTR_ON
    have "sti (f (cli s)) = f (sti (cli s))" by (simp add: sti_def cli_def assms)
    moreover have "intr_get_status (f (cli s)) = INTR_OFF"
      using intr_get_status_upd(2) [of s] by (simp add: intr_get_status_def cli_def e assms)
    ultimately show ?thesis using INTR_ON
      by (simp add: intr_disable_def intr_set_status_def intr_enable_def sti_cli [OF INTR_ON])
  qed
qed

lemma intr_get_status_cong: "eflags t = eflags s \<Longrightarrow> intr_get_status t = intr_get_status s"
  by (simp add: intr_get_status_def)

text \<open>What is done between disabling and restoring does not matter, as long as it leaves \<open>eflags\<close> alone.\<close>

lemma intr_restore_eflags:
  assumes "eflags t = eflags (fst (intr_disable s))"
  shows "eflags (fst (intr_set_status t (snd (intr_disable s)))) = eflags s"
proof (cases "intr_get_status s")
  case INTR_OFF
  then have "eflags t = eflags s" using assms by (simp add: intr_disable_def)
  with INTR_OFF intr_get_status_cong [OF this] show ?thesis
    by (simp add: intr_set_status_def intr_disable_def)
next
  case INTR_ON
  then have e: "eflags t = eflags (cli s)" using assms by (simp add: intr_disable_def)
  then have "intr_get_status t = INTR_OFF" using intr_get_status_cong by fastforce
  moreover have "eflags (sti t) = eflags (sti (cli s))" using e by (simp add: sti_def)
  ultimately show ?thesis
    using INTR_ON sti_cli [OF INTR_ON] by (simp add: intr_set_status_def intr_disable_def intr_enable_def)
qed


section \<open>The interrupt descriptor table\<close>

definition IDT_DESC_CNT :: nat where
  "IDT_DESC_CNT = 0x81"

definition IDT_DESC_ATTR_DPL0 :: u8 where
  "IDT_DESC_ATTR_DPL0 = push_bit 7 1 + push_bit 5 0 + 0xE"

definition IDT_DESC_ATTR_DPL3 :: u8 where
  "IDT_DESC_ATTR_DPL3 = push_bit 7 1 + push_bit 5 3 + 0xE"

definition SELECTOR_K_CODE :: u16 where
  "SELECTOR_K_CODE = push_bit 3 1 + push_bit 2 0 + 0"

record gate_desc =
  func_offset_low_word :: u16
  selector :: u16
  dcount :: u8
  attribute :: u8
  func_offset_high_word :: u16

definition make_idt_desc :: "u8 \<Rightarrow> u32 \<Rightarrow> gate_desc" where
  "make_idt_desc attr function =
     \<lparr>func_offset_low_word = ucast (function AND 0x0000FFFF),
      selector = SELECTOR_K_CODE,
      dcount = 0,
      attribute = attr,
      func_offset_high_word = ucast (drop_bit 16 (function AND 0xFFFF0000))\<rparr>"

text \<open>\<open>intr_entry_table\<close> and \<open>syscall_handler\<close> are addresses of \<^verbatim>\<open>kernel/kernel.asm\<close>.\<close>

definition idt_desc_init :: "(nat \<Rightarrow> u32) \<Rightarrow> u32 \<Rightarrow> gate_desc list" where
  "idt_desc_init intr_entry_table syscall_handler =
     map (\<lambda>i. make_idt_desc IDT_DESC_ATTR_DPL0 (intr_entry_table i)) [0..<IDT_DESC_CNT - 1]
     @ [make_idt_desc IDT_DESC_ATTR_DPL3 syscall_handler]"

text \<open>\<open>register_handler\<close>: the table of C handlers that \<^verbatim>\<open>kernel.asm\<close> calls through.\<close>

definition register_handler :: "'h list \<Rightarrow> u8 \<Rightarrow> 'h \<Rightarrow> 'h list option" where
  "register_handler idt_table vector_no function = wr idt_table (unat vector_no) function"

definition pic_init :: "(u16 \<times> u8) list" where
  "pic_init =
     [(0x20, 0x11), (0x21, 0x20), (0x21, 0x04), (0x21, 0x01),
      (0xa0, 0x11), (0xa1, 0x28), (0xa1, 0x02), (0xa1, 0x01),
      (0x21, 0xf8), (0xa1, 0xbf)]"

text \<open>What the processor makes of a gate: the handler's address and the privilege it asks for.\<close>

definition gate_offset :: "gate_desc \<Rightarrow> u32" where
  "gate_offset g = push_bit 16 (ucast (func_offset_high_word g)) OR ucast (func_offset_low_word g)"

definition gate_dpl :: "gate_desc \<Rightarrow> nat" where
  "gate_dpl g = unat (drop_bit 5 (attribute g) AND 3)"

lemma gate_offset_make: "gate_offset (make_idt_desc attr f) = f"
proof (rule bit_word_eqI)
  fix n assume n: "n < LENGTH(32)"
  have lo: "bit (0xFFFF :: u32) k \<longleftrightarrow> k < 16" for k
  proof -
    have eq: "(0xFFFF :: u32) = mask 16" by (simp add: mask_eq_exp_minus_1)
    show ?thesis unfolding eq bit_mask_iff by auto
  qed
  have hi: "bit (0xFFFF0000 :: u32) k \<longleftrightarrow> 16 \<le> k \<and> k < 32" for k
  proof -
    have eq: "(0xFFFF0000 :: u32) = push_bit 16 (mask 16)" by (simp add: mask_eq_exp_minus_1)
    show ?thesis unfolding eq bit_push_bit_iff bit_mask_iff by auto
  qed
  show "bit (gate_offset (make_idt_desc attr f)) n = bit f n"
    using n unfolding gate_offset_def make_idt_desc_def gate_desc.simps bit_or_iff bit_push_bit_iff
      bit_unsigned_iff bit_drop_bit_eq comp_def bit_and_iff lo hi
    by auto
qed



text \<open>
  Critical sections nest: disabling interrupts and then restoring the saved status gives back the
  processor state from before, whatever it was, and between the two calls interrupts are off.
\<close>

theorem intr_critical_section:
  "intr_get_status (fst (intr_disable s)) = INTR_OFF
   \<and> fst (intr_set_status (fst (intr_disable s)) (snd (intr_disable s))) = s"
  using sti_cli [of s] intr_disable_off [of s]
  by (cases "intr_get_status s") (simp_all add: intr_set_status_def intr_disable_def intr_enable_def)

end
