(* ===== verification/KList.thy ===== *)
theory KList
  imports Interrupt
begin

text \<open>
  \<^verbatim>\<open>lib/kernel/list.c\<close>: the intrusive doubly linked lists with two sentinels that hold ready
  threads, waiting threads, free memory blocks, open inodes and partitions.

  The heap maps the address of a \<open>list_elem\<close> to its two pointers.  A \<open>struct list\<close> at address
  \<open>plist\<close> has its \<open>head\<close> at \<open>plist\<close> and its \<open>tail\<close> at \<open>plist + 8\<close>.  The section on
  representation relates the heap to HOL lists; components that only use the lists through these
  operations keep them as HOL lists.
\<close>

section \<open>Operations\<close>

record list_elem =
  elem_prev :: u32
  elem_next :: u32

record list_heap = cpu +
  elems :: "u32 \<Rightarrow> list_elem"

definition tail_of :: "u32 \<Rightarrow> u32" where
  "tail_of plist = plist + 8"

definition get_next :: "list_heap \<Rightarrow> u32 \<Rightarrow> u32" where
  "get_next s a = elem_next (elems s a)"

definition get_prev :: "list_heap \<Rightarrow> u32 \<Rightarrow> u32" where
  "get_prev s a = elem_prev (elems s a)"

definition set_next :: "list_heap \<Rightarrow> u32 \<Rightarrow> u32 \<Rightarrow> list_heap" where
  "set_next s a v = s\<lparr>elems := (elems s)(a := (elems s a)\<lparr>elem_next := v\<rparr>)\<rparr>"

definition set_prev :: "list_heap \<Rightarrow> u32 \<Rightarrow> u32 \<Rightarrow> list_heap" where
  "set_prev s a v = s\<lparr>elems := (elems s)(a := (elems s a)\<lparr>elem_prev := v\<rparr>)\<rparr>"

definition list_init :: "list_heap \<Rightarrow> u32 \<Rightarrow> list_heap" where
  "list_init s lst =
     (let s = set_next s lst (tail_of lst);
          s = set_prev s (tail_of lst) lst;
          s = set_prev s lst (tail_of lst);
          s = set_next s (tail_of lst) lst
      in s)"

definition list_insert_before :: "list_heap \<Rightarrow> u32 \<Rightarrow> u32 \<Rightarrow> list_heap" where
  "list_insert_before s before elem =
     (let (s, old_status) = intr_disable s;
          s = set_next s (get_prev s before) elem;
          s = set_next s elem before;
          s = set_prev s elem (get_prev s before);
          s = set_prev s before elem
      in fst (intr_set_status s old_status))"

definition list_push :: "list_heap \<Rightarrow> u32 \<Rightarrow> u32 \<Rightarrow> list_heap" where
  "list_push s plist elem = list_insert_before s (get_next s plist) elem"

definition list_append :: "list_heap \<Rightarrow> u32 \<Rightarrow> u32 \<Rightarrow> list_heap" where
  "list_append s plist elem = list_insert_before s (tail_of plist) elem"

definition list_remove :: "list_heap \<Rightarrow> u32 \<Rightarrow> list_heap" where
  "list_remove s pelem =
     (let (s, old_status) = intr_disable s;
          s = set_prev s (get_next s pelem) (get_prev s pelem);
          s = set_next s (get_prev s pelem) (get_next s pelem)
      in fst (intr_set_status s old_status))"

definition list_pop :: "list_heap \<Rightarrow> u32 \<Rightarrow> list_heap \<times> u32" where
  "list_pop s plist =
     (let elem = get_next s plist in (list_remove s elem, elem))"

partial_function (option) elem_find_loop :: "list_heap \<Rightarrow> u32 \<Rightarrow> u32 \<Rightarrow> u32 \<Rightarrow> bool option" where
  "elem_find_loop s plist obj_elem elem =
     (if elem \<noteq> tail_of plist
      then if elem = obj_elem then Some True else elem_find_loop s plist obj_elem (get_next s elem)
      else Some False)"

definition elem_find :: "list_heap \<Rightarrow> u32 \<Rightarrow> u32 \<Rightarrow> bool option" where
  "elem_find s plist obj_elem = elem_find_loop s plist obj_elem (get_next s plist)"

definition list_empty :: "list_heap \<Rightarrow> u32 \<Rightarrow> bool" where
  "list_empty s plist \<longleftrightarrow> get_next s plist = tail_of plist"

partial_function (option) list_len_loop :: "list_heap \<Rightarrow> u32 \<Rightarrow> u32 \<Rightarrow> nat \<Rightarrow> nat option" where
  "list_len_loop s plist elem count =
     (if elem \<noteq> tail_of plist then list_len_loop s plist (get_next s elem) (count + 1) else Some count)"

definition list_len :: "list_heap \<Rightarrow> u32 \<Rightarrow> nat option" where
  "list_len s plist = list_len_loop s plist (get_next s plist) 0"

partial_function (option) list_traversal_loop ::
    "list_heap \<Rightarrow> u32 \<Rightarrow> (u32 \<Rightarrow> int \<Rightarrow> bool) \<Rightarrow> int \<Rightarrow> u32 \<Rightarrow> u32 option" where
  "list_traversal_loop s plist func arg elem =
     (if elem \<noteq> tail_of plist
      then if func elem arg then Some elem else list_traversal_loop s plist func arg (get_next s elem)
      else Some 0)"

definition list_traversal :: "list_heap \<Rightarrow> u32 \<Rightarrow> (u32 \<Rightarrow> int \<Rightarrow> bool) \<Rightarrow> int \<Rightarrow> u32 option" where
  "list_traversal s plist func arg =
     (if list_empty s plist then Some 0
      else list_traversal_loop s plist func arg (get_next s plist))"


section \<open>Representation\<close>

text \<open>
  \<open>seg h a xs b\<close>: following \<open>next\<close> from \<open>a\<close> one meets exactly \<open>xs\<close> and then \<open>b\<close>, and the
  \<open>prev\<close> pointers lead back.
\<close>

fun seg :: "list_heap \<Rightarrow> u32 \<Rightarrow> u32 list \<Rightarrow> u32 \<Rightarrow> bool" where
  "seg s a [] b \<longleftrightarrow> get_next s a = b \<and> get_prev s b = a"
| "seg s a (x # xs) b \<longleftrightarrow> get_next s a = x \<and> get_prev s x = a \<and> seg s x xs b"

definition list_nodes :: "u32 \<Rightarrow> u32 list \<Rightarrow> u32 set" where
  "list_nodes l xs = insert l (insert (tail_of l) (set xs))"

definition list_repr :: "list_heap \<Rightarrow> u32 \<Rightarrow> u32 list \<Rightarrow> bool" where
  "list_repr s l xs \<longleftrightarrow> seg s l xs (tail_of l) \<and> distinct (l # xs @ [tail_of l])"

lemma tail_of_neq [simp]: "tail_of l \<noteq> l" "l \<noteq> tail_of l"
  by (auto simp: tail_of_def)

lemma get_set [simp]:
  "get_next (set_next s a v) b = (if b = a then v else get_next s b)"
  "get_next (set_prev s a v) b = get_next s b"
  "get_prev (set_prev s a v) b = (if b = a then v else get_prev s b)"
  "get_prev (set_next s a v) b = get_prev s b"
  by (simp_all add: get_next_def get_prev_def set_next_def set_prev_def)

lemma get_eflags [simp]:
  "get_next (s\<lparr>eflags := f\<rparr>) b = get_next s b" "get_prev (s\<lparr>eflags := f\<rparr>) b = get_prev s b"
  by (simp_all add: get_next_def get_prev_def)

lemma get_intr [simp]:
  "get_next (fst (intr_disable s)) b = get_next s b" "get_prev (fst (intr_disable s)) b = get_prev s b"
  "get_next (fst (intr_set_status s st)) b = get_next s b"
  "get_prev (fst (intr_set_status s st)) b = get_prev s b"
  by (auto simp: intr_disable_def intr_set_status_def intr_enable_def sti_def cli_def)

lemma eflags_set [simp]:
  "eflags (set_next s a v) = eflags s" "eflags (set_prev s a v) = eflags s"
  by (simp_all add: set_next_def set_prev_def)

lemma seg_append [simp]: "seg s a (xs @ y # ys) b \<longleftrightarrow> seg s a xs y \<and> seg s y ys b"
  by (induction xs arbitrary: a) auto

lemma seg_cong:
  assumes "\<And>x. x \<in> insert a (set xs) \<Longrightarrow> get_next s' x = get_next s x"
    and "\<And>x. x \<in> insert b (set xs) \<Longrightarrow> get_prev s' x = get_prev s x"
  shows "seg s' a xs b = seg s a xs b"
  using assms by (induction xs arbitrary: a) auto

lemma seg_last: "seg s a xs b \<Longrightarrow> get_prev s b = last (a # xs)"
  by (induction xs arbitrary: a) auto

lemma seg_hd: "seg s a xs b \<Longrightarrow> get_next s a = hd (xs @ [b])"
  by (cases xs) auto

text \<open>Giving the segment that ends in \<open>b\<close> the new end \<open>e\<close>.\<close>

lemma seg_redirect_end:
  assumes "seg s a ys b" and "distinct (a # ys)" and "e \<notin> set ys" and "b \<notin> set ys"
    and "\<And>x. x \<in> insert a (set ys) \<Longrightarrow> get_next s' x = (if x = last (a # ys) then e else get_next s x)"
    and "\<And>x. x \<in> set ys \<Longrightarrow> get_prev s' x = get_prev s x"
    and "get_prev s' e = last (a # ys)"
  shows "seg s' a ys e"
  using assms
proof (induction ys arbitrary: a)
  case Nil
  then show ?case by simp
next
  case (Cons y ys)
  have "seg s' y ys e"
    using Cons.prems by (intro Cons.IH) auto
  moreover have "get_next s' a = y" using Cons.prems by (cases ys) auto
  moreover have "get_prev s' y = a" using Cons.prems by auto
  ultimately show ?case by simp
qed

lemma list_insert_before_gets:
  assumes "get_prev s before = p" and "elem \<noteq> before" and "elem \<noteq> p"
  shows "get_next (list_insert_before s before elem) x =
      (if x = elem then before else if x = p then elem else get_next s x)"
    and "get_prev (list_insert_before s before elem) x =
      (if x = before then elem else if x = elem then p else get_prev s x)"
  using assms by (auto simp: list_insert_before_def Let_def split_beta)

lemma list_remove_gets:
  assumes "get_prev s x = p" and "get_next s x = n" and "p \<noteq> x" and "n \<noteq> x"
  shows "get_next (list_remove s x) y = (if y = p then n else get_next s y)"
    and "get_prev (list_remove s x) y = (if y = n then p else get_prev s y)"
  using assms by (auto simp: list_remove_def Let_def split_beta)


section \<open>The operations on represented lists\<close>

lemma list_init_repr: "list_repr (list_init s l) l []"
  by (simp add: list_repr_def list_init_def)

lemma list_insert_before_repr:
  assumes "list_repr s l (ys @ zs)" and "elem \<notin> list_nodes l (ys @ zs)"
  shows "list_repr (list_insert_before s (hd (zs @ [tail_of l])) elem) l (ys @ elem # zs)"
proof -
  define b where "b = hd (zs @ [tail_of l])"
  define p where "p = last (l # ys)"
  let ?s = "list_insert_before s b elem"
  have dist: "distinct (l # (ys @ zs) @ [tail_of l])" and sg: "seg s l (ys @ zs) (tail_of l)"
    using assms(1) by (auto simp: list_repr_def)
  have segs: "seg s l ys b" using sg by (cases zs) (auto simp: b_def)
  then have gp: "get_prev s b = p" unfolding p_def by (rule seg_last)
  have pin: "p \<in> set (l # ys)" unfolding p_def by (rule last_in_set) simp
  have bin: "b \<in> set (zs @ [tail_of l])" unfolding b_def by (rule hd_in_set) simp
  have ep: "elem \<noteq> b" "elem \<noteq> p" and bn: "b \<notin> insert l (set ys)" and pn: "p \<notin> insert (tail_of l) (set zs)"
    using pin bin assms(2) dist by (auto simp: list_nodes_def)
  note gets = list_insert_before_gets [OF gp ep]
  have front: "seg ?s l ys elem"
  proof (rule seg_redirect_end [OF segs])
    show "distinct (l # ys)" "b \<notin> set ys" "elem \<notin> set ys"
      using dist bn assms(2) by (auto simp: list_nodes_def)
    show "get_next ?s y = (if y = last (l # ys) then elem else get_next s y)" if "y \<in> insert l (set ys)" for y
      using that assms(2) unfolding gets p_def [symmetric] by (auto simp: list_nodes_def)
    show "get_prev ?s y = get_prev s y" if "y \<in> set ys" for y
      using that bn assms(2) by (auto simp: gets list_nodes_def)
    show "get_prev ?s elem = last (l # ys)" using ep by (simp add: gets p_def)
  qed
  have rear: "seg ?s elem zs (tail_of l)"
  proof (cases zs)
    case Nil
    then have "b = tail_of l" by (simp add: b_def)
    then show ?thesis using Nil gets ep by simp
  next
    case (Cons z zs')
    then have bz: "b = z" by (simp add: b_def)
    have "seg ?s z zs' (tail_of l) = seg s z zs' (tail_of l)" unfolding bz
      using dist Cons pn assms(2) by (intro seg_cong) (auto simp: gets [unfolded bz] list_nodes_def)
    then show ?thesis using sg Cons bz gets ep by simp
  qed
  have "distinct (l # (ys @ elem # zs) @ [tail_of l])"
    using dist assms(2) by (auto simp: list_nodes_def)
  with front rear show ?thesis by (simp add: list_repr_def b_def)
qed

lemma list_push_repr:
  assumes "list_repr s l xs" and "elem \<notin> list_nodes l xs"
  shows "list_repr (list_push s l elem) l (elem # xs)"
proof -
  have "get_next s l = hd (xs @ [tail_of l])"
    using assms(1) by (intro seg_hd) (simp add: list_repr_def)
  then show ?thesis using list_insert_before_repr [of s l "[]" xs elem] assms by (simp add: list_push_def)
qed

lemma list_append_repr:
  assumes "list_repr s l xs" and "elem \<notin> list_nodes l xs"
  shows "list_repr (list_append s l elem) l (xs @ [elem])"
  using list_insert_before_repr [of s l xs "[]" elem] assms by (simp add: list_append_def)

lemma list_remove_repr:
  assumes "list_repr s l (ys @ x # zs)"
  shows "list_repr (list_remove s x) l (ys @ zs)"
proof -
  define n where "n = hd (zs @ [tail_of l])"
  define p where "p = last (l # ys)"
  have dist: "distinct (l # (ys @ x # zs) @ [tail_of l])" and sg: "seg s l ys x" "seg s x zs (tail_of l)"
    using assms by (auto simp: list_repr_def)
  have gp: "get_prev s x = p" using sg(1) unfolding p_def by (rule seg_last)
  have gn: "get_next s x = n" using sg(2) unfolding n_def by (rule seg_hd)
  have "p \<in> set (l # ys)" unfolding p_def by (rule last_in_set) simp
  moreover have "n \<in> set (zs @ [tail_of l])" unfolding n_def by (rule hd_in_set) simp
  ultimately have pn: "p \<noteq> x" "n \<noteq> x" "p \<notin> insert (tail_of l) (set zs)" "n \<notin> insert l (set ys)"
    using dist by auto
  note gets = list_remove_gets [OF gp gn pn(1,2)]
  have front: "seg (list_remove s x) l ys n"
  proof (rule seg_redirect_end [OF sg(1)])
    show "distinct (l # ys)" "n \<notin> set ys" "x \<notin> set ys" using dist pn by auto
    show "get_next (list_remove s x) y = (if y = last (l # ys) then n else get_next s y)" for y
      unfolding gets p_def ..
    show "get_prev (list_remove s x) y = get_prev s y" if "y \<in> set ys" for y
      using that pn(4) by (auto simp: gets)
    show "get_prev (list_remove s x) n = last (l # ys)" by (simp add: gets p_def)
  qed
  have "seg (list_remove s x) l (ys @ zs) (tail_of l)"
  proof (cases zs)
    case Nil
    then show ?thesis using front by (simp add: n_def)
  next
    case (Cons z zs')
    have "seg (list_remove s x) z zs' (tail_of l) = seg s z zs' (tail_of l)"
      using dist Cons pn(3) by (intro seg_cong) (auto simp: gets n_def)
    then show ?thesis using front sg(2) Cons by (simp add: n_def)
  qed
  then show ?thesis using dist by (auto simp: list_repr_def)
qed

lemma list_pop_repr:
  assumes "list_repr s l (x # xs)"
  shows "\<exists>s'. list_pop s l = (s', x) \<and> list_repr s' l xs"
proof -
  have "get_next s l = x" using assms by (simp add: list_repr_def)
  then show ?thesis using list_remove_repr [of s l "[]" x xs] assms by (simp add: list_pop_def Let_def)
qed

lemma elem_find_loop_seg:
  "seg s a xs (tail_of l) \<Longrightarrow> tail_of l \<notin> set xs \<Longrightarrow>
   elem_find_loop s l obj (get_next s a) = Some (obj \<in> set xs)"
  by (induction xs arbitrary: a) (auto simp: elem_find_loop.simps)

lemma list_len_loop_seg:
  "seg s a xs (tail_of l) \<Longrightarrow> tail_of l \<notin> set xs \<Longrightarrow>
   list_len_loop s l (get_next s a) n = Some (n + length xs)"
  by (induction xs arbitrary: a n) (auto simp: list_len_loop.simps)

lemma list_traversal_loop_seg:
  "seg s a xs (tail_of l) \<Longrightarrow> tail_of l \<notin> set xs \<Longrightarrow>
   list_traversal_loop s l func arg (get_next s a) =
     Some (case List.find (\<lambda>x. func x arg) xs of None \<Rightarrow> 0 | Some x \<Rightarrow> x)"
  by (induction xs arbitrary: a) (auto simp: list_traversal_loop.simps)

lemma elem_find_repr: "list_repr s l xs \<Longrightarrow> elem_find s l x = Some (x \<in> set xs)"
  by (simp add: elem_find_def elem_find_loop_seg list_repr_def)

lemma list_len_repr: "list_repr s l xs \<Longrightarrow> list_len s l = Some (length xs)"
  using list_len_loop_seg [of s l xs l 0] by (simp add: list_len_def list_repr_def)

lemma list_empty_repr: "list_repr s l xs \<Longrightarrow> list_empty s l \<longleftrightarrow> xs = []"
  by (cases xs) (auto simp: list_empty_def list_repr_def)

lemma list_traversal_repr:
  assumes "list_repr s l xs"
  shows "list_traversal s l func arg =
    Some (case List.find (\<lambda>x. func x arg) xs of None \<Rightarrow> 0 | Some x \<Rightarrow> x)"
  using assms list_empty_repr [OF assms]
  by (cases "xs = []") (auto simp: list_traversal_def list_traversal_loop_seg list_repr_def)

lemma insert_before_frame:
  assumes "a \<noteq> elem" and "a \<noteq> before" and "a \<noteq> get_prev s before"
  shows "get_next (list_insert_before s before elem) a = get_next s a"
    and "get_prev (list_insert_before s before elem) a = get_prev s a"
  using assms by (auto simp: list_insert_before_def Let_def split_beta)


section \<open>Lists as queues\<close>

text \<open>
  The contract the scheduler and the semaphores rely on: what \<open>append\<close> puts in, \<open>pop\<close> takes out
  in the same order.  \<open>nodes l\<close> are the addresses of the sentinels.
\<close>

fun pops :: "('s \<Rightarrow> 's \<times> 'e) \<Rightarrow> nat \<Rightarrow> 's \<Rightarrow> 'e list" where
  "pops f 0 s = []"
| "pops f (Suc n) s = (let (s', x) = f s in x # pops f n s')"

locale intrusive_queue =
  fixes repr :: "'s \<Rightarrow> 'l \<Rightarrow> 'e list \<Rightarrow> bool"
    and nodes :: "'l \<Rightarrow> 'e set"
    and append_elem :: "'s \<Rightarrow> 'l \<Rightarrow> 'e \<Rightarrow> 's"
    and pop_elem :: "'s \<Rightarrow> 'l \<Rightarrow> 's \<times> 'e"
  assumes append_law: "repr s l xs \<Longrightarrow> x \<notin> set xs \<Longrightarrow> x \<notin> nodes l \<Longrightarrow> repr (append_elem s l x) l (xs @ [x])"
    and pop_law: "repr s l (x # xs) \<Longrightarrow> \<exists>s'. pop_elem s l = (s', x) \<and> repr s' l xs"
begin

lemma append_many:
  "repr s l xs \<Longrightarrow> distinct (xs @ ys) \<Longrightarrow> set ys \<inter> nodes l = {} \<Longrightarrow>
   repr (fold (\<lambda>x s. append_elem s l x) ys s) l (xs @ ys)"
proof (induction ys arbitrary: s xs)
  case (Cons y ys)
  have "repr (append_elem s l y) l (xs @ [y])" using Cons.prems by (intro append_law) auto
  then show ?case using Cons.IH [of "append_elem s l y" "xs @ [y]"] Cons.prems by simp
qed simp

lemma pop_many: "repr s l (xs @ ys) \<Longrightarrow> pops (\<lambda>s. pop_elem s l) (length xs) s = xs"
proof (induction xs arbitrary: s)
  case (Cons x xs)
  obtain s' where "pop_elem s l = (s', x)" "repr s' l (xs @ ys)"
    using pop_law [of s l x "xs @ ys"] Cons.prems by auto
  then show ?case using Cons.IH [of s'] by simp
qed simp

lemma fifo:
  assumes "repr s l xs" and "distinct (xs @ ys)" and "set ys \<inter> nodes l = {}"
  shows "pops (\<lambda>s. pop_elem s l) (length xs + length ys) (fold (\<lambda>x s. append_elem s l x) ys s) = xs @ ys"
  using pop_many [of _ l "xs @ ys" "[]"] append_many [OF assms] by simp

end

interpretation kq: intrusive_queue list_repr "\<lambda>l. {l, tail_of l}" list_append list_pop
proof
  show "list_repr (list_append s l x) l (xs @ [x])"
    if "list_repr s l xs" "x \<notin> set xs" "x \<notin> {l, tail_of l}" for s l xs x
    using that by (intro list_append_repr) (auto simp: list_nodes_def)
qed (rule list_pop_repr)


section \<open>Properties\<close>



text \<open>
  The lists are first in, first out: appending the elements \<open>ys\<close> to a queue that holds \<open>xs\<close> and
  then popping all of them returns \<open>xs\<close> and then \<open>ys\<close>, in order.
\<close>

theorem list_fifo:
  assumes "list_repr s l xs" and "distinct (xs @ ys)" and "set ys \<inter> {l, tail_of l} = {}"
  shows "pops (\<lambda>s. list_pop s l) (length xs + length ys) (fold (\<lambda>x s. list_append s l x) ys s) = xs @ ys"
  using assms by (rule kq.fifo)

lemma list_fifo_witness:
  "pops (\<lambda>s. list_pop s 16) (Suc (Suc 0)) (fold (\<lambda>x s. list_append s 16 x) [64, 32]
     (list_init \<lparr>eflags = 0, elems = (\<lambda>_. \<lparr>elem_prev = 0, elem_next = 0\<rparr>)\<rparr> 16)) = [64, 32]"
  using list_fifo [OF list_init_repr, of "[64, 32]" 16 "\<lparr>eflags = 0, elems = (\<lambda>_. \<lparr>elem_prev = 0, elem_next = 0\<rparr>)\<rparr>"]
  by (simp add: tail_of_def)

text \<open>
  Insertion and removal are critical sections: they leave the interrupt flag as they found it.
\<close>

theorem list_keeps_interrupt_flag:
  "eflags (list_insert_before s before elem) = eflags s \<and> eflags (list_remove s elem) = eflags s"
  by (simp add: list_insert_before_def list_remove_def Let_def split_beta intr_restore_eflags)

end
