(* ===== verification/Bitmap.thy ===== *)
theory Bitmap
  imports Prelude
begin

text \<open>
  \<^verbatim>\<open>lib/kernel/bitmap.c\<close>: the bitmaps that manage pids, physical pages, virtual pages,
  inodes and disk blocks.

  \<open>bits\<close> is the memory the C pointer points to.  It may be longer than \<open>btmp_bytes_len\<close>:
  the bytes behind the bitmap are the memory that follows it, which \<open>bitmap_scan\<close> reads.
\<close>

section \<open>Operations\<close>

record bitmap =
  btmp_bytes_len :: nat
  bits :: "u8 list"

definition BITMAP_MASK :: u8 where
  "BITMAP_MASK = 1"

definition bitmap_init :: "bitmap \<Rightarrow> bitmap option" where
  "bitmap_init btmap = do {
     ASSERT (btmp_bytes_len btmap \<le> length (bits btmap));
     Some (btmap\<lparr>bits := replicate (btmp_bytes_len btmap) 0 @ drop (btmp_bytes_len btmap) (bits btmap)\<rparr>)
   }"

definition bitmap_scan_test :: "bitmap \<Rightarrow> nat \<Rightarrow> bool option" where
  "bitmap_scan_test btmap bit_idx = do {
     let byte_idx = bit_idx div 8;
     let bit_odd = bit_idx mod 8;
     b \<leftarrow> rd (bits btmap) byte_idx;
     Some (b AND push_bit bit_odd BITMAP_MASK \<noteq> 0)
   }"

text \<open>The three loops of \<open>bitmap_scan\<close>: bytes, bits of a byte, the run of free bits.\<close>

function scan_bytes :: "bitmap \<Rightarrow> nat \<Rightarrow> nat option" where
  "scan_bytes btmp idx_byte = do {
     b \<leftarrow> rd (bits btmp) idx_byte;
     if b = 0xff \<and> idx_byte < btmp_bytes_len btmp then scan_bytes btmp (idx_byte + 1)
     else Some idx_byte
   }"
  by pat_completeness auto
termination
  by (relation "measure (\<lambda>(bm, i). btmp_bytes_len bm - i)") auto

function scan_bits :: "u8 \<Rightarrow> nat \<Rightarrow> nat" where
  "scan_bits b idx_bit =
     (if push_bit idx_bit BITMAP_MASK AND b \<noteq> 0 then scan_bits b (idx_bit + 1) else idx_bit)"
  by pat_completeness auto
termination
  by (relation "measure (\<lambda>(b, k). 8 - k)")
     (auto simp: BITMAP_MASK_def mask_and_eq_0_iff simp del: push_bit_of_1 dest: bit_imp_le_length)

fun scan_run :: "bitmap \<Rightarrow> nat \<Rightarrow> nat \<Rightarrow> nat \<Rightarrow> nat \<Rightarrow> int option" where
  "scan_run btmp cnt 0 next_bit count = Some (-1)"
| "scan_run btmp cnt (Suc bit_left) next_bit count = do {
     t \<leftarrow> bitmap_scan_test btmp next_bit;
     let count = (if \<not> t then count + 1 else 0);
     if count = cnt then Some (int next_bit - int cnt + 1)
     else scan_run btmp cnt bit_left (next_bit + 1) count
   }"

definition bitmap_scan :: "bitmap \<Rightarrow> nat \<Rightarrow> int option" where
  "bitmap_scan btmp cnt = do {
     idx_byte \<leftarrow> scan_bytes btmp 0;
     ASSERT (idx_byte < btmp_bytes_len btmp);
     if idx_byte = btmp_bytes_len btmp then Some (-1)
     else do {
       b \<leftarrow> rd (bits btmp) idx_byte;
       let idx_bit = scan_bits b 0;
       let bit_idx_start = idx_byte * 8 + idx_bit;
       if cnt = 1 then Some (int bit_idx_start)
       else do {
         let bit_left = btmp_bytes_len btmp * 8 - bit_idx_start;
         scan_run btmp cnt bit_left (bit_idx_start + 1) 1
       }
     }
   }"

definition bitmap_set :: "bitmap \<Rightarrow> nat \<Rightarrow> int \<Rightarrow> bitmap option" where
  "bitmap_set btmp bit_idx val = do {
     ASSERT (val = 0 \<or> val = 1);
     let byte_idx = bit_idx div 8;
     let bit_odd = bit_idx mod 8;
     b \<leftarrow> rd (bits btmp) byte_idx;
     let b' = (if val \<noteq> 0 then b OR push_bit bit_odd BITMAP_MASK
               else b AND NOT (push_bit bit_odd BITMAP_MASK));
     bs \<leftarrow> wr (bits btmp) byte_idx b';
     Some (btmp\<lparr>bits := bs\<rparr>)
   }"

declare scan_bytes.simps [simp del] scan_bits.simps [simp del]


section \<open>What a bitmap means\<close>

text \<open>
  \<open>bit_at bm i\<close> is bit \<open>i\<close> of the memory behind \<open>bits\<close>; \<open>used bm\<close> is the set of
  indices below \<open>8 * btmp_bytes_len\<close> that are taken.
\<close>

definition bit_at :: "bitmap \<Rightarrow> nat \<Rightarrow> bool" where
  "bit_at bm i \<longleftrightarrow> bit (bits bm ! (i div 8)) (i mod 8)"

definition nbits :: "bitmap \<Rightarrow> nat" where
  "nbits bm = 8 * btmp_bytes_len bm"

definition used :: "bitmap \<Rightarrow> nat set" where
  "used bm = {i. i < nbits bm \<and> bit_at bm i}"

definition wf_bitmap :: "bitmap \<Rightarrow> bool" where
  "wf_bitmap bm \<longleftrightarrow> btmp_bytes_len bm \<le> length (bits bm) \<and> nbits bm < 2 ^ 31"

definition free_run :: "bitmap \<Rightarrow> nat \<Rightarrow> nat \<Rightarrow> bool" where
  "free_run bm j n \<longleftrightarrow> (\<forall>i. j \<le> i \<and> i < j + n \<longrightarrow> \<not> bit_at bm i)"

lemma finite_used [simp]: "finite (used bm)"
  by (rule finite_subset [of _ "{..<nbits bm}"]) (auto simp: used_def)

lemma used_subset: "used bm \<subseteq> {..<nbits bm}"
  by (auto simp: used_def)

lemma div8_less_iff: "i div 8 < n \<longleftrightarrow> i < 8 * (n::nat)"
  by (simp add: div_less_iff_less_mult mult.commute)

lemma bitmap_scan_test_eq:
  "bitmap_scan_test bm i = (if i < 8 * length (bits bm) then Some (bit_at bm i) else None)"
  by (simp add: bitmap_scan_test_def BITMAP_MASK_def rd_def bit_at_def div8_less_iff
      bitmap_simps del: push_bit_of_1)

lemma bitmap_init_spec:
  assumes "btmp_bytes_len bm \<le> length (bits bm)"
  obtains bm' where "bitmap_init bm = Some bm'" and "used bm' = {}"
    and "nbits bm' = nbits bm" and "length (bits bm') = length (bits bm)"
proof
  let ?n = "btmp_bytes_len bm"
  let ?bm' = "bm\<lparr>bits := replicate ?n 0 @ drop ?n (bits bm)\<rparr>"
  show "bitmap_init bm = Some ?bm'" using assms by (simp add: bitmap_init_def)
  have "\<not> bit_at ?bm' i" if "i < 8 * ?n" for i
  proof -
    have "i div 8 < ?n" using that by (simp add: div8_less_iff)
    then show ?thesis by (simp add: bit_at_def nth_append)
  qed
  then show "used ?bm' = {}" by (auto simp: used_def nbits_def)
qed (use assms in \<open>simp_all add: nbits_def\<close>)


section \<open>Setting bits\<close>

lemma bitmap_set_cases:
  assumes "i < 8 * length (bits bm)" and "v = 0 \<or> v = 1"
  obtains bm' where "bitmap_set bm i v = Some bm'"
    and "btmp_bytes_len bm' = btmp_bytes_len bm" and "length (bits bm') = length (bits bm)"
    and "\<And>j. bit_at bm' j = (if j = i then v = 1 else bit_at bm j)"
proof -
  let ?k = "i div 8"
  let ?b = "bits bm ! ?k"
  let ?b' = "if v \<noteq> 0 then ?b OR push_bit (i mod 8) BITMAP_MASK
             else ?b AND NOT (push_bit (i mod 8) BITMAP_MASK)"
  let ?bm' = "bm\<lparr>bits := (bits bm)[?k := ?b']\<rparr>"
  have k: "?k < length (bits bm)" using assms(1) by (simp add: div8_less_iff)
  then have r: "rd (bits bm) ?k = Some ?b" and w: "wr (bits bm) ?k x = Some ((bits bm)[?k := x])" for x
    by simp_all
  have m: "i mod 8 < 8" by simp
  have set_eq: "bitmap_set bm i v = Some ?bm'"
    using assms(2) by (simp add: bitmap_set_def Let_def r w del: push_bit_of_1)
  have len: "btmp_bytes_len ?bm' = btmp_bytes_len bm" "length (bits ?bm') = length (bits bm)"
    by simp_all
  have bit: "bit_at ?bm' j = (if j = i then v = 1 else bit_at bm j)" for j
  proof (cases "j div 8 = ?k")
    case True
    then have "j = i \<longleftrightarrow> j mod 8 = i mod 8"
      by (metis div_mult_mod_eq)
    with True k m assms(2) show ?thesis
      by (auto simp: bit_at_def BITMAP_MASK_def bitmap_simps simp del: push_bit_of_1)
  next
    case False
    then show ?thesis by (auto simp: bit_at_def)
  qed
  show ?thesis by (rule that [OF set_eq len bit])
qed

lemma bitmap_set_None: "8 * length (bits bm) \<le> i \<Longrightarrow> bitmap_set bm i v = None"
  by (simp add: bitmap_set_def rd_None_iff div8_less_iff not_less [symmetric] rd_def)

lemma bitmap_set_Some:
  assumes "bitmap_set bm i v = Some bm'"
  shows "i < 8 * length (bits bm)" and "v = 0 \<or> v = 1"
    and "btmp_bytes_len bm' = btmp_bytes_len bm" and "length (bits bm') = length (bits bm)"
    and "bit_at bm' j = (if j = i then v = 1 else bit_at bm j)"
proof -
  show i: "i < 8 * length (bits bm)"
    using assms bitmap_set_None [of bm i v] by (cases "i < 8 * length (bits bm)") auto
  show v: "v = 0 \<or> v = 1"
    using assms by (auto simp: bitmap_set_def split: if_splits)
  obtain b where "bitmap_set bm i v = Some b"
    and "btmp_bytes_len b = btmp_bytes_len bm" and "length (bits b) = length (bits bm)"
    and "\<And>j. bit_at b j = (if j = i then v = 1 else bit_at bm j)"
    by (rule bitmap_set_cases [OF i v]) blast
  with assms show "btmp_bytes_len bm' = btmp_bytes_len bm" "length (bits bm') = length (bits bm)"
    "bit_at bm' j = (if j = i then v = 1 else bit_at bm j)" by simp_all
qed

lemma used_bitmap_set:
  assumes "bitmap_set bm i v = Some bm'" and "i < nbits bm"
  shows "used bm' = (if v = 1 then insert i (used bm) else used bm - {i})"
  using assms(2) bitmap_set_Some [OF assms(1)] by (auto simp: used_def nbits_def)

lemma nbits_bitmap_set: "bitmap_set bm i v = Some bm' \<Longrightarrow> nbits bm' = nbits bm"
  by (simp add: nbits_def bitmap_set_Some(3))

lemma wf_bitmap_set: "wf_bitmap bm \<Longrightarrow> bitmap_set bm i v = Some bm' \<Longrightarrow> wf_bitmap bm'"
  by (simp add: wf_bitmap_def nbits_def bitmap_set_Some(3,4))

lemma bitmap_set_defined:
  assumes "wf_bitmap bm" and "i < nbits bm" and "v = 0 \<or> v = 1"
  shows "\<exists>bm'. bitmap_set bm i v = Some bm'"
proof -
  have "i < 8 * length (bits bm)" using assms(1,2) by (simp add: wf_bitmap_def nbits_def)
  then show ?thesis using assms(3) by (rule bitmap_set_cases) blast
qed


section \<open>Scanning\<close>

lemma scan_bits_first:
  assumes "b \<noteq> 0xff" and "k \<le> 8" and "\<forall>i < k. bit b i"
  shows "scan_bits b k < 8 \<and> \<not> bit b (scan_bits b k) \<and> (\<forall>i < scan_bits b k. bit b i)"
  using assms
proof (induction b k rule: scan_bits.induct)
  case (1 b k)
  show ?case
  proof (cases "bit b k")
    case True
    then have "k < 8" by (auto dest: bit_imp_le_length)
    moreover have "\<forall>i < k + 1. bit b i" using True "1.prems" by (auto simp: less_Suc_eq)
    ultimately have "scan_bits b (k + 1) < 8 \<and> \<not> bit b (scan_bits b (k + 1)) \<and>
        (\<forall>i < scan_bits b (k + 1). bit b i)"
      using "1.IH" "1.prems" True by (simp add: BITMAP_MASK_def mask_and_eq_0_iff del: push_bit_of_1)
    with True show ?thesis
      by (simp add: scan_bits.simps [of b k] BITMAP_MASK_def mask_and_eq_0_iff del: push_bit_of_1)
  next
    case False
    then have "k < 8" using "1.prems" by (cases "k = 8") (auto simp: byte_full_iff)
    with False "1.prems" show ?thesis
      by (simp add: scan_bits.simps [of b k] BITMAP_MASK_def mask_and_eq_0_iff del: push_bit_of_1)
  qed
qed

lemma scan_bytes_first:
  assumes "btmp_bytes_len bm \<le> length (bits bm)" and "i \<le> btmp_bytes_len bm"
    and "\<exists>j. i \<le> j \<and> j < btmp_bytes_len bm \<and> bits bm ! j \<noteq> 0xff"
  shows "\<exists>k. scan_bytes bm i = Some k \<and> k < btmp_bytes_len bm \<and> bits bm ! k \<noteq> 0xff
     \<and> (\<forall>j. i \<le> j \<and> j < k \<longrightarrow> bits bm ! j = 0xff)"
  using assms
proof (induction bm i rule: scan_bytes.induct)
  case (1 bm i)
  let ?n = "btmp_bytes_len bm"
  have i: "i < ?n" using "1.prems"(3) by linarith
  then have r: "rd (bits bm) i = Some (bits bm ! i)" using "1.prems"(1) by simp
  show ?case
  proof (cases "bits bm ! i = 0xff")
    case True
    have "\<exists>j. i + 1 \<le> j \<and> j < ?n \<and> bits bm ! j \<noteq> 0xff"
      using "1.prems"(3) True by (metis Suc_eq_plus1 le_neq_implies_less Suc_leI)
    then obtain k where k: "scan_bytes bm (i + 1) = Some k" "k < ?n" "bits bm ! k \<noteq> 0xff"
      "\<forall>j. i + 1 \<le> j \<and> j < k \<longrightarrow> bits bm ! j = 0xff"
      using "1.IH" [OF r] "1.prems"(1) True i by auto
    have "\<forall>j. i \<le> j \<and> j < k \<longrightarrow> bits bm ! j = 0xff"
      using k(4) True by (metis Suc_eq_plus1 Suc_leI le_neq_implies_less)
    with k r True i show ?thesis by (auto simp: scan_bytes.simps [of bm i])
  next
    case False
    with r i show ?thesis by (auto simp: scan_bytes.simps [of bm i])
  qed
qed

lemma scan_bytes_full:
  assumes "i \<le> btmp_bytes_len bm" and "\<forall>j. i \<le> j \<and> j < btmp_bytes_len bm \<longrightarrow> bits bm ! j = 0xff"
    and "scan_bytes bm i = Some k"
  shows "k = btmp_bytes_len bm"
  using assms
proof (induction bm i rule: scan_bytes.induct)
  case (1 bm i)
  from "1.prems"(3) have r: "rd (bits bm) i = Some (bits bm ! i)"
    by (subst (asm) scan_bytes.simps) (auto simp: bind_Some_iff rd_Some_iff)
  show ?case
  proof (cases "i < btmp_bytes_len bm")
    case True
    then have ff: "bits bm ! i = 0xff" using "1.prems"(2) by simp
    have "scan_bytes bm (i + 1) = Some k"
      using "1.prems"(3) r ff True by (simp add: scan_bytes.simps [of bm i])
    with "1.IH" [OF r] "1.prems"(2) ff True show ?thesis by simp
  next
    case False
    then have "scan_bytes bm i = Some i" using r by (simp add: scan_bytes.simps [of bm i])
    with False "1.prems"(1,3) show ?thesis by simp
  qed
qed

text \<open>
  The state between two rounds of the run loop: the \<open>count\<close> bits below \<open>next_bit\<close> are free,
  the bit before them is taken (or they start at 0), and no run of \<open>cnt\<close> ended earlier.
\<close>

definition run_inv :: "bitmap \<Rightarrow> nat \<Rightarrow> nat \<Rightarrow> nat \<Rightarrow> bool" where
  "run_inv bm cnt nxt count \<longleftrightarrow> count < cnt \<and> count \<le> nxt \<and> free_run bm (nxt - count) count
     \<and> (nxt = count \<or> bit_at bm (nxt - count - 1))
     \<and> (\<forall>j. j + cnt \<le> nxt \<longrightarrow> \<not> free_run bm j cnt)"

lemma run_inv_taken:
  assumes "run_inv bm cnt nxt count" and "bit_at bm nxt"
  shows "run_inv bm cnt (nxt + 1) 0"
proof -
  have "\<not> free_run bm j cnt" if "j + cnt \<le> nxt + 1" for j
    using that assms by (cases "j + cnt \<le> nxt") (auto simp: run_inv_def free_run_def)
  then show ?thesis using assms by (auto simp: run_inv_def free_run_def)
qed

lemma run_inv_free:
  assumes "run_inv bm cnt nxt count" and "\<not> bit_at bm nxt" and "count + 1 \<noteq> cnt"
  shows "run_inv bm cnt (nxt + 1) (count + 1)"
proof -
  have "\<not> free_run bm j cnt" if j: "j + cnt \<le> nxt + 1" for j
  proof (cases "j + cnt \<le> nxt")
    case False
    then have "j + cnt = nxt + 1" using j by simp
    then have "j \<le> nxt - count - 1" "nxt - count - 1 < j + cnt" "nxt \<noteq> count"
      using assms(1,3) by (auto simp: run_inv_def)
    then show ?thesis using assms(1) by (auto simp: run_inv_def free_run_def)
  qed (use assms in \<open>auto simp: run_inv_def\<close>)
  moreover have "free_run bm (nxt - count) (count + 1)"
    using assms(1,2) by (auto simp: run_inv_def free_run_def less_Suc_eq)
  ultimately show ?thesis using assms by (auto simp: run_inv_def)
qed

lemma scan_run_spec:
  assumes "run_inv bm cnt nxt count" and "nxt + left \<le> 8 * length (bits bm)"
  shows "\<exists>r. scan_run bm cnt left nxt count = Some r \<and>
    (r = -1 \<and> (\<forall>j. j + cnt \<le> nxt + left \<longrightarrow> \<not> free_run bm j cnt) \<or>
     (\<exists>n. r = int n \<and> n + cnt \<le> nxt + left \<and> free_run bm n cnt \<and> (\<forall>j < n. \<not> free_run bm j cnt)))"
  using assms
proof (induction left arbitrary: nxt count)
  case 0
  then show ?case by (simp add: run_inv_def)
next
  case (Suc left)
  have t: "bitmap_scan_test bm nxt = Some (bit_at bm nxt)"
    using Suc.prems(2) by (simp add: bitmap_scan_test_eq)
  have cnt: "count < cnt" "count \<le> nxt" using Suc.prems(1) by (auto simp: run_inv_def)
  consider (taken) "bit_at bm nxt" | (found) "\<not> bit_at bm nxt" "count + 1 = cnt"
    | (more) "\<not> bit_at bm nxt" "count + 1 \<noteq> cnt" by blast
  then show ?case
  proof cases
    case taken
    then have "run_inv bm cnt (nxt + 1) 0" by (rule run_inv_taken [OF Suc.prems(1)])
    from Suc.IH [OF this] Suc.prems(2) taken t cnt show ?thesis by simp
  next
    case more
    then have "run_inv bm cnt (nxt + 1) (count + 1)" by (rule run_inv_free [OF Suc.prems(1)])
    from Suc.IH [OF this] Suc.prems(2) more t cnt show ?thesis by simp
  next
    case found
    have free: "free_run bm (nxt - count) cnt"
      using Suc.prems(1) found by (auto simp: run_inv_def free_run_def less_Suc_eq)
    have first: "\<not> free_run bm j cnt" if "j < nxt - count" for j
      using that Suc.prems(1) found(2) by (auto simp: run_inv_def)
    have "scan_run bm cnt (Suc left) nxt count = Some (int (nxt - count))"
      using t found cnt by (simp add: of_nat_diff) 
    moreover have "(nxt - count) + cnt \<le> nxt + Suc left" using cnt found(2) by simp
    ultimately show ?thesis using free first by blast
  qed
qed

text \<open>The first free bit, which every scan computes.\<close>

lemma bitmap_first_free:
  assumes "wf_bitmap bm" and "used bm \<noteq> {..<nbits bm}"
  obtains k where "scan_bytes bm 0 = Some k" and "k < btmp_bytes_len bm"
    and "k * 8 + scan_bits (bits bm ! k) 0 < nbits bm"
    and "\<not> bit_at bm (k * 8 + scan_bits (bits bm ! k) 0)"
    and "\<And>i. i < k * 8 + scan_bits (bits bm ! k) 0 \<Longrightarrow> bit_at bm i"
proof -
  let ?n = "btmp_bytes_len bm"
  obtain i where i: "i < nbits bm" "\<not> bit_at bm i" using assms(2) by (auto simp: used_def)
  then have "i div 8 < ?n" by (simp add: nbits_def div8_less_iff)
  moreover have "bits bm ! (i div 8) \<noteq> 0xff"
    using i(2) by (auto simp: bit_at_def byte_full_iff intro!: exI [of _ "i mod 8"])
  ultimately obtain k where k: "scan_bytes bm 0 = Some k" "k < ?n" "bits bm ! k \<noteq> 0xff"
    "\<forall>j. 0 \<le> j \<and> j < k \<longrightarrow> bits bm ! j = 0xff"
    using scan_bytes_first [of bm 0] assms(1) by (auto simp: wf_bitmap_def)
  let ?b = "scan_bits (bits bm ! k) 0"
  have b: "?b < 8" "\<not> bit (bits bm ! k) ?b" "\<forall>i < ?b. bit (bits bm ! k) i"
    using scan_bits_first [OF k(3), of 0] by auto
  have "bit_at bm i" if "i < k * 8 + ?b" for i
  proof (cases "i div 8 = k")
    case True
    then have "i mod 8 < ?b" using that b(1) by (metis add_less_cancel_left div_mult_mod_eq)
    with b(3) True show ?thesis by (simp add: bit_at_def)
  next
    case False
    then have "i div 8 < k" using that b(1) by (simp add: div_less_iff_less_mult)
    then show ?thesis using k(4) byte_full_iff [of "bits bm ! (i div 8)"] by (simp add: bit_at_def)
  qed
  moreover have "\<not> bit_at bm (k * 8 + ?b)" "k * 8 + ?b < nbits bm"
    using b(1,2) k(2) by (auto simp: bit_at_def nbits_def)
  ultimately show ?thesis using that k(1,2) by blast
qed

lemma bitmap_scan_one:
  assumes "wf_bitmap bm" and "used bm \<noteq> {..<nbits bm}"
  shows "\<exists>n. bitmap_scan bm 1 = Some (int n) \<and> n < nbits bm \<and> n \<notin> used bm \<and> {..<n} \<subseteq> used bm"
proof (rule bitmap_first_free [OF assms])
  fix k
  let ?n = "k * 8 + scan_bits (bits bm ! k) 0"
  assume k: "scan_bytes bm 0 = Some k" "k < btmp_bytes_len bm" and n: "?n < nbits bm"
    and nf: "\<not> bit_at bm ?n" and lt: "\<And>i. i < ?n \<Longrightarrow> bit_at bm i"
  have "rd (bits bm) k = Some (bits bm ! k)" using assms(1) k(2) by (simp add: wf_bitmap_def)
  then have "bitmap_scan bm 1 = Some (int ?n)" using k by (simp add: bitmap_scan_def)
  moreover have "?n \<notin> used bm" using nf by (simp add: used_def)
  moreover have "{..<?n} \<subseteq> used bm" using lt n by (auto simp: used_def)
  ultimately show ?thesis using n by blast
qed

lemma bitmap_scan_full:
  assumes "used bm = {..<nbits bm}"
  shows "bitmap_scan bm cnt = None"
proof -
  have "bits bm ! j = 0xff" if "j < btmp_bytes_len bm" for j
    unfolding byte_full_iff
  proof (intro allI impI)
    fix k :: nat assume "k < 8"
    then have "8 * j + k < nbits bm" using that by (simp add: nbits_def)
    then have "bit_at bm (8 * j + k)" using assms by (auto simp: used_def)
    with \<open>k < 8\<close> show "bit (bits bm ! j) k" by (simp add: bit_at_def)
  qed
  then have "scan_bytes bm 0 = Some k \<Longrightarrow> k = btmp_bytes_len bm" for k
    using scan_bytes_full [of 0 bm k] by simp
  then show ?thesis by (cases "scan_bytes bm 0") (auto simp: bitmap_scan_def)
qed

lemma bitmap_scan_many:
  assumes "wf_bitmap bm" and "used bm \<noteq> {..<nbits bm}" and "2 \<le> cnt"
    and "btmp_bytes_len bm < length (bits bm)"
  shows "\<exists>r. bitmap_scan bm cnt = Some r \<and>
    (r = -1 \<and> (\<forall>j. j + cnt \<le> nbits bm + 1 \<longrightarrow> \<not> free_run bm j cnt) \<or>
     (\<exists>n. r = int n \<and> n + cnt \<le> nbits bm + 1 \<and> free_run bm n cnt \<and> (\<forall>j < n. \<not> free_run bm j cnt)))"
proof (rule bitmap_first_free [OF assms(1,2)])
  fix k
  let ?n = "k * 8 + scan_bits (bits bm ! k) 0"
  assume k: "scan_bytes bm 0 = Some k" "k < btmp_bytes_len bm" and n: "?n < nbits bm"
    and nf: "\<not> bit_at bm ?n" and lt: "\<And>i. i < ?n \<Longrightarrow> bit_at bm i"
  have rd: "rd (bits bm) k = Some (bits bm ! k)" using assms(1) k(2) by (simp add: wf_bitmap_def)
  have "\<not> free_run bm j cnt" if "j + cnt \<le> ?n + 1" for j
  proof -
    have "bit_at bm j" using that assms(3) by (intro lt) linarith
    then show ?thesis using assms(3) by (auto simp: free_run_def)
  qed
  moreover have "free_run bm ?n 1" using nf by (auto simp: free_run_def less_Suc_eq_le)
  moreover have "?n = 0 \<or> bit_at bm (?n - 1)" using lt [of "?n - 1"] by linarith
  ultimately have inv: "run_inv bm cnt (?n + 1) 1" using assms(3) by (auto simp: run_inv_def)
  let ?left = "btmp_bytes_len bm * 8 - ?n"
  have eq: "?n + 1 + ?left = nbits bm + 1" using n by (simp add: nbits_def)
  have "bitmap_scan bm cnt = scan_run bm cnt ?left (?n + 1) 1"
    using k rd assms(3) by (simp add: bitmap_scan_def Let_def)
  moreover have "?n + 1 + ?left \<le> 8 * length (bits bm)"
    using assms(4) by (subst eq) (simp add: nbits_def)
  ultimately show ?thesis using scan_run_spec [OF inv, of ?left] by (simp only: eq)
qed


section \<open>Properties\<close>

text \<open>
  A scan for one bit is first fit: whenever some bit of the bitmap is free, \<open>bitmap_scan\<close>
  returns the lowest free one.
\<close>

theorem bitmap_scan_one_first_fit:
  assumes "wf_bitmap bm" and "i < nbits bm" and "\<not> bit_at bm i"
  shows "\<exists>n. bitmap_scan bm 1 = Some (int n) \<and> n \<le> i \<and> \<not> bit_at bm n \<and> (\<forall>j < n. bit_at bm j)"
proof -
  have "used bm \<noteq> {..<nbits bm}" using assms(2,3) by (auto simp: used_def)
  then obtain n where n: "bitmap_scan bm 1 = Some (int n)" "n < nbits bm" "n \<notin> used bm" "{..<n} \<subseteq> used bm"
    using bitmap_scan_one [OF assms(1)] by blast
  then have "\<forall>j < n. bit_at bm j" "\<not> bit_at bm n" by (auto simp: used_def)
  moreover from this have "n \<le> i" using assms(3) by (metis not_le)
  ultimately show ?thesis using n(1) by blast
qed

lemma bitmap_scan_one_first_fit_witness:
  "\<exists>n. bitmap_scan \<lparr>btmp_bytes_len = 2, bits = [0xff, 0x0b]\<rparr> 1 = Some (int n) \<and> n \<le> 12"
proof -
  let ?bm = "\<lparr>btmp_bytes_len = 2, bits = [0xff, 0x0b]\<rparr>"
  have "wf_bitmap ?bm" and "12 < nbits ?bm" and "\<not> bit_at ?bm 12"
    by (simp_all add: wf_bitmap_def nbits_def bit_at_def)
  then show ?thesis using bitmap_scan_one_first_fit [of ?bm 12] by blast
qed



text \<open>
  \<open>bitmap_set\<close> writes the bit it is asked to write and no other bit.
\<close>

theorem bitmap_set_test:
  assumes "bitmap_set bm i v = Some bm'"
  shows "bitmap_scan_test bm' j = (if j = i then Some (v = 1) else bitmap_scan_test bm j)"
  using bitmap_set_Some [OF assms] by (auto simp: bitmap_scan_test_eq)

lemma bitmap_set_test_witness:
  "\<exists>bm'. bitmap_set \<lparr>btmp_bytes_len = 1, bits = [0x0b]\<rparr> 2 1 = Some bm' \<and> bitmap_scan_test bm' 2 = Some True"
proof -
  let ?bm = "\<lparr>btmp_bytes_len = 1, bits = [0x0b]\<rparr>"
  have "\<exists>bm'. bitmap_set ?bm 2 1 = Some bm'" by (simp add: bitmap_set_def)
  then show ?thesis using bitmap_set_test [of ?bm 2 1 _ 2] by auto
qed

text \<open>
  On a full bitmap \<open>bitmap_scan\<close> does not return at all: the \<open>ASSERT\<close> in front of the
  test for \<open>-1\<close> fires first, whatever the requested length.
\<close>

theorem bitmap_scan_full_panics:
  assumes "\<forall>i < nbits bm. bit_at bm i"
  shows "bitmap_scan bm cnt = None"
  using assms by (intro bitmap_scan_full) (auto simp: used_def)

lemma bitmap_scan_full_panics_witness:
  "bitmap_scan \<lparr>btmp_bytes_len = 1, bits = [0xff, 0]\<rparr> 1 = None"
proof -
  let ?bm = "\<lparr>btmp_bytes_len = 1, bits = [0xff, 0]\<rparr>"
  have "\<forall>k < 8. bit (0xff :: u8) k" using byte_full_iff by blast
  then have "\<forall>i < nbits ?bm. bit_at ?bm i" by (simp add: nbits_def bit_at_def)
  then show ?thesis by (rule bitmap_scan_full_panics)
qed

text \<open>
  The run loop tests one bit too many: with one byte of bitmap whose last bit is free and a
  cleared byte behind it, a scan for two bits answers 7, so the run ends at bit 8, outside.
\<close>

theorem bitmap_scan_overrun:
  "bitmap_scan \<lparr>btmp_bytes_len = 1, bits = [0x7f, 0]\<rparr> 2 = Some 7
   \<and> nbits \<lparr>btmp_bytes_len = 1, bits = [0x7f, 0]\<rparr> = 8"
  by code_simp

end
