(* ===== verification/Kernel.thy ===== *)
theory Kernel
  imports Bitmap Interrupt
begin

text \<open>
  The data of the kernel proper: \<^verbatim>\<open>thread/thread.h\<close>, \<^verbatim>\<open>thread/sync.h\<close>,
  \<^verbatim>\<open>kernel/memory.h\<close> and the globals of \<^verbatim>\<open>kernel/memory.c\<close>,
  \<^verbatim>\<open>thread/thread.c\<close> and \<^verbatim>\<open>userprog/tss.c\<close>, as one record.

  A thread is named by the address of its PCB, the page that \<open>running_thread\<close> computes from \<open>esp\<close>;
  the processor register is the field \<open>running\<close>.  \<open>struct list\<close> fields are HOL lists of the
  addresses of their entries (\<open>KList\<close> shows that the pointer structure represents such a list), so the
  tags \<open>general_tag\<close> and \<open>all_list_tag\<close> are membership in the lists.  The locks are a map
  from their names; \<open>phys\<close> is the physical memory that holds the page tables, as words at their
  aligned byte addresses.
\<close>

section \<open>Memory management data\<close>

definition PG_SIZE :: u32 where
  "PG_SIZE = 4096"

datatype pool_flags = PF_KERNEL | PF_USER

definition PG_P_1 :: u32 where "PG_P_1 = 1"
definition PG_RW_W :: u32 where "PG_RW_W = 2"
definition PG_US_U :: u32 where "PG_US_U = 4"

definition K_HEAP_START :: u32 where "K_HEAP_START = 0xc0100000"

definition DESC_CNT :: nat where "DESC_CNT = 7"

text \<open>\<open>bits_ptr\<close> is the address of the bitmap's bytes, which \<open>bits\<close> are the contents of.\<close>

record virtual_addr =
  vaddr_bitmap :: bitmap
  bits_ptr :: u32
  vaddr_start :: u32

record pool =
  pool_bitmap :: bitmap
  phy_addr_start :: u32
  pool_size :: u32

record mem_block_desc =
  block_size :: nat
  block_per_arena :: nat
  free_list :: "u32 list"

text \<open>\<open>desc\<close> points into one of the descriptor arrays: it is the index there.\<close>

record arena =
  desc :: "nat option"
  arena_cnt :: nat
  large :: bool


section \<open>Threads\<close>

datatype task_status =
  TASK_RUNNING | TASK_READY | TASK_BLOCKED | TASK_WAITING | TASK_HANGING | TASK_DIED

definition MAX_FILES_OPEN_PER_PROC :: nat where "MAX_FILES_OPEN_PER_PROC = 8"

definition STACK_MAGIC :: u32 where "STACK_MAGIC = 0x19870916"

record task_struct =
  self_kstack :: u32
  pid :: int
  status :: task_status
  name :: "u8 list"
  priority :: u8
  ticks :: u8
  elapsed_ticks :: u32
  fd_table :: "int list"
  pgdir :: u32
  userprog_vaddr :: virtual_addr
  u_block_desc :: "mem_block_desc list"
  cwd_inode_nr :: nat
  parent_pid :: int
  exit_status :: int
  stack_magic :: u32


section \<open>Locks\<close>

record semaphore =
  sem_value :: u8
  waiters :: "u32 list"

record lock = semaphore +
  holder :: u32
  holder_repeat_nr :: u32

datatype lock_id =
  PidLock | KernelPoolLock | UserPoolLock | ConsoleLock | ChannelLock nat | DiskDone nat | IoqLock u32


section \<open>The kernel\<close>

record kernel = cpu +
  running :: u32
  tasks :: "u32 \<Rightarrow> task_struct"
  thread_ready_list :: "u32 list"
  thread_all_list :: "u32 list"
  main_thread :: u32
  idle_thread :: u32
  pid_bitmap :: bitmap
  pid_start :: int
  locks :: "lock_id \<Rightarrow> lock"
  total_ticks :: u32
  kernel_pool :: pool
  user_pool :: pool
  kernel_vaddr :: virtual_addr
  k_block_descs :: "mem_block_desc list"
  arenas :: "u32 \<Rightarrow> arena"
  phys :: "u32 \<Rightarrow> u32"
  cr3 :: u32
  tss_esp0 :: u32

text \<open>\<^verbatim>\<open>thread.c\<close>: \<open>running_thread\<close> is \<open>esp & 0xfffff000\<close>, the PCB of the running thread.\<close>

definition running_thread :: "kernel \<Rightarrow> u32" where
  "running_thread s = running s"

definition cur_task :: "kernel \<Rightarrow> task_struct" where
  "cur_task s = tasks s (running_thread s)"

definition upd_task :: "u32 \<Rightarrow> (task_struct \<Rightarrow> task_struct) \<Rightarrow> kernel \<Rightarrow> kernel" where
  "upd_task t f s = s\<lparr>tasks := (tasks s)(t := f (tasks s t))\<rparr>"

lemma tasks_upd_task [simp]: "tasks (upd_task t f s) t' = (if t' = t then f (tasks s t) else tasks s t')"
  by (simp add: upd_task_def)

lemma upd_task_frame [simp]:
  "running (upd_task t f s) = running s" "thread_ready_list (upd_task t f s) = thread_ready_list s"
  "thread_all_list (upd_task t f s) = thread_all_list s" "main_thread (upd_task t f s) = main_thread s"
  "idle_thread (upd_task t f s) = idle_thread s" "pid_bitmap (upd_task t f s) = pid_bitmap s"
  "pid_start (upd_task t f s) = pid_start s" "locks (upd_task t f s) = locks s"
  "kernel_pool (upd_task t f s) = kernel_pool s" "user_pool (upd_task t f s) = user_pool s"
  "kernel_vaddr (upd_task t f s) = kernel_vaddr s" "k_block_descs (upd_task t f s) = k_block_descs s"
  "arenas (upd_task t f s) = arenas s" "phys (upd_task t f s) = phys s" "cr3 (upd_task t f s) = cr3 s"
  "tss_esp0 (upd_task t f s) = tss_esp0 s" "eflags (upd_task t f s) = eflags s"
  "total_ticks (upd_task t f s) = total_ticks s"
  by (simp_all add: upd_task_def)

lemma intr_kernel_frame [simp]:
  "tasks (cli s) = tasks (s :: kernel)" "tasks (sti s) = tasks (s :: kernel)"
  "running (cli s) = running s" "running (sti s) = running s"
  "thread_ready_list (cli s) = thread_ready_list s" "thread_ready_list (sti s) = thread_ready_list s"
  "thread_all_list (cli s) = thread_all_list s" "thread_all_list (sti s) = thread_all_list s"
  "idle_thread (cli s) = idle_thread s" "idle_thread (sti s) = idle_thread s"
  "locks (cli s) = locks s" "locks (sti s) = locks s"
  by (simp_all add: cli_def sti_def)

lemma intr_disable_kernel_frame [simp]:
  "tasks (fst (intr_disable s)) = tasks (s :: kernel)" "running (fst (intr_disable s)) = running s"
  "thread_ready_list (fst (intr_disable s)) = thread_ready_list s"
  "thread_all_list (fst (intr_disable s)) = thread_all_list s"
  "idle_thread (fst (intr_disable s)) = idle_thread s" "locks (fst (intr_disable s)) = locks s"
  by (simp_all add: fst_intr_disable)

lemma intr_set_status_kernel_frame [simp]:
  "tasks (fst (intr_set_status s st)) = tasks (s :: kernel)" "running (fst (intr_set_status s st)) = running s"
  "thread_ready_list (fst (intr_set_status s st)) = thread_ready_list s"
  "thread_all_list (fst (intr_set_status s st)) = thread_all_list s"
  "idle_thread (fst (intr_set_status s st)) = idle_thread s" "locks (fst (intr_set_status s st)) = locks s"
  by (simp_all add: intr_set_status_def intr_enable_def fst_intr_disable)


section \<open>A concrete state\<close>

text \<open>
  A small machine on which the witnesses evaluate the operations: no threads, a kernel pool of eight
  free frames at 2 MB, a page directory at 1 MB that only maps itself.
\<close>

definition sample_bitmap :: bitmap where
  "sample_bitmap = \<lparr>btmp_bytes_len = 1, bits = [0, 0]\<rparr>"

definition sample_task :: task_struct where
  "sample_task = \<lparr>self_kstack = 0, pid = 0, status = TASK_READY, name = [], priority = 31, ticks = 31,
     elapsed_ticks = 0, fd_table = [0, 1, 2, -1, -1, -1, -1, -1], pgdir = 0,
     userprog_vaddr = \<lparr>vaddr_bitmap = sample_bitmap, bits_ptr = 0, vaddr_start = 0x8048000\<rparr>, u_block_desc = [],
     cwd_inode_nr = 0, parent_pid = -1, exit_status = 0, stack_magic = STACK_MAGIC\<rparr>"

definition sample_kernel :: kernel where
  "sample_kernel = \<lparr>eflags = EFLAGS_IF, running = 0x9e000, tasks = (\<lambda>_. sample_task), thread_ready_list = [],
     thread_all_list = [0x9e000], main_thread = 0x9e000, idle_thread = 0x9f000,
     pid_bitmap = sample_bitmap, pid_start = 1,
     locks = (\<lambda>_. \<lparr>sem_value = 1, waiters = [], holder = 0, holder_repeat_nr = 0\<rparr>), total_ticks = 0,
     kernel_pool = \<lparr>pool_bitmap = sample_bitmap, phy_addr_start = 0x200000, pool_size = 0x8000\<rparr>,
     user_pool = \<lparr>pool_bitmap = sample_bitmap, phy_addr_start = 0x208000, pool_size = 0x8000\<rparr>,
     kernel_vaddr = \<lparr>vaddr_bitmap = sample_bitmap, bits_ptr = 0xc009a002, vaddr_start = K_HEAP_START\<rparr>,
     k_block_descs = [], arenas = (\<lambda>_. \<lparr>desc = None, arena_cnt = 0, large = False\<rparr>),
     phys = (\<lambda>_. 0)(0x100ffc := 0x100007), cr3 = 0x100000, tss_esp0 = 0\<rparr>"

end
