(* ===== verification/Paging.thy ===== *)
theory Paging
  imports Kernel
begin

text \<open>
  Page tables: \<^verbatim>\<open>kernel/memory.c\<close> (\<open>pte_ptr\<close>, \<open>pde_ptr\<close>, \<open>addr_v2p\<close>, \<open>palloc\<close>,
  \<open>page_table_add\<close>, \<open>page_table_pte_remove\<close>) and the activation of an address space in
  \<^verbatim>\<open>userprog/process.c\<close>.

  The memory management unit is \<open>translate\<close>: two-level paging without a TLB.  The code reads and
  writes page tables through their virtual addresses in the window that the last entry of the page
  directory maps onto the page tables themselves; \<open>load\<close> and \<open>store\<close> go through \<open>translate\<close>, and a
  page fault is \<open>None\<close>.
\<close>

section \<open>The memory management unit\<close>

definition PDE_IDX :: "u32 \<Rightarrow> u32" where
  "PDE_IDX addr = drop_bit 22 (addr AND 0xffc00000)"

definition PTE_IDX :: "u32 \<Rightarrow> u32" where
  "PTE_IDX addr = drop_bit 12 (addr AND 0x003ff000)"

definition page_frame :: "u32 \<Rightarrow> u32" where
  "page_frame a = a AND 0xfffff000"

definition present :: "u32 \<Rightarrow> bool" where
  "present e \<longleftrightarrow> e AND 1 \<noteq> 0"

definition pde_of :: "kernel \<Rightarrow> u32 \<Rightarrow> u32" where
  "pde_of s va = phys s (page_frame (cr3 s) + PDE_IDX va * 4)"

definition pte_addr :: "kernel \<Rightarrow> u32 \<Rightarrow> u32" where
  "pte_addr s va = page_frame (pde_of s va) + PTE_IDX va * 4"

definition translate :: "kernel \<Rightarrow> u32 \<Rightarrow> u32 option" where
  "translate s va =
     (if present (pde_of s va) \<and> present (phys s (pte_addr s va))
      then Some (page_frame (phys s (pte_addr s va)) + (va AND 0xfff)) else None)"

definition load :: "kernel \<Rightarrow> u32 \<Rightarrow> u32 option" where
  "load s va = do { pa \<leftarrow> translate s va; Some (phys s pa) }"

definition store :: "kernel \<Rightarrow> u32 \<Rightarrow> u32 \<Rightarrow> kernel option" where
  "store s va w = do { pa \<leftarrow> translate s va; Some (s\<lparr>phys := (phys s)(pa := w)\<rparr>) }"


section \<open>Operations\<close>

definition pte_ptr :: "u32 \<Rightarrow> u32" where
  "pte_ptr vaddr = 0xffc00000 + drop_bit 10 (vaddr AND 0xffc00000) + PTE_IDX vaddr * 4"

definition pde_ptr :: "u32 \<Rightarrow> u32" where
  "pde_ptr vaddr = 0xfffff000 + PDE_IDX vaddr * 4"

definition addr_v2p :: "kernel \<Rightarrow> u32 \<Rightarrow> u32 option" where
  "addr_v2p s vaddr = do {
     pte \<leftarrow> load s (pte_ptr vaddr);
     Some ((pte AND 0xfffff000) + (vaddr AND 0xfff))
   }"

text \<open>\<open>palloc\<close> returns \<open>NULL\<close>, that is 0, when the scan reports \<open>-1\<close>.\<close>

definition palloc :: "pool \<Rightarrow> (pool \<times> u32) option" where
  "palloc m_pool = do {
     bit_idx \<leftarrow> bitmap_scan (pool_bitmap m_pool) 1;
     if bit_idx = -1 then Some (m_pool, 0)
     else do {
       bm \<leftarrow> bitmap_set (pool_bitmap m_pool) (nat bit_idx) 1;
       let page_phyaddr = of_int bit_idx * PG_SIZE + phy_addr_start m_pool;
       Some (m_pool\<lparr>pool_bitmap := bm\<rparr>, page_phyaddr)
     }
   }"

text \<open>\<open>memset(page_start, 0, PG_SIZE)\<close> of one page-aligned virtual page.\<close>

definition clear_page :: "kernel \<Rightarrow> u32 \<Rightarrow> kernel option" where
  "clear_page s va = do {
     pa \<leftarrow> translate s va;
     Some (s\<lparr>phys := (\<lambda>a. if page_frame a = page_frame pa then 0 else phys s a)\<rparr>)
   }"

definition page_table_add :: "kernel \<Rightarrow> u32 \<Rightarrow> u32 \<Rightarrow> kernel option" where
  "page_table_add s vaddr page_phyaddr = do {
     let pde = pde_ptr vaddr;
     let pte = pte_ptr vaddr;
     pde_v \<leftarrow> load s pde;
     if pde_v AND 0x00000001 \<noteq> 0 then do {
       pte_v \<leftarrow> load s pte;
       ASSERT (pte_v AND 0x00000001 = 0);
       store s pte (page_phyaddr OR PG_US_U OR PG_RW_W OR PG_P_1)
     } else do {
       (kp, pde_phyaddr) \<leftarrow> palloc (kernel_pool s);
       let s = s\<lparr>kernel_pool := kp\<rparr>;
       s \<leftarrow> store s pde (pde_phyaddr OR PG_US_U OR PG_RW_W OR PG_P_1);
       s \<leftarrow> clear_page s (pte AND 0xfffff000);
       pte_v \<leftarrow> load s pte;
       ASSERT (pte_v AND 0x00000001 = 0);
       store s pte (page_phyaddr OR PG_US_U OR PG_RW_W OR PG_P_1)
     }
   }"

definition page_table_pte_remove :: "kernel \<Rightarrow> u32 \<Rightarrow> kernel option" where
  "page_table_pte_remove s vaddr = do {
     let pte = pte_ptr vaddr;
     pte_v \<leftarrow> load s pte;
     store s pte (pte_v AND NOT PG_P_1)
   }"

definition update_tss_esp :: "kernel \<Rightarrow> u32 \<Rightarrow> kernel" where
  "update_tss_esp s pthread = s\<lparr>tss_esp0 := pthread + PG_SIZE\<rparr>"

definition page_dir_activate :: "kernel \<Rightarrow> u32 \<Rightarrow> kernel option" where
  "page_dir_activate s p_thread = do {
     pagedir_phy_addr \<leftarrow>
       (if pgdir (tasks s p_thread) \<noteq> 0 then addr_v2p s (pgdir (tasks s p_thread)) else Some 0x100000);
     Some (s\<lparr>cr3 := pagedir_phy_addr\<rparr>)
   }"

definition process_activate :: "kernel \<Rightarrow> u32 \<Rightarrow> kernel option" where
  "process_activate s p_thread = do {
     ASSERT (p_thread \<noteq> 0);
     s \<leftarrow> page_dir_activate s p_thread;
     Some (if pgdir (tasks s p_thread) \<noteq> 0 then update_tss_esp s p_thread else s)
   }"


section \<open>Address arithmetic\<close>

lemma bit_hi_mask: "bit (0xffc00000 :: u32) k \<longleftrightarrow> 22 \<le> k \<and> k < 32"
proof -
  have eq: "(0xffc00000 :: u32) = push_bit 22 (mask 10)" by (simp add: mask_eq_exp_minus_1)
  show ?thesis unfolding eq bit_push_bit_iff bit_mask_iff by auto
qed

lemma bit_mid_mask: "bit (0x003ff000 :: u32) k \<longleftrightarrow> 12 \<le> k \<and> k < 22"
proof -
  have eq: "(0x003ff000 :: u32) = push_bit 12 (mask 10)" by (simp add: mask_eq_exp_minus_1)
  show ?thesis unfolding eq bit_push_bit_iff bit_mask_iff by auto
qed

lemma bit_frame_mask: "bit (0xfffff000 :: u32) k \<longleftrightarrow> 12 \<le> k \<and> k < 32"
proof -
  have eq: "(0xfffff000 :: u32) = push_bit 12 (mask 20)" by (simp add: mask_eq_exp_minus_1)
  show ?thesis unfolding eq bit_push_bit_iff bit_mask_iff by auto
qed

lemma bit_low_mask: "bit (0xfff :: u32) k \<longleftrightarrow> k < 12"
proof -
  have eq: "(0xfff :: u32) = mask 12" by (simp add: mask_eq_exp_minus_1)
  show ?thesis unfolding eq bit_mask_iff by auto
qed

lemma hi_mask_eq: "v AND 0xffc00000 = push_bit 22 (drop_bit 22 (v :: u32))"
proof (rule bit_word_eqI)
  fix n assume "n < LENGTH(32)"
  then show "bit (v AND 0xffc00000) n = bit (push_bit 22 (drop_bit 22 v)) n"
    unfolding bit_and_iff bit_hi_mask bit_push_bit_iff bit_drop_bit_eq comp_def by auto
qed

lemma PDE_IDX_eq: "PDE_IDX v = drop_bit 22 v"
proof (rule bit_word_eqI)
  fix n assume "n < LENGTH(32)"
  then show "bit (PDE_IDX v) n = bit (drop_bit 22 v) n"
    unfolding PDE_IDX_def bit_drop_bit_eq comp_def bit_and_iff bit_hi_mask
    by (auto dest: bit_imp_le_length)
qed

lemma PTE_IDX_eq: "PTE_IDX v = take_bit 10 (drop_bit 12 v)"
proof (rule bit_word_eqI)
  fix n assume "n < LENGTH(32)"
  then show "bit (PTE_IDX v) n = bit (take_bit 10 (drop_bit 12 v)) n"
    unfolding PTE_IDX_def bit_take_bit_iff bit_drop_bit_eq comp_def bit_and_iff bit_mid_mask by auto
qed

lemma page_frame_eq: "page_frame a = push_bit 12 (drop_bit 12 a)"
proof (rule bit_word_eqI)
  fix n assume "n < LENGTH(32)"
  then show "bit (page_frame a) n = bit (push_bit 12 (drop_bit 12 a)) n"
    unfolding page_frame_def bit_and_iff bit_frame_mask bit_push_bit_iff bit_drop_bit_eq comp_def by auto
qed

lemma offset_eq: "a AND 0xfff = take_bit 12 (a :: u32)"
proof (rule bit_word_eqI)
  fix n assume "n < LENGTH(32)"
  then show "bit (a AND 0xfff) n = bit (take_bit 12 a) n"
    unfolding bit_and_iff bit_low_mask bit_take_bit_iff by auto
qed

lemma unat_less_2p32: "unat (v :: u32) < 4294967296"
  using unsigned_less [of v, where 'a = nat] by simp

lemma unat_drop: "unat (drop_bit n (v :: u32)) = unat v div 2 ^ n"
  by (subst unsigned_drop_bit_eq) (simp add: drop_bit_eq_div unat_less_2p32 take_bit_eq_mod)

lemma unat_take: "unat (take_bit n (v :: u32)) = unat v mod 2 ^ n"
  by (subst unsigned_take_bit_eq) (simp add: take_bit_eq_mod)

lemma unat_push: "unat (push_bit n (v :: u32)) = unat v * 2 ^ n mod 4294967296"
  by (subst unsigned_push_bit_eq) (simp add: push_bit_eq_mult take_bit_eq_mod)

lemma unat_PDE_IDX: "unat (PDE_IDX v) = unat v div 4194304"
  unfolding PDE_IDX_eq unat_drop by simp

lemma unat_PTE_IDX: "unat (PTE_IDX v) = unat v div 4096 mod 1024"
  unfolding PTE_IDX_eq unat_take unat_drop by simp

lemma unat_page_frame: "unat (page_frame a) = unat a div 4096 * 4096"
proof -
  have "unat a div 4096 * 4096 < 4294967296"
    using div_times_less_eq_dividend [of "unat a" 4096] unat_less_2p32 [of a] by linarith
  then show ?thesis unfolding page_frame_eq unat_push unat_drop by simp
qed

lemma unat_offset: "unat (a AND 0xfff :: u32) = unat a mod 4096"
  unfolding offset_eq unat_take by simp

lemma unat_add_small: "unat a + unat b < 4294967296 \<Longrightarrow> unat (a + b :: u32) = unat a + unat b"
  by (simp add: unat_word_ariths)

lemma unat_mult4_small: "unat a < 1073741824 \<Longrightarrow> unat (a * 4 :: u32) = unat a * 4"
  by (simp add: unat_word_ariths)

lemma unat_frame_plus:
  assumes "unat i < 1024"
  shows "unat (page_frame a + i * 4) = unat a div 4096 * 4096 + unat i * 4"
proof -
  have m: "unat (i * 4) = unat i * 4" using assms by (intro unat_mult4_small) simp
  have "unat a div 4096 \<le> 4294967295 div 4096" using unat_less_2p32 [of a] by (intro div_le_mono) simp
  then have "unat a div 4096 * 4096 \<le> 4294963200" by simp
  then show ?thesis using assms m by (subst unat_add_small) (simp_all add: unat_page_frame)
qed

lemma unat_pte_ptr:
  "unat (pte_ptr v) = 4290772992 + unat v div 4194304 * 4096 + (unat v div 4096 mod 1024) * 4"
proof -
  have d: "drop_bit 10 (v AND 0xffc00000) = push_bit 12 (drop_bit 22 v)"
  proof (rule bit_word_eqI)
    fix n assume "n < LENGTH(32)"
    then show "bit (drop_bit 10 (v AND 0xffc00000)) n = bit (push_bit 12 (drop_bit 22 v)) n"
      unfolding hi_mask_eq bit_drop_bit_eq comp_def bit_push_bit_iff by (auto dest: bit_imp_le_length)
  qed
  have a: "unat v div 4194304 < 1024" using unat_less_2p32 [of v] by arith
  have 1: "unat (push_bit 12 (drop_bit 22 v)) = unat v div 4194304 * 4096"
    using a unfolding unat_push unat_drop by simp
  have 2: "unat (PTE_IDX v * 4) = (unat v div 4096 mod 1024) * 4"
    by (subst unat_mult4_small) (simp_all add: unat_PTE_IDX)
  have b: "(unat v div 4096 mod 1024) * 4 \<le> 4092"
    using mod_less_divisor [of 1024 "unat v div 4096"] by linarith
  have 3: "unat (0xffc00000 + push_bit 12 (drop_bit 22 v)) = 4290772992 + unat v div 4194304 * 4096"
    using a by (subst unat_add_small) (simp_all add: 1)
  show ?thesis unfolding pte_ptr_def d
    using a b 2 3 unat_add_small [of "0xffc00000 + push_bit 12 (drop_bit 22 v)" "PTE_IDX v * 4"] by linarith
qed

lemma unat_pde_ptr: "unat (pde_ptr v) = 4294963200 + unat v div 4194304 * 4"
proof -
  have a: "unat v div 4194304 < 1024" using unat_less_2p32 [of v] by arith
  have 2: "unat (PDE_IDX v * 4) = unat v div 4194304 * 4"
    using a by (subst unat_mult4_small) (simp_all add: unat_PDE_IDX)
  show ?thesis unfolding pde_ptr_def using a by (subst unat_add_small) (simp_all add: 2)
qed

lemma window_fields:
  fixes x y :: nat
  assumes "x < 1024" and "y < 1024"
  shows "(4290772992 + x * 4096 + y * 4) div 4194304 = 1023"
    and "(4290772992 + x * 4096 + y * 4) div 4096 mod 1024 = x"
    and "(4290772992 + x * 4096 + y * 4) mod 4096 = y * 4"
proof -
  have xy: "y * 4 < 4096" "x * 4096 + y * 4 < 4194304" using assms by linarith+
  have "(4290772992 + x * 4096 + y * 4) div 4194304 = (x * 4096 + y * 4 + 1023 * 4194304) div 4194304"
    by (simp add: algebra_simps)
  also have "\<dots> = 1023" using xy(2) by (subst div_mult_self1) simp_all
  finally show "(4290772992 + x * 4096 + y * 4) div 4194304 = 1023" .
  have e: "4290772992 + x * 4096 + y * 4 = y * 4 + (x + 1023 * 1024) * 4096" by simp
  have "(4290772992 + x * 4096 + y * 4) div 4096 = x + 1023 * 1024"
    unfolding e using xy(1) by (subst div_mult_self1) simp_all
  moreover have "(x + 1023 * 1024) mod 1024 = x" using assms(1) by (subst mod_mult_self1) simp
  ultimately show "(4290772992 + x * 4096 + y * 4) div 4096 mod 1024 = x" by simp
  show "(4290772992 + x * 4096 + y * 4) mod 4096 = y * 4"
    unfolding e using xy(1) by (subst mod_mult_self1) simp
qed

lemma pte_ptr_fields:
  "PDE_IDX (pte_ptr v) = 1023" "PTE_IDX (pte_ptr v) = PDE_IDX v" "pte_ptr v AND 0xfff = PTE_IDX v * 4"
proof -
  let ?x = "unat v div 4194304" and ?y = "unat v div 4096 mod 1024"
  have x: "?x < 1024" using unat_less_2p32 [of v] by arith
  have y: "?y < 1024" by simp
  note w = window_fields [OF x y]
  show "PDE_IDX (pte_ptr v) = 1023"
    by (rule word_unat_eq_iff [THEN iffD2]) (simp add: unat_PDE_IDX unat_pte_ptr w(1))
  show "PTE_IDX (pte_ptr v) = PDE_IDX v"
    by (rule word_unat_eq_iff [THEN iffD2]) (simp only: unat_PTE_IDX unat_pte_ptr w(2) unat_PDE_IDX)
  have "unat (PTE_IDX v * 4) = ?y * 4" by (subst unat_mult4_small) (simp_all add: unat_PTE_IDX)
  then show "pte_ptr v AND 0xfff = PTE_IDX v * 4"
    by (intro word_unat_eq_iff [THEN iffD2]) (simp only: unat_offset unat_pte_ptr w(3))
qed

lemma pde_ptr_fields:
  "PDE_IDX (pde_ptr v) = 1023" "PTE_IDX (pde_ptr v) = 1023" "pde_ptr v AND 0xfff = PDE_IDX v * 4"
proof -
  let ?y = "unat v div 4194304"
  have y: "?y < 1024" using unat_less_2p32 [of v] by arith
  have e: "unat (pde_ptr v) = 4290772992 + 1023 * 4096 + ?y * 4" by (simp add: unat_pde_ptr)
  have x: "(1023 :: nat) < 1024" by simp
  note w = window_fields [OF x y]
  show "PDE_IDX (pde_ptr v) = 1023"
    by (rule word_unat_eq_iff [THEN iffD2]) (simp only: unat_PDE_IDX e w(1), simp)
  show "PTE_IDX (pde_ptr v) = 1023"
    by (rule word_unat_eq_iff [THEN iffD2]) (simp only: unat_PTE_IDX e w(2), simp)
  have "unat (PDE_IDX v * 4) = ?y * 4" using y by (subst unat_mult4_small) (simp_all add: unat_PDE_IDX)
  then show "pde_ptr v AND 0xfff = PDE_IDX v * 4"
    by (intro word_unat_eq_iff [THEN iffD2]) (simp only: unat_offset e w(3))
qed



section \<open>The window onto the page tables\<close>

text \<open>
  The loader stores the physical address of the page directory in its last entry, and
  \<open>create_page_dir\<close> does the same for each process.
\<close>

definition self_mapped :: "kernel \<Rightarrow> bool" where
  "self_mapped s \<longleftrightarrow>
     present (phys s (page_frame (cr3 s) + 1023 * 4)) \<and>
     page_frame (phys s (page_frame (cr3 s) + 1023 * 4)) = page_frame (cr3 s)"

text \<open>No frame serves as a page table under two entries of the directory.\<close>

definition tables_disjoint :: "kernel \<Rightarrow> bool" where
  "tables_disjoint s \<longleftrightarrow>
     (\<forall>v w. present (pde_of s v) \<longrightarrow> present (pde_of s w) \<longrightarrow>
        page_frame (pde_of s v) = page_frame (pde_of s w) \<longrightarrow> PDE_IDX v = PDE_IDX w)"

lemma PDE_IDX_small: "unat (PDE_IDX v) < 1024"
  using unat_less_2p32 [of v] div_le_mono [of "unat v" 4294967295 4194304] by (simp add: unat_PDE_IDX)

lemma PTE_IDX_small: "unat (PTE_IDX v) < 1024"
  by (simp add: unat_PTE_IDX)

lemma page_frame_idem [simp]: "page_frame (page_frame a) = page_frame a"
  by (simp add: page_frame_def and.assoc)

lemma page_frame_entry [simp]: "unat i < 1024 \<Longrightarrow> page_frame (page_frame a + i * 4) = page_frame a"
  by (rule word_unat_eq_iff [THEN iffD2]) (simp add: unat_page_frame unat_frame_plus)

lemma entry_inj:
  assumes "unat i < 1024" "unat j < 1024"
  shows "page_frame a + i * 4 = page_frame b + j * 4 \<longleftrightarrow> page_frame a = page_frame b \<and> i = j"
proof
  assume e: "page_frame a + i * 4 = page_frame b + j * 4"
  have f: "page_frame a = page_frame b"
    using page_frame_entry [OF assms(1), of a] page_frame_entry [OF assms(2), of b] e by simp
  have "unat i * 4 = unat j * 4"
    using arg_cong [OF e, of unat] f arg_cong [OF f, of unat]
    by (simp add: unat_frame_plus assms unat_page_frame)
  then show "page_frame a = page_frame b \<and> i = j" using f by (simp add: word_unat_eq_iff)
qed simp

lemma idx_eq_frame: "PDE_IDX v = PDE_IDX w \<and> PTE_IDX v = PTE_IDX w \<longleftrightarrow> page_frame v = page_frame w"
proof -
  have join: "x = y" if "x div 1024 = y div 1024" "x mod 1024 = y mod 1024" for x y :: nat
    using that by (metis div_mult_mod_eq)
  have dd: "x div 4194304 = x div 4096 div 1024" for x :: nat by (simp add: div_mult2_eq [symmetric])
  show ?thesis
    by (auto simp: word_unat_eq_iff unat_PDE_IDX unat_PTE_IDX unat_page_frame dd intro: join)
qed

lemma pte_addr_inj:
  "pte_addr s v = pte_addr s w \<longleftrightarrow> page_frame (pde_of s v) = page_frame (pde_of s w) \<and> PTE_IDX v = PTE_IDX w"
  unfolding pte_addr_def by (rule entry_inj) (rule PTE_IDX_small)+

lemma translate_pde_ptr:
  assumes "self_mapped s"
  shows "translate s (pde_ptr v) = Some (page_frame (cr3 s) + PDE_IDX v * 4)"
  using assms by (simp add: translate_def pte_addr_def pde_of_def pde_ptr_fields self_mapped_def)

lemma translate_pte_ptr:
  assumes "self_mapped s"
  shows "translate s (pte_ptr v) = (if present (pde_of s v) then Some (pte_addr s v) else None)"
  using assms by (simp add: translate_def pte_addr_def pde_of_def pte_ptr_fields self_mapped_def)

lemma load_pde_ptr: "self_mapped s \<Longrightarrow> load s (pde_ptr v) = Some (pde_of s v)"
  by (simp add: load_def translate_pde_ptr pde_of_def)

lemma load_pte_ptr:
  "self_mapped s \<Longrightarrow>
     load s (pte_ptr v) = (if present (pde_of s v) then Some (phys s (pte_addr s v)) else None)"
  by (simp add: load_def translate_pte_ptr)

text \<open>
  C20. \<open>addr_v2p\<close>, which reads the page table through the window, computes the physical address that
  the memory management unit uses, for every mapped address.
\<close>

theorem addr_v2p_correct:
  assumes "self_mapped s" and "translate s vaddr = Some pa"
  shows "addr_v2p s vaddr = Some pa"
  using assms(2)
  by (auto simp: addr_v2p_def load_pte_ptr [OF assms(1)] translate_def page_frame_def split: if_splits)


lemma present_bit: "present e \<longleftrightarrow> bit e 0"
  using and_mask_eq_0_iff [of e 0] by (simp add: present_def)

lemma present_flags [simp]: "present (p OR PG_US_U OR PG_RW_W OR PG_P_1)"
  by (simp add: present_bit bit_or_iff PG_P_1_def)

lemma page_frame_flags [simp]: "page_frame (p OR PG_US_U OR PG_RW_W OR PG_P_1) = page_frame p"
proof -
  have "(7 :: u32) AND 0xfffff000 = 0" by simp
  moreover have "p OR PG_US_U OR PG_RW_W OR PG_P_1 = p OR 7"
    by (simp add: PG_US_U_def PG_RW_W_def PG_P_1_def or.assoc)
  ultimately show ?thesis by (simp add: page_frame_def bit.conj_disj_distrib2)
qed

lemma not_present_clear [simp]: "\<not> present (e AND NOT PG_P_1)"
  by (simp add: present_bit bit_and_iff bit_not_iff PG_P_1_def)

lemma pde_of_upd:
  "page_frame a \<noteq> page_frame (cr3 s) \<Longrightarrow> pde_of (s\<lparr>phys := (phys s)(a := w)\<rparr>) v = pde_of s v"
  using page_frame_entry [OF PDE_IDX_small, of "cr3 s" v] by (auto simp: pde_of_def)

lemma self_pde: "self_mapped s \<Longrightarrow> PDE_IDX w = 1023 \<Longrightarrow> present (pde_of s w) \<and> page_frame (pde_of s w) = page_frame (cr3 s)"
  by (simp add: self_mapped_def pde_of_def)

lemma table_frame_neq_cr3:
  assumes "self_mapped s" "tables_disjoint s" "present (pde_of s v)" "PDE_IDX v \<noteq> 1023"
  shows "page_frame (pde_of s v) \<noteq> page_frame (cr3 s)"
proof -
  have "PDE_IDX (pde_ptr v) = 1023" by (rule pde_ptr_fields)
  then show ?thesis
    using self_pde [OF assms(1), of "pde_ptr v"] assms(2-4) unfolding tables_disjoint_def by metis
qed

text \<open>What one write into the page table of \<open>v\<close> does to the address space.\<close>

lemma pte_write:
  assumes "self_mapped s" "tables_disjoint s" "present (pde_of s v)" "PDE_IDX v \<noteq> 1023"
    and s': "s' = s\<lparr>phys := (phys s)(pte_addr s v := e)\<rparr>"
  shows "translate s' v = (if present e then Some (page_frame e + (v AND 0xfff)) else None)"
    and "page_frame w \<noteq> page_frame v \<Longrightarrow> translate s' w = translate s w"
    and "self_mapped s'" and "tables_disjoint s'"
proof -
  have ne: "page_frame (pte_addr s v) \<noteq> page_frame (cr3 s)"
    using table_frame_neq_cr3 [OF assms(1-4)] by (simp add: pte_addr_def PTE_IDX_small)
  have pde: "pde_of s' x = pde_of s x" for x unfolding s' by (rule pde_of_upd [OF ne])
  have pta: "pte_addr s' x = pte_addr s x" for x by (simp add: pte_addr_def pde)
  have e: "phys s' (pte_addr s v) = e" by (simp add: s')
  show "translate s' v = (if present e then Some (page_frame e + (v AND 0xfff)) else None)"
    using assms(3) unfolding translate_def pde pta e by simp
  show "tables_disjoint s'" using assms(2) unfolding tables_disjoint_def pde .
  have "page_frame (cr3 s) + 1023 * 4 \<noteq> pte_addr s v"
  proof
    assume "page_frame (cr3 s) + 1023 * 4 = pte_addr s v"
    moreover have "page_frame (page_frame (cr3 s) + 1023 * 4) = page_frame (cr3 s)"
      by (rule page_frame_entry) simp
    ultimately show False using ne by simp
  qed
  then show "self_mapped s'" using assms(1) by (simp add: self_mapped_def s')
  show "translate s' w = translate s w" if "page_frame w \<noteq> page_frame v"
  proof (cases "present (pde_of s w)")
    case True
    have "pte_addr s w \<noteq> pte_addr s v"
    proof
      assume "pte_addr s w = pte_addr s v"
      then have f: "page_frame (pde_of s w) = page_frame (pde_of s v)" and i: "PTE_IDX w = PTE_IDX v"
        by (simp_all add: pte_addr_inj)
      have "PDE_IDX w = PDE_IDX v" using assms(2,3) True f unfolding tables_disjoint_def by blast
      then show False using that i idx_eq_frame [of w v] by simp
    qed
    then have "phys s' (pte_addr s w) = phys s (pte_addr s w)" by (simp add: s')
    then show ?thesis unfolding translate_def pde pta by simp
  next
    case False
    then show ?thesis unfolding translate_def pde pta by simp
  qed
qed

text \<open>
  \<open>page_table_pte_remove\<close> unmaps its page and leaves every other translation as it is.
\<close>

theorem page_table_pte_remove_unmaps:
  assumes "self_mapped s" "tables_disjoint s" "PDE_IDX vaddr \<noteq> 1023" "translate s vaddr = Some pa"
  shows "\<exists>s'. page_table_pte_remove s vaddr = Some s' \<and> translate s' vaddr = None \<and>
    (\<forall>w. page_frame w \<noteq> page_frame vaddr \<longrightarrow> translate s' w = translate s w) \<and>
    self_mapped s' \<and> tables_disjoint s'"
proof -
  have p: "present (pde_of s vaddr)" using assms(4) by (simp add: translate_def split: if_splits)
  let ?e = "phys s (pte_addr s vaddr) AND NOT PG_P_1"
  have "page_table_pte_remove s vaddr = Some (s\<lparr>phys := (phys s)(pte_addr s vaddr := ?e)\<rparr>)"
    using p by (simp add: page_table_pte_remove_def store_def load_pte_ptr translate_pte_ptr assms(1))
  moreover note pte_write [OF assms(1,2) p assms(3) refl, where e = ?e]
  ultimately show ?thesis by (intro exI [of _ "s\<lparr>phys := (phys s)(pte_addr s vaddr := ?e)\<rparr>"] conjI) simp_all
qed


text \<open>What entering a fresh, cleared table for \<open>v\<close> into the directory does.\<close>

definition with_table :: "kernel \<Rightarrow> pool \<Rightarrow> u32 \<Rightarrow> u32 \<Rightarrow> kernel" where
  "with_table s kp v f = s\<lparr>kernel_pool := kp,
     phys := (\<lambda>a. if page_frame a = f then 0
       else if a = page_frame (cr3 s) + PDE_IDX v * 4 then f OR PG_US_U OR PG_RW_W OR PG_P_1
       else phys s a)\<rparr>"

definition fresh_frame :: "kernel \<Rightarrow> u32 \<Rightarrow> bool" where
  "fresh_frame s f \<longleftrightarrow> page_frame f = f \<and> (\<forall>v. present (pde_of s v) \<longrightarrow> page_frame (pde_of s v) \<noteq> f)"

lemma fresh_neq_cr3:
  assumes "self_mapped s" "fresh_frame s f"
  shows "page_frame (cr3 s) \<noteq> f"
  using self_pde [OF assms(1), of "pde_ptr 0"] assms(2) pde_ptr_fields(1) [of 0]
  by (auto simp: fresh_frame_def)

lemma pde_of_with_table:
  assumes "self_mapped s" "fresh_frame s f"
  shows "pde_of (with_table s kp v f) w =
    (if PDE_IDX w = PDE_IDX v then f OR PG_US_U OR PG_RW_W OR PG_P_1 else pde_of s w)"
  using fresh_neq_cr3 [OF assms]
  by (simp add: with_table_def pde_of_def PDE_IDX_small entry_inj [OF PDE_IDX_small PDE_IDX_small, of "cr3 s" w "cr3 s" v]
      del: add_left_cancel)

lemma page_frame_pte_addr [simp]: "page_frame (pte_addr s v) = page_frame (pde_of s v)"
  by (simp add: pte_addr_def PTE_IDX_small)

lemma with_table_facts:
  assumes sm: "self_mapped s" and td: "tables_disjoint s" and fr: "fresh_frame s f"
    and ab: "\<not> present (pde_of s v)"
    and s'_def: "s' = with_table s kp v f"
  shows "self_mapped s'" and "tables_disjoint s'" and "present (pde_of s' v)"
    and "phys s' (pte_addr s' v) = 0"
    and "PDE_IDX w \<noteq> 1023 \<Longrightarrow> translate s' w = translate s w"
proof -
  note pde = pde_of_with_table [OF sm fr, of kp v, folded s'_def]
  have ff: "page_frame (f OR PG_US_U OR PG_RW_W OR PG_P_1) = f" using fr by (simp add: fresh_frame_def)
  have v: "PDE_IDX v \<noteq> 1023" using self_pde [OF sm, of v] ab by blast
  have cr: "cr3 s' = cr3 s" by (simp add: s'_def with_table_def)
  have "pde_of s' (pde_ptr v) = pde_of s (pde_ptr v)" using v by (simp add: pde pde_ptr_fields)
  then show "self_mapped s'"
    using self_pde [OF sm, of "pde_ptr v"] by (simp add: self_mapped_def pde_of_def pde_ptr_fields cr)
  show "tables_disjoint s'"
    unfolding tables_disjoint_def
  proof (intro allI impI)
    fix x y assume h: "present (pde_of s' x)" "present (pde_of s' y)" "page_frame (pde_of s' x) = page_frame (pde_of s' y)"
    have d: "present (pde_of s x) \<Longrightarrow> present (pde_of s y) \<Longrightarrow> page_frame (pde_of s x) = page_frame (pde_of s y) \<Longrightarrow>
      PDE_IDX x = PDE_IDX y" using td unfolding tables_disjoint_def by blast
    have f: "present (pde_of s z) \<Longrightarrow> page_frame (pde_of s z) \<noteq> f" for z using fr unfolding fresh_frame_def by blast
    show "PDE_IDX x = PDE_IDX y"
      using h d f [of x] f [of y] ff
      by (cases "PDE_IDX x = PDE_IDX v"; cases "PDE_IDX y = PDE_IDX v") (simp_all add: pde)
  qed
  show "present (pde_of s' v)" by (simp add: pde)
  have "page_frame (pte_addr s' v) = f" by (simp only: page_frame_pte_addr pde ff if_True simp_thms)
  then show "phys s' (pte_addr s' v) = 0" by (simp add: s'_def with_table_def)
  assume w: "PDE_IDX w \<noteq> 1023"
  show "translate s' w = translate s w"
  proof (cases "PDE_IDX w = PDE_IDX v")
    case True
    then have "pde_of s w = pde_of s v" by (simp add: pde_of_def)
    then have "translate s w = None" using ab by (simp add: translate_def)
    moreover have "page_frame (pte_addr s' w) = f" using True by (simp only: page_frame_pte_addr pde ff if_True simp_thms)
    then have "phys s' (pte_addr s' w) = 0" by (simp add: s'_def with_table_def)
    ultimately show ?thesis by (simp add: translate_def present_def)
  next
    case False
    then have p: "pde_of s' w = pde_of s w" and a: "pte_addr s' w = pte_addr s w"
      by (simp_all add: pde pte_addr_def)
    show ?thesis
    proof (cases "present (pde_of s w)")
      case True
      then have f1: "page_frame (pte_addr s w) \<noteq> f" using fr by (simp add: fresh_frame_def)
      have "page_frame (pde_of s w) \<noteq> page_frame (cr3 s)" by (rule table_frame_neq_cr3 [OF sm td True w])
      then have "pte_addr s w \<noteq> page_frame (cr3 s) + PDE_IDX v * 4"
        unfolding pte_addr_def by (simp add: entry_inj PDE_IDX_small PTE_IDX_small)
      then have "phys s' (pte_addr s w) = phys s (pte_addr s w)" using f1 by (simp add: s'_def with_table_def)
      then show ?thesis by (simp add: translate_def p a)
    qed (simp add: translate_def p)
  qed
qed


lemma page_table_add_absent:
  assumes sm: "self_mapped s" and fr: "fresh_frame s f" and ab: "\<not> present (pde_of s v)"
    and pal: "palloc (kernel_pool s) = Some (kp, f)"
  shows "page_table_add s v p =
    (let s' = with_table s kp v f in
     do { pte_v \<leftarrow> load s' (pte_ptr v);
          ASSERT (pte_v AND 0x00000001 = 0);
          store s' (pte_ptr v) (p OR PG_US_U OR PG_RW_W OR PG_P_1) })"
proof -
  let ?E = "f OR PG_US_U OR PG_RW_W OR PG_P_1" and ?a = "page_frame (cr3 s) + PDE_IDX v * 4"
  define s2 where "s2 = s\<lparr>kernel_pool := kp, phys := (phys s)(?a := ?E)\<rparr>"
  have fc: "page_frame (cr3 s) \<noteq> f" by (rule fresh_neq_cr3 [OF sm fr])
  have v: "PDE_IDX v \<noteq> 1023" using self_pde [OF sm, of v] ab by blast
  have sm1: "self_mapped (s\<lparr>kernel_pool := kp\<rparr>)" using sm by (simp add: self_mapped_def)
  have st: "store (s\<lparr>kernel_pool := kp\<rparr>) (pde_ptr v) ?E = Some s2"
    by (simp add: store_def translate_pde_ptr [OF sm1] s2_def)
  have "page_frame (cr3 s) + 1023 * 4 \<noteq> ?a"
    by (subst entry_inj) (use v in \<open>auto simp: PDE_IDX_small\<close>)
  then have sm2: "self_mapped s2" using sm by (simp add: self_mapped_def s2_def)
  have pf: "pte_ptr v AND 0xfffff000 = page_frame (pte_ptr v)" by (simp add: page_frame_def)
  have idx: "PDE_IDX (page_frame (pte_ptr v)) = 1023" "PTE_IDX (page_frame (pte_ptr v)) = PDE_IDX v"
    "page_frame (pte_ptr v) AND 0xfff = 0"
    using idx_eq_frame [of "page_frame (pte_ptr v)" "pte_ptr v"] pte_ptr_fields [of v]
    by (simp_all add: page_frame_def and.assoc)
  have tr: "translate s2 (page_frame (pte_ptr v)) = Some f"
    using sm2 fr idx by (simp add: translate_def pte_addr_def pde_of_def self_mapped_def fresh_frame_def) (simp add: s2_def)
  have cl: "clear_page s2 (pte_ptr v AND 0xfffff000) = Some (with_table s kp v f)"
    using fr unfolding pf clear_page_def tr by (simp add: s2_def with_table_def fresh_frame_def cong: if_cong)
  show ?thesis
    using ab unfolding page_table_add_def Let_def load_pde_ptr [OF sm] bind.bind_lunit pal prod.case st cl
    by (simp add: present_def)
qed


lemma page_table_add_present:
  assumes sm: "self_mapped s" and pr: "present (pde_of s v)"
  shows "page_table_add s v p =
    (if present (phys s (pte_addr s v)) then None
     else Some (s\<lparr>phys := (phys s)(pte_addr s v := p OR PG_US_U OR PG_RW_W OR PG_P_1)\<rparr>))"
  using pr by (simp add: page_table_add_def Let_def load_pde_ptr [OF sm] load_pte_ptr [OF sm] store_def
      translate_pte_ptr [OF sm]) (simp add: present_def)

lemma page_table_add_new:
  assumes sm: "self_mapped s" and td: "tables_disjoint s" and fr: "fresh_frame s f"
    and ab: "\<not> present (pde_of s v)" and pal: "palloc (kernel_pool s) = Some (kp, f)"
    and s1: "s1 = with_table s kp v f"
  shows "page_table_add s v p = Some (s1\<lparr>phys := (phys s1)(pte_addr s1 v := p OR PG_US_U OR PG_RW_W OR PG_P_1)\<rparr>)"
proof -
  note w = with_table_facts [OF sm td fr ab s1]
  show ?thesis
    using w(3,4) by (simp add: page_table_add_absent [OF sm fr ab pal] s1 [symmetric]
        load_pte_ptr [OF w(1)] store_def translate_pte_ptr [OF w(1)])
qed



section \<open>Witnesses\<close>

lemma sample_self_mapped: "self_mapped sample_kernel"
  by (simp add: self_mapped_def sample_kernel_def page_frame_def present_def)

lemma sample_present: "present (pde_of sample_kernel v) \<longleftrightarrow> PDE_IDX v = 1023"
proof -
  have "page_frame 0x100000 + PDE_IDX v * 4 = page_frame 0x100000 + 1023 * 4 \<longleftrightarrow> PDE_IDX v = 1023"
    by (subst entry_inj) (simp_all add: PDE_IDX_small)
  then show ?thesis by (simp add: pde_of_def sample_kernel_def present_def page_frame_def)
qed

lemma sample_tables: "tables_disjoint sample_kernel"
  by (simp add: tables_disjoint_def sample_present)

lemma sample_palloc:
  "palloc (kernel_pool sample_kernel) =
    Some ((kernel_pool sample_kernel)\<lparr>pool_bitmap := \<lparr>btmp_bytes_len = 1, bits = [1, 0]\<rparr>\<rparr>, 0x200000)"
  by code_simp

lemma sample_fresh: "fresh_frame sample_kernel 0x200000"
proof -
  have "page_frame (pde_of sample_kernel v) = 0x100000" if "PDE_IDX v = 1023" for v
    using that by (simp add: pde_of_def sample_kernel_def page_frame_def)
  then show ?thesis by (auto simp: fresh_frame_def sample_present page_frame_def)
qed

lemma sample_unmapped: "translate sample_kernel 0xc0100000 = None"
  by (simp add: translate_def sample_present PDE_IDX_def)


definition sample_mapped :: kernel where
  "sample_mapped = sample_kernel\<lparr>phys := (phys sample_kernel)(0x100c00 := 0x101007, 0x101400 := 0x208007)\<rparr>"

lemma addr_v2p_correct_witness: "addr_v2p sample_mapped 0xc0100123 = Some 0x208123"
  by (rule addr_v2p_correct) (code_simp, code_simp)

lemma page_table_pte_remove_unmaps_witness:
  "\<exists>s'. page_table_pte_remove sample_mapped 0xc0100000 = Some s' \<and> translate s' 0xc0100000 = None"
proof -
  have p: "pde_of sample_mapped v = (if PDE_IDX v = 768 then 0x101007 else if PDE_IDX v = 1023 then 0x100007 else 0)" for v
  proof -
    have "page_frame 0x100000 + PDE_IDX v * 4 = page_frame 0x100000 + 768 * 4 \<longleftrightarrow> PDE_IDX v = 768"
      "page_frame 0x100000 + PDE_IDX v * 4 = page_frame 0x100000 + 1023 * 4 \<longleftrightarrow> PDE_IDX v = 1023"
      "page_frame 0x100000 + PDE_IDX v * 4 = page_frame 0x101000 + 256 * 4 \<longleftrightarrow> False"
      by (subst entry_inj; simp add: PDE_IDX_small page_frame_def)+
    then show ?thesis by (simp add: pde_of_def sample_mapped_def sample_kernel_def page_frame_def)
  qed
  have "self_mapped sample_mapped" by code_simp
  moreover have "tables_disjoint sample_mapped"
    unfolding tables_disjoint_def p by (simp add: present_def page_frame_def)
  moreover have "PDE_IDX 0xc0100000 \<noteq> 1023" "translate sample_mapped 0xc0100000 = Some 0x208000" by code_simp+
  ultimately show ?thesis using page_table_pte_remove_unmaps [of sample_mapped "0xc0100000" "0x208000"] by blast
qed

end
