(* ===== verification/Sched.thy ===== *)
theory Sched
  imports Paging
begin

text \<open>
  The scheduler: \<open>schedule\<close>, \<open>thread_block\<close>, \<open>thread_unblock\<close>, \<open>thread_yield\<close> of
  \<^verbatim>\<open>thread/thread.c\<close> and the timer interrupt of \<^verbatim>\<open>device/timer.c\<close>.

  \<open>switch_to\<close> (\<^verbatim>\<open>thread/switch.asm\<close>) exchanges the kernel stacks: in the model the field
  \<open>running\<close> changes.  What a thread does once it is switched back to belongs to a second function:
  \<open>thread_block\<close> and \<open>thread_yield\<close> return the state at the switch together with \<open>old_status\<close>, which
  the thread keeps on its stack, and \<open>thread_resume\<close> is the rest of their bodies.
\<close>

section \<open>Operations\<close>

definition may_unblock :: "task_status \<Rightarrow> bool" where
  "may_unblock st \<longleftrightarrow> st = TASK_BLOCKED \<or> st = TASK_WAITING \<or> st = TASK_HANGING"

definition switch_to :: "kernel \<Rightarrow> u32 \<Rightarrow> kernel" where
  "switch_to s nxt = s\<lparr>running := nxt\<rparr>"

definition thread_unblock :: "u32 \<Rightarrow> kernel \<Rightarrow> kernel option" where
  "thread_unblock pthread s = do {
     let (s, old_status) = intr_disable s;
     ASSERT (may_unblock (status (tasks s pthread)));
     s \<leftarrow> (if status (tasks s pthread) \<noteq> TASK_READY then do {
             ASSERT (pthread \<notin> set (thread_ready_list s));
             let s = s\<lparr>thread_ready_list := pthread # thread_ready_list s\<rparr>;
             Some (upd_task pthread (\<lambda>p. p\<lparr>status := TASK_READY\<rparr>) s)
           } else Some s);
     Some (fst (intr_set_status s old_status))
   }"

definition requeue_current :: "kernel \<Rightarrow> kernel option" where
  "requeue_current s = do {
     let cur = running_thread s;
     if status (tasks s cur) = TASK_RUNNING then do {
       ASSERT (cur \<notin> set (thread_ready_list s));
       let s = s\<lparr>thread_ready_list := thread_ready_list s @ [cur]\<rparr>;
       Some (upd_task cur (\<lambda>p. p\<lparr>ticks := priority p, status := TASK_READY\<rparr>) s)
     } else Some s
   }"

definition schedule :: "kernel \<Rightarrow> kernel option" where
  "schedule s = do {
     ASSERT (intr_get_status s = INTR_OFF);
     s \<leftarrow> requeue_current s;
     s \<leftarrow> (if thread_ready_list s = [] then thread_unblock (idle_thread s) s else Some s);
     (case thread_ready_list s of
        [] \<Rightarrow> None
      | nxt # rest \<Rightarrow> do {
          let s = s\<lparr>thread_ready_list := rest\<rparr>;
          let s = upd_task nxt (\<lambda>p. p\<lparr>status := TASK_RUNNING\<rparr>) s;
          s \<leftarrow> process_activate s nxt;
          Some (switch_to s nxt)
        })
   }"

definition thread_block :: "task_status \<Rightarrow> kernel \<Rightarrow> (kernel \<times> intr_status) option" where
  "thread_block stat s = do {
     ASSERT (may_unblock stat);
     let (s, old_status) = intr_disable s;
     let s = upd_task (running_thread s) (\<lambda>p. p\<lparr>status := stat\<rparr>) s;
     s \<leftarrow> schedule s;
     Some (s, old_status)
   }"

definition thread_yield :: "kernel \<Rightarrow> (kernel \<times> intr_status) option" where
  "thread_yield s = do {
     let cur = running_thread s;
     let (s, old_status) = intr_disable s;
     ASSERT (cur \<notin> set (thread_ready_list s));
     let s = s\<lparr>thread_ready_list := thread_ready_list s @ [cur]\<rparr>;
     let s = upd_task cur (\<lambda>p. p\<lparr>status := TASK_READY\<rparr>) s;
     s \<leftarrow> schedule s;
     Some (s, old_status)
   }"

definition thread_resume :: "intr_status \<Rightarrow> kernel \<Rightarrow> kernel" where
  "thread_resume old_status s = fst (intr_set_status s old_status)"

text \<open>
  \<open>kernel_thread\<close> is where a new thread starts.  One turn of the loop in \<open>idle\<close>: the thread blocks, and
  when it is scheduled again it leaves \<open>thread_block\<close> and halts with interrupts on until the next one.
\<close>

definition kernel_thread :: "('a \<Rightarrow> kernel \<Rightarrow> 'b) \<Rightarrow> 'a \<Rightarrow> kernel \<Rightarrow> 'b" where
  "kernel_thread function func_arg s = function func_arg (fst (intr_enable s))"

definition idle_block :: "kernel \<Rightarrow> (kernel \<times> intr_status) option" where
  "idle_block s = thread_block TASK_BLOCKED s"

definition idle_halt :: "intr_status \<Rightarrow> kernel \<Rightarrow> kernel" where
  "idle_halt old_status s = sti (thread_resume old_status s)"

definition intr_timer_handler :: "kernel \<Rightarrow> kernel option" where
  "intr_timer_handler s = do {
     let cur_thread = running_thread s;
     ASSERT (stack_magic (tasks s cur_thread) = STACK_MAGIC);
     let s = upd_task cur_thread (\<lambda>p. p\<lparr>elapsed_ticks := elapsed_ticks p + 1\<rparr>) s;
     let s = s\<lparr>total_ticks := total_ticks s + 1\<rparr>;
     if ticks (tasks s cur_thread) = 0 then schedule s
     else Some (upd_task cur_thread (\<lambda>p. p\<lparr>ticks := ticks p - 1\<rparr>) s)
   }"


section \<open>The invariant of the queues\<close>

text \<open>
  The ready list holds exactly the \<open>TASK_READY\<close> threads, each once, and no thread but the running one
  is \<open>TASK_RUNNING\<close>; \<open>sched_inv\<close> adds that the running thread is.
\<close>

definition queues_ok :: "kernel \<Rightarrow> bool" where
  "queues_ok s \<longleftrightarrow>
     distinct (thread_ready_list s) \<and> distinct (thread_all_list s) \<and>
     set (thread_ready_list s) = {t \<in> set (thread_all_list s). status (tasks s t) = TASK_READY} \<and>
     (\<forall>t \<in> set (thread_all_list s). t \<noteq> running s \<longrightarrow> status (tasks s t) \<noteq> TASK_RUNNING) \<and>
     running s \<in> set (thread_all_list s) \<and> idle_thread s \<in> set (thread_all_list s)"

definition sched_inv :: "kernel \<Rightarrow> bool" where
  "sched_inv s \<longleftrightarrow> queues_ok s \<and> status (tasks s (running s)) = TASK_RUNNING"

lemma queues_okD:
  assumes "queues_ok s"
  shows "distinct (thread_ready_list s)" "distinct (thread_all_list s)"
    "t \<in> set (thread_ready_list s) \<longleftrightarrow> t \<in> set (thread_all_list s) \<and> status (tasks s t) = TASK_READY"
    "t \<in> set (thread_all_list s) \<Longrightarrow> status (tasks s t) = TASK_RUNNING \<Longrightarrow> t = running s"
    "running s \<in> set (thread_all_list s)" "idle_thread s \<in> set (thread_all_list s)"
  using assms unfolding queues_ok_def by blast+

lemma queues_ok_cong:
  assumes "thread_ready_list s' = thread_ready_list s" "thread_all_list s' = thread_all_list s"
    "\<And>t. status (tasks s' t) = status (tasks s t)" "running s' = running s" "idle_thread s' = idle_thread s"
  shows "queues_ok s' \<longleftrightarrow> queues_ok s" and "sched_inv s' \<longleftrightarrow> sched_inv s"
  unfolding sched_inv_def queues_ok_def assms by simp_all

lemma queues_ok_intr [simp]:
  "queues_ok (fst (intr_disable s)) \<longleftrightarrow> queues_ok s"
  "queues_ok (fst (intr_set_status s st)) \<longleftrightarrow> queues_ok s"
  "sched_inv (fst (intr_disable s)) \<longleftrightarrow> sched_inv s"
  "sched_inv (fst (intr_set_status s st)) \<longleftrightarrow> sched_inv s"
  by (rule queues_ok_cong; simp)+

lemma process_activate_frame:
  assumes "process_activate s t = Some s'"
  shows "tasks s' = tasks s" "running s' = running s" "thread_ready_list s' = thread_ready_list s"
    "thread_all_list s' = thread_all_list s" "idle_thread s' = idle_thread s" "locks s' = locks s"
    "eflags s' = eflags s" "main_thread s' = main_thread s"
  using assms
  by (auto simp: process_activate_def page_dir_activate_def update_tss_esp_def bind_Some_iff split: if_splits)

lemma process_activate_kernel:
  "t \<noteq> 0 \<Longrightarrow> pgdir (tasks s t) = 0 \<Longrightarrow> process_activate s t = Some (s\<lparr>cr3 := 0x100000\<rparr>)"
  by (simp add: process_activate_def page_dir_activate_def)

text \<open>\<open>thread_unblock\<close> in one equation.\<close>

lemma thread_unblock_Some:
  "thread_unblock t s = Some s' \<longleftrightarrow>
     may_unblock (status (tasks s t)) \<and> t \<notin> set (thread_ready_list s) \<and>
     s' = upd_task t (\<lambda>p. p\<lparr>status := TASK_READY\<rparr>) (s\<lparr>thread_ready_list := t # thread_ready_list s\<rparr>)"
proof -
  let ?f = "\<lambda>s :: kernel. upd_task t (\<lambda>p. p\<lparr>status := TASK_READY\<rparr>) (s\<lparr>thread_ready_list := t # thread_ready_list s\<rparr>)"
  have c: "fst (intr_set_status (?f (fst (intr_disable s))) (snd (intr_disable s))) = ?f s"
    by (rule critical_section) (simp add: upd_task_def)
  have r: "may_unblock (status (tasks s t)) \<Longrightarrow> status (tasks s t) \<noteq> TASK_READY"
    by (auto simp: may_unblock_def)
  show ?thesis
    using c r unfolding thread_unblock_def Let_def case_prod_beta
    by (simp add: case_prod_beta) auto
qed

lemma thread_unblock_queues:
  assumes "queues_ok s" and "t \<in> set (thread_all_list s)" and "thread_unblock t s = Some s'"
  shows "queues_ok s'"
  using assms by (auto simp: thread_unblock_Some queues_ok_def may_unblock_def)



section \<open>What \<open>schedule\<close> does\<close>

definition run_queue :: "kernel \<Rightarrow> u32 list" where
  "run_queue s =
     (let q = thread_ready_list s @
        (if status (tasks s (running s)) = TASK_RUNNING then [running s] else [])
      in if q = [] then [idle_thread s] else q)"

text \<open>A thread's PCB after it was taken off the processor or put on it.\<close>

definition switched :: "kernel \<Rightarrow> u32 \<Rightarrow> u32 \<Rightarrow> task_struct" where
  "switched s nxt t =
     (let p = tasks s t;
          p = (if t = running s \<and> status p = TASK_RUNNING then p\<lparr>ticks := priority p, status := TASK_READY\<rparr> else p)
      in if t = nxt then p\<lparr>status := TASK_RUNNING\<rparr> else p)"

lemma schedule_Some_iff:
  "schedule s = Some s' \<longleftrightarrow>
     intr_get_status s = INTR_OFF \<and>
     (status (tasks s (running s)) = TASK_RUNNING \<longrightarrow> running s \<notin> set (thread_ready_list s)) \<and>
     (thread_ready_list s = [] \<longrightarrow> status (tasks s (running s)) \<noteq> TASK_RUNNING \<longrightarrow>
        may_unblock (status (tasks s (idle_thread s)))) \<and>
     (\<exists>u. process_activate (s\<lparr>thread_ready_list := tl (run_queue s),
            tasks := switched s (hd (run_queue s))\<rparr>) (hd (run_queue s)) = Some u \<and>
        s' = u\<lparr>running := hd (run_queue s)\<rparr>)"
proof -
  consider (run) "status (tasks s (running s)) = TASK_RUNNING"
    | (idle) "status (tasks s (running s)) \<noteq> TASK_RUNNING" "thread_ready_list s = []"
    | (other) n q where "status (tasks s (running s)) \<noteq> TASK_RUNNING" "thread_ready_list s = n # q"
    by (cases "thread_ready_list s") auto
  then show ?thesis
  proof cases
    case run
    then obtain n q where q: "thread_ready_list s @ [running s] = n # q" by (cases "thread_ready_list s @ [running s]") auto
    have sw: "(tasks s)(running s := (tasks s (running s))\<lparr>ticks := priority (tasks s (running s)), status := TASK_READY\<rparr>,
       n := ((tasks s)(running s := (tasks s (running s))\<lparr>ticks := priority (tasks s (running s)), status := TASK_READY\<rparr>)) n
         \<lparr>status := TASK_RUNNING\<rparr>) = switched s n"
      using run by (auto simp: switched_def fun_eq_iff Let_def)
    show ?thesis
      using run q sw
      by (auto simp: schedule_def requeue_current_def running_thread_def run_queue_def bind_Some_iff
          switch_to_def upd_task_def Let_def)
  next
    case idle
    have sw: "(tasks s)(idle_thread s := (tasks s (idle_thread s))\<lparr>status := TASK_RUNNING\<rparr>) = switched s (idle_thread s)"
      using idle by (auto simp: switched_def fun_eq_iff Let_def)
    show ?thesis
      using idle sw
      by (auto simp: schedule_def requeue_current_def running_thread_def run_queue_def bind_Some_iff
          switch_to_def upd_task_def thread_unblock_Some Let_def)
  next
    case other
    have sw: "(tasks s)(n := (tasks s n)\<lparr>status := TASK_RUNNING\<rparr>) = switched s n"
      using other by (auto simp: switched_def fun_eq_iff Let_def)
    show ?thesis
      using other sw
      by (auto simp: schedule_def requeue_current_def running_thread_def run_queue_def bind_Some_iff
          switch_to_def upd_task_def Let_def)
  qed
qed

lemma schedule_frame:
  assumes "schedule s = Some s'"
  shows "running s' = hd (run_queue s)" "thread_ready_list s' = tl (run_queue s)"
    "tasks s' = switched s (hd (run_queue s))" "thread_all_list s' = thread_all_list s"
    "idle_thread s' = idle_thread s" "locks s' = locks s" "eflags s' = eflags s"
  using assms by (auto simp: schedule_Some_iff dest: process_activate_frame)

lemma run_queue_ne [simp]: "run_queue s \<noteq> []"
  by (simp add: run_queue_def Let_def)

lemma run_queue_ok:
  assumes "queues_ok s"
  shows "distinct (run_queue s)" "set (run_queue s) \<subseteq> set (thread_all_list s)"
  using queues_okD(1,3,5,6) [OF assms] by (auto simp: run_queue_def Let_def)

lemma schedule_inv:
  assumes "queues_ok s" and "schedule s = Some s'"
  shows "sched_inv s'"
proof -
  note f = schedule_frame [OF assms(2)] and q = run_queue_ok [OF assms(1)] and k = queues_okD [OF assms(1)]
  obtain n r where nr: "run_queue s = n # r" by (cases "run_queue s") auto
  have n: "n \<in> set (thread_all_list s)" using q(2) nr by simp
  have st: "status (switched s n t) = (if t = n then TASK_RUNNING
      else if t = running s \<and> status (tasks s t) = TASK_RUNNING then TASK_READY else status (tasks s t))" for t
    by (auto simp: switched_def Let_def)
  have "t \<in> set r \<longleftrightarrow> t \<in> set (thread_all_list s) \<and> status (switched s n t) = TASK_READY" for t
  proof (cases "t = n")
    case True
    then show ?thesis using q(1) nr by (simp add: st)
  next
    case False
    then have "t \<in> set r \<longleftrightarrow> t \<in> set (run_queue s)" by (simp add: nr)
    also have "\<dots> \<longleftrightarrow> t \<in> set (thread_ready_list s) \<or> (t = running s \<and> status (tasks s t) = TASK_RUNNING)"
    proof (cases "thread_ready_list s = [] \<and> status (tasks s (running s)) \<noteq> TASK_RUNNING")
      case True
      then show ?thesis using False nr by (auto simp: run_queue_def)
    next
      case b: False
      then show ?thesis by (auto simp: run_queue_def Let_def)
    qed
    finally show ?thesis using k(3) [of t] k(5) False by (auto simp: st)
  qed
  moreover have "t = n" if "t \<in> set (thread_all_list s)" "status (switched s n t) = TASK_RUNNING" for t
    using that k(4) [of t] by (auto simp: st split: if_splits)
  ultimately show ?thesis
    unfolding sched_inv_def queues_ok_def f nr list.sel using q(1) nr k(2,6) n st [of n] by auto
qed


lemma upd_status_queues:
  assumes "queues_ok s" "status (tasks s (running s)) = TASK_RUNNING" "st \<noteq> TASK_READY" "st \<noteq> TASK_RUNNING"
  shows "queues_ok (upd_task (running s) (\<lambda>p. p\<lparr>status := st\<rparr>) s)"
  using assms unfolding queues_ok_def by auto

lemma yield_queues:
  assumes "queues_ok s" "status (tasks s (running s)) = TASK_RUNNING"
  shows "queues_ok (upd_task (running s) (\<lambda>p. p\<lparr>status := TASK_READY\<rparr>)
    (s\<lparr>thread_ready_list := thread_ready_list s @ [running s]\<rparr>))"
  using assms unfolding queues_ok_def by auto

lemma running_not_ready: "sched_inv s \<Longrightarrow> running s \<notin> set (thread_ready_list s)"
  using queues_okD(3) [of s "running s"] by (auto simp: sched_inv_def)

text \<open>\<open>thread_block\<close> in one equation: what it hands to \<open>schedule\<close>.\<close>

lemma thread_block_Some:
  "thread_block st s = Some (s', old) \<longleftrightarrow>
     may_unblock st \<and> old = intr_get_status s \<and>
     schedule (upd_task (running s) (\<lambda>p. p\<lparr>status := st\<rparr>) (fst (intr_disable s))) = Some s'"
  by (auto simp: thread_block_def bind_Some_iff running_thread_def case_prod_beta Let_def snd_intr_disable
      fst_intr_disable)

lemma thread_block_inv:
  assumes "sched_inv s" and "thread_block st s = Some (s', old)"
  shows "sched_inv s'"
proof -
  have "queues_ok (upd_task (running s) (\<lambda>p. p\<lparr>status := st\<rparr>) (fst (intr_disable s)))"
    using upd_status_queues [of "fst (intr_disable s)" st] assms
    by (auto simp: sched_inv_def thread_block_Some may_unblock_def)
  then show ?thesis using assms(2) unfolding thread_block_Some by (blast intro: schedule_inv)
qed

lemma thread_unblock_inv:
  assumes "sched_inv s" "t \<in> set (thread_all_list s)" "thread_unblock t s = Some s'"
  shows "sched_inv s'"
proof -
  have "status (tasks s (running s)) = TASK_RUNNING" "may_unblock (status (tasks s t))"
    using assms(1,3) by (auto simp: sched_inv_def thread_unblock_Some)
  then have "t \<noteq> running s" by (auto simp: may_unblock_def)
  then show ?thesis
    using assms thread_unblock_queues [OF _ assms(2,3)] by (auto simp: sched_inv_def thread_unblock_Some)
qed

lemma thread_yield_inv:
  assumes "sched_inv s" and "thread_yield s = Some (s', old)"
  shows "sched_inv s'"
proof -
  let ?d = "fst (intr_disable s)"
  have "queues_ok (upd_task (running ?d) (\<lambda>p. p\<lparr>status := TASK_READY\<rparr>)
    (?d\<lparr>thread_ready_list := thread_ready_list ?d @ [running ?d]\<rparr>))"
    using yield_queues [of ?d] assms(1) by (simp add: sched_inv_def)
  moreover have "schedule (upd_task (running ?d) (\<lambda>p. p\<lparr>status := TASK_READY\<rparr>)
    (?d\<lparr>thread_ready_list := thread_ready_list ?d @ [running ?d]\<rparr>)) = Some s'"
    using assms(2) by (auto simp: thread_yield_def running_thread_def case_prod_beta Let_def bind_Some_iff split: if_splits)
  ultimately show ?thesis by (rule schedule_inv)
qed

lemma timer_Some:
  assumes "intr_timer_handler s = Some s'"
  defines "s1 \<equiv> (upd_task (running s) (\<lambda>p. p\<lparr>elapsed_ticks := elapsed_ticks p + 1\<rparr>) s)\<lparr>total_ticks := total_ticks s + 1\<rparr>"
  shows "s' = upd_task (running s) (\<lambda>p. p\<lparr>ticks := ticks p - 1\<rparr>) s1 \<or> schedule s1 = Some s'"
  using assms by (auto simp: intr_timer_handler_def running_thread_def Let_def split: if_splits)

lemma timer_inv:
  assumes "sched_inv s" and "intr_timer_handler s = Some s'"
  shows "sched_inv s'"
proof -
  let ?s1 = "(upd_task (running s) (\<lambda>p. p\<lparr>elapsed_ticks := elapsed_ticks p + 1\<rparr>) s)\<lparr>total_ticks := total_ticks s + 1\<rparr>"
  have "sched_inv ?s1 \<longleftrightarrow> sched_inv s" by (rule queues_ok_cong) simp_all
  moreover have "sched_inv (upd_task (running s) (\<lambda>p. p\<lparr>ticks := ticks p - 1\<rparr>) ?s1) \<longleftrightarrow> sched_inv ?s1"
    by (rule queues_ok_cong) simp_all
  ultimately show ?thesis
    using timer_Some [OF assms(2)] assms(1) schedule_inv [of ?s1 s'] unfolding sched_inv_def by blast
qed

text \<open>
  C3. Every scheduler operation keeps the queues consistent: the ready list holds exactly the
  ready threads, without repetition, and exactly the running thread is marked running.
\<close>

theorem scheduler_invariant:
  assumes "sched_inv s"
  shows "(\<forall>s'. intr_timer_handler s = Some s' \<longrightarrow> sched_inv s') \<and>
    (\<forall>st s' old. thread_block st s = Some (s', old) \<longrightarrow> sched_inv s') \<and>
    (\<forall>s' old. thread_yield s = Some (s', old) \<longrightarrow> sched_inv s') \<and>
    (\<forall>t s'. t \<in> set (thread_all_list s) \<longrightarrow> thread_unblock t s = Some s' \<longrightarrow> sched_inv s')"
  using timer_inv [OF assms] thread_block_inv [OF assms] thread_yield_inv [OF assms]
    thread_unblock_inv [OF assms] by blast


section \<open>Round robin\<close>

text \<open>\<open>slices n\<close>: \<open>n\<close> times the running thread uses up its time slice.\<close>

fun slices :: "nat \<Rightarrow> kernel \<Rightarrow> kernel option" where
  "slices 0 s = Some s"
| "slices (Suc n) s = do { s \<leftarrow> schedule s; slices n s }"

definition kernel_threads :: "kernel \<Rightarrow> bool" where
  "kernel_threads s \<longleftrightarrow> (\<forall>t \<in> set (thread_all_list s). t \<noteq> 0 \<and> pgdir (tasks s t) = 0)"

lemma schedule_rotates:
  assumes inv: "sched_inv s" and off: "intr_get_status s = INTR_OFF" and kt: "kernel_threads s"
  obtains s' where "schedule s = Some s'" "sched_inv s'" "intr_get_status s' = INTR_OFF" "kernel_threads s'"
    "running s' # thread_ready_list s' = thread_ready_list s @ [running s]"
proof -
  have q: "run_queue s = thread_ready_list s @ [running s]"
    using inv by (simp add: run_queue_def sched_inv_def)
  have hd: "hd (run_queue s) \<in> set (thread_all_list s)"
    using run_queue_ok(2) [of s] inv hd_in_set [OF run_queue_ne, of s] unfolding sched_inv_def by blast
  have pg: "pgdir (switched s n t) = pgdir (tasks s t)" for n t by (simp add: switched_def Let_def)
  have "\<exists>s'. schedule s = Some s'"
    unfolding schedule_Some_iff using off running_not_ready [OF inv] hd kt inv
    by (subst process_activate_kernel) (auto simp: pg kernel_threads_def sched_inv_def)
  then obtain s' where s': "schedule s = Some s'" ..
  note f = schedule_frame [OF s']
  show thesis
  proof
    show "schedule s = Some s'" by (rule s')
    show "sched_inv s'" using schedule_inv [OF _ s'] inv by (simp add: sched_inv_def)
    show "intr_get_status s' = INTR_OFF" using off by (simp add: intr_get_status_def f)
    show "kernel_threads s'" using kt by (simp add: kernel_threads_def f pg)
    show "running s' # thread_ready_list s' = thread_ready_list s @ [running s]"
      unfolding f q [symmetric] by simp
  qed
qed

text \<open>
  The idle thread blocks as soon as it runs.  With no other thread ready it is the one that \<open>schedule\<close> picks
  again; otherwise the first ready thread runs and the idle thread stays blocked.
\<close>

lemma idle_block_next:
  assumes inv: "sched_inv s" and kt: "kernel_threads s" and me: "running s = idle_thread s"
  obtains s' where "idle_block s = Some (s', intr_get_status s)" "sched_inv s'"
    "running s' # thread_ready_list s' = (if thread_ready_list s = [] then [idle_thread s] else thread_ready_list s)"
proof -
  let ?u = "upd_task (running s) (\<lambda>p. p\<lparr>status := TASK_BLOCKED\<rparr>) (fst (intr_disable s))"
  have nr: "running s \<notin> set (thread_ready_list s)" by (rule running_not_ready [OF inv])
  have u: "queues_ok ?u" using inv nr by (auto simp: sched_inv_def queues_ok_def)
  have q: "run_queue ?u = (if thread_ready_list s = [] then [idle_thread s] else thread_ready_list s)"
    by (simp add: run_queue_def Let_def)
  have mem: "hd (run_queue ?u) \<in> set (thread_all_list s)"
    using run_queue_ok(2) [OF u] hd_in_set [OF run_queue_ne, of ?u] by auto
  have "intr_get_status ?u = INTR_OFF" using intr_disable_off [of s] by (simp add: intr_get_status_def)
  then have "\<exists>s'. schedule ?u = Some s'"
    unfolding schedule_Some_iff using mem kt me
    by (subst process_activate_kernel) (auto simp: switched_def Let_def kernel_threads_def may_unblock_def)
  then obtain s' where s': "schedule ?u = Some s'" ..
  note f = schedule_frame [OF s']
  show thesis
  proof
    show "idle_block s = Some (s', intr_get_status s)"
      using s' by (simp add: idle_block_def thread_block_def may_unblock_def running_thread_def Let_def case_prod_beta snd_intr_disable)
    show "sched_inv s'" by (rule schedule_inv [OF u s'])
    show "running s' # thread_ready_list s' = (if thread_ready_list s = [] then [idle_thread s] else thread_ready_list s)"
      unfolding f q [symmetric] by simp
  qed
qed

lemma slices_rotate:
  assumes "sched_inv s" "intr_get_status s = INTR_OFF" "kernel_threads s"
  shows "\<exists>s'. slices n s = Some s' \<and> running s' # thread_ready_list s' = rotate n (running s # thread_ready_list s)"
  using assms
proof (induction n arbitrary: s)
  case (Suc n)
  obtain u where u: "schedule s = Some u" "sched_inv u" "intr_get_status u = INTR_OFF" "kernel_threads u"
    "running u # thread_ready_list u = thread_ready_list s @ [running s]"
    using schedule_rotates [OF Suc.prems] by blast
  have "running u # thread_ready_list u = rotate1 (running s # thread_ready_list s)" using u(5) by simp
  then show ?case using Suc.IH [OF u(2-4)] u(1) by (auto simp: rotate1_rotate_swap)
qed simp




section \<open>Time slices\<close>

fun timer_interrupts :: "nat \<Rightarrow> kernel \<Rightarrow> kernel option" where
  "timer_interrupts 0 s = Some s"
| "timer_interrupts (Suc n) s = do { s \<leftarrow> intr_timer_handler s; timer_interrupts n s }"

lemma timer_counts_down:
  assumes "stack_magic (tasks s (running s)) = STACK_MAGIC" and "n \<le> unat (ticks (tasks s (running s)))"
  shows "\<exists>s'. timer_interrupts n s = Some s' \<and> running s' = running s \<and>
    thread_ready_list s' = thread_ready_list s \<and> eflags s' = eflags s \<and>
    total_ticks s' = total_ticks s + of_nat n \<and> thread_all_list s' = thread_all_list s \<and>
    (\<forall>t. t \<noteq> running s \<longrightarrow> tasks s' t = tasks s t) \<and>
    tasks s' (running s) = (tasks s (running s))\<lparr>ticks := ticks (tasks s (running s)) - of_nat n,
       elapsed_ticks := elapsed_ticks (tasks s (running s)) + of_nat n\<rparr>"
  using assms
proof (induction n arbitrary: s)
  case 0
  then show ?case by simp
next
  case (Suc n)
  let ?p = "tasks s (running s)"
  define u where "u = upd_task (running s) (\<lambda>p. p\<lparr>ticks := ticks p - 1\<rparr>)
     ((upd_task (running s) (\<lambda>p. p\<lparr>elapsed_ticks := elapsed_ticks p + 1\<rparr>) s)\<lparr>total_ticks := total_ticks s + 1\<rparr>)"
  have nz: "ticks ?p \<noteq> 0" using Suc.prems(2) by auto
  then have h: "intr_timer_handler s = Some u"
    using Suc.prems(1) by (simp add: intr_timer_handler_def running_thread_def u_def Let_def)
  have p: "tasks u (running s) = ?p\<lparr>ticks := ticks ?p - 1, elapsed_ticks := elapsed_ticks ?p + 1\<rparr>"
    by (simp add: u_def)
  have r: "running u = running s" by (simp add: u_def)
  have "unat (ticks ?p - 1) = unat (ticks ?p) - 1" using nz by (simp add: unat_minus_one)
  then have "n \<le> unat (ticks (tasks u (running u)))" using Suc.prems(2) p r by simp
  moreover have "stack_magic (tasks u (running u)) = STACK_MAGIC" using Suc.prems(1) p r by simp
  ultimately obtain s' where "timer_interrupts n u = Some s'" "running s' = running u"
    "thread_ready_list s' = thread_ready_list u" "eflags s' = eflags u"
    "total_ticks s' = total_ticks u + of_nat n" "thread_all_list s' = thread_all_list u"
    "\<forall>t. t \<noteq> running u \<longrightarrow> tasks s' t = tasks u t"
    "tasks s' (running u) = (tasks u (running u))\<lparr>ticks := ticks (tasks u (running u)) - of_nat n,
       elapsed_ticks := elapsed_ticks (tasks u (running u)) + of_nat n\<rparr>"
    using Suc.IH [of u] by blast
  then show ?case using h p r by (auto simp: u_def algebra_simps)
qed



section \<open>Witnesses\<close>

definition sample_sched :: kernel where
  "sample_sched = sample_kernel\<lparr>eflags := 0,
     tasks := (\<lambda>_. sample_task)(0x9e000 := sample_task\<lparr>status := TASK_RUNNING\<rparr>,
       0x9f000 := sample_task\<lparr>status := TASK_BLOCKED\<rparr>),
     thread_ready_list := [0xa0000, 0xa1000], thread_all_list := [0x9e000, 0x9f000, 0xa0000, 0xa1000]\<rparr>"

lemma sample_sched_inv: "sched_inv sample_sched" "intr_get_status sample_sched = INTR_OFF" "kernel_threads sample_sched"
  by (auto simp: sched_inv_def queues_ok_def sample_sched_def sample_kernel_def sample_task_def
      intr_get_status_def kernel_threads_def)

lemma scheduler_invariant_witness:
  "\<exists>s'. thread_block TASK_BLOCKED sample_sched = Some (s', INTR_OFF) \<and> sched_inv s' \<and> running s' = 0xa0000"
proof -
  have "map_option (\<lambda>(s', old). (running s', old)) (thread_block TASK_BLOCKED sample_sched) = Some (0xa0000, INTR_OFF)"
    by code_simp
  then obtain s' where "thread_block TASK_BLOCKED sample_sched = Some (s', INTR_OFF)" "running s' = 0xa0000" by auto
  then show ?thesis using scheduler_invariant [OF sample_sched_inv(1)] by blast
qed



end
