(* ===== verification/Sync.thy ===== *)
theory Sync
  imports Sched
begin

text \<open>
  \<^verbatim>\<open>thread/sync.c\<close>: semaphores and locks.

  \<open>sema_down\<close> either takes the semaphore (\<open>Acquired\<close>) or goes to sleep in \<open>thread_block\<close>
  (\<open>Sleeping\<close>, with the two values of \<open>old_status\<close> that the thread keeps on its stack); the rest of its
  loop is \<open>sema_down_resume\<close>.  The second half of the theory lets threads take and release locks in
  any order, interrupted by the timer wherever interrupts are on, and proves mutual exclusion and
  that no wakeup is lost.
\<close>

section \<open>Operations\<close>

definition upd_lock :: "lock_id \<Rightarrow> (lock \<Rightarrow> lock) \<Rightarrow> kernel \<Rightarrow> kernel" where
  "upd_lock l f s = s\<lparr>locks := (locks s)(l := f (locks s l))\<rparr>"

definition sema_init :: "'a semaphore_scheme \<Rightarrow> u8 \<Rightarrow> 'a semaphore_scheme" where
  "sema_init psema v = psema\<lparr>sem_value := v, waiters := []\<rparr>"

definition lock_init :: "lock \<Rightarrow> lock" where
  "lock_init plock = sema_init (plock\<lparr>holder := 0, holder_repeat_nr := 0\<rparr>) 1"

datatype sema_result =
    Acquired kernel
  | Sleeping kernel intr_status intr_status

definition sema_down_loop :: "lock_id \<Rightarrow> intr_status \<Rightarrow> kernel \<Rightarrow> sema_result option" where
  "sema_down_loop l old_status s =
     (if sem_value (locks s l) = 0 then do {
        ASSERT (running_thread s \<notin> set (waiters (locks s l)));
        let s = upd_lock l (\<lambda>k. k\<lparr>waiters := waiters k @ [running_thread s]\<rparr>) s;
        (s, block_status) \<leftarrow> thread_block TASK_BLOCKED s;
        Some (Sleeping s old_status block_status)
      } else do {
        let s = upd_lock l (\<lambda>k. k\<lparr>sem_value := sem_value k - 1\<rparr>) s;
        ASSERT (sem_value (locks s l) = 0);
        Some (Acquired (fst (intr_set_status s old_status)))
      })"

definition sema_down :: "lock_id \<Rightarrow> kernel \<Rightarrow> sema_result option" where
  "sema_down l s = (let (s, old_status) = intr_disable s in sema_down_loop l old_status s)"

definition sema_down_resume :: "lock_id \<Rightarrow> intr_status \<Rightarrow> intr_status \<Rightarrow> kernel \<Rightarrow> sema_result option" where
  "sema_down_resume l old_status block_status s = sema_down_loop l old_status (thread_resume block_status s)"

definition sema_up :: "lock_id \<Rightarrow> kernel \<Rightarrow> kernel option" where
  "sema_up l s = do {
     let (s, old_status) = intr_disable s;
     ASSERT (sem_value (locks s l) = 0);
     s \<leftarrow> (case waiters (locks s l) of
            [] \<Rightarrow> Some s
          | thread_blocked # rest \<Rightarrow>
              thread_unblock thread_blocked (upd_lock l (\<lambda>k. k\<lparr>waiters := rest\<rparr>) s));
     let s = upd_lock l (\<lambda>k. k\<lparr>sem_value := sem_value k + 1\<rparr>) s;
     ASSERT (sem_value (locks s l) = 1);
     Some (fst (intr_set_status s old_status))
   }"

text \<open>The body of \<open>lock_acquire\<close> behind its call of \<open>sema_down\<close>.\<close>

definition lock_acquire_got :: "lock_id \<Rightarrow> kernel \<Rightarrow> kernel option" where
  "lock_acquire_got l s = do {
     let s = upd_lock l (\<lambda>k. k\<lparr>holder := running_thread s\<rparr>) s;
     ASSERT (holder_repeat_nr (locks s l) = 0);
     Some (upd_lock l (\<lambda>k. k\<lparr>holder_repeat_nr := 1\<rparr>) s)
   }"

definition lock_acquire :: "lock_id \<Rightarrow> kernel \<Rightarrow> sema_result option" where
  "lock_acquire l s =
     (if holder (locks s l) \<noteq> running_thread s then do {
        r \<leftarrow> sema_down l s;
        (case r of
           Acquired s \<Rightarrow> do { s \<leftarrow> lock_acquire_got l s; Some (Acquired s) }
         | Sleeping s o1 o2 \<Rightarrow> Some (Sleeping s o1 o2))
      } else Some (Acquired (upd_lock l (\<lambda>k. k\<lparr>holder_repeat_nr := holder_repeat_nr k + 1\<rparr>) s)))"

text \<open>The body of \<open>lock_release\<close> in front of its call of \<open>sema_up\<close>; the flag says whether it is reached.\<close>

definition lock_release_begin :: "lock_id \<Rightarrow> kernel \<Rightarrow> (kernel \<times> bool) option" where
  "lock_release_begin l s = do {
     ASSERT (holder (locks s l) = running_thread s);
     if holder_repeat_nr (locks s l) > 1
     then Some (upd_lock l (\<lambda>k. k\<lparr>holder_repeat_nr := holder_repeat_nr k - 1\<rparr>) s, False)
     else do {
       ASSERT (holder_repeat_nr (locks s l) = 1);
       Some (upd_lock l (\<lambda>k. k\<lparr>holder := 0, holder_repeat_nr := 0\<rparr>) s, True)
     }
   }"

definition lock_release :: "lock_id \<Rightarrow> kernel \<Rightarrow> kernel option" where
  "lock_release l s = do {
     (s, up) \<leftarrow> lock_release_begin l s;
     if up then sema_up l s else Some s
   }"

text \<open>
  For the sequential parts of the kernel: the lock operation when it does not have to wait.  A
  thread that waits is not running, which is \<open>None\<close> here.
\<close>

definition lock_take :: "lock_id \<Rightarrow> kernel \<Rightarrow> kernel option" where
  "lock_take l s = do {
     r \<leftarrow> lock_acquire l s;
     (case r of Acquired s \<Rightarrow> Some s | Sleeping _ _ _ \<Rightarrow> None)
   }"


section \<open>Threads using locks\<close>

text \<open>Where a thread is inside of the lock operations.\<close>

datatype pc =
    Outside
  | Down lock_id intr_status intr_status
  | Got lock_id
  | Released lock_id

text \<open>
  \<open>preempted\<close>: the thread was interrupted by the timer, or is new, and \<open>intr_exit\<close> (or the
  \<open>intr_enable\<close> of \<open>kernel_thread\<close>) will turn interrupts on when it is dispatched.
\<close>

record sys =
  ker :: kernel
  at :: "u32 \<Rightarrow> pc"
  preempted :: "u32 \<Rightarrow> bool"

definition go :: "sys \<Rightarrow> kernel \<Rightarrow> pc \<Rightarrow> sys" where
  "go y s p = y\<lparr>ker := s, at := (at y)(running (ker y) := p)\<rparr>"

definition after_down :: "sys \<Rightarrow> lock_id \<Rightarrow> sema_result \<Rightarrow> sys" where
  "after_down y l r =
     (case r of Acquired s \<Rightarrow> go y s (Got l) | Sleeping s o1 o2 \<Rightarrow> go y s (Down l o1 o2))"

definition active :: "sys \<Rightarrow> bool" where
  "active y \<longleftrightarrow> \<not> preempted y (running (ker y)) \<and> running (ker y) \<noteq> idle_thread (ker y)"

inductive step :: "sys \<Rightarrow> sys \<Rightarrow> bool" where
  timer: "\<not> preempted y (running (ker y)) \<Longrightarrow> intr_get_status (ker y) = INTR_ON \<Longrightarrow>
    intr_timer_handler (cli (ker y)) = Some s \<Longrightarrow>
    step y (y\<lparr>ker := s, preempted := (preempted y)(running (ker y) := True)\<rparr>)"
| dispatch: "preempted y (running (ker y)) \<Longrightarrow>
    step y (y\<lparr>ker := sti (ker y), preempted := (preempted y)(running (ker y) := False)\<rparr>)"
| idle: "\<not> preempted y (running (ker y)) \<Longrightarrow> running (ker y) = idle_thread (ker y) \<Longrightarrow>
    thread_block TASK_BLOCKED (ker y) = Some (s, old) \<Longrightarrow>
    step y (y\<lparr>ker := s, preempted := (preempted y)(running (ker y) := True)\<rparr>)"
| repeat: "active y \<Longrightarrow> at y (running (ker y)) = Outside \<Longrightarrow>
    holder (locks (ker y) l) = running (ker y) \<Longrightarrow> lock_acquire l (ker y) = Some (Acquired s) \<Longrightarrow>
    step y (go y s Outside)"
| down: "active y \<Longrightarrow> at y (running (ker y)) = Outside \<Longrightarrow>
    holder (locks (ker y) l) \<noteq> running (ker y) \<Longrightarrow> sema_down l (ker y) = Some r \<Longrightarrow>
    step y (after_down y l r)"
| resume: "active y \<Longrightarrow> at y (running (ker y)) = Down l o1 o2 \<Longrightarrow>
    sema_down_resume l o1 o2 (ker y) = Some r \<Longrightarrow>
    step y (after_down y l r)"
| got: "active y \<Longrightarrow> at y (running (ker y)) = Got l \<Longrightarrow> lock_acquire_got l (ker y) = Some s \<Longrightarrow>
    step y (go y s Outside)"
| release: "active y \<Longrightarrow> at y (running (ker y)) = Outside \<Longrightarrow>
    lock_release_begin l (ker y) = Some (s, up) \<Longrightarrow>
    step y (go y s (if up then Released l else Outside))"
| up: "active y \<Longrightarrow> at y (running (ker y)) = Released l \<Longrightarrow> sema_up l (ker y) = Some s \<Longrightarrow>
    step y (go y s Outside)"


section \<open>Invariant\<close>

definition owner :: "sys \<Rightarrow> lock_id \<Rightarrow> u32 \<Rightarrow> bool" where
  "owner y l t \<longleftrightarrow> holder (locks (ker y) l) = t \<and> t \<noteq> 0 \<or> at y t = Got l \<or> at y t = Released l"

definition inside :: "sys \<Rightarrow> lock_id \<Rightarrow> u32 \<Rightarrow> bool" where
  "inside y l t \<longleftrightarrow> (\<exists>o1 o2. at y t = Down l o1 o2)"

definition runnable :: "kernel \<Rightarrow> u32 \<Rightarrow> bool" where
  "runnable s t \<longleftrightarrow> status (tasks s t) = TASK_READY \<or> status (tasks s t) = TASK_RUNNING"

definition lock_ok :: "sys \<Rightarrow> lock_id \<Rightarrow> bool" where
  "lock_ok y l \<longleftrightarrow>
     (sem_value (locks (ker y) l) = 1 \<and> (\<forall>t. \<not> owner y l t)
      \<or> sem_value (locks (ker y) l) = 0 \<and> (\<exists>!t. owner y l t)) \<and>
     (\<forall>t. at y t = Got l \<or> at y t = Released l \<longrightarrow> holder (locks (ker y) l) = 0)"

definition wait_ok :: "sys \<Rightarrow> lock_id \<Rightarrow> bool" where
  "wait_ok y l \<longleftrightarrow>
     distinct (waiters (locks (ker y) l)) \<and>
     (\<forall>t \<in> set (waiters (locks (ker y) l)). inside y l t \<and> status (tasks (ker y) t) = TASK_BLOCKED \<and>
        t \<in> set (thread_all_list (ker y))) \<and>
     (\<forall>t. inside y l t \<longrightarrow> t \<in> set (thread_all_list (ker y)) \<and>
        (t \<in> set (waiters (locks (ker y) l)) \<or> runnable (ker y) t)) \<and>
     (sem_value (locks (ker y) l) = 1 \<longrightarrow> waiters (locks (ker y) l) \<noteq> [] \<longrightarrow>
        (\<exists>t. inside y l t \<and> t \<notin> set (waiters (locks (ker y) l))))"

definition sync_inv :: "sys \<Rightarrow> bool" where
  "sync_inv y \<longleftrightarrow> sched_inv (ker y) \<and> running (ker y) \<noteq> 0 \<and> at y (idle_thread (ker y)) = Outside \<and>
     (\<forall>l. lock_ok y l) \<and> (\<forall>l. wait_ok y l)"


lemma locks_upd_lock [simp]: "locks (upd_lock l f s) l' = (if l' = l then f (locks s l) else locks s l')"
  by (simp add: upd_lock_def)

lemma upd_lock_frame [simp]:
  "running (upd_lock l f s) = running s" "thread_ready_list (upd_lock l f s) = thread_ready_list s"
  "thread_all_list (upd_lock l f s) = thread_all_list s" "idle_thread (upd_lock l f s) = idle_thread s"
  "tasks (upd_lock l f s) = tasks s" "eflags (upd_lock l f s) = eflags s"
  by (simp_all add: upd_lock_def)

lemma sched_inv_upd_lock [simp]: "sched_inv (upd_lock l f s) = sched_inv s" "queues_ok (upd_lock l f s) = queues_ok s"
  by (rule queues_ok_cong; simp)+

lemma thread_resume_frame [simp]:
  "tasks (thread_resume st s) = tasks s" "running (thread_resume st s) = running s"
  "thread_ready_list (thread_resume st s) = thread_ready_list s"
  "thread_all_list (thread_resume st s) = thread_all_list s"
  "idle_thread (thread_resume st s) = idle_thread s" "locks (thread_resume st s) = locks s"
  by (simp_all add: thread_resume_def)

text \<open>What running the scheduler preserves: sleeping threads sleep on and runnable ones stay runnable.\<close>

definition keeps :: "kernel \<Rightarrow> kernel \<Rightarrow> bool" where
  "keeps s s' \<longleftrightarrow> locks s' = locks s \<and> thread_all_list s' = thread_all_list s \<and> idle_thread s' = idle_thread s \<and>
     running s' \<noteq> 0 \<and> sched_inv s' \<and>
     (\<forall>t. t \<noteq> idle_thread s \<longrightarrow> runnable s t \<longrightarrow> runnable s' t) \<and>
     (\<forall>t. t \<noteq> idle_thread s \<longrightarrow> status (tasks s t) = TASK_BLOCKED \<longrightarrow> status (tasks s' t) = TASK_BLOCKED)"

lemma process_activate_nonzero: "process_activate s t = Some s' \<Longrightarrow> t \<noteq> 0"
  by (simp add: process_activate_def split: if_splits)

lemma schedule_keeps:
  assumes q: "queues_ok s" and r: "schedule s = Some s'"
  shows "keeps s s'"
proof -
  note f = schedule_frame [OF r]
  have n: "hd (run_queue s) = idle_thread s \<or> runnable s (hd (run_queue s))"
    using queues_okD(3) [OF q, of "hd (thread_ready_list s)"]
    by (cases "thread_ready_list s") (auto simp: run_queue_def runnable_def)
  have "running s' \<noteq> 0" using r f(1) by (auto simp: schedule_Some_iff dest: process_activate_nonzero)
  then show ?thesis
    unfolding keeps_def using f schedule_inv [OF q r] n
    by (auto simp: runnable_def switched_def Let_def split: if_splits)
qed

lemma keep_inv:
  assumes "sync_inv y" and k: "keeps (ker y) (ker y')" and a: "at y' = at y"
  shows "sync_inv y'"
proof -
  have L: "locks (ker y') = locks (ker y)" "thread_all_list (ker y') = thread_all_list (ker y)"
    "idle_thread (ker y') = idle_thread (ker y)" using k by (simp_all add: keeps_def)
  have o: "owner y' l t = owner y l t" and i: "inside y' l t = inside y l t" for l t
    by (simp_all add: owner_def inside_def L a)
  have ni: "inside y l t \<Longrightarrow> t \<noteq> idle_thread (ker y)" for l t
    using assms(1) by (auto simp: sync_inv_def inside_def)
  have "lock_ok y' l" for l using assms(1) unfolding sync_inv_def lock_ok_def o L a by blast
  moreover have "wait_ok y' l" for l
    using assms(1) k ni unfolding sync_inv_def wait_ok_def i L keeps_def by blast
  ultimately show ?thesis using assms(1) k unfolding sync_inv_def L a keeps_def by blast
qed

lemma timer_keeps:
  assumes inv: "sched_inv s" "running s \<noteq> 0" and r: "intr_timer_handler (cli s) = Some s'"
  shows "keeps s s'"
proof -
  let ?s1 = "(upd_task (running s) (\<lambda>p. p\<lparr>elapsed_ticks := elapsed_ticks p + 1\<rparr>) (cli s))\<lparr>total_ticks := total_ticks (cli s) + 1\<rparr>"
  have q1: "sched_inv ?s1 \<longleftrightarrow> sched_inv s" by (rule queues_ok_cong) simp_all
  have "s' = upd_task (running s) (\<lambda>p. p\<lparr>ticks := ticks p - 1\<rparr>) ?s1 \<or> schedule ?s1 = Some s'"
    using timer_Some [OF r] by simp
  then show ?thesis
  proof
    assume s': "s' = upd_task (running s) (\<lambda>p. p\<lparr>ticks := ticks p - 1\<rparr>) ?s1"
    have "sched_inv s' \<longleftrightarrow> sched_inv s" unfolding s' by (rule queues_ok_cong) simp_all
    then show ?thesis using inv by (simp add: keeps_def runnable_def s')
  next
    assume "schedule ?s1 = Some s'"
    then have "keeps ?s1 s'" using q1 inv by (intro schedule_keeps) (simp_all add: sched_inv_def)
    moreover have "status (tasks ?s1 t) = status (tasks s t)" for t by simp
    ultimately show ?thesis unfolding keeps_def runnable_def by simp
  qed
qed

lemma inside_upd: "inside (y\<lparr>ker := s, at := (at y)(c := p)\<rparr>) l t \<longleftrightarrow>
    (if t = c then (\<exists>o1 o2. p = Down l o1 o2) else inside y l t)"
  by (simp add: inside_def)

lemma sync_invD:
  assumes "sync_inv y"
  shows "sched_inv (ker y)" "running (ker y) \<noteq> 0" "at y (idle_thread (ker y)) = Outside" "lock_ok y l" "wait_ok y l"
    "status (tasks (ker y) (running (ker y))) = TASK_RUNNING" "queues_ok (ker y)"
    "running (ker y) \<notin> set (waiters (locks (ker y) l))"
proof -
  show "sched_inv (ker y)" "running (ker y) \<noteq> 0" "at y (idle_thread (ker y)) = Outside" "lock_ok y l" "wait_ok y l"
    "status (tasks (ker y) (running (ker y))) = TASK_RUNNING" "queues_ok (ker y)"
    using assms by (auto simp: sync_inv_def sched_inv_def)
  then show "running (ker y) \<notin> set (waiters (locks (ker y) l))" by (auto simp: wait_ok_def)
qed



section \<open>Every step keeps the invariant\<close>

text \<open>
  A step of thread \<open>c\<close> that writes only lock \<open>l\<close> leaves the other locks alone, provided that \<open>c\<close> neither
  owned nor waited for them through its program counter.
\<close>

definition only_lock :: "sys \<Rightarrow> sys \<Rightarrow> lock_id \<Rightarrow> bool" where
  "only_lock y y' l \<longleftrightarrow>
     (\<forall>l'. l' \<noteq> l \<longrightarrow> locks (ker y') l' = locks (ker y) l') \<and>
     (\<forall>t. t \<noteq> running (ker y) \<longrightarrow> at y' t = at y t) \<and>
     (at y (running (ker y)) \<in> {Outside, Got l, Released l} \<or> inside y l (running (ker y))) \<and>
     (at y' (running (ker y)) \<in> {Outside, Got l, Released l} \<or> inside y' l (running (ker y))) \<and>
     thread_all_list (ker y') = thread_all_list (ker y) \<and> idle_thread (ker y') = idle_thread (ker y) \<and>
     running (ker y) \<noteq> idle_thread (ker y) \<and>
     (\<forall>t l'. l' \<noteq> l \<longrightarrow> inside y l' t \<longrightarrow> runnable (ker y) t \<longrightarrow> runnable (ker y') t) \<and>
     (\<forall>t l'. l' \<noteq> l \<longrightarrow> inside y l' t \<longrightarrow> status (tasks (ker y) t) = TASK_BLOCKED \<longrightarrow>
        status (tasks (ker y') t) = TASK_BLOCKED)"

lemma only_lock_inv:
  assumes inv: "sync_inv y" and ol: "only_lock y y' l"
    and "sched_inv (ker y')" "running (ker y') \<noteq> 0" "lock_ok y' l" "wait_ok y' l"
  shows "sync_inv y'"
proof -
  let ?c = "running (ker y)"
  have L: "l' \<noteq> l \<Longrightarrow> locks (ker y') l' = locks (ker y) l'" for l' using ol by (simp add: only_lock_def)
  have A: "l' \<noteq> l \<Longrightarrow> at y' t = Got l' \<longleftrightarrow> at y t = Got l'" "l' \<noteq> l \<Longrightarrow> at y' t = Released l' \<longleftrightarrow> at y t = Released l'"
    "l' \<noteq> l \<Longrightarrow> inside y' l' t \<longleftrightarrow> inside y l' t" for l' t
    using ol unfolding only_lock_def inside_def by (cases "t = ?c"; auto)+
  have o: "l' \<noteq> l \<Longrightarrow> owner y' l' t = owner y l' t" for l' t by (simp add: owner_def A L)
  have K: "l' \<noteq> l \<Longrightarrow> lock_ok y' l'" for l'
    using sync_invD(4) [OF inv, of l'] by (simp add: lock_ok_def A L o)
  have W: "l' \<noteq> l \<Longrightarrow> wait_ok y' l'" for l'
    using sync_invD(5) [OF inv, of l'] ol
    unfolding wait_ok_def only_lock_def by (simp add: A(3) L) blast
  have "at y' (idle_thread (ker y')) = Outside"
    using ol sync_invD(3) [OF inv] unfolding only_lock_def by auto
  then show ?thesis using assms(3-) K W unfolding sync_inv_def by metis
qed


lemma lock_ok_one: "lock_ok y l \<Longrightarrow> sem_value (locks (ker y) l) \<noteq> 0 \<Longrightarrow>
    sem_value (locks (ker y) l) = 1 \<and> holder (locks (ker y) l) = 0 \<and> (\<forall>t. at y t \<noteq> Got l \<and> at y t \<noteq> Released l)"
  unfolding lock_ok_def owner_def by auto

lemma pc_ne_idle: "sync_inv y \<Longrightarrow> inside y l t \<Longrightarrow> t \<noteq> idle_thread (ker y)"
  using sync_invD(3) [of y] by (auto simp: inside_def)

text \<open>The states of a \<open>sema_down\<close> loop: they differ from the state at its entry in the interrupt flag.\<close>

definition same_but_flags :: "kernel \<Rightarrow> kernel \<Rightarrow> bool" where
  "same_but_flags u s \<longleftrightarrow> tasks u = tasks s \<and> running u = running s \<and> thread_ready_list u = thread_ready_list s \<and>
     thread_all_list u = thread_all_list s \<and> idle_thread u = idle_thread s \<and> locks u = locks s"

lemma same_but_flagsD:
  assumes "same_but_flags u s"
  shows "tasks u = tasks s" "running u = running s" "thread_ready_list u = thread_ready_list s"
    "thread_all_list u = thread_all_list s" "idle_thread u = idle_thread s" "locks u = locks s"
    "sched_inv u \<longleftrightarrow> sched_inv s" "queues_ok u \<longleftrightarrow> queues_ok s"
proof -
  show *: "tasks u = tasks s" "running u = running s" "thread_ready_list u = thread_ready_list s"
    "thread_all_list u = thread_all_list s" "idle_thread u = idle_thread s" "locks u = locks s"
    using assms by (simp_all add: same_but_flags_def)
  show "sched_inv u \<longleftrightarrow> sched_inv s" "queues_ok u \<longleftrightarrow> queues_ok s"
    by (rule queues_ok_cong; simp add: *)+
qed

lemma same_but_flags_intr: "same_but_flags (fst (intr_disable s)) s" "same_but_flags (thread_resume st s) s"
  "same_but_flags (fst (intr_set_status s st)) s"
  by (simp_all add: same_but_flags_def)

lemma acquired_inv:
  assumes inv: "sync_inv y" and act: "active y"
    and pc: "at y (running (ker y)) = Outside \<or> inside y l (running (ker y))"
    and uy: "same_but_flags u (ker y)"
    and nz: "sem_value (locks u l) \<noteq> 0"
    and s: "s = fst (intr_set_status (upd_lock l (\<lambda>k. k\<lparr>sem_value := sem_value k - 1\<rparr>) u) o1)"
    and y': "y' = go y s (Got l)"
  shows "sync_inv y'"
proof (rule only_lock_inv [OF inv, where l = l])
  note u = same_but_flagsD [OF uy]
  have one: "sem_value (locks (ker y) l) = 1" "holder (locks (ker y) l) = 0" "\<forall>t. at y t \<noteq> Got l \<and> at y t \<noteq> Released l"
    using lock_ok_one [OF sync_invD(4) [OF inv]] nz u(6) by auto
  have Ls: "sem_value (locks s l) = 0" "holder (locks s l) = 0" "waiters (locks s l) = waiters (locks (ker y) l)"
    using one by (simp_all add: s u)
  show "only_lock y y' l"
    unfolding only_lock_def using pc act by (auto simp: s u runnable_def active_def y' go_def)
  show "sched_inv (ker y')" using u sync_invD(1) [OF inv] by (simp add: s y' go_def)
  show "running (ker y') \<noteq> 0" using sync_invD(2) [OF inv] by (simp add: s u y' go_def)
  show "lock_ok y' l" unfolding lock_ok_def owner_def using Ls one(3) by (auto simp: y' go_def)
  have st: "tasks s = tasks (ker y)" "thread_all_list s = thread_all_list (ker y)" by (simp_all add: s u)
  show "wait_ok y' l"
    using sync_invD(5) [OF inv, of l] sync_invD(8) [OF inv, of l] Ls st
    unfolding wait_ok_def y' go_def inside_upd runnable_def by auto
qed

lemma sleeping_effect:
  assumes inv: "sync_inv y" and act: "active y" and uy: "same_but_flags u (ker y)"
    and q: "q = upd_lock l (\<lambda>k. k\<lparr>waiters := waiters k @ [running (ker y)]\<rparr>) u"
    and tb: "thread_block TASK_BLOCKED q = Some (s, o2)"
  shows "sched_inv s" "locks s = locks q" "thread_all_list s = thread_all_list (ker y)"
    "idle_thread s = idle_thread (ker y)" "running s \<noteq> 0" "status (tasks s (running (ker y))) = TASK_BLOCKED"
    "t \<noteq> idle_thread (ker y) \<Longrightarrow> status (tasks (ker y) t) = TASK_BLOCKED \<Longrightarrow> status (tasks s t) = TASK_BLOCKED"
    "t \<noteq> idle_thread (ker y) \<Longrightarrow> t \<noteq> running (ker y) \<Longrightarrow> runnable (ker y) t \<Longrightarrow> runnable s t"
proof -
  let ?c = "running (ker y)"
  note u = same_but_flagsD [OF uy]
  have su: "sched_inv u" using u sync_invD(1) [OF inv] by simp
  define b where "b = upd_task ?c (\<lambda>p. p\<lparr>status := TASK_BLOCKED\<rparr>) (fst (intr_disable q))"
  have sb: "schedule b = Some s" using tb by (simp add: thread_block_Some b_def q u)
  show "sched_inv s" by (rule thread_block_inv [OF _ tb]) (simp add: q su)
  have "queues_ok b"
    using upd_status_queues [of "fst (intr_disable q)" TASK_BLOCKED] su by (simp add: b_def q u sched_inv_def)
  then have kp: "keeps b s" by (rule schedule_keeps [OF _ sb])
  have stb: "status (tasks b t) = (if t = ?c then TASK_BLOCKED else status (tasks (ker y) t))" for t
    by (simp add: b_def q u)
  have ci: "?c \<noteq> idle_thread (ker y)" using act by (simp add: active_def)
  show "locks s = locks q" "thread_all_list s = thread_all_list (ker y)" "idle_thread s = idle_thread (ker y)" "running s \<noteq> 0"
    using kp by (simp_all add: keeps_def b_def q u)
  show "status (tasks s ?c) = TASK_BLOCKED"
    using kp ci unfolding keeps_def stb by (simp add: b_def q u)
  show "t \<noteq> idle_thread (ker y) \<Longrightarrow> status (tasks (ker y) t) = TASK_BLOCKED \<Longrightarrow> status (tasks s t) = TASK_BLOCKED"
    "t \<noteq> idle_thread (ker y) \<Longrightarrow> t \<noteq> running (ker y) \<Longrightarrow> runnable (ker y) t \<Longrightarrow> runnable s t"
    using kp unfolding keeps_def runnable_def stb by (auto simp: b_def q u)
qed

lemma sleeping_inv:
  assumes inv: "sync_inv y" and act: "active y"
    and pc: "at y (running (ker y)) = Outside \<or> inside y l (running (ker y))"
    and uy: "same_but_flags u (ker y)" and z: "sem_value (locks u l) = 0"
    and q: "q = upd_lock l (\<lambda>k. k\<lparr>waiters := waiters k @ [running (ker y)]\<rparr>) u"
    and tb: "thread_block TASK_BLOCKED q = Some (s, o2)"
    and y': "y' = go y s (Down l o1 o2)"
  shows "sync_inv y'"
proof (rule only_lock_inv [OF inv, where l = l])
  let ?c = "running (ker y)"
  note u = same_but_flagsD [OF uy] and e = sleeping_effect [OF inv act uy q tb]
  have Lq: "sem_value (locks s l) = 0" "waiters (locks s l) = waiters (locks (ker y) l) @ [?c]"
    "holder (locks s l) = holder (locks (ker y) l)" "\<And>l'. l' \<noteq> l \<Longrightarrow> locks s l' = locks (ker y) l'"
    "sem_value (locks (ker y) l) = 0"
    using z by (simp_all add: e(2) q u)
  have no: "inside y l' ?c \<Longrightarrow> l' = l" for l' using pc by (auto simp: inside_def)
  have ci: "?c \<noteq> idle_thread (ker y)" using act by (simp add: active_def)
  have i: "inside y' l' t \<longleftrightarrow> (if t = ?c then l' = l else inside y l' t)" for l' t by (auto simp: y' go_def inside_def)
  show "only_lock y y' l"
    unfolding only_lock_def i using pc ci no e(3,4,7,8) pc_ne_idle [OF inv] Lq(4)
    by (simp add: y' go_def) blast
  show "sched_inv (ker y')" "running (ker y') \<noteq> 0" using e by (simp_all add: y' go_def)
  have "owner y' l t = owner y l t" for t using pc by (auto simp: owner_def Lq inside_def y' go_def)
  then show "lock_ok y' l"
    using sync_invD(4) [OF inv, of l] unfolding lock_ok_def by (auto simp: Lq y' go_def)
  have all: "?c \<in> set (thread_all_list (ker y))" by (rule queues_okD(5) [OF sync_invD(7) [OF inv]])
  show "wait_ok y' l"
    using sync_invD(5) [OF inv, of l] sync_invD(8) [OF inv, of l] e(3,6,7,8) all pc_ne_idle [OF inv]
    unfolding wait_ok_def i by (simp add: y' go_def Lq) blast
qed

lemma after_down_inv:
  assumes inv: "sync_inv y" and act: "active y"
    and pc: "at y (running (ker y)) = Outside \<or> inside y l (running (ker y))"
    and uy: "same_but_flags u (ker y)" and r: "sema_down_loop l o1 u = Some r"
  shows "sync_inv (after_down y l r)"
proof (cases "sem_value (locks u l) = 0")
  case False
  then have "r = Acquired (fst (intr_set_status (upd_lock l (\<lambda>k. k\<lparr>sem_value := sem_value k - 1\<rparr>) u) o1))"
    using r by (auto simp: sema_down_loop_def Let_def split: if_splits)
  then show ?thesis
    using acquired_inv [OF inv act pc uy False refl refl] by (simp add: after_down_def)
next
  case True
  then obtain s o2 where "r = Sleeping s o1 o2"
    "thread_block TASK_BLOCKED (upd_lock l (\<lambda>k. k\<lparr>waiters := waiters k @ [running (ker y)]\<rparr>) u) = Some (s, o2)"
    using r by (auto simp: sema_down_loop_def same_but_flagsD [OF uy] running_thread_def Let_def bind_Some_iff split: if_splits)
  then show ?thesis
    using sleeping_inv [OF inv act pc uy True refl _ refl, of s o2 o1] by (simp add: after_down_def)
qed


lemma got_inv:
  assumes inv: "sync_inv y" and act: "active y" and pc: "at y (running (ker y)) = Got l"
    and r: "lock_acquire_got l (ker y) = Some s"
  shows "sync_inv (go y s Outside)"
proof (rule only_lock_inv [OF inv, where l = l])
  let ?c = "running (ker y)" and ?y = "go y s Outside"
  have s: "s = upd_lock l (\<lambda>k. k\<lparr>holder_repeat_nr := 1\<rparr>) (upd_lock l (\<lambda>k. k\<lparr>holder := ?c\<rparr>) (ker y))"
    using r by (auto simp: lock_acquire_got_def running_thread_def Let_def split: if_splits)
  have L: "sem_value (locks s l) = sem_value (locks (ker y) l)" "waiters (locks s l) = waiters (locks (ker y) l)"
    "holder (locks s l) = ?c" "\<And>l'. l' \<noteq> l \<Longrightarrow> locks s l' = locks (ker y) l'" by (simp_all add: s)
  have T: "tasks s = tasks (ker y)" "thread_all_list s = thread_all_list (ker y)" "idle_thread s = idle_thread (ker y)"
    "running s = ?c" by (simp_all add: s)
  show "only_lock y ?y l"
    unfolding only_lock_def using pc act by (simp add: go_def L T runnable_def active_def)
  show "sched_inv (ker ?y)" using sync_invD(1) [OF inv] by (simp add: s go_def)
  show "running (ker ?y) \<noteq> 0" using sync_invD(2) [OF inv] by (simp add: T go_def)
  note k = sync_invD(4) [OF inv, of l, unfolded lock_ok_def owner_def]
  have h0: "holder (locks (ker y) l) = 0" using k pc by blast
  have oth: "t \<noteq> ?c \<Longrightarrow> at y t \<noteq> Got l \<and> at y t \<noteq> Released l" for t using k pc by metis
  have v0: "sem_value (locks (ker y) l) = 0" using k pc by blast
  have "owner ?y l t \<longleftrightarrow> t = ?c" for t
    using oth [of t] sync_invD(2) [OF inv] by (auto simp: owner_def go_def L)
  then show "lock_ok ?y l" unfolding lock_ok_def using v0 oth by (auto simp: go_def L)
  have i: "inside ?y l t \<longleftrightarrow> inside y l t" for t using pc by (auto simp: go_def inside_def)
  show "wait_ok ?y l"
    using sync_invD(5) [OF inv, of l] unfolding wait_ok_def i runnable_def by (simp add: go_def L T)
qed

lemma repeat_inv:
  assumes inv: "sync_inv y" and act: "active y" and pc: "at y (running (ker y)) = Outside"
    and h: "holder (locks (ker y) l) = running (ker y)"
    and s: "s = upd_lock l f (ker y)" and f: "\<And>k. sem_value (f k) = sem_value k" "\<And>k. waiters (f k) = waiters k"
      "\<And>k. holder (f k) = holder k"
  shows "sync_inv (go y s Outside)"
proof (rule only_lock_inv [OF inv, where l = l])
  let ?y = "go y s Outside"
  have L: "sem_value (locks s l') = sem_value (locks (ker y) l')" "waiters (locks s l') = waiters (locks (ker y) l')"
    "holder (locks s l') = holder (locks (ker y) l')" "l' \<noteq> l \<Longrightarrow> locks s l' = locks (ker y) l'" for l' by (simp_all add: s f)
  have T: "tasks s = tasks (ker y)" "thread_all_list s = thread_all_list (ker y)" "idle_thread s = idle_thread (ker y)"
    "running s = running (ker y)" by (simp_all add: s)
  have A: "at ?y = at y" using pc by (auto simp: go_def fun_eq_iff)
  have K: "ker ?y = s" by (simp add: go_def)
  show "only_lock y ?y l"
    unfolding only_lock_def inside_def A K using pc act by (simp add: L T runnable_def active_def)
  show "sched_inv (ker ?y)" using sync_invD(1) [OF inv] by (simp add: s go_def)
  show "running (ker ?y) \<noteq> 0" using sync_invD(2) [OF inv] by (simp add: T K)
  show "lock_ok ?y l" using sync_invD(4) [OF inv, of l] unfolding lock_ok_def owner_def A K L .
  show "wait_ok ?y l" using sync_invD(5) [OF inv, of l] unfolding wait_ok_def inside_def runnable_def A K L T .
qed

lemma release_inv:
  assumes inv: "sync_inv y" and act: "active y" and pc: "at y (running (ker y)) = Outside"
    and r: "lock_release_begin l (ker y) = Some (s, True)"
  shows "sync_inv (go y s (Released l))"
proof (rule only_lock_inv [OF inv, where l = l])
  let ?c = "running (ker y)" and ?y = "go y s (Released l)"
  have s: "s = upd_lock l (\<lambda>k. k\<lparr>holder := 0, holder_repeat_nr := 0\<rparr>) (ker y)" and h: "holder (locks (ker y) l) = ?c"
    using r by (auto simp: lock_release_begin_def running_thread_def split: if_splits)
  have L: "sem_value (locks s l) = sem_value (locks (ker y) l)" "waiters (locks s l) = waiters (locks (ker y) l)"
    "holder (locks s l) = 0" "\<And>l'. l' \<noteq> l \<Longrightarrow> locks s l' = locks (ker y) l'" by (simp_all add: s)
  have T: "tasks s = tasks (ker y)" "thread_all_list s = thread_all_list (ker y)" "idle_thread s = idle_thread (ker y)"
    "running s = ?c" by (simp_all add: s)
  show "only_lock y ?y l"
    unfolding only_lock_def using pc act by (simp add: go_def L T runnable_def active_def)
  show "sched_inv (ker ?y)" using sync_invD(1) [OF inv] by (simp add: s go_def)
  show "running (ker ?y) \<noteq> 0" using sync_invD(2) [OF inv] by (simp add: T go_def)
  note k = sync_invD(4) [OF inv, of l, unfolded lock_ok_def owner_def] and c0 = sync_invD(2) [OF inv]
  have v0: "sem_value (locks (ker y) l) = 0" using k h c0 by blast
  have oth: "at y t \<noteq> Got l \<and> at y t \<noteq> Released l" for t using k h c0 by metis
  have "owner ?y l t \<longleftrightarrow> t = ?c" for t using oth [of t] by (auto simp: owner_def go_def L)
  then show "lock_ok ?y l" unfolding lock_ok_def using v0 oth by (auto simp: go_def L)
  have i: "inside ?y l t \<longleftrightarrow> inside y l t" for t using pc by (auto simp: go_def inside_def)
  show "wait_ok ?y l"
    using sync_invD(5) [OF inv, of l] unfolding wait_ok_def i runnable_def by (simp add: go_def L T)
qed


lemma sema_up_effect:
  assumes "sema_up l s = Some s'"
  shows "sem_value (locks s l) = 0" "sem_value (locks s' l) = 1" "waiters (locks s' l) = tl (waiters (locks s l))"
    "holder (locks s' l) = holder (locks s l)" "l' \<noteq> l \<Longrightarrow> locks s' l' = locks s l'"
    "status (tasks s' t) = (if waiters (locks s l) \<noteq> [] \<and> t = hd (waiters (locks s l)) then TASK_READY else status (tasks s t))"
    "thread_all_list s' = thread_all_list s" "idle_thread s' = idle_thread s" "running s' = running s"
    "thread_ready_list s' = take 1 (waiters (locks s l)) @ thread_ready_list s"
    "set (waiters (locks s l)) \<subseteq> set (thread_all_list s) \<Longrightarrow> sched_inv s \<Longrightarrow> sched_inv s'"
proof -
  let ?d = "fst (intr_disable s)"
  have "sem_value (locks s l) = 0 \<and> sem_value (locks s' l) = 1 \<and> waiters (locks s' l) = tl (waiters (locks s l)) \<and>
    holder (locks s' l) = holder (locks s l) \<and> (l' \<noteq> l \<longrightarrow> locks s' l' = locks s l') \<and>
    status (tasks s' t) = (if waiters (locks s l) \<noteq> [] \<and> t = hd (waiters (locks s l)) then TASK_READY else status (tasks s t)) \<and>
    thread_all_list s' = thread_all_list s \<and> idle_thread s' = idle_thread s \<and> running s' = running s \<and>
    thread_ready_list s' = take 1 (waiters (locks s l)) @ thread_ready_list s"
  proof (cases "waiters (locks s l)")
    case Nil
    then show ?thesis using assms
      by (auto simp: sema_up_def case_prod_beta Let_def split: if_splits)
  next
    case (Cons w rest)
    then show ?thesis using assms
      by (auto simp: sema_up_def case_prod_beta Let_def thread_unblock_Some bind_Some_iff split: if_splits)
  qed
  then show "sem_value (locks s l) = 0" "sem_value (locks s' l) = 1" "waiters (locks s' l) = tl (waiters (locks s l))"
    "holder (locks s' l) = holder (locks s l)" "l' \<noteq> l \<Longrightarrow> locks s' l' = locks s l'"
    "status (tasks s' t) = (if waiters (locks s l) \<noteq> [] \<and> t = hd (waiters (locks s l)) then TASK_READY else status (tasks s t))"
    "thread_all_list s' = thread_all_list s" "idle_thread s' = idle_thread s" "running s' = running s"
    "thread_ready_list s' = take 1 (waiters (locks s l)) @ thread_ready_list s" by blast+
  show "sched_inv s'" if a: "set (waiters (locks s l)) \<subseteq> set (thread_all_list s)" and i: "sched_inv s"
  proof (cases "waiters (locks s l)")
    case Nil
    then show ?thesis using assms i by (auto simp: sema_up_def case_prod_beta Let_def split: if_splits)
  next
    case (Cons w rest)
    let ?q = "upd_lock l (\<lambda>k. k\<lparr>waiters := rest\<rparr>) ?d"
    obtain v where v: "thread_unblock w ?q = Some v"
      "s' = fst (intr_set_status (upd_lock l (\<lambda>k. k\<lparr>sem_value := sem_value k + 1\<rparr>) v) (snd (intr_disable s)))"
      using assms Cons by (auto simp: sema_up_def case_prod_beta Let_def bind_Some_iff split: if_splits)
    have "sched_inv ?q" "w \<in> set (thread_all_list ?q)" using a i Cons by simp_all
    then have "sched_inv v" using thread_unblock_inv [OF _ _ v(1)] by simp
    then show ?thesis by (simp add: v(2))
  qed
qed

lemma up_inv:
  assumes inv: "sync_inv y" and act: "active y" and pc: "at y (running (ker y)) = Released l"
    and r: "sema_up l (ker y) = Some s"
  shows "sync_inv (go y s Outside)"
proof (rule only_lock_inv [OF inv, where l = l])
  let ?c = "running (ker y)" and ?y = "go y s Outside" and ?W = "waiters (locks (ker y) l)"
  note e = sema_up_effect [OF r] and w = sync_invD(5) [OF inv, of l, unfolded wait_ok_def]
  have K: "ker ?y = s" by (simp add: go_def)
  have i: "inside ?y l' t \<longleftrightarrow> inside y l' t" for l' t using pc by (auto simp: go_def inside_def)
  have hd: "?W \<noteq> [] \<Longrightarrow> inside y l (hd ?W)" using w by simp
  have one: "inside y l' t \<Longrightarrow> inside y l t \<Longrightarrow> l' = l" for l' t by (auto simp: inside_def)
  have st: "inside y l' t \<Longrightarrow> l' \<noteq> l \<Longrightarrow> status (tasks s t) = status (tasks (ker y) t)" for l' t
    using e(6) [of t] hd one by auto
  show "only_lock y ?y l"
    unfolding only_lock_def i K runnable_def using pc act st e(5,7,8)
    by (simp add: go_def active_def)
  show "sched_inv (ker ?y)"
    unfolding K by (rule e(11)) (use w sync_invD(1) [OF inv] in auto)
  show "running (ker ?y) \<noteq> 0" using sync_invD(2) [OF inv] by (simp add: K e(9))
  note k = sync_invD(4) [OF inv, of l, unfolded lock_ok_def owner_def]
  have h0: "holder (locks (ker y) l) = 0" using k pc by blast
  have oth: "t \<noteq> ?c \<Longrightarrow> at y t \<noteq> Got l \<and> at y t \<noteq> Released l" for t using k pc by metis
  have no: "\<not> owner ?y l t" for t using oth [of t] h0 by (auto simp: owner_def go_def e(4))
  then show "lock_ok ?y l" unfolding lock_ok_def K using e(2) h0 e(4) by simp
  show "wait_ok ?y l"
  proof (cases ?W)
    case Nil
    then show ?thesis using w unfolding wait_ok_def i K runnable_def e(2,3,6,7) by simp
  next
    case (Cons x xs)
    then show ?thesis using w hd unfolding wait_ok_def i K runnable_def e(2,3,6,7) by auto
  qed
qed

lemma step_inv:
  assumes "sync_inv y" and "step y y'"
  shows "sync_inv y'"
  using assms(2,1)
proof (cases rule: step.cases)
  case (timer s)
  then show ?thesis
    using timer_keeps [of "ker y" s] sync_invD(1,2) [OF assms(1)] by (intro keep_inv [OF assms(1)]) simp_all
next
  case dispatch
  have "sched_inv (sti (ker y)) \<longleftrightarrow> sched_inv (ker y)" by (rule queues_ok_cong) simp_all
  then show ?thesis
    using dispatch sync_invD(1,2) [OF assms(1)]
    by (intro keep_inv [OF assms(1)]) (simp_all add: keeps_def runnable_def)
next
  case (idle s old)
  define b where "b = upd_task (running (ker y)) (\<lambda>p. p\<lparr>status := TASK_BLOCKED\<rparr>) (fst (intr_disable (ker y)))"
  have "queues_ok b"
    using upd_status_queues [of "fst (intr_disable (ker y))" TASK_BLOCKED] sync_invD(6,7) [OF assms(1)]
    by (simp add: b_def)
  then have "keeps b s" using idle(4) by (intro schedule_keeps) (simp_all add: thread_block_Some b_def)
  then have "keeps (ker y) s" using idle(3) unfolding keeps_def runnable_def by (simp add: b_def)
  then show ?thesis using idle(1) by (intro keep_inv [OF assms(1)]) simp_all
next
  case (repeat l s)
  then have "s = upd_lock l (\<lambda>k. k\<lparr>holder_repeat_nr := holder_repeat_nr k + 1\<rparr>) (ker y)"
    by (simp add: lock_acquire_def running_thread_def)
  then show ?thesis
    using repeat_inv [OF assms(1) repeat(2,3,4)] repeat(1) by simp
next
  case (down l r)
  then show ?thesis
    using after_down_inv [OF assms(1) down(2) _ same_but_flags_intr(1)]
    by (simp add: sema_down_def case_prod_beta)
next
  case (resume l o1 o2 r)
  then show ?thesis
    using after_down_inv [OF assms(1) resume(2) _ same_but_flags_intr(2)]
    by (simp add: sema_down_resume_def inside_def)
next
  case (got l s)
  then show ?thesis using got_inv [OF assms(1)] by simp
next
  case (release l s up)
  show ?thesis
  proof (cases up)
    case True
    then show ?thesis using release release_inv [OF assms(1)] by simp
  next
    case False
    then have "s = upd_lock l (\<lambda>k. k\<lparr>holder_repeat_nr := holder_repeat_nr k - 1\<rparr>) (ker y)"
      "holder (locks (ker y) l) = running (ker y)"
      using release(4) by (auto simp: lock_release_begin_def running_thread_def split: if_splits)
    then show ?thesis
      using repeat_inv [OF assms(1) release(2,3)] release(1) False by simp
  qed
next
  case (up l s)
  then show ?thesis using up_inv [OF assms(1)] by simp
qed

lemma reachable_inv: "step\<^sup>*\<^sup>* y y' \<Longrightarrow> sync_inv y \<Longrightarrow> sync_inv y'"
  by (induction rule: rtranclp_induct) (auto intro: step_inv)



section \<open>Mutual exclusion and wakeups\<close>

definition initial :: "sys \<Rightarrow> bool" where
  "initial y \<longleftrightarrow> sched_inv (ker y) \<and> running (ker y) \<noteq> 0 \<and> (\<forall>t. at y t = Outside) \<and>
     (\<forall>l. locks (ker y) l = lock_init (locks (ker y) l))"

lemma lock_init_fields [simp]:
  "sem_value (lock_init k) = 1" "holder (lock_init k) = 0" "waiters (lock_init k) = []" "holder_repeat_nr (lock_init k) = 0"
  by (simp_all add: lock_init_def sema_init_def)

lemma initial_inv: "initial y \<Longrightarrow> sync_inv y"
proof -
  assume i: "initial y"
  have "sem_value (locks (ker y) l) = 1" "holder (locks (ker y) l) = 0" "waiters (locks (ker y) l) = []" for l
  proof -
    have "locks (ker y) l = lock_init (locks (ker y) l)" using i by (simp add: initial_def)
    then show "sem_value (locks (ker y) l) = 1" "holder (locks (ker y) l) = 0" "waiters (locks (ker y) l) = []"
      by (metis lock_init_fields)+
  qed
  then show ?thesis using i by (simp add: initial_def sync_inv_def lock_ok_def wait_ok_def owner_def inside_def)
qed

text \<open>
  C1. Mutual exclusion: whatever the order in which threads take and release locks, are put to
  sleep, are woken, and are preempted by the timer, no two threads own a lock at the same time; a thread
  owns it from the moment \<open>sema_down\<close> let it through to its \<open>sema_up\<close>.
\<close>

theorem mutual_exclusion:
  assumes "initial y\<^sub>0" and "step\<^sup>*\<^sup>* y\<^sub>0 y" and "owner y l t" and "owner y l t'"
  shows "t = t'"
proof -
  have "lock_ok y l" using reachable_inv [OF assms(2) initial_inv [OF assms(1)]] by (rule sync_invD)
  then show ?thesis using assms(3,4) unfolding lock_ok_def by metis
qed

text \<open>
  C2. No wakeup is lost: whenever a lock is free and threads sleep in its queue, some thread that
  waited for it has been woken and is runnable; and a thread inside of \<open>sema_down\<close> that is not in the
  queue is always runnable.
\<close>

theorem no_lost_wakeup:
  assumes "initial y\<^sub>0" and "step\<^sup>*\<^sup>* y\<^sub>0 y"
    and "sem_value (locks (ker y) l) = 1" and "waiters (locks (ker y) l) \<noteq> []"
  shows "\<exists>t. inside y l t \<and> (t \<in> set (thread_ready_list (ker y)) \<or> t = running (ker y))"
proof -
  have inv: "sync_inv y" by (rule reachable_inv [OF assms(2) initial_inv [OF assms(1)]])
  obtain t where t: "inside y l t" "t \<in> set (thread_all_list (ker y))" "runnable (ker y) t"
    using sync_invD(5) [OF inv, of l] assms(3,4) unfolding wait_ok_def by blast
  then show ?thesis
    using queues_okD(3,4) [OF sync_invD(7) [OF inv], of t] unfolding runnable_def by blast
qed


text \<open>
  \<open>sema_up\<close> is fair to its queue: the thread that has waited longest becomes ready, in front of
  all other ready threads, and the queue keeps the others in their order.
\<close>

theorem sema_up_wakes_first:
  assumes "sema_up l s = Some s'" and "waiters (locks s l) = t # ts"
  shows "status (tasks s' t) = TASK_READY \<and> thread_ready_list s' = t # thread_ready_list s \<and>
    waiters (locks s' l) = ts \<and> sem_value (locks s' l) = 1"
  using sema_up_effect [OF assms(1)] assms(2) by simp


section \<open>Locks without contention\<close>

lemma lock_take_free:
  assumes "sem_value (locks s l) = 1" "holder (locks s l) \<noteq> running s" "holder_repeat_nr (locks s l) = 0"
  shows "lock_take l s = Some (upd_lock l (\<lambda>k. k\<lparr>sem_value := 0, holder := running s, holder_repeat_nr := 1\<rparr>) s)"
proof -
  let ?f = "upd_lock l (\<lambda>k. k\<lparr>sem_value := sem_value k - 1\<rparr>)"
  have "fst (intr_set_status (?f (fst (intr_disable s))) (snd (intr_disable s))) = ?f s"
    by (rule critical_section) (simp add: upd_lock_def)
  then have "sema_down l s = Some (Acquired (?f s))"
    using assms(1) by (simp add: sema_down_def case_prod_beta sema_down_loop_def)
  then show ?thesis
    using assms by (simp add: lock_take_def lock_acquire_def running_thread_def lock_acquire_got_def) (simp add: upd_lock_def)
qed


lemma lock_take_again:
  "holder (locks s l) = running s \<Longrightarrow>
    lock_take l s = Some (upd_lock l (\<lambda>k. k\<lparr>holder_repeat_nr := holder_repeat_nr k + 1\<rparr>) s)"
  by (simp add: lock_take_def lock_acquire_def running_thread_def)

lemma lock_swap: "k\<lparr>holder := a, holder_repeat_nr := b, sem_value := c\<rparr> = k\<lparr>sem_value := c, holder := a, holder_repeat_nr := b\<rparr>"
  for k :: lock by (cases k) simp

lemma lock_same:
  "sem_value k = c \<Longrightarrow> holder k = a \<Longrightarrow> holder_repeat_nr k = b \<Longrightarrow> k\<lparr>sem_value := c, holder := a, holder_repeat_nr := b\<rparr> = k"
  for k :: lock by (cases k) simp

lemma lock_release_last:
  assumes "holder (locks s l) = running s" "holder_repeat_nr (locks s l) = 1"
    and "sem_value (locks s l) = 0" "waiters (locks s l) = []"
  shows "lock_release l s = Some (upd_lock l (\<lambda>k. k\<lparr>sem_value := 1, holder := 0, holder_repeat_nr := 0\<rparr>) s)"
proof -
  let ?f = "upd_lock l (\<lambda>k. k\<lparr>sem_value := sem_value k + 1\<rparr>)"
  let ?s = "upd_lock l (\<lambda>k. k\<lparr>holder := 0, holder_repeat_nr := 0\<rparr>) s"
  have "fst (intr_set_status (?f (fst (intr_disable ?s))) (snd (intr_disable ?s))) = ?f ?s"
    by (rule critical_section) (simp add: upd_lock_def)
  then have "sema_up l ?s = Some (?f ?s)"
    using assms by (simp add: sema_up_def case_prod_beta)
  then show ?thesis
    using assms by (simp add: lock_release_def lock_release_begin_def running_thread_def) (simp add: upd_lock_def lock_swap)
qed

lemma lock_release_nested:
  assumes "holder (locks s l) = running s" "holder_repeat_nr (locks s l) > 1"
  shows "lock_release l s = Some (upd_lock l (\<lambda>k. k\<lparr>holder_repeat_nr := holder_repeat_nr k - 1\<rparr>) s)"
  using assms by (simp add: lock_release_def lock_release_begin_def running_thread_def)

text \<open>A lock that nobody holds or waits for.\<close>

definition lock_free :: "kernel \<Rightarrow> lock_id \<Rightarrow> bool" where
  "lock_free s l \<longleftrightarrow> sem_value (locks s l) = 1 \<and> waiters (locks s l) = [] \<and> holder (locks s l) = 0 \<and>
     holder_repeat_nr (locks s l) = 0"

fun lock_take_n :: "nat \<Rightarrow> lock_id \<Rightarrow> kernel \<Rightarrow> kernel option" where
  "lock_take_n 0 l s = Some s"
| "lock_take_n (Suc n) l s = do { s \<leftarrow> lock_take l s; lock_take_n n l s }"

fun lock_release_n :: "nat \<Rightarrow> lock_id \<Rightarrow> kernel \<Rightarrow> kernel option" where
  "lock_release_n 0 l s = Some s"
| "lock_release_n (Suc n) l s = do { s \<leftarrow> lock_release l s; lock_release_n n l s }"

definition held :: "kernel \<Rightarrow> lock_id \<Rightarrow> u32 \<Rightarrow> kernel" where
  "held s l n = upd_lock l (\<lambda>k. k\<lparr>sem_value := 0, holder := running s, holder_repeat_nr := n\<rparr>) s"

lemma lock_take_n_held: "lock_take_n n l (held s l m) = Some (held s l (m + of_nat n))"
proof (induction n arbitrary: m)
  case (Suc n)
  have "lock_take l (held s l m) = Some (held s l (m + 1))"
    by (subst lock_take_again) (simp_all add: held_def upd_lock_def)
  then show ?case using Suc.IH by (simp add: algebra_simps)
qed simp

lemma lock_release_n_held:
  "n < 2 ^ 32 - 1 \<Longrightarrow> lock_release_n n l (held s l (1 + of_nat n)) = Some (held s l 1)"
proof (induction n)
  case (Suc n)
  have "unat (of_nat (n + 2) :: u32) = n + 2" using Suc.prems by (subst unat_of_nat) simp
  then have "unat (of_nat n + 2 :: u32) = n + 2" by (simp add: add.commute)
  then have "(1 :: u32) < of_nat n + 2" by (simp add: word_less_nat_alt)
  then have "lock_release l (held s l (1 + of_nat (Suc n))) = Some (held s l (1 + of_nat n))"
    by (subst lock_release_nested) (simp_all add: held_def upd_lock_def algebra_simps)
  then show ?case using Suc by simp
qed simp

text \<open>
  C19. Locks are reentrant: a thread that takes a free lock \<open>n + 1\<close> times owns it exclusively, and after
  as many releases the lock is free again and the kernel state is as before.
\<close>

theorem lock_reentrant:
  assumes "lock_free s l" "running s \<noteq> 0" "n < 2 ^ 32 - 1"
  shows "\<exists>s1 s2. lock_take_n (Suc n) l s = Some s1 \<and> holder (locks s1 l) = running s \<and> sem_value (locks s1 l) = 0 \<and>
    lock_release_n n l s1 = Some s2 \<and> holder (locks s2 l) = running s \<and> lock_release l s2 = Some s"
proof -
  have "lock_take l s = Some (held s l 1)"
    using assms by (subst lock_take_free) (simp_all add: lock_free_def held_def)
  then have t: "lock_take_n (Suc n) l s = Some (held s l (1 + of_nat n))" by (simp add: lock_take_n_held)
  have "lock_release l (held s l 1) = Some s"
    using assms(1) by (subst lock_release_last) (simp_all add: held_def lock_free_def upd_lock_def lock_same)
  then show ?thesis
    using t lock_release_n_held [OF assms(3), of l s] by (auto simp: held_def)
qed


section \<open>Witnesses\<close>

definition sample_sys :: sys where
  "sample_sys = \<lparr>ker = sample_sched, at = (\<lambda>_. Outside), preempted = (\<lambda>_. False)\<rparr>"

lemma sample_sys_initial: "initial sample_sys"
  using sample_sched_inv(1)
  by (simp add: initial_def sample_sys_def) (simp add: sample_sched_def sample_kernel_def lock_init_def sema_init_def)

lemma mutual_exclusion_witness:
  "\<exists>y. step\<^sup>*\<^sup>* sample_sys y \<and> owner y PidLock 0x9e000 \<and> \<not> owner y PidLock 0xa0000"
proof -
  have a: "active sample_sys" "at sample_sys (running (ker sample_sys)) = Outside"
    "holder (locks (ker sample_sys) PidLock) \<noteq> running (ker sample_sys)"
    by (simp_all add: active_def sample_sys_def sample_sched_def sample_kernel_def)
  have "sem_value (locks sample_sched PidLock) = 1" by (simp add: sample_sched_def sample_kernel_def)
  then obtain s where s: "sema_down PidLock (ker sample_sys) = Some (Acquired s)"
    by (simp add: sema_down_def case_prod_beta sema_down_loop_def sample_sys_def)
  have st: "step\<^sup>*\<^sup>* sample_sys (after_down sample_sys PidLock (Acquired s))" using step.down [OF a s] by blast
  have o: "owner (after_down sample_sys PidLock (Acquired s)) PidLock 0x9e000"
    by (simp add: owner_def after_down_def go_def sample_sys_def sample_sched_def sample_kernel_def)
  have "\<not> owner (after_down sample_sys PidLock (Acquired s)) PidLock 0xa0000"
    using mutual_exclusion [OF sample_sys_initial st o, of "0xa0000"] by auto
  then show ?thesis using st o by blast
qed

text \<open>An executable form of some of the steps, to reach a state by evaluation.\<close>

datatype action = Timer | Dispatch | DownA lock_id | GotA lock_id | ReleaseA lock_id | UpA lock_id

fun exec :: "action \<Rightarrow> sys \<Rightarrow> sys option" where
  "exec Timer y = do {
     ASSERT (\<not> preempted y (running (ker y)) \<and> intr_get_status (ker y) = INTR_ON);
     s \<leftarrow> intr_timer_handler (cli (ker y));
     Some (y\<lparr>ker := s, preempted := (preempted y)(running (ker y) := True)\<rparr>) }"
| "exec Dispatch y = do {
     ASSERT (preempted y (running (ker y)));
     Some (y\<lparr>ker := sti (ker y), preempted := (preempted y)(running (ker y) := False)\<rparr>) }"
| "exec (DownA l) y = do {
     ASSERT (active y \<and> at y (running (ker y)) = Outside \<and> holder (locks (ker y) l) \<noteq> running (ker y));
     r \<leftarrow> sema_down l (ker y);
     Some (after_down y l r) }"
| "exec (GotA l) y = do {
     ASSERT (active y \<and> at y (running (ker y)) = Got l);
     s \<leftarrow> lock_acquire_got l (ker y);
     Some (go y s Outside) }"
| "exec (ReleaseA l) y = do {
     ASSERT (active y \<and> at y (running (ker y)) = Outside);
     (s, up) \<leftarrow> lock_release_begin l (ker y);
     Some (go y s (if up then Released l else Outside)) }"
| "exec (UpA l) y = do {
     ASSERT (active y \<and> at y (running (ker y)) = Released l);
     s \<leftarrow> sema_up l (ker y);
     Some (go y s Outside) }"

fun exec_all :: "action list \<Rightarrow> sys \<Rightarrow> sys option" where
  "exec_all [] y = Some y"
| "exec_all (a # as) y = do { y \<leftarrow> exec a y; exec_all as y }"

lemma exec_step: "exec a y = Some y' \<Longrightarrow> step y y'"
proof (cases a)
  case (ReleaseA l)
  moreover assume "exec a y = Some y'"
  ultimately obtain s up where "active y" "at y (running (ker y)) = Outside"
    "lock_release_begin l (ker y) = Some (s, up)" "y' = go y s (if up then Released l else Outside)"
    by (auto simp: bind_Some_iff split: if_splits)
  then show ?thesis using step.release [of y l s up] by simp
qed (auto simp: bind_Some_iff split: if_splits intro: step.intros)

lemma exec_all_steps: "exec_all as y = Some y' \<Longrightarrow> step\<^sup>*\<^sup>* y y'"
  by (induction as arbitrary: y) (auto simp: bind_Some_iff dest!: exec_step intro: converse_rtranclp_into_rtranclp)

definition sample_contention :: sys where
  "sample_contention = sample_sys\<lparr>ker := sample_sched\<lparr>eflags := EFLAGS_IF,
     tasks := (tasks sample_sched)(0x9e000 := sample_task\<lparr>status := TASK_RUNNING, ticks := 0\<rparr>)\<rparr>\<rparr>"

lemma no_lost_wakeup_witness:
  "\<exists>y t. step\<^sup>*\<^sup>* sample_contention y \<and> waiters (locks (ker y) PidLock) = [0xa1000] \<and>
    inside y PidLock t \<and> (t \<in> set (thread_ready_list (ker y)) \<or> t = running (ker y))"
proof -
  let ?as = "[DownA PidLock, GotA PidLock, Timer, DownA PidLock, DownA PidLock, Dispatch, ReleaseA PidLock, UpA PidLock]"
  have "map_option (\<lambda>y. (sem_value (locks (ker y) PidLock), waiters (locks (ker y) PidLock)))
      (exec_all ?as sample_contention) = Some (1, [0xa1000])" by code_simp
  then obtain y where y: "exec_all ?as sample_contention = Some y"
    "sem_value (locks (ker y) PidLock) = 1" "waiters (locks (ker y) PidLock) = [0xa1000]" by auto
  have "initial sample_contention"
    using sample_sys_initial sample_sched_inv(1)
    by (auto simp: initial_def sample_contention_def sample_sys_def sched_inv_def queues_ok_def sample_sched_def sample_kernel_def)
  then show ?thesis using no_lost_wakeup [OF _ exec_all_steps [OF y(1)], of PidLock] exec_all_steps [OF y(1)] y(2,3) by auto
qed

lemma lock_reentrant_witness:
  "\<exists>s1 s2. lock_take_n 3 PidLock sample_sched = Some s1 \<and> lock_release_n 2 PidLock s1 = Some s2 \<and>
    lock_release PidLock s2 = Some sample_sched"
proof -
  have "lock_free sample_sched PidLock" "running sample_sched \<noteq> 0"
    by (simp_all add: lock_free_def sample_sched_def sample_kernel_def)
  then show ?thesis using lock_reentrant [of sample_sched PidLock 2] by (auto simp: numeral_3_eq_3)
qed

lemma sema_up_wakes_first_witness:
  "\<exists>s'. sema_up PidLock (upd_lock PidLock (\<lambda>k. k\<lparr>sem_value := 0, waiters := [0x9f000]\<rparr>) sample_sched) = Some s' \<and>
    status (tasks s' 0x9f000) = TASK_READY \<and> thread_ready_list s' = 0x9f000 # thread_ready_list sample_sched"
proof -
  let ?s = "upd_lock PidLock (\<lambda>k. k\<lparr>sem_value := 0, waiters := [0x9f000]\<rparr>) sample_sched"
  have "map_option (\<lambda>_. ()) (sema_up PidLock ?s) = Some ()" by code_simp
  then obtain s' where "sema_up PidLock ?s = Some s'" by auto
  then show ?thesis using sema_up_wakes_first [of PidLock ?s s' "0x9f000" "[]"] by simp
qed

end
