(* ===== verification/Slot_Pool.thy ===== *)
theory Slot_Pool
  imports Bitmap
begin

text \<open>
  The contract of the kernel's allocators.  Frames, virtual pages, process ids, inodes and disk
  blocks are all handed out from a bitmap: scan for a free bit, set it, turn its index into a name;
  releasing clears the bit.  The locale states what such an allocator promises and proves once what
  its clients rely on; the theories of the allocators interpret it.
\<close>

text \<open>One bit is taken from a bitmap.\<close>

lemma bitmap_take_one:
  assumes "wf_bitmap bm" and "used bm \<noteq> {..<nbits bm}"
  obtains n bm' where "bitmap_scan bm 1 = Some (int n)" and "bitmap_set bm n 1 = Some bm'"
    and "n < nbits bm" and "n \<notin> used bm" and "used bm' = insert n (used bm)"
    and "wf_bitmap bm'" and "nbits bm' = nbits bm"
proof -
  obtain n where n: "bitmap_scan bm 1 = Some (int n)" "n < nbits bm" "n \<notin> used bm"
    using bitmap_scan_one [OF assms] by blast
  obtain bm' where bm': "bitmap_set bm n 1 = Some bm'" using bitmap_set_defined [OF assms(1) n(2)] by blast
  show thesis
    using that [OF n(1) bm' n(2,3)] used_bitmap_set [OF bm' n(2)] wf_bitmap_set [OF assms(1) bm']
      nbits_bitmap_set [OF bm'] by simp
qed

text \<open>One bit is given back.\<close>

lemma bitmap_clear_one:
  assumes "wf_bitmap bm" and "n \<in> used bm"
  obtains bm' where "bitmap_set bm n 0 = Some bm'" and "used bm' = used bm - {n}"
    and "wf_bitmap bm'" and "nbits bm' = nbits bm"
proof -
  have n: "n < nbits bm" using assms(2) by (simp add: used_def)
  obtain bm' where bm': "bitmap_set bm n 0 = Some bm'" using bitmap_set_defined [OF assms(1) n] by blast
  show thesis
    using that [OF bm'] used_bitmap_set [OF bm' n] wf_bitmap_set [OF assms(1) bm'] nbits_bitmap_set [OF bm'] by simp
qed

fun take_n :: "('s \<Rightarrow> ('s \<times> 'a) option) \<Rightarrow> nat \<Rightarrow> 's \<Rightarrow> ('s \<times> 'a list) option" where
  "take_n alloc 0 s = Some (s, [])"
| "take_n alloc (Suc n) s = do {
     (s, a) \<leftarrow> alloc s;
     (s, as) \<leftarrow> take_n alloc n s;
     Some (s, a # as)
   }"

locale slot_pool =
  fixes alloc :: "'s \<Rightarrow> ('s \<times> 'a) option"
    and release :: "'a \<Rightarrow> 's \<Rightarrow> 's option"
    and taken :: "'s \<Rightarrow> 'a set"
    and slots :: "'s \<Rightarrow> 'a set"
    and ok :: "'s \<Rightarrow> bool"
  assumes finite_slots: "ok s \<Longrightarrow> finite (slots s)"
    and taken_slots: "ok s \<Longrightarrow> taken s \<subseteq> slots s"
    and alloc_ok: "ok s \<Longrightarrow> taken s \<noteq> slots s \<Longrightarrow>
      \<exists>s' a. alloc s = Some (s', a) \<and> a \<in> slots s - taken s \<and> taken s' = insert a (taken s) \<and>
        slots s' = slots s \<and> ok s'"
    and alloc_full: "ok s \<Longrightarrow> taken s = slots s \<Longrightarrow> alloc s = None"
    and release_ok: "ok s \<Longrightarrow> a \<in> taken s \<Longrightarrow>
      \<exists>s'. release a s = Some s' \<and> taken s' = taken s - {a} \<and> slots s' = slots s \<and> ok s'"
begin

lemma alloc_Some:
  assumes "ok s" and "alloc s = Some (s', a)"
  shows "a \<in> slots s - taken s" "taken s' = insert a (taken s)" "slots s' = slots s" "ok s'"
proof -
  have "taken s \<noteq> slots s" using alloc_full [OF assms(1)] assms(2) by auto
  then show "a \<in> slots s - taken s" "taken s' = insert a (taken s)" "slots s' = slots s" "ok s'"
    using alloc_ok [OF assms(1)] assms(2) by auto
qed

lemma alloc_release:
  assumes "ok s" and "alloc s = Some (s', a)"
  shows "\<exists>s''. release a s' = Some s'' \<and> taken s'' = taken s \<and> ok s''"
proof -
  note a = alloc_Some [OF assms]
  obtain s'' where "release a s' = Some s''" "taken s'' = taken s' - {a}" "ok s''"
    using release_ok [OF a(4), of a] a(2) by blast
  then show ?thesis using a(1,2) by auto
qed

lemma release_alloc:
  assumes "ok s" and "a \<in> taken s"
  shows "\<exists>s' s'' b. release a s = Some s' \<and> alloc s' = Some (s'', b) \<and> b \<in> insert a (slots s - taken s)"
proof -
  obtain s' where s': "release a s = Some s'" "taken s' = taken s - {a}" "slots s' = slots s" "ok s'"
    using release_ok [OF assms] by blast
  have "taken s' \<noteq> slots s'" using s' assms taken_slots by blast
  then show ?thesis using alloc_ok [OF s'(4)] s' by auto
qed

text \<open>Names handed out together are distinct, new and inside of the pool.\<close>

lemma take_n_distinct:
  assumes "ok s" and "n \<le> card (slots s - taken s)"
  shows "\<exists>s' as. take_n alloc n s = Some (s', as) \<and> length as = n \<and> distinct as \<and>
    set as \<subseteq> slots s - taken s \<and> taken s' = taken s \<union> set as \<and> slots s' = slots s \<and> ok s'"
  using assms
proof (induction n arbitrary: s)
  case (Suc n)
  have "taken s \<noteq> slots s" using Suc.prems(2) by auto
  then obtain u a where u: "alloc s = Some (u, a)" using alloc_ok [OF Suc.prems(1)] by blast
  note a = alloc_Some [OF Suc.prems(1) u]
  have "slots u - taken u = (slots s - taken s) - {a}" using a by auto
  then have "n \<le> card (slots u - taken u)"
    using Suc.prems a(1) finite_slots [OF Suc.prems(1)] by (simp add: card_Diff_singleton)
  then obtain s' as where "take_n alloc n u = Some (s', as)" "length as = n" "distinct as"
    "set as \<subseteq> slots u - taken u" "taken s' = taken u \<union> set as" "slots s' = slots u" "ok s'"
    using Suc.IH [OF a(4)] by blast
  then show ?case using u a by auto
qed simp

lemma take_n_exhausted:
  assumes "ok s" and "card (slots s - taken s) < n"
  shows "take_n alloc n s = None"
  using assms
proof (induction n arbitrary: s)
  case (Suc n)
  show ?case
  proof (cases "alloc s")
    case (Some p)
    obtain u a where p: "p = (u, a)" by (cases p)
    note a = alloc_Some [OF Suc.prems(1) Some [unfolded p]]
    have "slots u - taken u = (slots s - taken s) - {a}" using a by auto
    moreover have "card ((slots s - taken s) - {a}) < card (slots s - taken s)"
      using a(1) finite_slots [OF Suc.prems(1)] by (intro card_Diff1_less) auto
    ultimately have "card (slots u - taken u) < n" using Suc.prems(2) by simp
    then show ?thesis using Suc.IH [OF a(4)] Some p by simp
  qed simp
qed simp

end

end
