(* ===== verification/Memory.thy ===== *)
theory Memory
  imports Sync Slot_Pool
begin

text \<open>
  \<^verbatim>\<open>kernel/memory.c\<close>: physical and virtual page allocation and the heap behind \<open>sys_malloc\<close> and
  \<open>sys_free\<close>.

  \<open>NULL\<close> is address 0.  An arena is known by its page address and its header is an entry of
  \<open>arenas\<close>; free blocks are the addresses in \<open>free_list\<close>.  Locks are taken with
  \<open>lock_take\<close>: a thread that would have to wait for the pool is not running (theory \<open>Sync\<close>).
\<close>

section \<open>The pools\<close>

definition uint16 :: "u32 \<Rightarrow> u16" where
  "uint16 x = ucast x"

text \<open>
  \<open>raw\<close> is what the memory at \<open>MEM_BITMAP_BASE\<close> holds before.  The three bitmaps lie behind each other.
\<close>

definition mem_pool_init :: "u32 \<Rightarrow> (nat \<Rightarrow> u8) \<Rightarrow> kernel \<Rightarrow> kernel option" where
  "mem_pool_init all_mem raw s = do {
     let page_table_size = PG_SIZE * 256;
     let used_mem = page_table_size + 0x100000;
     let free_mem = all_mem - used_mem;
     let all_free_pages = uint16 (free_mem div PG_SIZE);
     let kernel_free_pages = all_free_pages div 2;
     let user_free_pages = all_free_pages - kernel_free_pages;
     let kbm_length = unat (kernel_free_pages div 8);
     let ubm_length = unat (user_free_pages div 8);
     let kp_start = used_mem;
     let up_start = kp_start + ucast kernel_free_pages * PG_SIZE;
     let kernel_pool_bits = map raw [0..<kbm_length];
     let user_pool_bits = map raw [kbm_length..<kbm_length + ubm_length];
     let vaddr_bits = map raw [kbm_length + ubm_length..<kbm_length + ubm_length + kbm_length];
     kbm \<leftarrow> bitmap_init \<lparr>btmp_bytes_len = kbm_length, bits = kernel_pool_bits\<rparr>;
     kbm \<leftarrow> bitmap_init kbm;
     vbm \<leftarrow> bitmap_init \<lparr>btmp_bytes_len = kbm_length, bits = vaddr_bits\<rparr>;
     let s = s\<lparr>
       kernel_pool := \<lparr>pool_bitmap = kbm, phy_addr_start = kp_start,
         pool_size = ucast kernel_free_pages * PG_SIZE\<rparr>,
       user_pool := \<lparr>pool_bitmap = \<lparr>btmp_bytes_len = ubm_length, bits = user_pool_bits\<rparr>, phy_addr_start = up_start,
         pool_size = ucast user_free_pages * PG_SIZE\<rparr>,
       kernel_vaddr := \<lparr>vaddr_bitmap = vbm, bits_ptr = 0xc009a000 + of_nat (kbm_length + ubm_length), vaddr_start = K_HEAP_START\<rparr>\<rparr>;
     let s = upd_lock KernelPoolLock lock_init s;
     Some (upd_lock UserPoolLock lock_init s)
   }"

definition get_pool :: "pool_flags \<Rightarrow> kernel \<Rightarrow> pool" where
  "get_pool pf s = (if pf = PF_KERNEL then kernel_pool s else user_pool s)"

definition set_pool :: "pool_flags \<Rightarrow> pool \<Rightarrow> kernel \<Rightarrow> kernel" where
  "set_pool pf p s = (if pf = PF_KERNEL then s\<lparr>kernel_pool := p\<rparr> else s\<lparr>user_pool := p\<rparr>)"

definition pool_lock :: "pool_flags \<Rightarrow> lock_id" where
  "pool_lock pf = (if pf = PF_KERNEL then KernelPoolLock else UserPoolLock)"

definition get_vaddr :: "pool_flags \<Rightarrow> kernel \<Rightarrow> virtual_addr" where
  "get_vaddr pf s = (if pf = PF_KERNEL then kernel_vaddr s else userprog_vaddr (cur_task s))"

definition set_vaddr_bitmap :: "pool_flags \<Rightarrow> bitmap \<Rightarrow> kernel \<Rightarrow> kernel" where
  "set_vaddr_bitmap pf bm s =
     (if pf = PF_KERNEL then s\<lparr>kernel_vaddr := (kernel_vaddr s)\<lparr>vaddr_bitmap := bm\<rparr>\<rparr>
      else upd_task (running_thread s) (\<lambda>p. p\<lparr>userprog_vaddr := (userprog_vaddr p)\<lparr>vaddr_bitmap := bm\<rparr>\<rparr>) s)"

text \<open>The loops that mark \<open>pg_cnt\<close> bits.\<close>

fun bitmap_set_run :: "bitmap \<Rightarrow> nat \<Rightarrow> nat \<Rightarrow> int \<Rightarrow> bitmap option" where
  "bitmap_set_run bm i 0 v = Some bm"
| "bitmap_set_run bm i (Suc cnt) v = do { bm \<leftarrow> bitmap_set bm i v; bitmap_set_run bm (i + 1) cnt v }"

definition vaddr_get :: "pool_flags \<Rightarrow> nat \<Rightarrow> kernel \<Rightarrow> (kernel \<times> u32) option" where
  "vaddr_get pf pg_cnt s = do {
     bit_idx_start \<leftarrow> bitmap_scan (vaddr_bitmap (get_vaddr pf s)) pg_cnt;
     if bit_idx_start = -1 then Some (s, 0)
     else do {
       bm \<leftarrow> bitmap_set_run (vaddr_bitmap (get_vaddr pf s)) (nat bit_idx_start) pg_cnt 1;
       let start = vaddr_start (get_vaddr pf s) + of_int bit_idx_start * PG_SIZE;
       ASSERT (pf = PF_USER \<longrightarrow> start < 0xc0000000 - PG_SIZE);
       Some (set_vaddr_bitmap pf bm s, start)
     }
   }"

definition vaddr_remove :: "pool_flags \<Rightarrow> u32 \<Rightarrow> nat \<Rightarrow> kernel \<Rightarrow> kernel option" where
  "vaddr_remove pf vaddr pg_cnt s = do {
     let bit_idx_start = unat ((vaddr - vaddr_start (get_vaddr pf s)) div PG_SIZE);
     bm \<leftarrow> bitmap_set_run (vaddr_bitmap (get_vaddr pf s)) bit_idx_start pg_cnt 0;
     Some (set_vaddr_bitmap pf bm s)
   }"

definition pfree :: "u32 \<Rightarrow> kernel \<Rightarrow> kernel option" where
  "pfree pg_phy_addr s = do {
     let pf = (if pg_phy_addr \<ge> phy_addr_start (user_pool s) then PF_USER else PF_KERNEL);
     let bit_idx = unat ((pg_phy_addr - phy_addr_start (get_pool pf s)) div PG_SIZE);
     bm \<leftarrow> bitmap_set (pool_bitmap (get_pool pf s)) bit_idx 0;
     Some (set_pool pf ((get_pool pf s)\<lparr>pool_bitmap := bm\<rparr>) s)
   }"

text \<open>\<open>free_a_phy_page\<close> has the same body as \<open>pfree\<close>.\<close>

definition free_a_phy_page :: "u32 \<Rightarrow> kernel \<Rightarrow> kernel option" where
  "free_a_phy_page pg_phy_addr s = do {
     let pf = (if pg_phy_addr \<ge> phy_addr_start (user_pool s) then PF_USER else PF_KERNEL);
     let bit_idx = unat ((pg_phy_addr - phy_addr_start (get_pool pf s)) div PG_SIZE);
     bm \<leftarrow> bitmap_set (pool_bitmap (get_pool pf s)) bit_idx 0;
     Some (set_pool pf ((get_pool pf s)\<lparr>pool_bitmap := bm\<rparr>) s)
   }"


section \<open>Pages\<close>

fun malloc_page_loop :: "pool_flags \<Rightarrow> u32 \<Rightarrow> nat \<Rightarrow> kernel \<Rightarrow> (kernel \<times> bool) option" where
  "malloc_page_loop pf vaddr 0 s = Some (s, True)"
| "malloc_page_loop pf vaddr (Suc cnt) s = do {
     (p, page_phyaddr) \<leftarrow> palloc (get_pool pf s);
     let s = set_pool pf p s;
     if page_phyaddr = 0 then Some (s, False)
     else do {
       s \<leftarrow> page_table_add s vaddr page_phyaddr;
       malloc_page_loop pf (vaddr + PG_SIZE) cnt s
     }
   }"

definition malloc_page :: "pool_flags \<Rightarrow> nat \<Rightarrow> kernel \<Rightarrow> (kernel \<times> u32) option" where
  "malloc_page pf pg_cnt s = do {
     ASSERT (pg_cnt > 0 \<and> pg_cnt < 3840);
     (s, start) \<leftarrow> vaddr_get pf pg_cnt s;
     if start = 0 then Some (s, 0)
     else do {
       (s, complete) \<leftarrow> malloc_page_loop pf start pg_cnt s;
       Some (s, if complete then start else 0)
     }
   }"

fun mfree_page_loop :: "bool \<Rightarrow> u32 \<Rightarrow> nat \<Rightarrow> kernel \<Rightarrow> kernel option" where
  "mfree_page_loop user vaddr 0 s = Some s"
| "mfree_page_loop user vaddr (Suc cnt) s = do {
     pg_phy_addr \<leftarrow> addr_v2p s vaddr;
     ASSERT (pg_phy_addr mod PG_SIZE = 0 \<and>
       (if user then pg_phy_addr \<ge> phy_addr_start (user_pool s)
        else pg_phy_addr \<ge> phy_addr_start (kernel_pool s) \<and> pg_phy_addr < phy_addr_start (user_pool s)));
     s \<leftarrow> pfree pg_phy_addr s;
     s \<leftarrow> page_table_pte_remove s vaddr;
     mfree_page_loop user (vaddr + PG_SIZE) cnt s
   }"

definition mfree_page :: "pool_flags \<Rightarrow> u32 \<Rightarrow> nat \<Rightarrow> kernel \<Rightarrow> kernel option" where
  "mfree_page pf vaddr pg_cnt s = do {
     ASSERT (pg_cnt \<ge> 1 \<and> vaddr mod PG_SIZE = 0);
     pg_phy_addr \<leftarrow> addr_v2p s vaddr;
     ASSERT (pg_phy_addr mod PG_SIZE = 0 \<and> pg_phy_addr \<ge> 0x102000);
     s \<leftarrow> mfree_page_loop (pg_phy_addr \<ge> phy_addr_start (user_pool s)) vaddr pg_cnt s;
     vaddr_remove pf vaddr pg_cnt s
   }"

text \<open>\<open>memset (vaddr, 0, cnt * PG_SIZE)\<close>.\<close>

fun clear_pages :: "u32 \<Rightarrow> nat \<Rightarrow> kernel \<Rightarrow> kernel option" where
  "clear_pages vaddr 0 s = Some s"
| "clear_pages vaddr (Suc cnt) s = do { s \<leftarrow> clear_page s vaddr; clear_pages (vaddr + PG_SIZE) cnt s }"

text \<open>\<open>memset (vaddr, 0, 4 * cnt)\<close> inside of a page.\<close>

fun clear_words :: "u32 \<Rightarrow> nat \<Rightarrow> kernel \<Rightarrow> kernel option" where
  "clear_words vaddr 0 s = Some s"
| "clear_words vaddr (Suc cnt) s = do { s \<leftarrow> store s vaddr 0; clear_words (vaddr + 4) cnt s }"

definition get_kernel_pages :: "nat \<Rightarrow> kernel \<Rightarrow> (kernel \<times> u32) option" where
  "get_kernel_pages pg_cnt s = do {
     (s, vaddr) \<leftarrow> malloc_page PF_KERNEL pg_cnt s;
     s \<leftarrow> (if vaddr \<noteq> 0 then clear_pages vaddr pg_cnt s else Some s);
     Some (s, vaddr)
   }"

definition get_user_pages :: "nat \<Rightarrow> kernel \<Rightarrow> (kernel \<times> u32) option" where
  "get_user_pages pg_cnt s = do {
     s \<leftarrow> lock_take UserPoolLock s;
     (s, vaddr) \<leftarrow> malloc_page PF_USER pg_cnt s;
     s \<leftarrow> (if vaddr \<noteq> 0 then clear_pages vaddr pg_cnt s else Some s);
     s \<leftarrow> lock_release UserPoolLock s;
     Some (s, vaddr)
   }"

text \<open>
  In \<open>get_a_page\<close> the operands of the division are unsigned, so \<open>bit_idx\<close> is below \<open>2 ^ 20\<close> and its
  sign bit is never set.  When \<open>palloc\<close> returns \<open>NULL\<close> the code returns without releasing the lock.
\<close>

definition get_a_page :: "pool_flags \<Rightarrow> u32 \<Rightarrow> kernel \<Rightarrow> (kernel \<times> u32) option" where
  "get_a_page pf vaddr s = do {
     s \<leftarrow> lock_take (pool_lock pf) s;
     ASSERT (pgdir (cur_task s) \<noteq> 0 \<and> pf = PF_USER \<or> pgdir (cur_task s) = 0 \<and> pf = PF_KERNEL);
     let bit_idx = unat ((vaddr - vaddr_start (get_vaddr pf s)) div PG_SIZE);
     ASSERT (bit_idx > 0);
     bm \<leftarrow> bitmap_set (vaddr_bitmap (get_vaddr pf s)) bit_idx 1;
     let s = set_vaddr_bitmap pf bm s;
     (p, page_phyaddr) \<leftarrow> palloc (get_pool pf s);
     let s = set_pool pf p s;
     if page_phyaddr = 0 then Some (s, 0)
     else do {
       s \<leftarrow> page_table_add s vaddr page_phyaddr;
       s \<leftarrow> lock_release (pool_lock pf) s;
       Some (s, vaddr)
     }
   }"

definition get_a_page_without_opvaddrbitmap :: "pool_flags \<Rightarrow> u32 \<Rightarrow> kernel \<Rightarrow> (kernel \<times> u32) option" where
  "get_a_page_without_opvaddrbitmap pf vaddr s = do {
     s \<leftarrow> lock_take (pool_lock pf) s;
     (p, page_phyvaddr) \<leftarrow> palloc (get_pool pf s);
     let s = set_pool pf p s;
     if page_phyvaddr = 0 then do { s \<leftarrow> lock_release (pool_lock pf) s; Some (s, 0) }
     else do {
       s \<leftarrow> page_table_add s vaddr page_phyvaddr;
       s \<leftarrow> lock_release (pool_lock pf) s;
       Some (s, vaddr)
     }
   }"



section \<open>Frames\<close>

lemma upd_lock_mem_frame [frame_simps]:
  "kernel_pool (upd_lock l f s) = kernel_pool s" "user_pool (upd_lock l f s) = user_pool s"
  "kernel_vaddr (upd_lock l f s) = kernel_vaddr s" "k_block_descs (upd_lock l f s) = k_block_descs s"
  "arenas (upd_lock l f s) = arenas s" "phys (upd_lock l f s) = phys s" "cr3 (upd_lock l f s) = cr3 s"
  "pid_bitmap (upd_lock l f s) = pid_bitmap s" "pid_start (upd_lock l f s) = pid_start s"
  by (simp_all add: upd_lock_def)

text \<open>
  The layout that \<open>mem_pool_init\<close> sets up: the kernel frames lie below the user frames, no frame is
  frame 0, and the last one ends inside of the address space.
\<close>

definition pools_ok :: "kernel \<Rightarrow> bool" where
  "pools_ok s \<longleftrightarrow>
     wf_bitmap (pool_bitmap (kernel_pool s)) \<and> wf_bitmap (pool_bitmap (user_pool s)) \<and>
     page_frame (phy_addr_start (kernel_pool s)) = phy_addr_start (kernel_pool s) \<and>
     page_frame (phy_addr_start (user_pool s)) = phy_addr_start (user_pool s) \<and>
     0 < unat (phy_addr_start (kernel_pool s)) \<and>
     unat (phy_addr_start (kernel_pool s)) + nbits (pool_bitmap (kernel_pool s)) * 4096 \<le> unat (phy_addr_start (user_pool s)) \<and>
     unat (phy_addr_start (user_pool s)) + nbits (pool_bitmap (user_pool s)) * 4096 \<le> 2 ^ 32"

definition frame_addr :: "pool \<Rightarrow> nat \<Rightarrow> u32" where
  "frame_addr p n = of_nat n * PG_SIZE + phy_addr_start p"

definition frames :: "pool_flags \<Rightarrow> kernel \<Rightarrow> u32 set" where
  "frames pf s = frame_addr (get_pool pf s) ` {..<nbits (pool_bitmap (get_pool pf s))}"

definition taken_frames :: "pool_flags \<Rightarrow> kernel \<Rightarrow> u32 set" where
  "taken_frames pf s = frame_addr (get_pool pf s) ` used (pool_bitmap (get_pool pf s))"

definition alloc_frame :: "pool_flags \<Rightarrow> kernel \<Rightarrow> (kernel \<times> u32) option" where
  "alloc_frame pf s = do { (p, a) \<leftarrow> palloc (get_pool pf s); Some (set_pool pf p s, a) }"

lemma get_set_pool [simp]:
  "get_pool pf (set_pool pf' p s) = (if pf = pf' then p else get_pool pf s)"
  by (cases pf; cases pf') (simp_all add: get_pool_def set_pool_def)

lemma get_pool_flags: "get_pool PF_KERNEL s = kernel_pool s" "get_pool PF_USER s = user_pool s"
  by (simp_all add: get_pool_def)

lemma pools_okD:
  assumes "pools_ok s"
  shows "wf_bitmap (pool_bitmap (get_pool pf s))"
    and "unat (phy_addr_start (get_pool pf s)) + nbits (pool_bitmap (get_pool pf s)) * 4096 \<le> 2 ^ 32"
    and "0 < unat (phy_addr_start (get_pool pf s))"
    and "page_frame (phy_addr_start (get_pool pf s)) = phy_addr_start (get_pool pf s)"
  using assms by (cases pf; force simp: pools_ok_def get_pool_def)+

lemma pools_ok_set_pool:
  assumes "pools_ok s" "wf_bitmap bm" "nbits bm = nbits (pool_bitmap (get_pool pf s))"
  shows "pools_ok (set_pool pf ((get_pool pf s)\<lparr>pool_bitmap := bm\<rparr>) s)"
  using assms by (cases pf) (simp_all add: pools_ok_def set_pool_def get_pool_def)

lemma unat_frame_addr:
  assumes "pools_ok s" "n < nbits (pool_bitmap (get_pool pf s))"
  shows "unat (frame_addr (get_pool pf s) n) = unat (phy_addr_start (get_pool pf s)) + n * 4096"
proof -
  have b: "unat (phy_addr_start (get_pool pf s)) + n * 4096 < 2 ^ 32"
    using pools_okD(2) [OF assms(1), of pf] assms(2) by linarith
  have n: "unat (of_nat n :: u32) = n" using b by (subst unat_of_nat) simp
  have m: "unat (of_nat n * PG_SIZE) = n * 4096"
    using b n by (subst unat_word_ariths(2)) (simp add: PG_SIZE_def)
  show ?thesis
    unfolding frame_addr_def using b m by (subst unat_add_small) (simp_all add: add.commute)
qed

lemma frame_addr_inj: "pools_ok s \<Longrightarrow> inj_on (frame_addr (get_pool pf s)) {..<nbits (pool_bitmap (get_pool pf s))}"
  by (rule inj_onI) (metis lessThan_iff unat_frame_addr add_left_cancel mult_right_cancel zero_neq_numeral)

lemma frame_index:
  assumes "pools_ok s" "n < nbits (pool_bitmap (get_pool pf s))"
  shows "unat ((frame_addr (get_pool pf s) n - phy_addr_start (get_pool pf s)) div PG_SIZE) = n"
proof -
  have "frame_addr (get_pool pf s) n - phy_addr_start (get_pool pf s) = of_nat (n * 4096)"
    by (simp add: frame_addr_def PG_SIZE_def)
  moreover have "n * 4096 < 2 ^ 32" using pools_okD(2) [OF assms(1), of pf] assms(2) by linarith
  then have "unat (of_nat (n * 4096) :: u32) = n * 4096" by (subst unat_of_nat) simp
  ultimately show ?thesis by (simp add: unat_div_distrib PG_SIZE_def)
qed

lemma frame_pool:
  assumes "pools_ok s" "n < nbits (pool_bitmap (get_pool pf s))"
  shows "(if frame_addr (get_pool pf s) n \<ge> phy_addr_start (user_pool s) then PF_USER else PF_KERNEL) = pf"
proof (cases pf)
  case PF_USER
  then show ?thesis using unat_frame_addr [OF assms] by (simp add: word_le_nat_alt get_pool_flags)
next
  case PF_KERNEL
  have "unat (phy_addr_start (kernel_pool s)) + n * 4096 < unat (phy_addr_start (user_pool s))"
    using assms PF_KERNEL by (simp add: pools_ok_def get_pool_flags)
  then show ?thesis using unat_frame_addr [OF assms] PF_KERNEL by (simp add: word_le_nat_alt get_pool_flags)
qed

lemma palloc_take:
  assumes "wf_bitmap (pool_bitmap p)" "used (pool_bitmap p) \<noteq> {..<nbits (pool_bitmap p)}"
  obtains n bm where "palloc p = Some (p\<lparr>pool_bitmap := bm\<rparr>, frame_addr p n)" "n < nbits (pool_bitmap p)"
    "n \<notin> used (pool_bitmap p)" "used bm = insert n (used (pool_bitmap p))" "wf_bitmap bm" "nbits bm = nbits (pool_bitmap p)"
proof -
  obtain n bm where h: "bitmap_scan (pool_bitmap p) 1 = Some (int n)" "bitmap_set (pool_bitmap p) n 1 = Some bm"
    "n < nbits (pool_bitmap p)" "n \<notin> used (pool_bitmap p)" "used bm = insert n (used (pool_bitmap p))"
    "wf_bitmap bm" "nbits bm = nbits (pool_bitmap p)"
    using bitmap_take_one [OF assms] by blast
  then have "palloc p = Some (p\<lparr>pool_bitmap := bm\<rparr>, frame_addr p n)" by (simp add: palloc_def frame_addr_def)
  then show thesis using that h by blast
qed

lemma alloc_frame_ok:
  assumes ok: "pools_ok s" and nf: "taken_frames pf s \<noteq> frames pf s"
  shows "\<exists>s' a. alloc_frame pf s = Some (s', a) \<and> a \<in> frames pf s - taken_frames pf s \<and>
    taken_frames pf s' = insert a (taken_frames pf s) \<and> frames pf s' = frames pf s \<and> pools_ok s'"
proof -
  let ?p = "get_pool pf s"
  have "used (pool_bitmap ?p) \<noteq> {..<nbits (pool_bitmap ?p)}"
    using nf by (auto simp: taken_frames_def frames_def)
  then obtain n bm where n: "palloc ?p = Some (?p\<lparr>pool_bitmap := bm\<rparr>, frame_addr ?p n)" "n < nbits (pool_bitmap ?p)"
    "n \<notin> used (pool_bitmap ?p)" "used bm = insert n (used (pool_bitmap ?p))" "wf_bitmap bm" "nbits bm = nbits (pool_bitmap ?p)"
    using palloc_take [OF pools_okD(1) [OF ok]] by metis
  have fa: "frame_addr (?p\<lparr>pool_bitmap := bm\<rparr>) = frame_addr ?p" by (simp add: frame_addr_def fun_eq_iff)
  have "frame_addr ?p n \<notin> taken_frames pf s"
    using n(2,3) frame_addr_inj [OF ok, of pf] used_subset [of "pool_bitmap ?p"]
    unfolding taken_frames_def inj_on_def by blast
  then show ?thesis
    using n pools_ok_set_pool [OF ok n(5,6)]
    by (auto simp: alloc_frame_def taken_frames_def frames_def fa)
qed

lemma pfree_ok:
  assumes ok: "pools_ok s" and a: "a \<in> taken_frames pf s"
  shows "\<exists>s'. pfree a s = Some s' \<and> taken_frames pf s' = taken_frames pf s - {a} \<and>
    frames pf s' = frames pf s \<and> pools_ok s'"
proof -
  let ?p = "get_pool pf s"
  obtain n where n: "a = frame_addr ?p n" "n \<in> used (pool_bitmap ?p)" using a by (auto simp: taken_frames_def)
  then have nb: "n < nbits (pool_bitmap ?p)" by (simp add: used_def)
  obtain bm where bm: "bitmap_set (pool_bitmap ?p) n 0 = Some bm" "used bm = used (pool_bitmap ?p) - {n}"
    "wf_bitmap bm" "nbits bm = nbits (pool_bitmap ?p)"
    using bitmap_clear_one [OF pools_okD(1) [OF ok] n(2)] by blast
  have r: "pfree a s = Some (set_pool pf (?p\<lparr>pool_bitmap := bm\<rparr>) s)"
    using bm(1) frame_pool [OF ok nb] frame_index [OF ok nb] by (simp add: pfree_def n(1) Let_def)
  have fa: "frame_addr (?p\<lparr>pool_bitmap := bm\<rparr>) = frame_addr ?p" by (simp add: frame_addr_def fun_eq_iff)
  have "frame_addr ?p ` (used (pool_bitmap ?p) - {n}) = frame_addr ?p ` used (pool_bitmap ?p) - {a}"
    using inj_on_image_set_diff [OF frame_addr_inj [OF ok, of pf], of "used (pool_bitmap ?p)" "{n}"]
      used_subset [of "pool_bitmap ?p"] nb n(1) by auto
  then show ?thesis
    using r bm pools_ok_set_pool [OF ok bm(3,4)] by (simp add: taken_frames_def frames_def fa)
qed


lemma frames_slot_pool: "slot_pool (alloc_frame pf) pfree (taken_frames pf) (frames pf) pools_ok"
proof
  fix s a assume ok: "pools_ok s"
  show "finite (frames pf s)" by (simp add: frames_def)
  show "taken_frames pf s \<subseteq> frames pf s" using used_subset by (auto simp: taken_frames_def frames_def)
  show "a \<in> taken_frames pf s \<Longrightarrow> \<exists>s'. pfree a s = Some s' \<and> taken_frames pf s' = taken_frames pf s - {a} \<and>
    frames pf s' = frames pf s \<and> pools_ok s'" by (rule pfree_ok [OF ok])
  show "taken_frames pf s \<noteq> frames pf s \<Longrightarrow> \<exists>s' a. alloc_frame pf s = Some (s', a) \<and> a \<in> frames pf s - taken_frames pf s \<and>
    taken_frames pf s' = insert a (taken_frames pf s) \<and> frames pf s' = frames pf s \<and> pools_ok s'"
    by (rule alloc_frame_ok [OF ok])
  assume "taken_frames pf s = frames pf s"
  then have "used (pool_bitmap (get_pool pf s)) = {..<nbits (pool_bitmap (get_pool pf s))}"
    using inj_on_image_eq_iff [OF frame_addr_inj [OF ok, of pf] used_subset subset_refl]
    by (simp add: taken_frames_def frames_def)
  then show "alloc_frame pf s = None" by (simp add: alloc_frame_def palloc_def bitmap_scan_full)
qed

interpretation kframes: slot_pool "alloc_frame PF_KERNEL" pfree "taken_frames PF_KERNEL" "frames PF_KERNEL" pools_ok
  by (rule frames_slot_pool)

interpretation uframes: slot_pool "alloc_frame PF_USER" pfree "taken_frames PF_USER" "frames PF_USER" pools_ok
  by (rule frames_slot_pool)

text \<open>
  \<open>palloc\<close> on the user pool never hands out a frame twice: as many frames as are free can be
  allocated, they are distinct, were not in use and are frames of the pool; one more request panics.
\<close>

theorem palloc_frames_distinct:
  assumes "pools_ok s"
  defines "free \<equiv> frames PF_USER s - taken_frames PF_USER s"
  shows "\<exists>s' as. take_n (alloc_frame PF_USER) (card free) s = Some (s', as) \<and> distinct as \<and>
    set as = free \<and> alloc_frame PF_USER s' = None"
proof -
  obtain s' as where s': "take_n (alloc_frame PF_USER) (card free) s = Some (s', as)" "length as = card free"
    "distinct as" "set as \<subseteq> free" "taken_frames PF_USER s' = taken_frames PF_USER s \<union> set as"
    "frames PF_USER s' = frames PF_USER s" "pools_ok s'"
    using uframes.take_n_distinct [OF assms(1), of "card free"] unfolding free_def by blast
  have "finite free" unfolding free_def by (simp add: frames_def)
  then have "set as = free" using s'(2-4) by (metis card_subset_eq distinct_card)
  moreover have "taken_frames PF_USER s' = frames PF_USER s'"
    using \<open>set as = free\<close> s'(5,6) uframes.taken_slots [OF assms(1)] unfolding free_def by blast
  then have "alloc_frame PF_USER s' = None" by (rule uframes.alloc_full [OF s'(7)])
  ultimately show ?thesis using s' by blast
qed

text \<open>
  A frame that is given back with \<open>pfree\<close>, which recognises the pool by the address, is free
  again, for both pools.
\<close>

theorem pfree_undoes_palloc:
  assumes "pools_ok s" and "alloc_frame pf s = Some (s', a)"
  shows "\<exists>s''. pfree a s' = Some s'' \<and> taken_frames pf s'' = taken_frames pf s \<and> pools_ok s''"
proof (cases pf)
  case PF_KERNEL
  then show ?thesis using kframes.alloc_release assms by blast
next
  case PF_USER
  then show ?thesis using uframes.alloc_release assms by blast
qed



section \<open>Page allocation\<close>

text \<open>
  A frame is owned when it is taken in one of the pools or lies below them (the first megabyte and
  the boot page tables).  In a consistent memory every page table and every mapped page is owned.
\<close>

definition owned :: "kernel \<Rightarrow> u32 \<Rightarrow> bool" where
  "owned s f \<longleftrightarrow> f \<in> taken_frames PF_KERNEL s \<or> f \<in> taken_frames PF_USER s \<or> f < phy_addr_start (kernel_pool s)"

definition mm_ok :: "kernel \<Rightarrow> bool" where
  "mm_ok s \<longleftrightarrow> pools_ok s \<and> self_mapped s \<and> tables_disjoint s \<and>
     (\<forall>v. present (pde_of s v) \<longrightarrow> owned s (page_frame (pde_of s v))) \<and>
     (\<forall>v p. PDE_IDX v \<noteq> 1023 \<longrightarrow> translate s v = Some p \<longrightarrow> owned s (page_frame p))"

lemma frames_bounds:
  assumes "pools_ok s" "a \<in> frames pf s"
  shows "phy_addr_start (kernel_pool s) \<le> a" "a < phy_addr_start (user_pool s) \<longleftrightarrow> pf = PF_KERNEL"
    "a \<noteq> 0" "page_frame a = a"
proof -
  obtain n where n: "a = frame_addr (get_pool pf s) n" "n < nbits (pool_bitmap (get_pool pf s))"
    using assms(2) by (auto simp: frames_def)
  note u = unat_frame_addr [OF assms(1) n(2)]
  have "unat (phy_addr_start (kernel_pool s)) \<le> unat (phy_addr_start (get_pool pf s))"
    using assms(1) by (cases pf) (simp_all add: pools_ok_def get_pool_flags)
  then show "phy_addr_start (kernel_pool s) \<le> a" by (simp add: word_le_nat_alt u n(1))
  show "a < phy_addr_start (user_pool s) \<longleftrightarrow> pf = PF_KERNEL"
    using frame_pool [OF assms(1) n(2)] n(1) by (cases pf) (auto split: if_splits)
  have "0 < unat a" using u pools_okD(3) [OF assms(1), of pf] n(1) by simp
  then show "a \<noteq> 0" by auto
  have "unat (phy_addr_start (get_pool pf s)) = unat (phy_addr_start (get_pool pf s)) div 4096 * 4096"
    using arg_cong [OF pools_okD(4) [OF assms(1), of pf], of unat] by (simp add: unat_page_frame)
  then have "unat a = (unat (phy_addr_start (get_pool pf s)) div 4096 + n) * 4096" using u n(1) by (simp add: algebra_simps)
  then have "unat a div 4096 * 4096 = unat a" by simp
  then show "page_frame a = a" by (intro word_unat_eq_iff [THEN iffD2]) (simp add: unat_page_frame)
qed

lemma taken_other_pool: "pf \<noteq> pf' \<Longrightarrow> taken_frames pf' (set_pool pf p s) = taken_frames pf' s"
  by (simp add: taken_frames_def)

lemma alloc_frame_set_pool: "alloc_frame pf s = Some (s', a) \<Longrightarrow> \<exists>bm. s' = set_pool pf ((get_pool pf s)\<lparr>pool_bitmap := bm\<rparr>) s"
  by (auto simp: alloc_frame_def palloc_def bind_Some_iff Let_def split: if_splits)
    (metis (no_types) pool.surjective pool.update_convs(1))

lemma alloc_frame_fresh:
  assumes ok: "pools_ok s" and r: "alloc_frame pf s = Some (s', a)"
  shows "\<not> owned s a" "owned s' f \<longleftrightarrow> owned s f \<or> f = a" "a \<noteq> 0" "page_frame a = a" "pools_ok s'"
proof -
  note al = slot_pool.alloc_Some [OF frames_slot_pool ok r]
  have fr: "a \<in> frames pf s" "a \<notin> taken_frames pf s" using al(1) by auto
  note b = frames_bounds [OF ok fr(1)]
  obtain bm where s': "s' = set_pool pf ((get_pool pf s)\<lparr>pool_bitmap := bm\<rparr>) s" using alloc_frame_set_pool [OF r] by blast
  have st: "phy_addr_start (kernel_pool s') = phy_addr_start (kernel_pool s)"
    by (cases pf) (simp_all add: s' set_pool_def get_pool_flags)
  have dis: "pf' \<noteq> pf \<Longrightarrow> a \<notin> taken_frames pf' s" for pf'
    using slot_pool.taken_slots [OF frames_slot_pool ok, of pf'] frames_bounds(2) [OF ok, of a pf'] b(2)
    by (cases pf; cases pf') auto
  show "\<not> owned s a" using fr(2) dis b(1) by (cases pf) (auto simp: owned_def)
  have oth: "pf' \<noteq> pf \<Longrightarrow> taken_frames pf' s' = taken_frames pf' s" for pf' unfolding s' by (rule taken_other_pool) auto
  show "owned s' f \<longleftrightarrow> owned s f \<or> f = a"
    using al(2) oth [of PF_KERNEL] oth [of PF_USER] by (cases pf) (auto simp: owned_def st)
  show "a \<noteq> 0" "page_frame a = a" by (rule b)+
  show "pools_ok s'" by (rule al(4))
qed

lemma set_pool_frame [simp]:
  "phys (set_pool pf p s) = phys s" "cr3 (set_pool pf p s) = cr3 s" "running (set_pool pf p s) = running s"
  "tasks (set_pool pf p s) = tasks s" "kernel_vaddr (set_pool pf p s) = kernel_vaddr s" "arenas (set_pool pf p s) = arenas s"
  "k_block_descs (set_pool pf p s) = k_block_descs s" "locks (set_pool pf p s) = locks s" "eflags (set_pool pf p s) = eflags s"
  by (cases pf; simp add: set_pool_def)+

lemma translate_cong: "phys s' = phys s \<Longrightarrow> cr3 s' = cr3 s \<Longrightarrow> translate s' v = translate s v"
  "phys s' = phys s \<Longrightarrow> cr3 s' = cr3 s \<Longrightarrow> pde_of s' v = pde_of s v"
  by (simp_all add: translate_def pte_addr_def pde_of_def)

lemma maps_cong:
  assumes "phys s' = phys s" "cr3 s' = cr3 s"
  shows "self_mapped s' = self_mapped s" "tables_disjoint s' = tables_disjoint s"
  unfolding self_mapped_def tables_disjoint_def assms translate_cong(2) [OF assms] by simp_all

lemma alloc_frame_mm:
  assumes mm: "mm_ok s" and r: "alloc_frame pf s = Some (s', a)"
  shows "mm_ok s'"
proof -
  obtain bm where s': "s' = set_pool pf ((get_pool pf s)\<lparr>pool_bitmap := bm\<rparr>) s" using alloc_frame_set_pool [OF r] by blast
  have c: "phys s' = phys s" "cr3 s' = cr3 s" by (simp_all add: s')
  have ok: "pools_ok s" using mm by (simp add: mm_ok_def)
  show ?thesis
    using mm alloc_frame_fresh [OF ok r] unfolding mm_ok_def translate_cong [OF c] maps_cong [OF c] by blast
qed

lemma page_frame_offset: "page_frame (page_frame a + (x AND 0xfff)) = page_frame a"
proof -
  have "unat a div 4096 \<le> 4294967295 div 4096" using unat_less_2p32 [of a] by (intro div_le_mono) simp
  then have "unat a div 4096 \<le> 1048575" by simp
  moreover have "unat x mod 4096 < 4096" by simp
  ultimately have "unat a div 4096 * 4096 + unat x mod 4096 < 4294967296" by linarith
  then have "unat (page_frame a + (x AND 0xfff)) = unat a div 4096 * 4096 + unat x mod 4096"
    by (subst unat_add_small) (simp_all add: unat_page_frame unat_offset)
  then show ?thesis by (intro word_unat_eq_iff [THEN iffD2]) (simp add: unat_page_frame)
qed

lemma translate_same_page:
  assumes "page_frame x = page_frame v"
  shows "translate s x = map_option (\<lambda>p. page_frame p + (x AND 0xfff)) (translate s v)"
proof -
  have "PDE_IDX x = PDE_IDX v" "PTE_IDX x = PTE_IDX v" using assms idx_eq_frame [of x v] by simp_all
  then have "pde_of s x = pde_of s v" "pte_addr s x = pte_addr s v" by (simp_all add: pde_of_def pte_addr_def)
  then show ?thesis by (simp add: translate_def page_frame_offset)
qed

text \<open>What \<open>page_table_add\<close> does in a consistent memory.\<close>

text \<open>The page table that \<open>page_table_add\<close> writes to exists, or it is made from a fresh frame.\<close>

lemma page_table_add_table:
  assumes mm: "mm_ok s" and r: "page_table_add s v p = Some s'" and v: "PDE_IDX v \<noteq> 1023"
  obtains s1 where "mm_ok s1" "present (pde_of s1 v)"
    "s' = s1\<lparr>phys := (phys s1)(pte_addr s1 v := p OR PG_US_U OR PG_RW_W OR PG_P_1)\<rparr>"
    "\<And>w. PDE_IDX w \<noteq> 1023 \<Longrightarrow> translate s1 w = translate s w" "\<And>f. owned s f \<Longrightarrow> owned s1 f" "translate s1 v = None"
proof -
  have ok: "pools_ok s" and sm: "self_mapped s" and td: "tables_disjoint s" using mm by (simp_all add: mm_ok_def)
  show thesis
  proof (cases "present (pde_of s v)")
    case True
    then show thesis
      using that [of s] mm r by (simp add: page_table_add_present [OF sm] translate_def split: if_splits)
  next
    case False
    obtain kp f where pal: "palloc (kernel_pool s) = Some (kp, f)"
      using r False by (auto simp: page_table_add_def load_pde_ptr [OF sm] Let_def bind_Some_iff present_def)
    then have af: "alloc_frame PF_KERNEL s = Some (s\<lparr>kernel_pool := kp\<rparr>, f)"
      by (simp add: alloc_frame_def get_pool_def set_pool_def)
    note fr = alloc_frame_fresh [OF ok af]
    have ff: "fresh_frame s f" using fr(1,4) mm unfolding fresh_frame_def mm_ok_def by blast
    define s1 where "s1 = with_table s kp v f"
    note w = with_table_facts [OF sm td ff False s1_def]
    have o1: "owned s1 g \<longleftrightarrow> owned s g \<or> g = f" for g
      using fr(2) [of g] by (simp add: owned_def s1_def with_table_def taken_frames_def get_pool_def)
    have "pools_ok s1" using fr(5) by (simp add: pools_ok_def s1_def with_table_def)
    moreover have "owned s1 (page_frame (pde_of s1 x))" if "present (pde_of s1 x)" for x
      using that mm fr(4) pde_of_with_table [OF sm ff, of kp v x, folded s1_def]
      by (auto simp: o1 mm_ok_def split: if_splits)
    moreover have "owned s1 (page_frame q)" if "PDE_IDX x \<noteq> 1023" "translate s1 x = Some q" for x q
      using that mm w(5) [of x] by (auto simp: o1 mm_ok_def)
    ultimately have "mm_ok s1" using w by (simp add: mm_ok_def)
    moreover have "translate s1 v = None" using w(5) [OF v] False by (simp add: translate_def)
    ultimately show thesis
      using that [of s1] w page_table_add_new [OF sm td ff False pal s1_def] r o1 by simp
  qed
qed

lemma page_table_add_mm:
  assumes mm: "mm_ok s" and r: "page_table_add s v p = Some s'" and v: "PDE_IDX v \<noteq> 1023"
    and al: "page_frame p = p" and ow: "owned s p"
  shows "mm_ok s'" "translate s' v = Some (p + (v AND 0xfff))"
    "PDE_IDX w \<noteq> 1023 \<Longrightarrow> page_frame w \<noteq> page_frame v \<Longrightarrow> translate s' w = translate s w"
    "owned s f \<Longrightarrow> owned s' f" "translate s v = None"
proof -
  let ?e = "p OR PG_US_U OR PG_RW_W OR PG_P_1"
  have pe: "present ?e" and fe: "page_frame ?e = p" using al by simp_all
  obtain s1 where s1: "mm_ok s1" "present (pde_of s1 v)" "s' = s1\<lparr>phys := (phys s1)(pte_addr s1 v := ?e)\<rparr>"
    "\<And>w. PDE_IDX w \<noteq> 1023 \<Longrightarrow> translate s1 w = translate s w" "\<And>f. owned s f \<Longrightarrow> owned s1 f" "translate s1 v = None"
    by (rule page_table_add_table [OF mm r v]) (rule that)
  have sm1: "self_mapped s1" "tables_disjoint s1" using s1(1) by (simp_all add: mm_ok_def)
  note pw = pte_write [OF sm1 s1(2) v s1(3), unfolded fe if_P [OF pe]]
  show tv: "translate s' v = Some (p + (v AND 0xfff))" by (rule pw(1))
  show tw: "translate s' w = translate s w" if "PDE_IDX w \<noteq> 1023" "page_frame w \<noteq> page_frame v" for w
    using pw(2) [OF that(2)] s1(4) that(1) by simp
  have os: "owned s' g = owned s1 g" for g by (simp add: owned_def taken_frames_def get_pool_def s1(3))
  show "owned s f \<Longrightarrow> owned s' f" for f using s1(5) os by simp
  show "translate s v = None" using s1(4) [OF v] s1(6) by simp
  have "page_frame (pte_addr s1 v) \<noteq> page_frame (cr3 s1)" using table_frame_neq_cr3 [OF sm1 s1(2) v] by simp
  then have pd: "pde_of s' x = pde_of s1 x" for x unfolding s1(3) by (rule pde_of_upd)
  have "owned s' (page_frame q)" if x: "PDE_IDX x \<noteq> 1023" "translate s' x = Some q" for x q
  proof (cases "page_frame x = page_frame v")
    case True
    then have "page_frame q = p" using x(2) translate_same_page [OF True, of s'] tv page_frame_offset [of p v] page_frame_offset [of p x] al by auto
    then show ?thesis using ow s1(5) os by simp
  next
    case False
    then show ?thesis using x pw(2) [OF False] s1(1) by (simp add: os mm_ok_def)
  qed
  moreover have "pools_ok s'" using s1(1) by (simp add: mm_ok_def pools_ok_def s1(3))
  ultimately show "mm_ok s'" using s1(1) pw(3,4) unfolding mm_ok_def pd os by blast
qed


definition page_at :: "u32 \<Rightarrow> nat \<Rightarrow> u32" where
  "page_at v i = v + of_nat i * PG_SIZE"

lemma page_at_Suc: "page_at v (Suc i) = page_at (v + PG_SIZE) i"
  by (simp add: page_at_def algebra_simps)

lemma page_at_0 [simp]: "page_at v 0 = v"
  by (simp add: page_at_def)

lemma page_at_neq: "0 < i \<Longrightarrow> i < 2 ^ 20 \<Longrightarrow> page_at v i \<noteq> v"
proof -
  assume i: "0 < i" "i < 2 ^ 20"
  have n: "unat (of_nat i :: u32) = i" using i(2) by (subst unat_of_nat) simp
  have "unat (of_nat i * PG_SIZE :: u32) = i * 4096"
    using i(2) n by (subst unat_word_ariths(2)) (simp add: PG_SIZE_def)
  then have "of_nat i * PG_SIZE \<noteq> (0 :: u32)" using i(1) by auto
  then show ?thesis by (simp add: page_at_def)
qed

lemma aligned_iff: "page_frame v = v \<longleftrightarrow> unat v mod 4096 = 0"
proof -
  have "unat v div 4096 * 4096 = unat v \<longleftrightarrow> unat v mod 4096 = 0"
    using div_mult_mod_eq [of "unat v" 4096] by linarith
  then show ?thesis by (simp add: word_unat_eq_iff unat_page_frame)
qed

lemma aligned_next: "page_frame v = v \<Longrightarrow> page_frame (v + PG_SIZE) = v + PG_SIZE"
proof -
  assume "page_frame v = v"
  then have "(unat v + 4096) mod 4096 = 0" by (simp add: aligned_iff)
  then have "(unat v + 4096) mod 4294967296 mod 4096 = 0" by (simp add: mod_mod_cancel)
  then show ?thesis by (simp add: aligned_iff PG_SIZE_def unat_word_ariths(1))
qed

lemma aligned_page_at: "page_frame v = v \<Longrightarrow> page_frame (page_at v i) = page_at v i"
proof (induction i arbitrary: v)
  case (Suc i)
  show ?case unfolding page_at_Suc by (rule Suc.IH [OF aligned_next [OF Suc.prems]])
qed simp

lemma aligned_offset: "page_frame v = v \<Longrightarrow> v AND 0xfff = 0"
  by (rule word_unat_eq_iff [THEN iffD2]) (simp add: unat_offset aligned_iff)

text \<open>What the loop of \<open>malloc_page\<close> does in a consistent memory.\<close>

lemma malloc_page_loop_mm:
  assumes "mm_ok s" "malloc_page_loop pf v n s = Some (s', True)" "page_frame v = v" "n < 2 ^ 20"
    and "\<And>i. i < n \<Longrightarrow> PDE_IDX (page_at v i) \<noteq> 1023"
  shows "mm_ok s' \<and> (\<forall>f. owned s f \<longrightarrow> owned s' f) \<and>
    (\<forall>i < n. translate s (page_at v i) = None) \<and>
    (\<forall>i < n. \<exists>f. translate s' (page_at v i) = Some f \<and> page_frame f = f \<and> \<not> owned s f) \<and>
    (\<forall>i < n. \<forall>j < n. translate s' (page_at v i) = translate s' (page_at v j) \<longrightarrow> i = j) \<and>
    (\<forall>w. PDE_IDX w \<noteq> 1023 \<longrightarrow> (\<forall>i < n. page_frame w \<noteq> page_at v i) \<longrightarrow> translate s' w = translate s w)"
  using assms
proof (induction n arbitrary: v s)
  case 0
  then show ?case by simp
next
  case (Suc n)
  obtain s1 a where s1: "alloc_frame pf s = Some (s1, a)"
    using Suc.prems(2) by (auto simp: alloc_frame_def bind_Some_iff split: if_splits)
  have ok: "pools_ok s" using Suc.prems(1) by (simp add: mm_ok_def)
  note fr = alloc_frame_fresh [OF ok s1] and mm1 = alloc_frame_mm [OF Suc.prems(1) s1]
  obtain s2 where s2: "page_table_add s1 v a = Some s2" "malloc_page_loop pf (v + PG_SIZE) n s2 = Some (s', True)"
    using Suc.prems(2) s1 fr(3) by (auto simp: alloc_frame_def bind_Some_iff Let_def split: if_splits)
  have v0: "PDE_IDX v \<noteq> 1023" using Suc.prems(5) [of 0] by simp
  note pt = page_table_add_mm [OF mm1 s2(1) v0 fr(4)] and off = aligned_offset [OF Suc.prems(3)]
  have ow1: "owned s1 a" using fr(2) by simp
  have "page_at (v + PG_SIZE) i = page_at v (Suc i)" for i by (simp add: page_at_Suc)
  then have IH: "mm_ok s'" "\<forall>f. owned s2 f \<longrightarrow> owned s' f"
    "\<forall>i < n. translate s2 (page_at v (Suc i)) = None"
    "\<forall>i < n. \<exists>f. translate s' (page_at v (Suc i)) = Some f \<and> page_frame f = f \<and> \<not> owned s2 f"
    "\<forall>i < n. \<forall>j < n. translate s' (page_at v (Suc i)) = translate s' (page_at v (Suc j)) \<longrightarrow> i = j"
    "\<forall>w. PDE_IDX w \<noteq> 1023 \<longrightarrow> (\<forall>i < n. page_frame w \<noteq> page_at v (Suc i)) \<longrightarrow> translate s' w = translate s2 w"
    using Suc.IH [OF pt(1) [OF ow1] s2(2) aligned_next [OF Suc.prems(3)]] Suc.prems(4,5) by simp_all
  have oo: "owned s f \<Longrightarrow> owned s2 f" for f using fr(2) pt(4) [OF ow1] by blast
  obtain bm where sp: "s1 = set_pool pf ((get_pool pf s)\<lparr>pool_bitmap := bm\<rparr>) s" using alloc_frame_set_pool [OF s1] by blast
  have tr1: "translate s1 w = translate s w" for w by (rule translate_cong) (simp_all add: sp)
  have dif: "page_at v (Suc i) \<noteq> v" if "i < n" for i using page_at_neq [of "Suc i" v] that Suc.prems(4) by simp
  have tv: "translate s' v = Some a"
    using IH(6) v0 dif Suc.prems(3) pt(2) [OF ow1] off by auto
  have al_v: "page_frame (page_at v i) = page_at v i" for i
    by (rule aligned_page_at [OF Suc.prems(3)])
  show ?case
  proof (intro conjI allI impI)
    show "mm_ok s'" by (rule IH(1))
    show "owned s f \<Longrightarrow> owned s' f" for f using oo IH(2) by blast
    show "translate s (page_at v i) = None" if "i < Suc n" for i
    proof (cases i)
      case 0
      then show ?thesis using pt(5) [OF ow1] tr1 by simp
    next
      case (Suc k)
      then have "translate s2 (page_at v i) = translate s1 (page_at v i)"
        using that dif [of k] Suc.prems(3,5) al_v by (intro pt(3) [OF ow1]) auto
      then show ?thesis using IH(3) that Suc tr1 by simp
    qed
    show "\<exists>f. translate s' (page_at v i) = Some f \<and> page_frame f = f \<and> \<not> owned s f" if "i < Suc n" for i
      using that tv fr(1,4) IH(4) oo by (cases i) (simp, fastforce)
    show "i = j" if "i < Suc n" "j < Suc n" "translate s' (page_at v i) = translate s' (page_at v j)" for i j
    proof -
      have ne: "translate s' (page_at v (Suc k)) \<noteq> Some a" if "k < n" for k
        using IH(4) that ow1 pt(4) [OF ow1] by fastforce
      then show ?thesis using that tv IH(5) by (cases i; cases j) (auto dest: sym)
    qed
    show "translate s' w = translate s w" if w: "PDE_IDX w \<noteq> 1023" "\<forall>i < Suc n. page_frame w \<noteq> page_at v i" for w
    proof -
      have "translate s' w = translate s2 w" using IH(6) w by auto
      also have "\<dots> = translate s1 w" using w(2) [rule_format, of 0] Suc.prems(3) by (intro pt(3) [OF ow1 w(1)]) simp
      finally show ?thesis by (simp add: tr1)
    qed
  qed
qed


lemma bitmap_set_run_bits:
  assumes "bitmap_set_run bm i n v = Some bm'"
  shows "bit_at bm' j = (if i \<le> j \<and> j < i + n then v = 1 else bit_at bm j)"
    and "btmp_bytes_len bm' = btmp_bytes_len bm" and "length (bits bm') = length (bits bm)"
  using assms
proof (induction n arbitrary: i bm)
  case (Suc n)
  { case 1
    then obtain b where "bitmap_set bm i v = Some b" "bitmap_set_run b (i + 1) n v = Some bm'" by (auto simp: bind_Some_iff)
    then show ?case using Suc.IH(1) [of b "i + 1"] bitmap_set_Some(5) [of bm i v b j] by auto }
  { case 2
    then obtain b where "bitmap_set bm i v = Some b" "bitmap_set_run b (i + 1) n v = Some bm'" by (auto simp: bind_Some_iff)
    then show ?case using Suc.IH(2) [of b "i + 1"] bitmap_set_Some(3) by simp }
  { case 3
    then obtain b where "bitmap_set bm i v = Some b" "bitmap_set_run b (i + 1) n v = Some bm'" by (auto simp: bind_Some_iff)
    then show ?case using Suc.IH(3) [of b "i + 1"] bitmap_set_Some(4) by simp }
qed auto

lemma bitmap_scan_free:
  assumes "wf_bitmap bm" "0 < cnt" "1 < cnt \<Longrightarrow> btmp_bytes_len bm < length (bits bm)"
    and "bitmap_scan bm cnt = Some r" "r \<noteq> -1"
  shows "\<exists>n. r = int n \<and> free_run bm n cnt \<and> n + cnt \<le> nbits bm + 1"
proof -
  have nf: "used bm \<noteq> {..<nbits bm}" using bitmap_scan_full assms(4) by auto
  show ?thesis
  proof (cases "cnt = 1")
    case True
    then obtain n where "r = int n" "n < nbits bm" "n \<notin> used bm"
      using bitmap_scan_one [OF assms(1) nf] assms(4) by auto
    then show ?thesis using True by (auto simp: free_run_def used_def less_Suc_eq_le)
  next
    case False
    then show ?thesis
      using bitmap_scan_many [OF assms(1) nf, of cnt] assms(2-5) by fastforce
  qed
qed

definition vaddr_ok :: "pool_flags \<Rightarrow> kernel \<Rightarrow> bool" where
  "vaddr_ok pf s \<longleftrightarrow> wf_bitmap (vaddr_bitmap (get_vaddr pf s)) \<and>
     btmp_bytes_len (vaddr_bitmap (get_vaddr pf s)) < length (bits (vaddr_bitmap (get_vaddr pf s))) \<and>
     page_frame (vaddr_start (get_vaddr pf s)) = vaddr_start (get_vaddr pf s)"

lemma set_vaddr_bitmap_frame [simp]:
  "phys (set_vaddr_bitmap pf bm s) = phys s" "cr3 (set_vaddr_bitmap pf bm s) = cr3 s"
  "kernel_pool (set_vaddr_bitmap pf bm s) = kernel_pool s" "user_pool (set_vaddr_bitmap pf bm s) = user_pool s"
  "running (set_vaddr_bitmap pf bm s) = running s" "arenas (set_vaddr_bitmap pf bm s) = arenas s"
  "k_block_descs (set_vaddr_bitmap pf bm s) = k_block_descs s" "locks (set_vaddr_bitmap pf bm s) = locks s"
  by (cases pf; simp add: set_vaddr_bitmap_def)+

lemma get_set_vaddr [simp]:
  "get_vaddr pf (set_vaddr_bitmap pf bm s) = (get_vaddr pf s)\<lparr>vaddr_bitmap := bm\<rparr>"
  by (cases pf) (simp_all add: get_vaddr_def set_vaddr_bitmap_def cur_task_def running_thread_def)

lemma mm_ok_cong:
  assumes "phys s' = phys s" "cr3 s' = cr3 s" "kernel_pool s' = kernel_pool s" "user_pool s' = user_pool s"
  shows "mm_ok s' = mm_ok s" "owned s' f = owned s f"
proof -
  have o: "owned s' f = owned s f" for f by (simp add: owned_def taken_frames_def get_pool_def assms)
  then show "owned s' f = owned s f" .
  show "mm_ok s' = mm_ok s"
    unfolding mm_ok_def pools_ok_def o translate_cong [OF assms(1,2)] maps_cong [OF assms(1,2)] assms by simp
qed

lemma vaddr_get_Some:
  assumes "vaddr_ok pf s" "0 < n" "vaddr_get pf n s = Some (s', v)" "v \<noteq> 0"
  obtains k bm where "v = page_at (vaddr_start (get_vaddr pf s)) k" "free_run (vaddr_bitmap (get_vaddr pf s)) k n"
    "k + n \<le> nbits (vaddr_bitmap (get_vaddr pf s)) + 1" "btmp_bytes_len bm = btmp_bytes_len (vaddr_bitmap (get_vaddr pf s))"
    "length (bits bm) = length (bits (vaddr_bitmap (get_vaddr pf s)))"
    "s' = set_vaddr_bitmap pf bm s"
    "\<forall>j. bit_at bm j = (k \<le> j \<and> j < k + n \<or> bit_at (vaddr_bitmap (get_vaddr pf s)) j)"
proof -
  let ?b = "vaddr_bitmap (get_vaddr pf s)"
  obtain r bm where r: "bitmap_scan ?b n = Some r" "r \<noteq> -1" "bitmap_set_run ?b (nat r) n 1 = Some bm"
    "s' = set_vaddr_bitmap pf bm s" "v = vaddr_start (get_vaddr pf s) + of_int r * PG_SIZE"
    using assms(3,4) by (auto simp: vaddr_get_def bind_Some_iff Let_def split: if_splits)
  obtain k where k: "r = int k" "free_run ?b k n" "k + n \<le> nbits ?b + 1"
    using bitmap_scan_free [OF _ assms(2) _ r(1,2)] assms(1) by (auto simp: vaddr_ok_def)
  have "bit_at bm j = (k \<le> j \<and> j < k + n \<or> bit_at ?b j)" for j
    using bitmap_set_run_bits(1) [OF r(3), of j] k(1) by auto
  then show thesis using that [of k bm] k r bitmap_set_run_bits(2,3) [OF r(3)] by (simp add: page_at_def)
qed

text \<open>
  C6. \<open>malloc_page\<close> never hands out memory that is in use: the virtual pages were unmarked and
  unmapped, each is now mapped to a frame of its own that nobody owned, and all other pages keep their
  translation.
\<close>

theorem malloc_page_fresh:
  assumes mm: "mm_ok s" and va: "vaddr_ok pf s" and r: "malloc_page pf n s = Some (s', v)" and v: "v \<noteq> 0"
    and win: "\<And>i. i < n \<Longrightarrow> PDE_IDX (page_at v i) \<noteq> 1023"
  shows "mm_ok s' \<and> (\<forall>i < n. translate s (page_at v i) = None) \<and>
    (\<exists>k. v = page_at (vaddr_start (get_vaddr pf s)) k \<and> free_run (vaddr_bitmap (get_vaddr pf s)) k n) \<and>
    (\<forall>i < n. \<exists>f. translate s' (page_at v i) = Some f \<and> page_frame f = f \<and> \<not> owned s f) \<and>
    (\<forall>i < n. \<forall>j < n. translate s' (page_at v i) = translate s' (page_at v j) \<longrightarrow> i = j) \<and>
    (\<forall>w. PDE_IDX w \<noteq> 1023 \<longrightarrow> (\<forall>i < n. page_frame w \<noteq> page_at v i) \<longrightarrow> translate s' w = translate s w)"
proof -
  obtain s1 where n: "0 < n" "n < 3840" and s1: "vaddr_get pf n s = Some (s1, v)"
    "malloc_page_loop pf v n s1 = Some (s', True)"
    using r v by (auto simp: malloc_page_def bind_Some_iff split: if_splits)
  obtain k bm where k: "v = page_at (vaddr_start (get_vaddr pf s)) k" "free_run (vaddr_bitmap (get_vaddr pf s)) k n"
    "s1 = set_vaddr_bitmap pf bm s" using vaddr_get_Some [OF va n(1) s1(1) v] by metis
  have c: "phys s1 = phys s" "cr3 s1 = cr3 s" "kernel_pool s1 = kernel_pool s" "user_pool s1 = user_pool s"
    by (simp_all add: k(3))
  have "page_frame v = v" using va unfolding k(1) vaddr_ok_def by (intro aligned_page_at) simp
  then show ?thesis
    using malloc_page_loop_mm [OF _ s1(2) _ _ win] mm n k
    unfolding mm_ok_cong [OF c] translate_cong [OF c(1,2)] by auto
qed


text \<open>
  \<open>mem_pool_init\<close> clears the kernel bitmap twice and the user bitmap never: the user pool starts
  with whatever the memory held.
\<close>

theorem mem_pool_init_user_bitmap_uncleared:
  "\<exists>s'. mem_pool_init all_mem raw s = Some s' \<and>
    used (pool_bitmap (kernel_pool s')) = {} \<and> used (vaddr_bitmap (kernel_vaddr s')) = {} \<and>
    (let k = btmp_bytes_len (pool_bitmap (kernel_pool s')); u = btmp_bytes_len (pool_bitmap (user_pool s'))
     in bits (pool_bitmap (user_pool s')) = map raw [k..<k + u])"
proof -
  have i: "bitmap_init \<lparr>btmp_bytes_len = n, bits = xs\<rparr> = Some \<lparr>btmp_bytes_len = n, bits = replicate n 0\<rparr>"
    if "length xs = n" for n xs using that by (simp add: bitmap_init_def)
  have u: "used \<lparr>btmp_bytes_len = n, bits = replicate n 0\<rparr> = {}" for n
    by (auto simp: used_def bit_at_def nbits_def)
  show ?thesis by (simp add: mem_pool_init_def Let_def i u upd_lock_mem_frame)
qed


section \<open>Witnesses\<close>

lemma sample_pools: "pools_ok sample_kernel"
  by (simp add: pools_ok_def sample_kernel_def sample_bitmap_def wf_bitmap_def nbits_def page_frame_def)

lemma sample_mm: "mm_ok sample_kernel"
proof -
  have "page_frame (pde_of sample_kernel v) = 0x100000" if "PDE_IDX v = 1023" for v
    using that by (simp add: pde_of_def sample_kernel_def page_frame_def)
  moreover have "translate sample_kernel v = None" if "PDE_IDX v \<noteq> 1023" for v
    using that by (simp add: translate_def sample_present)
  moreover have "owned sample_kernel 0x100000" by (simp add: owned_def sample_kernel_def)
  ultimately show ?thesis
    using sample_pools sample_self_mapped sample_tables by (auto simp: mm_ok_def sample_present)
qed

lemma palloc_frames_distinct_witness:
  "\<exists>s' as. take_n (alloc_frame PF_USER) (card (frames PF_USER sample_kernel - taken_frames PF_USER sample_kernel)) sample_kernel
     = Some (s', as) \<and> distinct as"
  using palloc_frames_distinct [OF sample_pools] by blast

lemma pfree_undoes_palloc_witness:
  "\<exists>s' s''. alloc_frame PF_KERNEL sample_kernel = Some (s', 0x200000) \<and> pfree 0x200000 s' = Some s'' \<and>
    taken_frames PF_KERNEL s'' = taken_frames PF_KERNEL sample_kernel"
proof -
  have "map_option snd (alloc_frame PF_KERNEL sample_kernel) = Some 0x200000" by code_simp
  then obtain s' where "alloc_frame PF_KERNEL sample_kernel = Some (s', 0x200000)" by auto
  then show ?thesis using pfree_undoes_palloc [OF sample_pools] by blast
qed

lemma malloc_page_fresh_witness:
  "\<exists>s' f. malloc_page PF_KERNEL 2 sample_kernel = Some (s', 0xc0100000) \<and>
    translate s' 0xc0101000 = Some f \<and> \<not> owned sample_kernel f"
proof -
  have "map_option snd (malloc_page PF_KERNEL 2 sample_kernel) = Some 0xc0100000" by code_simp
  then obtain s' where s': "malloc_page PF_KERNEL 2 sample_kernel = Some (s', 0xc0100000)" by auto
  have "PDE_IDX (page_at 0xc0100000 i) \<noteq> 1023" if "i < 2" for i
    using that by (auto simp: less_2_cases_iff page_at_def PDE_IDX_def PG_SIZE_def)
  moreover have "vaddr_ok PF_KERNEL sample_kernel"
    by (simp add: vaddr_ok_def get_vaddr_def sample_kernel_def sample_bitmap_def wf_bitmap_def nbits_def page_frame_def K_HEAP_START_def)
  ultimately have "\<exists>f. translate s' (page_at 0xc0100000 1) = Some f \<and> page_frame f = f \<and> \<not> owned sample_kernel f"
    using malloc_page_fresh [OF sample_mm _ s'] by simp
  then show ?thesis using s' by (auto simp: page_at_def PG_SIZE_def)
qed

end
