(* ===== verification/Heap.thy ===== *)
theory Heap
  imports Memory
begin

text \<open>
  The heap of \<^verbatim>\<open>kernel/memory.c\<close>: \<open>block_desc_init\<close>, \<open>arena2block\<close>, \<open>block2arena\<close>, \<open>sys_malloc\<close>,
  \<open>sys_free\<close>.  Kernel threads use \<open>k_block_descs\<close>, processes the descriptors in their PCB.

  \<open>heap_ok\<close> is the invariant of one heap with a set \<open>L\<close> of blocks in use: every page that holds a free
  or used block is an arena whose counter is the number of its free blocks.
\<close>

section \<open>Operations\<close>

definition ARENA_SIZE :: nat where
  "ARENA_SIZE = 12"

fun block_desc_init_loop :: "nat \<Rightarrow> nat \<Rightarrow> mem_block_desc list \<Rightarrow> mem_block_desc list option" where
  "block_desc_init_loop 0 sz desc_array = Some desc_array"
| "block_desc_init_loop (Suc left) sz desc_array = do {
     desc_array \<leftarrow> wr desc_array (DESC_CNT - Suc left)
       \<lparr>block_size = sz, block_per_arena = (unat PG_SIZE - ARENA_SIZE) div sz, free_list = []\<rparr>;
     block_desc_init_loop left (sz * 2) desc_array
   }"

definition block_desc_init :: "mem_block_desc list \<Rightarrow> mem_block_desc list option" where
  "block_desc_init desc_array = block_desc_init_loop DESC_CNT 16 desc_array"

definition arena2block :: "u32 \<Rightarrow> nat \<Rightarrow> mem_block_desc \<Rightarrow> u32" where
  "arena2block a idx d = a + of_nat ARENA_SIZE + of_nat (idx * block_size d)"

definition block2arena :: "u32 \<Rightarrow> u32" where
  "block2arena b = b AND 0xfffff000"

definition heap_flags :: "kernel \<Rightarrow> pool_flags" where
  "heap_flags s = (if pgdir (cur_task s) = 0 then PF_KERNEL else PF_USER)"

definition get_descs :: "kernel \<Rightarrow> mem_block_desc list" where
  "get_descs s = (if heap_flags s = PF_KERNEL then k_block_descs s else u_block_desc (cur_task s))"

definition set_descs :: "mem_block_desc list \<Rightarrow> kernel \<Rightarrow> kernel" where
  "set_descs ds s =
     (if heap_flags s = PF_KERNEL then s\<lparr>k_block_descs := ds\<rparr>
      else upd_task (running_thread s) (\<lambda>p. p\<lparr>u_block_desc := ds\<rparr>) s)"

definition upd_free_list :: "nat \<Rightarrow> (u32 list \<Rightarrow> u32 list) \<Rightarrow> kernel \<Rightarrow> kernel option" where
  "upd_free_list i f s = do {
     d \<leftarrow> rd (get_descs s) i;
     ds \<leftarrow> wr (get_descs s) i (d\<lparr>free_list := f (free_list d)\<rparr>);
     Some (set_descs ds s)
   }"

definition upd_arena :: "u32 \<Rightarrow> (arena \<Rightarrow> arena) \<Rightarrow> kernel \<Rightarrow> kernel" where
  "upd_arena a f s = s\<lparr>arenas := (arenas s)(a := f (arenas s a))\<rparr>"

text \<open>The search for the smallest block size; \<open>desc_idx\<close> is \<open>DESC_CNT\<close> when there is none.\<close>

fun find_desc :: "nat \<Rightarrow> mem_block_desc list \<Rightarrow> nat" where
  "find_desc sz [] = 0"
| "find_desc sz (d # ds) = (if sz \<le> block_size d then 0 else Suc (find_desc sz ds))"

text \<open>The loop that cuts a new arena into blocks: \<open>left\<close> blocks remain.\<close>

fun split_arena :: "u32 \<Rightarrow> nat \<Rightarrow> nat \<Rightarrow> nat \<Rightarrow> kernel \<Rightarrow> kernel option" where
  "split_arena a desc_idx block_idx 0 s = Some s"
| "split_arena a desc_idx block_idx (Suc left) s = do {
     d \<leftarrow> rd (get_descs s) desc_idx;
     let b = arena2block a block_idx d;
     ASSERT (b \<notin> set (free_list d));
     s \<leftarrow> upd_free_list desc_idx (\<lambda>l. l @ [b]) s;
     split_arena a desc_idx (block_idx + 1) left s
   }"

definition new_arena :: "u32 \<Rightarrow> nat \<Rightarrow> kernel \<Rightarrow> kernel option" where
  "new_arena a desc_idx s = do {
     s \<leftarrow> clear_pages a 1 s;
     d \<leftarrow> rd (get_descs s) desc_idx;
     let s = upd_arena a (\<lambda>_. \<lparr>desc = Some desc_idx, arena_cnt = block_per_arena d, large = False\<rparr>) s;
     let (s, old_status) = intr_disable s;
     s \<leftarrow> split_arena a desc_idx 0 (block_per_arena d) s;
     Some (fst (intr_set_status s old_status))
   }"

definition malloc_large :: "pool_flags \<Rightarrow> nat \<Rightarrow> kernel \<Rightarrow> (kernel \<times> u32) option" where
  "malloc_large pf sz s = do {
     let page_cnt = DIV_ROUND_UP (sz + ARENA_SIZE) (unat PG_SIZE);
     (s, a) \<leftarrow> malloc_page pf page_cnt s;
     if a \<noteq> 0 then do {
       s \<leftarrow> clear_pages a page_cnt s;
       let s = upd_arena a (\<lambda>_. \<lparr>desc = None, arena_cnt = page_cnt, large = True\<rparr>) s;
       s \<leftarrow> lock_release (pool_lock pf) s;
       Some (s, a + of_nat ARENA_SIZE)
     } else do { s \<leftarrow> lock_release (pool_lock pf) s; Some (s, 0) }
   }"

text \<open>The end of \<open>sys_malloc\<close>: a block is taken from the free list.\<close>

definition take_block :: "pool_flags \<Rightarrow> nat \<Rightarrow> kernel \<Rightarrow> (kernel \<times> u32) option" where
  "take_block pf desc_idx s = do {
     d \<leftarrow> rd (get_descs s) desc_idx;
     (case free_list d of
        [] \<Rightarrow> None
      | b # _ \<Rightarrow> do {
          s \<leftarrow> upd_free_list desc_idx tl s;
          s \<leftarrow> clear_words b (block_size d div 4) s;
          let s = upd_arena (block2arena b) (\<lambda>x. x\<lparr>arena_cnt := arena_cnt x - 1\<rparr>) s;
          s \<leftarrow> lock_release (pool_lock pf) s;
          Some (s, b)
        })
   }"

definition sys_malloc :: "nat \<Rightarrow> kernel \<Rightarrow> (kernel \<times> u32) option" where
  "sys_malloc sz s = do {
     let pf = heap_flags s;
     if \<not> (sz > 0 \<and> sz < unat (pool_size (get_pool pf s))) then Some (s, 0)
     else do {
       s \<leftarrow> lock_take (pool_lock pf) s;
       if sz > 1024 then malloc_large pf sz s
       else do {
         let desc_idx = find_desc sz (get_descs s);
         d \<leftarrow> rd (get_descs s) desc_idx;
         if free_list d = [] then do {
           (s, a) \<leftarrow> malloc_page pf 1 s;
           if a = 0 then do { s \<leftarrow> lock_release (pool_lock pf) s; Some (s, 0) }
           else do {
             s \<leftarrow> new_arena a desc_idx s;
             take_block pf desc_idx s
           }
         } else take_block pf desc_idx s
       }
     }
   }"

text \<open>The loop of \<open>sys_free\<close> that takes the blocks of an unused arena out of the free list.\<close>

fun unlink_arena :: "u32 \<Rightarrow> nat \<Rightarrow> nat \<Rightarrow> nat \<Rightarrow> kernel \<Rightarrow> kernel option" where
  "unlink_arena a desc_idx block_idx 0 s = Some s"
| "unlink_arena a desc_idx block_idx (Suc left) s = do {
     d \<leftarrow> rd (get_descs s) desc_idx;
     let b = arena2block a block_idx d;
     ASSERT (b \<in> set (free_list d));
     s \<leftarrow> upd_free_list desc_idx (remove1 b) s;
     unlink_arena a desc_idx (block_idx + 1) left s
   }"

definition sys_free :: "u32 \<Rightarrow> kernel \<Rightarrow> kernel option" where
  "sys_free ptr s = do {
     ASSERT (ptr \<noteq> 0);
     let pf = heap_flags s;
     ASSERT (pf = PF_KERNEL \<longrightarrow> ptr \<ge> K_HEAP_START);
     s \<leftarrow> lock_take (pool_lock pf) s;
     let a = block2arena ptr;
     s \<leftarrow> (if desc (arenas s a) = None \<and> large (arenas s a) then mfree_page pf a (arena_cnt (arenas s a)) s
          else do {
            desc_idx \<leftarrow> desc (arenas s a);
            d \<leftarrow> rd (get_descs s) desc_idx;
            s \<leftarrow> upd_free_list desc_idx (\<lambda>l. l @ [ptr]) s;
            let s = upd_arena a (\<lambda>x. x\<lparr>arena_cnt := arena_cnt x + 1\<rparr>) s;
            if arena_cnt (arenas s a) = block_per_arena d then do {
              s \<leftarrow> unlink_arena a desc_idx 0 (block_per_arena d) s;
              mfree_page pf a 1 s
            } else Some s
          });
     lock_release (pool_lock pf) s
   }"



section \<open>Blocks of an arena\<close>

definition wf_desc :: "mem_block_desc \<Rightarrow> bool" where
  "wf_desc d \<longleftrightarrow> 0 < block_size d \<and> block_per_arena d * block_size d \<le> 4084"

definition blocks :: "u32 \<Rightarrow> mem_block_desc \<Rightarrow> u32 set" where
  "blocks a d = (\<lambda>i. arena2block a i d) ` {..<block_per_arena d}"

lemma block2arena_eq: "block2arena b = page_frame b"
  by (simp add: block2arena_def page_frame_def)

lemma aligned_le: "page_frame a = a \<Longrightarrow> unat a + 4096 \<le> 4294967296"
proof -
  assume "page_frame a = a"
  then have "unat a = unat a div 4096 * 4096" by (metis unat_page_frame)
  moreover have "unat a div 4096 \<le> 4294967295 div 4096" using unat_less_2p32 [of a] by (intro div_le_mono) simp
  then have "unat a div 4096 \<le> 1048575" by simp
  ultimately show ?thesis by linarith
qed

lemma block_bound: "wf_desc d \<Longrightarrow> i < block_per_arena d \<Longrightarrow> i * block_size d + block_size d \<le> 4084"
proof -
  assume "wf_desc d" "i < block_per_arena d"
  then have "(i + 1) * block_size d \<le> block_per_arena d * block_size d" by (intro mult_right_mono) simp_all
  then show ?thesis using \<open>wf_desc d\<close> by (simp add: wf_desc_def)
qed

lemma unat_arena2block:
  assumes "page_frame a = a" "wf_desc d" "i < block_per_arena d"
  shows "unat (arena2block a i d) = unat a + 12 + i * block_size d"
proof -
  have b: "i * block_size d + block_size d \<le> 4084" by (rule block_bound [OF assms(2,3)])
  have k: "unat (of_nat (i * block_size d) :: u32) = i * block_size d" using b by (subst unat_of_nat) simp
  have 1: "unat (a + 12) = unat a + 12" using aligned_le [OF assms(1)] by (subst unat_add_small) simp_all
  have "unat (a + 12) + unat (of_nat (i * block_size d) :: u32) < 4294967296"
    unfolding 1 k using aligned_le [OF assms(1)] b assms(2) unfolding wf_desc_def by linarith
  then have "unat (a + 12 + of_nat (i * block_size d)) = unat a + 12 + i * block_size d"
    by (subst unat_add_small) (simp_all only: 1 k)
  then show ?thesis by (simp add: arena2block_def ARENA_SIZE_def)
qed

lemma block2arena_arena2block:
  assumes "page_frame a = a" "wf_desc d" "i < block_per_arena d"
  shows "block2arena (arena2block a i d) = a"
proof -
  have b: "12 + i * block_size d < 4096" using block_bound [OF assms(2,3)] assms(2) by (simp add: wf_desc_def)
  have m: "unat a mod 4096 = 0" using assms(1) by (simp add: aligned_iff)
  have "(unat a + (12 + i * block_size d)) div 4096 * 4096 = unat a"
  proof -
    obtain q where "unat a = 4096 * q" using m by (auto simp: mod_eq_0_iff_dvd dvd_def)
    then show ?thesis using b by simp
  qed
  then show ?thesis
    unfolding block2arena_eq by (intro word_unat_eq_iff [THEN iffD2])
      (simp add: unat_page_frame unat_arena2block [OF assms] add.assoc)
qed

lemma blocks_page: "page_frame a = a \<Longrightarrow> wf_desc d \<Longrightarrow> b \<in> blocks a d \<Longrightarrow> block2arena b = a"
  by (auto simp: blocks_def block2arena_arena2block)

lemma arena2block_inj: "page_frame a = a \<Longrightarrow> wf_desc d \<Longrightarrow> inj_on (\<lambda>i. arena2block a i d) {..<block_per_arena d}"
proof (rule inj_onI)
  fix i j assume a: "page_frame a = a" "wf_desc d" "i \<in> {..<block_per_arena d}" "j \<in> {..<block_per_arena d}"
    "arena2block a i d = arena2block a j d"
  then have "i * block_size d = j * block_size d"
    using unat_arena2block [of a d i] unat_arena2block [of a d j] by auto
  then show "i = j" using a(2) by (simp add: wf_desc_def)
qed

lemma card_blocks: "page_frame a = a \<Longrightarrow> wf_desc d \<Longrightarrow> card (blocks a d) = block_per_arena d"
  unfolding blocks_def by (subst card_image [OF arena2block_inj]) simp_all

lemma finite_blocks [simp]: "finite (blocks a d)"
  by (simp add: blocks_def)

lemma blocks_cong: "block_size d' = block_size d \<Longrightarrow> block_per_arena d' = block_per_arena d \<Longrightarrow> blocks a d' = blocks a d"
  by (simp add: blocks_def arena2block_def)

text \<open>
  Geometry of an arena: its blocks lie inside of the page behind the header, do not overlap, and
  \<open>block2arena\<close> leads from each of them back to the arena.
\<close>

theorem arena_geometry:
  assumes "page_frame a = a" "wf_desc d" "i < block_per_arena d" "j < block_per_arena d" "i < j"
  shows "block2arena (arena2block a i d) = a \<and>
    unat a + 12 \<le> unat (arena2block a i d) \<and>
    unat (arena2block a i d) + block_size d \<le> unat (arena2block a j d) \<and>
    unat (arena2block a j d) + block_size d \<le> unat a + 4096"
proof -
  have "i * block_size d + block_size d \<le> j * block_size d"
    using assms(5) mult_le_mono1 [of "i + 1" j "block_size d"] by simp
  then show ?thesis
    using block2arena_arena2block [OF assms(1-3)] unat_arena2block [OF assms(1,2,3)] unat_arena2block [OF assms(1,2,4)]
      block_bound [OF assms(2,4)] by simp
qed

text \<open>
  \<open>block_desc_init\<close> sets up seven size classes, 16 to 1024 bytes, each with as many blocks per
  arena as fit into a page behind the arena header, and no free block.
\<close>

theorem block_desc_init_classes:
  assumes "length desc_array = DESC_CNT"
  shows "block_desc_init desc_array =
    Some (map (\<lambda>i. \<lparr>block_size = 16 * 2 ^ i, block_per_arena = (4096 - 12) div (16 * 2 ^ i), free_list = []\<rparr>) [0..<7])"
proof -
  obtain a b c d e f g where ds: "desc_array = [a, b, c, d, e, f, g]"
    using assms by (auto simp: DESC_CNT_def length_Suc_conv numeral_eq_Suc)
  have n: "DESC_CNT = Suc (Suc (Suc (Suc (Suc (Suc (Suc 0))))))" by (simp add: DESC_CNT_def)
  have u: "[0..<7] = [0, 1, 2, 3, 4, 5, 6]" by (simp add: upt_rec)
  show ?thesis
    unfolding block_desc_init_def n block_desc_init_loop.simps ds u
    by (simp add: wr_def PG_SIZE_def ARENA_SIZE_def)
qed



section \<open>What leaves the heap alone\<close>

definition same_heap :: "kernel \<Rightarrow> kernel \<Rightarrow> bool" where
  "same_heap s s' \<longleftrightarrow> k_block_descs s' = k_block_descs s \<and> arenas s' = arenas s \<and> kernel_vaddr s' = kernel_vaddr s \<and>
     running s' = running s \<and>
     (\<forall>t. pgdir (tasks s' t) = pgdir (tasks s t) \<and> u_block_desc (tasks s' t) = u_block_desc (tasks s t) \<and>
        userprog_vaddr (tasks s' t) = userprog_vaddr (tasks s t))"

lemma same_heap_refl [simp]: "same_heap s s"
  by (simp add: same_heap_def)

lemma same_heap_trans: "same_heap s t \<Longrightarrow> same_heap t u \<Longrightarrow> same_heap s u"
  by (simp add: same_heap_def)

lemma same_heapD:
  assumes "same_heap s s'"
  shows "heap_flags s' = heap_flags s" "get_descs s' = get_descs s" "arenas s' = arenas s" "get_vaddr pf s' = get_vaddr pf s"
  using assms by (simp_all add: same_heap_def heap_flags_def get_descs_def get_vaddr_def cur_task_def running_thread_def)

lemma same_heap_store: "store s v w = Some s' \<Longrightarrow> same_heap s s'"
  by (auto simp: store_def bind_Some_iff same_heap_def)

lemma same_heap_clear_page: "clear_page s v = Some s' \<Longrightarrow> same_heap s s'"
  by (auto simp: clear_page_def bind_Some_iff same_heap_def)

lemma same_heap_clear_pages: "clear_pages v n s = Some s' \<Longrightarrow> same_heap s s'"
  by (induction n arbitrary: v s) (auto simp: bind_Some_iff dest: same_heap_clear_page intro: same_heap_trans)

lemma same_heap_clear_words: "clear_words v n s = Some s' \<Longrightarrow> same_heap s s'"
  by (induction n arbitrary: v s) (auto simp: bind_Some_iff dest: same_heap_store intro: same_heap_trans)

lemma same_heap_set_pool: "same_heap s (set_pool pf p s)"
  by (simp add: same_heap_def)

lemma same_heap_pfree: "pfree a s = Some s' \<Longrightarrow> same_heap s s'"
  by (auto simp: pfree_def bind_Some_iff Let_def same_heap_set_pool)

lemma same_heap_pte_remove: "page_table_pte_remove s v = Some s' \<Longrightarrow> same_heap s s'"
  by (auto simp: page_table_pte_remove_def bind_Some_iff Let_def dest: same_heap_store)

lemma same_heap_page_table_add:
  assumes "page_table_add s v p = Some s'"
  shows "same_heap s s'"
proof -
  obtain pde where "load s (pde_ptr v) = Some pde" using assms by (auto simp: page_table_add_def bind_Some_iff Let_def)
  then consider "store s (pte_ptr v) (p OR PG_US_U OR PG_RW_W OR PG_P_1) = Some s'"
    | kp f s1 s2 where "store (s\<lparr>kernel_pool := kp\<rparr>) (pde_ptr v) (f OR PG_US_U OR PG_RW_W OR PG_P_1) = Some s1"
      "clear_page s1 (pte_ptr v AND 0xfffff000) = Some s2" "store s2 (pte_ptr v) (p OR PG_US_U OR PG_RW_W OR PG_P_1) = Some s'"
    using assms by (auto simp: page_table_add_def bind_Some_iff Let_def split: if_splits)
  then show ?thesis
  proof cases
    case 2
    have "same_heap s (s\<lparr>kernel_pool := kp\<rparr>)" by (simp add: same_heap_def)
    then show ?thesis
      using 2 by (meson same_heap_store same_heap_clear_page same_heap_trans)
  qed (rule same_heap_store)
qed

lemma same_heap_malloc_page_loop: "malloc_page_loop pf v n s = Some (s', r) \<Longrightarrow> same_heap s s'"
proof (induction n arbitrary: v s)
  case (Suc n)
  then obtain p a where "palloc (get_pool pf s) = Some (p, a)" by (auto simp: bind_Some_iff)
  then show ?case
    using Suc same_heap_set_pool [of s pf p]
    by (auto simp: bind_Some_iff Let_def split: if_splits) (meson same_heap_page_table_add same_heap_trans)
qed simp

lemma same_heap_mfree_page_loop: "mfree_page_loop u v n s = Some s' \<Longrightarrow> same_heap s s'"
proof (induction n arbitrary: v s)
  case (Suc n)
  then obtain a s1 s2 where "pfree a s = Some s1" "page_table_pte_remove s1 v = Some s2"
    "mfree_page_loop u (v + PG_SIZE) n s2 = Some s'" by (auto simp: bind_Some_iff split: if_splits)
  then show ?case using Suc.IH by (meson same_heap_pfree same_heap_pte_remove same_heap_trans)
qed simp

lemma same_heap_upd_lock: "same_heap s (upd_lock l f s)"
  by (simp add: same_heap_def upd_lock_def)

lemma same_heap_intr: "same_heap s (fst (intr_disable s))" "same_heap s (fst (intr_set_status s st))"
  by (auto simp: same_heap_def intr_set_status_def intr_enable_def intr_disable_def sti_def cli_def)

lemma same_heap_lock_take: "lock_take l s = Some s' \<Longrightarrow> same_heap s s'"
proof -
  assume r: "lock_take l s = Some s'"
  show ?thesis
  proof (cases "holder (locks s l) = running s")
    case True
    then show ?thesis using r same_heap_upd_lock [of s l] by (auto simp: lock_take_again)
  next
    case False
    then obtain q where q: "sema_down l s = Some q"
      using r by (auto simp: lock_take_def lock_acquire_def running_thread_def bind_Some_iff)
    then obtain u where u: "sema_down l s = Some (Acquired u)" "lock_acquire_got l u = Some s'"
      using r False by (cases q) (auto simp: lock_take_def lock_acquire_def running_thread_def bind_Some_iff)
    let ?f = "upd_lock l (\<lambda>k. k\<lparr>sem_value := sem_value k - 1\<rparr>)" and ?d = "fst (intr_disable s)"
    have "u = fst (intr_set_status (?f ?d) (snd (intr_disable s)))"
      using u(1) by (auto simp: sema_down_def case_prod_beta sema_down_loop_def bind_Some_iff Let_def split: if_splits)
    then have "same_heap s u"
      using same_heap_trans [OF same_heap_trans [OF same_heap_intr(1) same_heap_upd_lock] same_heap_intr(2)] by simp
    moreover have "same_heap u s'"
      using u(2) by (auto simp: lock_acquire_got_def Let_def same_heap_def upd_lock_def split: if_splits)
    ultimately show ?thesis by (rule same_heap_trans)
  qed
qed

lemma same_heap_unblock: "thread_unblock t s = Some s' \<Longrightarrow> same_heap s s'"
  by (auto simp: thread_unblock_Some same_heap_def)

lemma same_heap_sema_up: "sema_up l s = Some s' \<Longrightarrow> same_heap s s'"
proof -
  assume r: "sema_up l s = Some s'"
  let ?d = "fst (intr_disable s)"
  obtain u where "same_heap ?d u" "s' = fst (intr_set_status (upd_lock l (\<lambda>k. k\<lparr>sem_value := sem_value k + 1\<rparr>) u) (snd (intr_disable s)))"
  proof (cases "waiters (locks ?d l)")
    case Nil
    then show thesis using r that [of ?d] by (auto simp: sema_up_def case_prod_beta Let_def split: if_splits)
  next
    case (Cons w ws)
    obtain u where u: "thread_unblock w (upd_lock l (\<lambda>k. k\<lparr>waiters := ws\<rparr>) ?d) = Some u"
      "s' = fst (intr_set_status (upd_lock l (\<lambda>k. k\<lparr>sem_value := sem_value k + 1\<rparr>) u) (snd (intr_disable s)))"
      using r Cons by (auto simp: sema_up_def case_prod_beta Let_def bind_Some_iff split: if_splits)
    show thesis using that [OF same_heap_trans [OF same_heap_upd_lock same_heap_unblock [OF u(1)]] u(2)] .
  qed
  then show ?thesis
    using same_heap_trans [OF same_heap_trans [OF same_heap_trans [OF same_heap_intr(1)] same_heap_upd_lock] same_heap_intr(2)] by simp
qed

lemma same_heap_lock_release: "lock_release l s = Some s' \<Longrightarrow> same_heap s s'"
  by (auto simp: lock_release_def lock_release_begin_def bind_Some_iff split: if_splits
      dest!: same_heap_sema_up intro: same_heap_upd_lock same_heap_trans)



section \<open>The invariant of a size class\<close>

text \<open>
  \<open>F\<close> is the free list of class \<open>i\<close> and \<open>L\<close> the set of its blocks in use; \<open>M\<close> holds of the pages that are
  marked in the virtual address bitmap.
\<close>

definition class_ok :: "mem_block_desc \<Rightarrow> (u32 \<Rightarrow> arena) \<Rightarrow> (u32 \<Rightarrow> bool) \<Rightarrow> nat \<Rightarrow> u32 list \<Rightarrow> u32 set \<Rightarrow> bool" where
  "class_ok d ars M i F L \<longleftrightarrow>
     wf_desc d \<and> distinct F \<and> set F \<inter> L = {} \<and>
     (\<forall>b \<in> set F \<union> L. let a = block2arena b in
        desc (ars a) = Some i \<and> \<not> large (ars a) \<and> b \<in> blocks a d \<and> M a \<and>
        arena_cnt (ars a) = card (set F \<inter> blocks a d) \<and> blocks a d \<subseteq> set F \<union> L)"

lemma page_block2arena [simp]: "page_frame (block2arena b) = block2arena b"
  by (simp add: block2arena_eq)

lemma class_okD:
  assumes "class_ok d ars M i F L" and "b \<in> set F \<union> L"
  shows "desc (ars (block2arena b)) = Some i" "\<not> large (ars (block2arena b))" "b \<in> blocks (block2arena b) d"
    "M (block2arena b)" "arena_cnt (ars (block2arena b)) = card (set F \<inter> blocks (block2arena b) d)"
    "blocks (block2arena b) d \<subseteq> set F \<union> L" "wf_desc d"
  using assms unfolding class_ok_def Let_def by blast+

lemma class_okI:
  assumes "wf_desc d" "distinct F" "set F \<inter> L = {}"
    and "\<And>b. b \<in> set F \<union> L \<Longrightarrow> desc (ars (block2arena b)) = Some i \<and> \<not> large (ars (block2arena b)) \<and>
      b \<in> blocks (block2arena b) d \<and> M (block2arena b) \<and>
      arena_cnt (ars (block2arena b)) = card (set F \<inter> blocks (block2arena b) d) \<and> blocks (block2arena b) d \<subseteq> set F \<union> L"
  shows "class_ok d ars M i F L"
  using assms unfolding class_ok_def Let_def by blast

lemma blocks_disjoint: "wf_desc d \<Longrightarrow> b \<in> blocks (block2arena x) d \<Longrightarrow> block2arena b = block2arena x"
  by (rule blocks_page) simp_all

lemma class_pop:
  assumes c: "class_ok d ars M i (b # F) L"
  shows "class_ok d (ars(block2arena b := (ars (block2arena b))\<lparr>arena_cnt := arena_cnt (ars (block2arena b)) - 1\<rparr>)) M i F (insert b L)"
proof (rule class_okI)
  have nb: "b \<notin> set F" "b \<notin> L" using c by (auto simp: class_ok_def)
  show w: "wf_desc d" "distinct F" "set F \<inter> insert b L = {}" using c nb by (auto simp: class_ok_def)
  fix x assume x: "x \<in> set F \<union> insert b L"
  then have xb: "x \<in> set (b # F) \<union> L" by auto
  note D = class_okD [OF c xb]
  let ?ars = "ars(block2arena b := (ars (block2arena b))\<lparr>arena_cnt := arena_cnt (ars (block2arena b)) - 1\<rparr>)"
  have cnt: "arena_cnt (?ars (block2arena x)) = card (set F \<inter> blocks (block2arena x) d)"
  proof (cases "block2arena x = block2arena b")
    case True
    have "b \<in> blocks (block2arena x) d" using class_okD(3) [OF c, of b] True by simp
    then have "set (b # F) \<inter> blocks (block2arena x) d = insert b (set F \<inter> blocks (block2arena x) d)" by auto
    then have "card (set (b # F) \<inter> blocks (block2arena x) d) = Suc (card (set F \<inter> blocks (block2arena x) d))"
      using nb by simp
    then show ?thesis using D(5) True by simp
  next
    case False
    then have "b \<notin> blocks (block2arena x) d" using blocks_disjoint [OF w(1)] by metis
    then show ?thesis using D(5) False by simp
  qed
  show "desc (?ars (block2arena x)) = Some i \<and> \<not> large (?ars (block2arena x)) \<and> x \<in> blocks (block2arena x) d \<and> M (block2arena x) \<and>
    arena_cnt (?ars (block2arena x)) = card (set F \<inter> blocks (block2arena x) d) \<and> blocks (block2arena x) d \<subseteq> set F \<union> insert b L"
    using D(1-4,6) cnt class_okD(1,2) [OF c, of b] by auto
qed

lemma class_push:
  assumes c: "class_ok d ars M i F L" and b: "b \<in> L"
  shows "class_ok d (ars(block2arena b := (ars (block2arena b))\<lparr>arena_cnt := arena_cnt (ars (block2arena b)) + 1\<rparr>)) M i (F @ [b]) (L - {b})"
proof (rule class_okI)
  have nb: "b \<notin> set F" using c b by (auto simp: class_ok_def)
  show w: "wf_desc d" "distinct (F @ [b])" "set (F @ [b]) \<inter> (L - {b}) = {}" using c nb by (auto simp: class_ok_def)
  fix x assume x: "x \<in> set (F @ [b]) \<union> (L - {b})"
  then have xb: "x \<in> set F \<union> L" using b by auto
  note D = class_okD [OF c xb] and B = class_okD [OF c UnI2 [OF b]]
  let ?ars = "ars(block2arena b := (ars (block2arena b))\<lparr>arena_cnt := arena_cnt (ars (block2arena b)) + 1\<rparr>)"
  have cnt: "arena_cnt (?ars (block2arena x)) = card (set (F @ [b]) \<inter> blocks (block2arena x) d)"
  proof (cases "block2arena x = block2arena b")
    case True
    then have "b \<in> blocks (block2arena x) d" using B(3) by simp
    then have "set (F @ [b]) \<inter> blocks (block2arena x) d = insert b (set F \<inter> blocks (block2arena x) d)" by auto
    then have "card (set (F @ [b]) \<inter> blocks (block2arena x) d) = Suc (card (set F \<inter> blocks (block2arena x) d))"
      using nb by simp
    then show ?thesis using D(5) True by simp
  next
    case False
    then have "b \<notin> blocks (block2arena x) d" using blocks_disjoint [OF w(1)] by metis
    then have "set (F @ [b]) \<inter> blocks (block2arena x) d = set F \<inter> blocks (block2arena x) d" by auto
    then show ?thesis using D(5) False by simp
  qed
  show "desc (?ars (block2arena x)) = Some i \<and> \<not> large (?ars (block2arena x)) \<and> x \<in> blocks (block2arena x) d \<and> M (block2arena x) \<and>
    arena_cnt (?ars (block2arena x)) = card (set (F @ [b]) \<inter> blocks (block2arena x) d) \<and>
    blocks (block2arena x) d \<subseteq> set (F @ [b]) \<union> (L - {b})"
    using D(1-4,6) cnt B(1,2) by auto
qed

lemma class_other:
  assumes c: "class_ok d ars M i F L"
    and "\<And>b. b \<in> set F \<union> L \<Longrightarrow> ars' (block2arena b) = ars (block2arena b) \<and> (M (block2arena b) \<longrightarrow> M' (block2arena b))"
  shows "class_ok d ars' M' i F L"
proof (rule class_okI)
  show "wf_desc d" "distinct F" "set F \<inter> L = {}" using c by (auto simp: class_ok_def)
  fix b assume b: "b \<in> set F \<union> L"
  show "desc (ars' (block2arena b)) = Some i \<and> \<not> large (ars' (block2arena b)) \<and> b \<in> blocks (block2arena b) d \<and>
    M' (block2arena b) \<and> arena_cnt (ars' (block2arena b)) = card (set F \<inter> blocks (block2arena b) d) \<and>
    blocks (block2arena b) d \<subseteq> set F \<union> L"
    using class_okD [OF c b] assms(2) [OF b] by simp
qed

lemma class_new:
  assumes c: "class_ok d ars M i F L" and a: "page_frame a = a" and m: "M' a"
    and f: "\<And>b. b \<in> set F \<union> L \<Longrightarrow> block2arena b \<noteq> a \<and> (M (block2arena b) \<longrightarrow> M' (block2arena b))"
  shows "class_ok d (ars(a := \<lparr>desc = Some i, arena_cnt = block_per_arena d, large = False\<rparr>)) M' i
    (F @ map (\<lambda>j. arena2block a j d) [0..<block_per_arena d]) L"
proof (rule class_okI)
  have w: "wf_desc d" using c by (simp add: class_ok_def)
  let ?B = "map (\<lambda>j. arena2block a j d) [0..<block_per_arena d]"
  have B: "set ?B = blocks a d" by (auto simp: blocks_def)
  have pg: "b \<in> blocks a d \<Longrightarrow> block2arena b = a" for b by (rule blocks_page [OF a w])
  have dj: "(set F \<union> L) \<inter> blocks a d = {}"
  proof (rule equals0I)
    fix b assume "b \<in> (set F \<union> L) \<inter> blocks a d"
    then show False using f [of b] pg [of b] by simp
  qed
  have "distinct ?B" unfolding distinct_map using arena2block_inj [OF a w] by (simp add: lessThan_atLeast0)
  moreover have "distinct F" "set F \<inter> L = {}" using c by (simp_all add: class_ok_def)
  ultimately show "wf_desc d" "distinct (F @ ?B)" "set (F @ ?B) \<inter> L = {}"
    using w dj unfolding distinct_append set_append B by blast+
  fix x assume "x \<in> set (F @ ?B) \<union> L"
  then consider (new) "x \<in> blocks a d" | (old) "x \<in> set F \<union> L" unfolding set_append B by blast
  then show "desc ((ars(a := \<lparr>desc = Some i, arena_cnt = block_per_arena d, large = False\<rparr>)) (block2arena x)) = Some i \<and>
    \<not> large ((ars(a := \<lparr>desc = Some i, arena_cnt = block_per_arena d, large = False\<rparr>)) (block2arena x)) \<and>
    x \<in> blocks (block2arena x) d \<and> M' (block2arena x) \<and>
    arena_cnt ((ars(a := \<lparr>desc = Some i, arena_cnt = block_per_arena d, large = False\<rparr>)) (block2arena x)) =
      card (set (F @ ?B) \<inter> blocks (block2arena x) d) \<and>
    blocks (block2arena x) d \<subseteq> set (F @ ?B) \<union> L"
  proof cases
    case new
    have "set (F @ ?B) \<inter> blocks a d = blocks a d" unfolding set_append B by blast
    moreover have "blocks a d \<subseteq> set (F @ ?B) \<union> L" unfolding set_append B by blast
    ultimately show ?thesis using new m card_blocks [OF a w] by (simp only: pg [OF new]) simp
  next
    case old
    note D = class_okD [OF c old]
    have "blocks (block2arena x) d \<inter> blocks a d = {}"
    proof (rule equals0I)
      fix b assume "b \<in> blocks (block2arena x) d \<inter> blocks a d"
      then show False using f [OF old] blocks_disjoint [OF w, of b x] pg [of b] by simp
    qed
    then have "set (F @ ?B) \<inter> blocks (block2arena x) d = set F \<inter> blocks (block2arena x) d" unfolding set_append B by blast
    moreover have "blocks (block2arena x) d \<subseteq> set (F @ ?B) \<union> L" using D(6) unfolding set_append by blast
    ultimately show ?thesis using D(1-5) f [OF old] by simp
  qed
qed

lemma class_drop:
  assumes c: "class_ok d ars M i F L" and n: "\<And>b. b \<in> L \<Longrightarrow> block2arena b \<noteq> a"
    and f: "\<And>b. b \<in> set F \<union> L \<Longrightarrow> block2arena b \<noteq> a \<Longrightarrow> M (block2arena b) \<longrightarrow> M' (block2arena b)"
  shows "class_ok d ars M' i (filter (\<lambda>b. block2arena b \<noteq> a) F) L"
proof (rule class_okI)
  show w: "wf_desc d" "distinct (filter (\<lambda>b. block2arena b \<noteq> a) F)" "set (filter (\<lambda>b. block2arena b \<noteq> a) F) \<inter> L = {}"
    using c by (auto simp: class_ok_def)
  fix x assume x: "x \<in> set (filter (\<lambda>b. block2arena b \<noteq> a) F) \<union> L"
  then have xo: "x \<in> set F \<union> L" and xa: "block2arena x \<noteq> a" using n by auto
  note D = class_okD [OF c xo]
  have "set (filter (\<lambda>b. block2arena b \<noteq> a) F) \<inter> blocks (block2arena x) d = set F \<inter> blocks (block2arena x) d"
    using blocks_disjoint [OF w(1)] xa by auto
  moreover have "blocks (block2arena x) d \<subseteq> set (filter (\<lambda>b. block2arena b \<noteq> a) F) \<union> L"
    using D(6) blocks_disjoint [OF w(1)] xa by auto
  ultimately show "desc (ars (block2arena x)) = Some i \<and> \<not> large (ars (block2arena x)) \<and> x \<in> blocks (block2arena x) d \<and>
    M' (block2arena x) \<and> arena_cnt (ars (block2arena x)) = card (set (filter (\<lambda>b. block2arena b \<noteq> a) F) \<inter> blocks (block2arena x) d) \<and>
    blocks (block2arena x) d \<subseteq> set (filter (\<lambda>b. block2arena b \<noteq> a) F) \<union> L"
    using D f [OF xo xa] by auto
qed



section \<open>The invariant of the heap\<close>

definition heap_mark :: "virtual_addr \<Rightarrow> u32 \<Rightarrow> bool" where
  "heap_mark va a \<longleftrightarrow> (\<exists>k \<le> nbits (vaddr_bitmap va). a = page_at (vaddr_start va) k \<and> bit_at (vaddr_bitmap va) k)"

definition heap_va :: "kernel \<Rightarrow> virtual_addr" where
  "heap_va s = get_vaddr (heap_flags s) s"

text \<open>\<open>L i\<close> is the set of blocks of class \<open>i\<close> in use.\<close>

definition heap_ok :: "kernel \<Rightarrow> (nat \<Rightarrow> u32 set) \<Rightarrow> bool" where
  "heap_ok s L \<longleftrightarrow> length (get_descs s) = DESC_CNT \<and> vaddr_ok (heap_flags s) s \<and> nbits (vaddr_bitmap (heap_va s)) < 2 ^ 20 - 1 \<and>
     (\<forall>i < DESC_CNT. class_ok (get_descs s ! i) (arenas s) (heap_mark (heap_va s)) i (free_list (get_descs s ! i)) (L i))"

lemma heap_ok_same: "same_heap s s' \<Longrightarrow> heap_ok s' L = heap_ok s L"
  by (simp add: heap_ok_def heap_va_def vaddr_ok_def same_heapD)

lemma same_heap_va: "same_heap s s' \<Longrightarrow> heap_va s' = heap_va s" "same_heap s s' \<Longrightarrow> vaddr_ok pf s' = vaddr_ok pf s"
  by (simp_all add: heap_va_def vaddr_ok_def same_heapD)

lemma heap_okD:
  assumes "heap_ok s L" "i < DESC_CNT"
  shows "class_ok (get_descs s ! i) (arenas s) (heap_mark (heap_va s)) i (free_list (get_descs s ! i)) (L i)"
    "i < length (get_descs s)"
  using assms by (simp_all add: heap_ok_def)

lemma class_ok_desc_cong:
  "block_size d' = block_size d \<Longrightarrow> block_per_arena d' = block_per_arena d \<Longrightarrow> class_ok d' ars M i F L = class_ok d ars M i F L"
  by (simp add: class_ok_def wf_desc_def blocks_cong [of d' d])

lemma get_set_descs [simp]:
  "get_descs (set_descs ds s) = ds" "heap_flags (set_descs ds s) = heap_flags s" "arenas (set_descs ds s) = arenas s"
  "heap_va (set_descs ds s) = heap_va s" "vaddr_ok pf (set_descs ds s) = vaddr_ok pf s"
  by (simp_all add: get_descs_def set_descs_def heap_flags_def cur_task_def running_thread_def heap_va_def get_vaddr_def vaddr_ok_def)

lemma upd_arena_frame [simp]:
  "get_descs (upd_arena a f s) = get_descs s" "heap_flags (upd_arena a f s) = heap_flags s"
  "arenas (upd_arena a f s) = (arenas s)(a := f (arenas s a))"
  "heap_va (upd_arena a f s) = heap_va s" "vaddr_ok pf (upd_arena a f s) = vaddr_ok pf s"
  by (simp_all add: get_descs_def upd_arena_def heap_flags_def cur_task_def running_thread_def heap_va_def get_vaddr_def vaddr_ok_def)

lemma upd_free_list_Some:
  "upd_free_list i f s = Some s' \<longleftrightarrow> i < length (get_descs s) \<and>
     s' = set_descs ((get_descs s)[i := (get_descs s ! i)\<lparr>free_list := f (free_list (get_descs s ! i))\<rparr>]) s"
  by (auto simp: upd_free_list_def bind_Some_iff array_simps)

text \<open>Replacing the free list of class \<open>i\<close> and the arena headers.\<close>

lemma heap_ok_upd:
  assumes h: "heap_ok s L" and i: "i < DESC_CNT"
    and ds: "get_descs s' = (get_descs s)[i := (get_descs s ! i)\<lparr>free_list := F\<rparr>]"
    and va: "heap_flags s' = heap_flags s" "vaddr_ok (heap_flags s') s'" "nbits (vaddr_bitmap (heap_va s')) < 2 ^ 20 - 1"
    and ci: "class_ok (get_descs s ! i) (arenas s') (heap_mark (heap_va s')) i F Li"
    and cj: "\<And>j b. j < DESC_CNT \<Longrightarrow> j \<noteq> i \<Longrightarrow> b \<in> set (free_list (get_descs s ! j)) \<union> L j \<Longrightarrow>
      arenas s' (block2arena b) = arenas s (block2arena b) \<and>
      (heap_mark (heap_va s) (block2arena b) \<longrightarrow> heap_mark (heap_va s') (block2arena b))"
  shows "heap_ok s' (L(i := Li))"
  unfolding heap_ok_def
proof (intro conjI allI impI)
  have l: "length (get_descs s) = DESC_CNT" using h by (simp add: heap_ok_def)
  then show "length (get_descs s') = DESC_CNT" by (simp add: ds)
  show "vaddr_ok (heap_flags s') s'" "nbits (vaddr_bitmap (heap_va s')) < 2 ^ 20 - 1" by (rule va)+
  fix j assume j: "j < DESC_CNT"
  show "class_ok (get_descs s' ! j) (arenas s') (heap_mark (heap_va s')) j (free_list (get_descs s' ! j)) ((L(i := Li)) j)"
  proof (cases "j = i")
    case True
    then show ?thesis
      using ci i l by (simp add: ds class_ok_desc_cong [of "(get_descs s ! i)\<lparr>free_list := F\<rparr>" "get_descs s ! i"])
  next
    case False
    then show ?thesis
      using class_other [OF heap_okD(1) [OF h j] cj [OF j False]] by (simp add: ds)
  qed
qed

lemma other_class_page:
  assumes "heap_ok s L" "i < DESC_CNT" "j < DESC_CNT" "i \<noteq> j"
    and "b \<in> set (free_list (get_descs s ! i)) \<union> L i" "c \<in> set (free_list (get_descs s ! j)) \<union> L j"
  shows "block2arena b \<noteq> block2arena c"
  using class_okD(1) [OF heap_okD(1) [OF assms(1,2)] assms(5)] class_okD(1) [OF heap_okD(1) [OF assms(1,3)] assms(6)] assms(4)
  by (metis option.inject)

lemma take_block_ok:
  assumes h: "heap_ok s L" and i: "i < DESC_CNT" and r: "take_block pf i s = Some (s', b)"
  shows "heap_ok s' (L(i := insert b (L i)))" "\<And>j. j < DESC_CNT \<Longrightarrow> b \<notin> L j" "b \<in> set (free_list (get_descs s ! i))"
proof -
  let ?d = "get_descs s ! i"
  obtain F where F: "free_list ?d = b # F"
    using r heap_okD(2) [OF h i] by (auto simp: take_block_def bind_Some_iff split: list.splits)
  obtain s1 s2 where s: "upd_free_list i tl s = Some s1" "clear_words b (block_size ?d div 4) s1 = Some s2"
    "lock_release (pool_lock pf) (upd_arena (block2arena b) (\<lambda>x. x\<lparr>arena_cnt := arena_cnt x - 1\<rparr>) s2) = Some s'"
    using r F heap_okD(2) [OF h i] by (auto simp: take_block_def bind_Some_iff)
  let ?u = "upd_arena (block2arena b) (\<lambda>x. x\<lparr>arena_cnt := arena_cnt x - 1\<rparr>) s1"
  have "same_heap ?u (upd_arena (block2arena b) (\<lambda>x. x\<lparr>arena_cnt := arena_cnt x - 1\<rparr>) s2)"
    using same_heap_clear_words [OF s(2)] by (simp add: same_heap_def upd_arena_def)
  then have su: "same_heap ?u s'" using same_heap_lock_release [OF s(3)] by (rule same_heap_trans)
  have s1: "s1 = set_descs ((get_descs s)[i := ?d\<lparr>free_list := F\<rparr>]) s" using s(1) F by (simp add: upd_free_list_Some)
  have c: "class_ok ?d (arenas s) (heap_mark (heap_va s)) i (b # F) (L i)" using heap_okD(1) [OF h i] F by simp
  show bf: "b \<in> set (free_list ?d)" by (simp add: F)
  have "heap_ok ?u (L(i := insert b (L i)))"
  proof (rule heap_ok_upd [OF h i])
    show "get_descs ?u = (get_descs s)[i := ?d\<lparr>free_list := F\<rparr>]" by (simp add: s1)
    show "heap_flags ?u = heap_flags s" "vaddr_ok (heap_flags ?u) ?u" "nbits (vaddr_bitmap (heap_va ?u)) < 2 ^ 20 - 1"
      using h by (simp_all add: s1 heap_ok_def)
    show "class_ok ?d (arenas ?u) (heap_mark (heap_va ?u)) i F (insert b (L i))" using class_pop [OF c] by (simp add: s1)
    fix j c assume "j < DESC_CNT" "j \<noteq> i" "c \<in> set (free_list (get_descs s ! j)) \<union> L j"
    then have "block2arena c \<noteq> block2arena b" using other_class_page [OF h, of j i c b] i bf by auto
    then show "arenas ?u (block2arena c) = arenas s (block2arena c) \<and>
      (heap_mark (heap_va s) (block2arena c) \<longrightarrow> heap_mark (heap_va ?u) (block2arena c))" by (simp add: s1)
  qed
  then show "heap_ok s' (L(i := insert b (L i)))" using heap_ok_same [OF su] by simp
  fix j assume j: "j < DESC_CNT"
  show "b \<notin> L j"
  proof (cases "j = i")
    case True
    then show ?thesis using c by (auto simp: class_ok_def)
  next
    case False
    then show ?thesis using other_class_page [OF h i j, of b b] bf by auto
  qed
qed


lemma page_at_inj:
  assumes "page_at v k = page_at v j" "k < 2 ^ 20" "j < 2 ^ 20"
  shows "k = j"
proof -
  have m: "unat (of_nat n * PG_SIZE :: u32) = n * 4096" if "n < 2 ^ 20" for n
  proof -
    have "unat (of_nat n :: u32) = n" using that by (subst unat_of_nat) simp
    then show ?thesis using that by (subst unat_word_ariths(2)) (simp add: PG_SIZE_def)
  qed
  have "of_nat k * PG_SIZE = (of_nat j * PG_SIZE :: u32)" using assms(1) by (simp add: page_at_def)
  then have "k * 4096 = j * 4096" by (metis m assms(2,3))
  then show ?thesis by simp
qed

text \<open>What a page allocation does to the virtual address bitmap: it marks a run of unmarked pages.\<close>

definition va_marked :: "virtual_addr \<Rightarrow> nat \<Rightarrow> nat \<Rightarrow> virtual_addr \<Rightarrow> bool" where
  "va_marked va k n va' \<longleftrightarrow> vaddr_start va' = vaddr_start va \<and>
     btmp_bytes_len (vaddr_bitmap va') = btmp_bytes_len (vaddr_bitmap va) \<and>
     length (bits (vaddr_bitmap va')) = length (bits (vaddr_bitmap va)) \<and>
     k + n \<le> nbits (vaddr_bitmap va) + 1 \<and> free_run (vaddr_bitmap va) k n \<and>
     (\<forall>j. bit_at (vaddr_bitmap va') j = (k \<le> j \<and> j < k + n \<or> bit_at (vaddr_bitmap va) j))"

lemma malloc_page_heap:
  assumes h: "heap_ok s L" and r: "malloc_page (heap_flags s) n s = Some (s', v)" and v: "v \<noteq> 0"
  obtains k where "v = page_at (vaddr_start (heap_va s)) k" "va_marked (heap_va s) k n (heap_va s')" "0 < n"
    "get_descs s' = get_descs s" "arenas s' = arenas s" "heap_flags s' = heap_flags s"
proof -
  obtain s1 where n: "0 < n" and s1: "vaddr_get (heap_flags s) n s = Some (s1, v)"
    "malloc_page_loop (heap_flags s) v n s1 = Some (s', True)"
    using r v by (auto simp: malloc_page_def bind_Some_iff split: if_splits)
  have vo: "vaddr_ok (heap_flags s) s" using h by (simp add: heap_ok_def)
  obtain k bm where k: "v = page_at (vaddr_start (heap_va s)) k" "free_run (vaddr_bitmap (heap_va s)) k n"
    "k + n \<le> nbits (vaddr_bitmap (heap_va s)) + 1" "btmp_bytes_len bm = btmp_bytes_len (vaddr_bitmap (heap_va s))"
    "length (bits bm) = length (bits (vaddr_bitmap (heap_va s)))" "s1 = set_vaddr_bitmap (heap_flags s) bm s"
    "\<forall>j. bit_at bm j = (k \<le> j \<and> j < k + n \<or> bit_at (vaddr_bitmap (heap_va s)) j)"
    by (rule vaddr_get_Some [OF vo n s1(1) v, folded heap_va_def])
  have fl: "heap_flags s1 = heap_flags s" "get_descs s1 = get_descs s" "arenas s1 = arenas s"
    unfolding k(6) by (auto simp: heap_flags_def get_descs_def set_vaddr_bitmap_def cur_task_def running_thread_def)
  have va1: "heap_va s1 = (heap_va s)\<lparr>vaddr_bitmap := bm\<rparr>" unfolding heap_va_def fl by (simp add: k(6))
  note sh = same_heapD [OF same_heap_malloc_page_loop [OF s1(2)]]
  have "heap_va s' = heap_va s1" by (simp add: heap_va_def sh)
  then show thesis using that [of k] k n fl sh va1 by (simp add: va_marked_def)
qed

lemma heap_mark_mono: "va_marked va k n va' \<Longrightarrow> heap_mark va a \<Longrightarrow> heap_mark va' a"
  by (auto simp: va_marked_def heap_mark_def nbits_def)

lemma fresh_page:
  assumes h: "heap_ok s L" and m: "va_marked (heap_va s) k n va'" and "0 < n" and "j < DESC_CNT"
    and b: "b \<in> set (free_list (get_descs s ! j)) \<union> L j"
  shows "block2arena b \<noteq> page_at (vaddr_start (heap_va s)) k"
proof
  assume e: "block2arena b = page_at (vaddr_start (heap_va s)) k"
  obtain k' where k': "k' \<le> nbits (vaddr_bitmap (heap_va s))" "block2arena b = page_at (vaddr_start (heap_va s)) k'"
    "bit_at (vaddr_bitmap (heap_va s)) k'"
    using class_okD(4) [OF heap_okD(1) [OF h assms(4)] b] by (auto simp: heap_mark_def)
  have nb: "nbits (vaddr_bitmap (heap_va s)) < 2 ^ 20 - 1" using h by (simp add: heap_ok_def)
  have "k < 2 ^ 20" "k' < 2 ^ 20" using m nb k'(1) assms(3) by (auto simp: va_marked_def)
  then have "k' = k" using page_at_inj e k'(2) by metis
  then show False using m k'(3) assms(3) by (auto simp: va_marked_def free_run_def)
qed

lemma va_marked_ok:
  assumes "va_marked (heap_va s) k n (heap_va s')" "heap_flags s' = heap_flags s" "heap_ok s L"
  shows "vaddr_ok (heap_flags s') s'" "nbits (vaddr_bitmap (heap_va s')) < 2 ^ 20 - 1"
  using assms by (auto simp: va_marked_def heap_ok_def vaddr_ok_def heap_va_def wf_bitmap_def nbits_def)

lemma split_arena_Some:
  assumes "split_arena a i k n s = Some s'" "i < length (get_descs s)"
  shows "get_descs s' = (get_descs s)[i := (get_descs s ! i)\<lparr>free_list := free_list (get_descs s ! i) @
      map (\<lambda>j. arena2block a j (get_descs s ! i)) [k..<k + n]\<rparr>]"
    "arenas s' = arenas s" "heap_flags s' = heap_flags s" "heap_va s' = heap_va s" "vaddr_ok pf s' = vaddr_ok pf s"
proof -
  have "get_descs s' = (get_descs s)[i := (get_descs s ! i)\<lparr>free_list := free_list (get_descs s ! i) @
      map (\<lambda>j. arena2block a j (get_descs s ! i)) [k..<k + n]\<rparr>] \<and>
    arenas s' = arenas s \<and> heap_flags s' = heap_flags s \<and> heap_va s' = heap_va s \<and> vaddr_ok pf s' = vaddr_ok pf s"
    using assms
  proof (induction n arbitrary: k s)
    case (Suc n)
    let ?d = "get_descs s ! i" and ?b = "arena2block a k (get_descs s ! i)"
    let ?u = "set_descs ((get_descs s)[i := ?d\<lparr>free_list := free_list ?d @ [?b]\<rparr>]) s"
    have u: "split_arena a i (k + 1) n ?u = Some s'"
      using Suc.prems by (auto simp: bind_Some_iff upd_free_list_Some Let_def split: if_splits)
    have ab: "arena2block a j (?d\<lparr>free_list := x\<rparr>) = arena2block a j ?d" for j x by (simp add: arena2block_def)
    have "[k..<k + Suc n] = k # [k + 1..<k + 1 + n]" by (simp add: upt_rec)
    then show ?case using Suc.IH [OF u] Suc.prems(2) by (simp add: ab)
  qed simp
  then show "get_descs s' = (get_descs s)[i := (get_descs s ! i)\<lparr>free_list := free_list (get_descs s ! i) @
      map (\<lambda>j. arena2block a j (get_descs s ! i)) [k..<k + n]\<rparr>]"
    "arenas s' = arenas s" "heap_flags s' = heap_flags s" "heap_va s' = heap_va s" "vaddr_ok pf s' = vaddr_ok pf s" by blast+
qed

lemma new_arena_ok:
  assumes h: "heap_ok s L" and i: "i < DESC_CNT" and al: "page_frame a = a"
    and a: "a = page_at (vaddr_start (heap_va s)) k"
    and m: "va_marked (heap_va s) k n (heap_va t)" "0 < n"
    and t: "get_descs t = get_descs s" "arenas t = arenas s" "heap_flags t = heap_flags s"
    and r: "new_arena a i t = Some s'"
  shows "heap_ok s' L"
proof -
  let ?d = "get_descs s ! i" and ?A = "\<lparr>desc = Some i, arena_cnt = block_per_arena (get_descs s ! i), large = False\<rparr>"
  obtain t1 t3 where t1: "clear_pages a 1 t = Some t1"
    and t3: "split_arena a i 0 (block_per_arena ?d) (fst (intr_disable (upd_arena a (\<lambda>_. ?A) t1))) = Some t3"
      "s' = fst (intr_set_status t3 (snd (intr_disable (upd_arena a (\<lambda>_. ?A) t1))))"
    using r same_heapD(2) [OF same_heap_clear_pages] t(1)
    by (auto simp: new_arena_def bind_Some_iff case_prod_beta Let_def array_simps simp del: clear_pages.simps)
  note sh = same_heapD [OF same_heap_clear_pages [OF t1]]
  let ?u = "upd_arena a (\<lambda>_. ?A) t1"
  note sd = same_heapD [OF same_heap_intr(1) [of ?u]]
  have vd: "heap_va (fst (intr_disable ?u)) = heap_va t" "vaddr_ok pf (fst (intr_disable ?u)) = vaddr_ok pf t" for pf
    unfolding same_heap_va [OF same_heap_intr(1)] upd_arena_frame same_heap_va [OF same_heap_clear_pages [OF t1]] by simp_all
  have il: "i < length (get_descs (fst (intr_disable ?u)))" using heap_okD(2) [OF h i] by (simp add: sd sh t)
  note sp = split_arena_Some [OF t3(1) il]
  note ok = va_marked_ok [OF m(1) t(3) h]
  have g: "get_descs t3 = (get_descs s)[i := ?d\<lparr>free_list := free_list ?d @ map (\<lambda>j. arena2block a j ?d) [0..<block_per_arena ?d]\<rparr>]"
    "arenas t3 = (arenas s)(a := ?A)" "heap_flags t3 = heap_flags s" "heap_va t3 = heap_va t"
    using sp by (simp_all add: sd sh t vd)
  have fl: "heap_flags t3 = heap_flags t" using g(3) t(3) by simp
  have mk: "heap_mark (heap_va t) a"
    unfolding heap_mark_def by (rule exI [of _ k]) (use m a in \<open>simp add: va_marked_def nbits_def\<close>)
  have "heap_ok t3 (L(i := L i))"
  proof (rule heap_ok_upd [OF h i g(1) g(3)])
    show "vaddr_ok (heap_flags t3) t3" "nbits (vaddr_bitmap (heap_va t3)) < 2 ^ 20 - 1"
      using ok sp(5) vd(2) g(4) fl by simp_all
    show "class_ok ?d (arenas t3) (heap_mark (heap_va t3)) i
       (free_list ?d @ map (\<lambda>j. arena2block a j ?d) [0..<block_per_arena ?d]) (L i)"
      unfolding g(2,4)
      by (rule class_new [where M' = "heap_mark (heap_va t)", OF heap_okD(1) [OF h i] al mk])
        (use fresh_page [OF h m i] heap_mark_mono [OF m(1)] a in auto)
    fix j b assume j: "j < DESC_CNT" "j \<noteq> i" "b \<in> set (free_list (get_descs s ! j)) \<union> L j"
    then show "arenas t3 (block2arena b) = arenas s (block2arena b) \<and>
      (heap_mark (heap_va s) (block2arena b) \<longrightarrow> heap_mark (heap_va t3) (block2arena b))"
      using fresh_page [OF h m j(1,3)] heap_mark_mono [OF m(1)] a by (simp add: g)
  qed
  then show ?thesis using heap_ok_same [OF same_heap_intr(2) [of t3]] t3(2) by simp
qed


lemma find_desc_spec: "find_desc n ds < length ds \<Longrightarrow> n \<le> block_size (ds ! find_desc n ds)"
  by (induction ds) auto

lemma heap_page_aligned: "heap_ok s L \<Longrightarrow> page_frame (page_at (vaddr_start (heap_va s)) k) = page_at (vaddr_start (heap_va s)) k"
  by (rule aligned_page_at) (simp add: heap_ok_def vaddr_ok_def heap_va_def)

lemma sys_malloc_small:
  assumes h: "heap_ok s L" and n: "n \<le> 1024" and r: "sys_malloc n s = Some (s', b)" and b: "b \<noteq> 0"
  shows "\<exists>i < DESC_CNT. n \<le> block_size (get_descs s ! i) \<and> (\<forall>j < DESC_CNT. b \<notin> L j) \<and> heap_ok s' (L(i := insert b (L i)))"
proof -
  let ?pf = "heap_flags s"
  obtain s1 where s1: "lock_take (pool_lock ?pf) s = Some s1"
    using r b by (auto simp: sys_malloc_def bind_Some_iff Let_def split: if_splits)
  note sh = same_heap_lock_take [OF s1] and D = same_heapD [OF same_heap_lock_take [OF s1]]
  let ?i = "find_desc n (get_descs s)"
  have h1: "heap_ok s1 L" using heap_ok_same [OF sh] h by simp
  have r1: "do { d \<leftarrow> rd (get_descs s1) ?i;
      if free_list d = [] then do {
         (s, a) \<leftarrow> malloc_page ?pf 1 s1;
         if a = 0 then do { s \<leftarrow> lock_release (pool_lock ?pf) s; Some (s, 0) }
         else do { s \<leftarrow> new_arena a ?i s; take_block ?pf ?i s } }
      else take_block ?pf ?i s1 } = Some (s', b)"
    using r b n s1 D(2) by (auto simp: sys_malloc_def Let_def bind_Some_iff split: if_splits)
  then have il: "?i < length (get_descs s1)" by (auto simp: bind_Some_iff array_simps)
  then have i: "?i < DESC_CNT" using h1 by (simp add: heap_ok_def)
  have sz: "n \<le> block_size (get_descs s ! ?i)" using find_desc_spec [of n "get_descs s"] il D(2) by simp
  have "\<exists>t. heap_ok t L \<and> take_block ?pf ?i t = Some (s', b)"
  proof (cases "free_list (get_descs s1 ! ?i) = []")
    case False
    then show ?thesis using r1 il h1 by auto
  next
    case True
    then obtain t a u where t: "malloc_page (heap_flags s1) 1 s1 = Some (t, a)" "a \<noteq> 0" "new_arena a ?i t = Some u" "take_block ?pf ?i u = Some (s', b)"
      using r1 il b D(1) by (auto simp: bind_Some_iff split: if_splits)
    obtain k where k: "a = page_at (vaddr_start (heap_va s1)) k" "va_marked (heap_va s1) k 1 (heap_va t)"
      "get_descs t = get_descs s1" "arenas t = arenas s1" "heap_flags t = heap_flags s1"
      using malloc_page_heap [OF h1 t(1,2)] by metis
    have "heap_ok u L"
      by (rule new_arena_ok [OF h1 i _ k(1,2) _ k(3-5) t(3)]) (simp_all add: k(1) heap_page_aligned [OF h1])
    then show ?thesis using t(4) by blast
  qed
  then obtain t where t: "heap_ok t L" "take_block ?pf ?i t = Some (s', b)" by blast
  show ?thesis using take_block_ok [OF t(1) i t(2)] sz i by blast
qed

text \<open>
  C4. \<open>sys_malloc\<close> for up to 1024 bytes: the block it returns is not in use, is at least as large as
  requested, and the heap stays consistent with the block now in use.
\<close>

theorem sys_malloc_fresh_block:
  assumes "heap_ok s L" and "0 < n" and "n \<le> 1024" and "sys_malloc n s = Some (s', b)" and "b \<noteq> 0"
  shows "\<exists>i < DESC_CNT. n \<le> block_size (get_descs s ! i) \<and> (\<forall>j < DESC_CNT. b \<notin> L j) \<and>
    heap_ok s' (L(i := insert b (L i)))"
  by (rule sys_malloc_small [OF assms(1,3-)])


section \<open>Freeing\<close>

lemma remove1_filter: "distinct xs \<Longrightarrow> remove1 x xs = filter (\<lambda>y. y \<noteq> x) xs"
  by (simp add: distinct_remove1_removeAll removeAll_filter_not_eq) metis

lemma unlink_arena_Some:
  assumes "unlink_arena a i k n s = Some s'" "i < length (get_descs s)" "distinct (free_list (get_descs s ! i))"
  shows "get_descs s' = (get_descs s)[i := (get_descs s ! i)\<lparr>free_list :=
      filter (\<lambda>b. b \<notin> (\<lambda>j. arena2block a j (get_descs s ! i)) ` {k..<k + n}) (free_list (get_descs s ! i))\<rparr>] \<and>
    arenas s' = arenas s \<and> heap_flags s' = heap_flags s \<and> heap_va s' = heap_va s \<and> vaddr_ok pf s' = vaddr_ok pf s"
  using assms
proof (induction n arbitrary: k s)
  case (Suc n)
  let ?d = "get_descs s ! i" and ?b = "arena2block a k (get_descs s ! i)"
  let ?u = "set_descs ((get_descs s)[i := ?d\<lparr>free_list := remove1 ?b (free_list ?d)\<rparr>]) s"
  have u: "unlink_arena a i (k + 1) n ?u = Some s'"
    using Suc.prems by (auto simp: bind_Some_iff upd_free_list_Some Let_def split: if_splits)
  have ab: "arena2block a j (?d\<lparr>free_list := x\<rparr>) = arena2block a j ?d" for j x by (simp add: arena2block_def)
  have "{k..<k + Suc n} = insert k {k + 1..<k + 1 + n}" by auto
  then have "filter (\<lambda>b. b \<notin> (\<lambda>j. arena2block a j ?d) ` {k + 1..<k + 1 + n}) (remove1 ?b (free_list ?d)) =
      filter (\<lambda>b. b \<notin> (\<lambda>j. arena2block a j ?d) ` {k..<k + Suc n}) (free_list ?d)"
    using Suc.prems(3) by (simp add: remove1_filter)
  then show ?case using Suc.IH [OF u] Suc.prems(2,3) by (simp add: ab)
qed simp


lemma page_index:
  assumes "k < 2 ^ 20"
  shows "unat ((page_at v k - v) div PG_SIZE) = k"
proof -
  have n: "unat (of_nat (k * 4096) :: u32) = k * 4096" using assms by (subst unat_of_nat) simp
  have "page_at v k - v = of_nat (k * 4096)" by (simp add: page_at_def PG_SIZE_def)
  then have "unat ((page_at v k - v) div PG_SIZE) = unat (of_nat (k * 4096) :: u32) div unat PG_SIZE"
    by (simp only: unat_div_distrib)
  then show ?thesis by (simp only: n) (simp add: PG_SIZE_def)
qed

text \<open>Giving the page of an arena back clears its mark and no other.\<close>

lemma mfree_page_heap:
  assumes r: "mfree_page (heap_flags s) a 1 s = Some s'" and a: "a = page_at (vaddr_start (heap_va s)) k" "k < 2 ^ 20"
    and vo: "vaddr_ok (heap_flags s) s" and nb: "nbits (vaddr_bitmap (heap_va s)) < 2 ^ 20 - 1"
  shows "get_descs s' = get_descs s" "arenas s' = arenas s" "heap_flags s' = heap_flags s"
    "vaddr_ok (heap_flags s') s'" "nbits (vaddr_bitmap (heap_va s')) < 2 ^ 20 - 1"
    "x \<noteq> a \<Longrightarrow> heap_mark (heap_va s) x \<Longrightarrow> heap_mark (heap_va s') x"
proof -
  obtain u s1 where s1: "mfree_page_loop u a 1 s = Some s1" "vaddr_remove (heap_flags s) a 1 s1 = Some s'"
    using r by (auto simp: mfree_page_def bind_Some_iff simp del: mfree_page_loop.simps split: if_splits)
  note sh = same_heap_mfree_page_loop [OF s1(1)]
  note D = same_heapD [OF sh] and V = same_heap_va(1) [OF sh] same_heap_va(2) [OF sh, of "heap_flags s"]
  have gv: "get_vaddr (heap_flags s) s1 = heap_va s" by (simp add: heap_va_def D)
  obtain bm where bm: "bitmap_set (vaddr_bitmap (heap_va s)) k 0 = Some bm" "s' = set_vaddr_bitmap (heap_flags s) bm s1"
    using s1(2) page_index [OF a(2)] by (auto simp: vaddr_remove_def gv a(1) bind_Some_iff Let_def)
  note B = bitmap_set_Some [OF bm(1)]
  have fl: "heap_flags s' = heap_flags s1" "get_descs s' = get_descs s1" "arenas s' = arenas s1"
    unfolding bm(2) by (auto simp: heap_flags_def get_descs_def set_vaddr_bitmap_def cur_task_def running_thread_def)
  then show "get_descs s' = get_descs s" "arenas s' = arenas s" "heap_flags s' = heap_flags s" using D by simp_all
  have va: "heap_va s' = (heap_va s)\<lparr>vaddr_bitmap := bm\<rparr>" using fl(1) D(1) gv by (simp add: heap_va_def bm(2))
  show "vaddr_ok (heap_flags s') s'"
    using vo B by (simp add: vaddr_ok_def heap_va_def [symmetric] va wf_bitmap_def nbits_def)
  show "nbits (vaddr_bitmap (heap_va s')) < 2 ^ 20 - 1" using nb B by (simp add: va nbits_def)
  show "x \<noteq> a \<Longrightarrow> heap_mark (heap_va s) x \<Longrightarrow> heap_mark (heap_va s') x"
  proof -
    assume x: "x \<noteq> a" and "heap_mark (heap_va s) x"
    then obtain j where "j \<le> nbits (vaddr_bitmap (heap_va s))" "x = page_at (vaddr_start (heap_va s)) j" "bit_at (vaddr_bitmap (heap_va s)) j"
      by (auto simp: heap_mark_def)
    moreover have "j \<noteq> k" using x a(1) calculation(2) by blast
    ultimately show ?thesis unfolding heap_mark_def va using B(3) B(5) [of j] by (intro exI [of _ j]) (simp add: nbits_def)
  qed
qed

text \<open>The first half of \<open>sys_free\<close>: the block goes back to the free list.\<close>

lemma free_block_ok:
  assumes h: "heap_ok s L" and i: "i < DESC_CNT" and b: "b \<in> L i" and u: "upd_free_list i (\<lambda>l. l @ [b]) s = Some s1"
    and s2: "s2 = upd_arena (block2arena b) (\<lambda>x. x\<lparr>arena_cnt := arena_cnt x + 1\<rparr>) s1"
  shows "heap_ok s2 (L(i := L i - {b}))"
    "get_descs s2 ! i = (get_descs s ! i)\<lparr>free_list := free_list (get_descs s ! i) @ [b]\<rparr>"
proof -
  let ?d = "get_descs s ! i"
  have il: "i < length (get_descs s)" by (rule heap_okD(2) [OF h i])
  have s1: "s1 = set_descs ((get_descs s)[i := ?d\<lparr>free_list := free_list ?d @ [b]\<rparr>]) s" using u by (simp add: upd_free_list_Some)
  show "get_descs s2 ! i = ?d\<lparr>free_list := free_list ?d @ [b]\<rparr>" using il by (simp add: s2 s1)
  show "heap_ok s2 (L(i := L i - {b}))"
  proof (rule heap_ok_upd [OF h i])
    show "get_descs s2 = (get_descs s)[i := ?d\<lparr>free_list := free_list ?d @ [b]\<rparr>]" by (simp add: s2 s1)
    show "heap_flags s2 = heap_flags s" "vaddr_ok (heap_flags s2) s2" "nbits (vaddr_bitmap (heap_va s2)) < 2 ^ 20 - 1"
      using h by (simp_all add: s1 s2 heap_ok_def)
    show "class_ok ?d (arenas s2) (heap_mark (heap_va s2)) i (free_list ?d @ [b]) (L i - {b})"
      using class_push [OF heap_okD(1) [OF h i] b] by (simp add: s1 s2)
    fix j c assume "j < DESC_CNT" "j \<noteq> i" "c \<in> set (free_list (get_descs s ! j)) \<union> L j"
    then have "block2arena c \<noteq> block2arena b" using other_class_page [OF h, of j i c b] i b by auto
    then show "arenas s2 (block2arena c) = arenas s (block2arena c) \<and>
      (heap_mark (heap_va s) (block2arena c) \<longrightarrow> heap_mark (heap_va s2) (block2arena c))" by (simp add: s1 s2)
  qed
qed

text \<open>The second half: an arena without used blocks is dissolved.\<close>

lemma drop_arena_ok:
  assumes h: "heap_ok s L" and i: "i < DESC_CNT" and bF: "b \<in> set (free_list (get_descs s ! i))"
    and full: "arena_cnt (arenas s (block2arena b)) = block_per_arena (get_descs s ! i)"
    and u: "unlink_arena (block2arena b) i 0 (block_per_arena (get_descs s ! i)) s = Some s1"
    and m: "mfree_page (heap_flags s) (block2arena b) 1 s1 = Some s2"
  shows "heap_ok s2 L"
proof -
  let ?d = "get_descs s ! i" and ?a = "block2arena b" and ?F = "free_list (get_descs s ! i)"
  note c = heap_okD(1) [OF h i] and il = heap_okD(2) [OF h i]
  have w: "wf_desc ?d" and dF: "distinct ?F" and dj: "set ?F \<inter> L i = {}" using c by (simp_all add: class_ok_def)
  note D = class_okD [OF c UnI1 [OF bF]]
  have "card (set ?F \<inter> blocks ?a ?d) = card (blocks ?a ?d)" using D(5) full card_blocks [OF page_block2arena w] by simp
  then have "set ?F \<inter> blocks ?a ?d = blocks ?a ?d" by (intro card_subset_eq) auto
  then have sub: "blocks ?a ?d \<subseteq> set ?F" by blast
  have nL: "block2arena x \<noteq> ?a" if "x \<in> L i" for x
  proof
    assume "block2arena x = ?a"
    then have "x \<in> blocks ?a ?d" using class_okD(3) [OF c UnI2 [OF that]] by simp
    then show False using sub dj that by blast
  qed
  have flt: "filter (\<lambda>x. x \<notin> blocks ?a ?d) ?F = filter (\<lambda>x. block2arena x \<noteq> ?a) ?F"
    using blocks_disjoint [OF w] class_okD(3) [OF c] by (intro filter_cong) (auto, metis Un_iff)
  have bl: "(\<lambda>j. arena2block ?a j ?d) ` {0..<0 + block_per_arena ?d} = blocks ?a ?d" by (auto simp: blocks_def)
  note U = unlink_arena_Some [OF u il dF, unfolded bl flt]
  obtain k where k: "k \<le> nbits (vaddr_bitmap (heap_va s))" "?a = page_at (vaddr_start (heap_va s)) k"
    using D(4) by (auto simp: heap_mark_def)
  have vo: "vaddr_ok (heap_flags s) s" "nbits (vaddr_bitmap (heap_va s)) < 2 ^ 20 - 1" using h by (simp_all add: heap_ok_def)
  have s1: "heap_flags s1 = heap_flags s" "heap_va s1 = heap_va s" "arenas s1 = arenas s"
    "get_descs s1 = (get_descs s)[i := ?d\<lparr>free_list := filter (\<lambda>x. block2arena x \<noteq> ?a) ?F\<rparr>]" using U by blast+
  have vo1: "vaddr_ok (heap_flags s1) s1"
    using unlink_arena_Some [OF u il dF, of "heap_flags s"] vo(1) s1(1) by simp
  have m1: "mfree_page (heap_flags s1) ?a 1 s1 = Some s2" using m s1(1) by simp
  have a1: "?a = page_at (vaddr_start (heap_va s1)) k" "k < 2 ^ 20" "nbits (vaddr_bitmap (heap_va s1)) < 2 ^ 20 - 1"
    using k vo(2) s1(2) by simp_all
  note M = mfree_page_heap [OF m1 a1(1,2) vo1 a1(3)]
  have "heap_ok s2 (L(i := L i))"
  proof (rule heap_ok_upd [OF h i])
    show "get_descs s2 = (get_descs s)[i := ?d\<lparr>free_list := filter (\<lambda>x. block2arena x \<noteq> ?a) ?F\<rparr>]" by (simp add: M s1)
    show "heap_flags s2 = heap_flags s" by (simp add: M s1)
    show "vaddr_ok (heap_flags s2) s2" "nbits (vaddr_bitmap (heap_va s2)) < 2 ^ 20 - 1" by (rule M)+
    have "arenas s2 = arenas s" by (simp add: M s1)
    then show "class_ok ?d (arenas s2) (heap_mark (heap_va s2)) i (filter (\<lambda>x. block2arena x \<noteq> ?a) ?F) (L i)"
      using class_drop [OF c nL, where M' = "heap_mark (heap_va s2)"] M(6) s1(2) by simp
    fix j x assume j: "j < DESC_CNT" "j \<noteq> i" "x \<in> set (free_list (get_descs s ! j)) \<union> L j"
    have "block2arena x \<noteq> ?a" using other_class_page [OF h j(1) i j(2,3), of b] bF by simp
    then show "arenas s2 (block2arena x) = arenas s (block2arena x) \<and>
      (heap_mark (heap_va s) (block2arena x) \<longrightarrow> heap_mark (heap_va s2) (block2arena x))"
      using M(6) s1(2) \<open>arenas s2 = arenas s\<close> by simp
  qed
  then show ?thesis by simp
qed


text \<open>
  C5. \<open>sys_free\<close> of a block in use leaves a consistent heap in which the block is no longer in use;
  when it was the last used block of its arena, the arena is taken out of the free list and its page is
  given back, and the other blocks in use are not touched.
\<close>

theorem sys_free_releases_block:
  assumes h: "heap_ok s L" and i: "i < DESC_CNT" and b: "b \<in> L i" and r: "sys_free b s = Some s'"
  shows "heap_ok s' (L(i := L i - {b}))"
proof -
  let ?pf = "heap_flags s" and ?a = "block2arena b"
  obtain s1 where s1: "lock_take (pool_lock ?pf) s = Some s1"
    using r by (auto simp: sys_free_def bind_Some_iff Let_def split: if_splits)
  note D = same_heapD [OF same_heap_lock_take [OF s1]]
  have h1: "heap_ok s1 L" using heap_ok_same [OF same_heap_lock_take [OF s1]] h by simp
  note C = class_okD [OF heap_okD(1) [OF h1 i] UnI2 [OF b]]
  let ?d = "get_descs s1 ! i"
  have il: "i < length (get_descs s1)" by (rule heap_okD(2) [OF h1 i])
  have "do { s2 \<leftarrow> upd_free_list i (\<lambda>l. l @ [b]) s1;
      s4 \<leftarrow> (let s = upd_arena ?a (\<lambda>x. x\<lparr>arena_cnt := arena_cnt x + 1\<rparr>) s2 in
       if arena_cnt (arenas s ?a) = block_per_arena ?d then do {
         s \<leftarrow> unlink_arena ?a i 0 (block_per_arena ?d) s; mfree_page ?pf ?a 1 s } else Some s);
      lock_release (pool_lock ?pf) s4 } = Some s'"
    using r s1 C(1,2) il by (simp add: sys_free_def Let_def split: if_splits)
  then obtain s2 s4 where s2: "upd_free_list i (\<lambda>l. l @ [b]) s1 = Some s2" and s4: "lock_release (pool_lock ?pf) s4 = Some s'"
    and sx: "(let s = upd_arena ?a (\<lambda>x. x\<lparr>arena_cnt := arena_cnt x + 1\<rparr>) s2 in
       if arena_cnt (arenas s ?a) = block_per_arena ?d then do {
         s \<leftarrow> unlink_arena ?a i 0 (block_per_arena ?d) s; mfree_page ?pf ?a 1 s } else Some s) = Some s4"
    by (auto simp only: bind_Some_iff)
  define s3 where "s3 = upd_arena ?a (\<lambda>x. x\<lparr>arena_cnt := arena_cnt x + 1\<rparr>) s2"
  note sx' = sx [unfolded Let_def, folded s3_def]
  note fb = free_block_ok [OF h1 i b s2 s3_def]
  have per: "block_per_arena (get_descs s3 ! i) = block_per_arena ?d" by (simp add: fb(2))
  have fl: "heap_flags s3 = ?pf" using s2 D(1) by (auto simp: s3_def upd_free_list_Some)
  have "heap_ok s4 (L(i := L i - {b}))"
  proof (cases "arena_cnt (arenas s3 ?a) = block_per_arena ?d")
    case False
    then show ?thesis using sx' fb(1) by simp
  next
    case True
    then obtain u where u: "unlink_arena ?a i 0 (block_per_arena (get_descs s3 ! i)) s3 = Some u" "mfree_page (heap_flags s3) ?a 1 u = Some s4"
      using sx' fl per by (auto simp: bind_Some_iff)
    show ?thesis
      by (rule drop_arena_ok [OF fb(1) i _ _ u]) (use True per in \<open>simp_all add: fb(2)\<close>)
  qed
  then show ?thesis using heap_ok_same [OF same_heap_lock_release [OF s4]] by simp
qed


section \<open>Witnesses\<close>

lemma arena_geometry_witness:
  "block2arena (arena2block 0xc0100000 3 \<lparr>block_size = 256, block_per_arena = 15, free_list = []\<rparr>) = 0xc0100000"
proof -
  let ?d = "\<lparr>block_size = 256, block_per_arena = 15, free_list = []\<rparr>"
  have "page_frame 0xc0100000 = 0xc0100000" by (simp add: page_frame_def)
  moreover have "wf_desc ?d" "3 < block_per_arena ?d" "4 < block_per_arena ?d" by (simp_all add: wf_desc_def)
  ultimately show ?thesis using arena_geometry [of "0xc0100000" ?d 3 4] by simp
qed

lemma block_desc_init_classes_witness:
  "\<exists>ds. block_desc_init (replicate 7 \<lparr>block_size = 0, block_per_arena = 0, free_list = []\<rparr>) = Some ds \<and> length ds = 7"
  using block_desc_init_classes [of "replicate 7 \<lparr>block_size = 0, block_per_arena = 0, free_list = []\<rparr>"]
  by (simp add: DESC_CNT_def)

text \<open>A heap with one arena of three 16-byte blocks, all free.\<close>

definition sample_desc :: "nat \<Rightarrow> mem_block_desc" where
  "sample_desc i = \<lparr>block_size = 16 * 2 ^ i, block_per_arena = (if i = 0 then 3 else 0), free_list = []\<rparr>"

definition sample_blocks :: "u32 list" where
  "sample_blocks = map (\<lambda>j. arena2block 0xc0100000 j (sample_desc 0)) [0..<block_per_arena (sample_desc 0)]"

definition sample_heap :: kernel where
  "sample_heap = sample_mapped\<lparr>
     k_block_descs := (map sample_desc [0..<7])[0 := (sample_desc 0)\<lparr>free_list := sample_blocks\<rparr>],
     arenas := (arenas sample_mapped)(0xc0100000 := \<lparr>desc = Some 0, arena_cnt = block_per_arena (sample_desc 0), large = False\<rparr>),
     kernel_vaddr := \<lparr>vaddr_bitmap = \<lparr>btmp_bytes_len = 1, bits = [1, 0]\<rparr>, bits_ptr = 0xc009a002, vaddr_start = K_HEAP_START\<rparr>\<rparr>"

lemma sample_desc_wf: "wf_desc (sample_desc i)"
  by (simp add: wf_desc_def sample_desc_def)

lemma sample_heap_ok: "heap_ok sample_heap (\<lambda>_. {})"
proof -
  let ?A = "0xc0100000 :: u32" and ?v = "\<lparr>vaddr_bitmap = \<lparr>btmp_bytes_len = 1, bits = [1, 0]\<rparr>, bits_ptr = 0xc009a002, vaddr_start = K_HEAP_START\<rparr>"
  let ?ars = "(arenas sample_mapped)(?A := \<lparr>desc = Some 0, arena_cnt = block_per_arena (sample_desc 0), large = False\<rparr>)"
  have f: "heap_flags sample_heap = PF_KERNEL"
    by (simp add: heap_flags_def sample_heap_def sample_mapped_def sample_kernel_def cur_task_def sample_task_def)
  have g: "get_descs sample_heap = (map sample_desc [0..<7])[0 := (sample_desc 0)\<lparr>free_list := sample_blocks\<rparr>]"
    unfolding get_descs_def f by (simp add: sample_heap_def)
  have ar: "arenas sample_heap = ?ars" by (simp add: sample_heap_def)
  have v: "heap_va sample_heap = ?v" unfolding heap_va_def f by (simp add: get_vaddr_def sample_heap_def)
  have "heap_mark ?v ?A" unfolding heap_mark_def by (rule exI [of _ 0]) (simp add: K_HEAP_START_def bit_at_def)
  then have "class_ok (sample_desc 0) ?ars (heap_mark ?v) 0 ([] @ sample_blocks) {}"
    unfolding sample_blocks_def
    by (intro class_new [where M = "heap_mark ?v"]) (simp_all add: class_ok_def sample_desc_wf page_frame_def)
  then have c0: "class_ok ((sample_desc 0)\<lparr>free_list := sample_blocks\<rparr>) ?ars (heap_mark ?v) 0 sample_blocks {}"
    by (subst class_ok_desc_cong [of _ "sample_desc 0"]) simp_all
  have ci: "class_ok (sample_desc i) ?ars (heap_mark ?v) i [] {}" for i by (simp add: class_ok_def sample_desc_wf)
  have fl: "free_list (sample_desc i) = []" for i by (simp add: sample_desc_def)
  have "vaddr_ok PF_KERNEL sample_heap"
    by (simp add: vaddr_ok_def get_vaddr_def sample_heap_def wf_bitmap_def nbits_def page_frame_def K_HEAP_START_def)
  moreover have "class_ok (get_descs sample_heap ! i) (arenas sample_heap) (heap_mark ?v) i (free_list (get_descs sample_heap ! i)) {}"
    if "i < 7" for i
    using that c0 ci [of i] unfolding g ar by (cases i) (simp_all add: fl del: upt_Suc upt_rec_numeral)
  ultimately show ?thesis
    by (simp add: heap_ok_def g f v DESC_CNT_def nbits_def)
qed

lemma sys_malloc_fresh_block_witness:
  "\<exists>s' b i. sys_malloc 10 sample_heap = Some (s', b) \<and> b \<noteq> 0 \<and> i < DESC_CNT \<and> heap_ok s' ((\<lambda>_. {})(i := {b}))"
proof -
  have "map_option snd (sys_malloc 10 sample_heap) = Some 0xc010000c" by code_simp
  then obtain s' where s': "sys_malloc 10 sample_heap = Some (s', 0xc010000c)" by auto
  then show ?thesis using sys_malloc_fresh_block [OF sample_heap_ok _ _ s'] by auto
qed

text \<open>The same heap with two blocks in use.\<close>

definition sample_heap_used :: kernel where
  "sample_heap_used = sample_heap\<lparr>
     k_block_descs := (k_block_descs sample_heap)[0 := (sample_desc 0)\<lparr>free_list := [0xc010002c]\<rparr>],
     arenas := (arenas sample_heap)(0xc0100000 := \<lparr>desc = Some 0, arena_cnt = 1, large = False\<rparr>)\<rparr>"

lemma sample_heap_used_ok: "heap_ok sample_heap_used ((\<lambda>_. {})(0 := {0xc010001c, 0xc010000c}))"
proof -
  have bl: "sample_blocks = [0xc010000c, 0xc010001c, 0xc010002c]" by code_simp
  have f: "heap_flags sample_heap = PF_KERNEL" "heap_flags sample_heap_used = PF_KERNEL"
    by (simp_all add: heap_flags_def sample_heap_used_def sample_heap_def sample_mapped_def sample_kernel_def cur_task_def sample_task_def)
  have g: "get_descs sample_heap = (map sample_desc [0..<7])[0 := (sample_desc 0)\<lparr>free_list := sample_blocks\<rparr>]"
    "get_descs sample_heap_used = (get_descs sample_heap)[0 := (sample_desc 0)\<lparr>free_list := [0xc010002c]\<rparr>]"
    unfolding get_descs_def f by (simp_all add: sample_heap_def sample_heap_used_def)
  have v: "heap_va sample_heap_used = heap_va sample_heap" "vaddr_ok PF_KERNEL sample_heap_used = vaddr_ok PF_KERNEL sample_heap"
    unfolding heap_va_def f by (simp_all add: get_vaddr_def sample_heap_used_def vaddr_ok_def)
  have g0: "get_descs sample_heap ! 0 = (sample_desc 0)\<lparr>free_list := sample_blocks\<rparr>" by (simp add: g)
  have A: "arenas sample_heap 0xc0100000 = \<lparr>desc = Some 0, arena_cnt = 3, large = False\<rparr>" by (simp add: sample_heap_def sample_desc_def)
  have b: "block2arena 0xc010000c = 0xc0100000" "block2arena 0xc010001c = 0xc0100000" by (simp_all add: block2arena_def)
  have "class_ok (get_descs sample_heap ! 0) (arenas sample_heap) (heap_mark (heap_va sample_heap)) 0 [0xc010000c, 0xc010001c, 0xc010002c] {}"
    using heap_okD(1) [OF sample_heap_ok, of 0] by (simp add: g0 bl DESC_CNT_def)
  from class_pop [OF class_pop [OF this]]
  have c: "class_ok (get_descs sample_heap ! 0) (arenas sample_heap_used) (heap_mark (heap_va sample_heap_used)) 0 [0xc010002c] {0xc010001c, 0xc010000c}"
    by (simp add: b A v(1)) (simp add: sample_heap_used_def)
  show ?thesis
  proof (rule heap_ok_upd [OF sample_heap_ok _ _ _ _ _ c])
    show "get_descs sample_heap_used = (get_descs sample_heap)[0 := (get_descs sample_heap ! 0)\<lparr>free_list := [0xc010002c]\<rparr>]"
      unfolding g(2) g0 by simp
    show "heap_flags sample_heap_used = heap_flags sample_heap" by (simp add: f)
    show "vaddr_ok (heap_flags sample_heap_used) sample_heap_used" "nbits (vaddr_bitmap (heap_va sample_heap_used)) < 2 ^ 20 - 1"
      using sample_heap_ok by (simp_all add: heap_ok_def v f)
  next
    fix j x assume "j < DESC_CNT" "j \<noteq> 0" "x \<in> set (free_list (get_descs sample_heap ! j)) \<union> {}"
    then show "arenas sample_heap_used (block2arena x) = arenas sample_heap (block2arena x) \<and>
      (heap_mark (heap_va sample_heap) (block2arena x) \<longrightarrow> heap_mark (heap_va sample_heap_used) (block2arena x))"
      by (simp add: g DESC_CNT_def sample_desc_def del: upt_Suc upt_rec_numeral)
  qed (simp add: DESC_CNT_def)
qed

lemma sys_free_releases_block_witness:
  "\<exists>s'. sys_free 0xc010001c sample_heap_used = Some s' \<and> heap_ok s' ((\<lambda>_. {})(0 := {0xc010000c}))"
proof -
  have "map_option (\<lambda>_. ()) (sys_free 0xc010001c sample_heap_used) = Some ()" by code_simp
  then obtain s' where s': "sys_free 0xc010001c sample_heap_used = Some s'" by auto
  have "{0xc010001c, 0xc010000c} - {0xc010001c} = {0xc010000c :: u32}" by auto
  then show ?thesis
    using sys_free_releases_block [OF sample_heap_used_ok _ _ s', of 0] s' by (simp add: DESC_CNT_def)
qed

end
