(* ===== verification/Thread.thy ===== *)
theory Thread
  imports Heap
begin

text \<open>
  The life of threads and processes: the pid pool, creation and exit in \<^verbatim>\<open>thread/thread.c\<close>, processes in
  \<^verbatim>\<open>userprog/process.c\<close> and \<open>sys_wait\<close> in \<^verbatim>\<open>userprog/wait_exit.c\<close>.

  A PCB is the entry of \<open>tasks\<close> at its page address.  \<open>thread_create\<close> and \<open>start_process\<close> also fill in a
  frame on the thread's kernel stack; they return its address and contents.
\<close>

section \<open>Process ids\<close>

text \<open>The conversions to \<open>pid_t\<close> and \<open>int8_t\<close>.\<close>

definition int16 :: "int \<Rightarrow> int" where
  "int16 x = sint (word_of_int x :: u16)"

definition int8 :: "int \<Rightarrow> int" where
  "int8 x = sint (word_of_int x :: u8)"

definition pid_pool_init :: "kernel \<Rightarrow> kernel option" where
  "pid_pool_init s = do {
     bm \<leftarrow> bitmap_init \<lparr>btmp_bytes_len = 128, bits = replicate 128 0\<rparr>;
     let s = s\<lparr>pid_start := 1, pid_bitmap := bm\<rparr>;
     Some (upd_lock PidLock lock_init s)
   }"

definition allocate_pid :: "kernel \<Rightarrow> (kernel \<times> int) option" where
  "allocate_pid s = do {
     s \<leftarrow> lock_take PidLock s;
     bit_idx \<leftarrow> bitmap_scan (pid_bitmap s) 1;
     ASSERT (bit_idx \<ge> 0);
     bm \<leftarrow> bitmap_set (pid_bitmap s) (nat bit_idx) 1;
     let s = s\<lparr>pid_bitmap := bm\<rparr>;
     s \<leftarrow> lock_release PidLock s;
     Some (s, int16 (bit_idx + pid_start s))
   }"

definition release_pid :: "int \<Rightarrow> kernel \<Rightarrow> kernel option" where
  "release_pid p s = do {
     s \<leftarrow> lock_take PidLock s;
     let bit_idx = p - pid_start s;
     ASSERT (bit_idx \<ge> 0);
     bm \<leftarrow> bitmap_set (pid_bitmap s) (nat bit_idx) 0;
     let s = s\<lparr>pid_bitmap := bm\<rparr>;
     lock_release PidLock s
   }"

definition fork_pid :: "kernel \<Rightarrow> (kernel \<times> int) option" where
  "fork_pid s = allocate_pid s"

definition pid_check :: "kernel \<Rightarrow> u32 \<Rightarrow> int \<Rightarrow> bool" where
  "pid_check s pelem p \<longleftrightarrow> pid (tasks s pelem) = p"

text \<open>\<open>list_traversal\<close> over \<open>thread_all_list\<close>: the first entry that satisfies the callback, or \<open>NULL\<close>.\<close>

definition traverse_all :: "kernel \<Rightarrow> (u32 \<Rightarrow> int \<Rightarrow> bool) \<Rightarrow> int \<Rightarrow> u32" where
  "traverse_all s func arg =
     (case List.find (\<lambda>t. func t arg) (thread_all_list s) of None \<Rightarrow> 0 | Some t \<Rightarrow> t)"

definition pid2thread :: "int \<Rightarrow> kernel \<Rightarrow> u32" where
  "pid2thread p s = traverse_all s (pid_check s) p"


section \<open>Creating threads\<close>

datatype entry_point = Kernel_thread

record thread_stack =
  ts_ebp :: u32
  ts_ebx :: u32
  ts_edi :: u32
  ts_esi :: u32
  ts_eip :: entry_point
  ts_function :: u32
  ts_func_arg :: u32

text \<open>
  \<open>self_kstack\<close> is a \<open>uint32_t *\<close>, so subtracting \<open>sizeof (struct intr_stack) = 76\<close> and
  \<open>sizeof (struct thread_stack) = 32\<close> moves it by four times as many bytes.
\<close>

definition INTR_STACK_SIZE :: u32 where "INTR_STACK_SIZE = 76"
definition THREAD_STACK_SIZE :: u32 where "THREAD_STACK_SIZE = 32"

definition thread_create ::
    "u32 \<Rightarrow> u32 \<Rightarrow> u32 \<Rightarrow> thread_stack \<Rightarrow> kernel \<Rightarrow> kernel \<times> u32 \<times> thread_stack" where
  "thread_create pthread function func_arg frame s =
     (let s = upd_task pthread (\<lambda>p. p\<lparr>self_kstack := self_kstack p - INTR_STACK_SIZE * 4\<rparr>) s;
          s = upd_task pthread (\<lambda>p. p\<lparr>self_kstack := self_kstack p - THREAD_STACK_SIZE * 4\<rparr>) s;
          kthread_stack = frame\<lparr>ts_eip := Kernel_thread, ts_func_arg := func_arg, ts_function := function,
            ts_ebp := 0, ts_edi := 0, ts_esi := 0\<rparr>
      in (s, self_kstack (tasks s pthread), kthread_stack))"

definition blank_task :: task_struct where
  "blank_task = \<lparr>self_kstack = 0, pid = 0, status = TASK_RUNNING, name = replicate 16 0, priority = 0, ticks = 0,
     elapsed_ticks = 0, fd_table = replicate MAX_FILES_OPEN_PER_PROC 0, pgdir = 0,
     userprog_vaddr = \<lparr>vaddr_bitmap = \<lparr>btmp_bytes_len = 0, bits = []\<rparr>, bits_ptr = 0, vaddr_start = 0\<rparr>, u_block_desc = [],
     cwd_inode_nr = 0, parent_pid = 0, exit_status = 0, stack_magic = 0\<rparr>"

text \<open>
  \<open>init_thread\<close>: \<open>blank_task\<close> is the PCB after \<open>memset (pthread, 0, sizeof (*pthread))\<close>; \<open>strcpy\<close> into
  the 16 bytes of \<open>name\<close> (it copies no terminator).
\<close>

definition init_thread :: "u32 \<Rightarrow> u8 list \<Rightarrow> u8 \<Rightarrow> kernel \<Rightarrow> kernel option" where
  "init_thread pthread nm prio s = do {
     let s = upd_task pthread (\<lambda>_. blank_task) s;
     (s, p) \<leftarrow> allocate_pid s;
     let s = upd_task pthread (\<lambda>t. t\<lparr>pid := p\<rparr>) s;
     ASSERT (length nm \<le> 16);
     let s = upd_task pthread (\<lambda>t. t\<lparr>name := nm @ drop (length nm) (name t)\<rparr>) s;
     let s = upd_task pthread (\<lambda>t. t\<lparr>status := if pthread = main_thread s then TASK_RUNNING else TASK_READY\<rparr>) s;
     Some (upd_task pthread (\<lambda>t. t\<lparr>self_kstack := pthread + PG_SIZE, priority := prio, ticks := prio,
       elapsed_ticks := 0, pgdir := 0,
       fd_table := [0, 1, 2] @ replicate (MAX_FILES_OPEN_PER_PROC - 3) (-1),
       cwd_inode_nr := 0, parent_pid := -1, stack_magic := STACK_MAGIC\<rparr>) s)
   }"

text \<open>The two appends that end \<open>thread_start\<close> and \<open>process_execute\<close>.\<close>

definition enqueue_thread :: "u32 \<Rightarrow> kernel \<Rightarrow> kernel option" where
  "enqueue_thread thread s = do {
     ASSERT (thread \<notin> set (thread_ready_list s));
     let s = s\<lparr>thread_ready_list := thread_ready_list s @ [thread]\<rparr>;
     ASSERT (thread \<notin> set (thread_all_list s));
     Some (s\<lparr>thread_all_list := thread_all_list s @ [thread]\<rparr>)
   }"

definition thread_start :: "u8 list \<Rightarrow> u8 \<Rightarrow> u32 \<Rightarrow> u32 \<Rightarrow> thread_stack \<Rightarrow> kernel \<Rightarrow> (kernel \<times> u32) option" where
  "thread_start nm prio function func_arg frame s = do {
     (s, thread) \<leftarrow> get_kernel_pages 1 s;
     s \<leftarrow> init_thread thread nm prio s;
     let (s, sp, kstack) = thread_create thread function func_arg frame s;
     s \<leftarrow> enqueue_thread thread s;
     Some (s, thread)
   }"

definition make_main_thread :: "kernel \<Rightarrow> kernel option" where
  "make_main_thread s = do {
     let s = s\<lparr>main_thread := running_thread s\<rparr>;
     s \<leftarrow> init_thread (main_thread s) [109, 97, 105, 110] 31 s;
     ASSERT (main_thread s \<notin> set (thread_all_list s));
     Some (s\<lparr>thread_all_list := thread_all_list s @ [main_thread s]\<rparr>)
   }"

definition pcb_fd_install :: "int \<Rightarrow> kernel \<Rightarrow> kernel \<times> int" where
  "pcb_fd_install fd_idx s =
     (let cur_thread = running_thread s
      in case List.find (\<lambda>idx. fd_table (tasks s cur_thread) ! idx = -1) [3..<MAX_FILES_OPEN_PER_PROC] of
           None \<Rightarrow> (s, -1)
         | Some idx \<Rightarrow> (upd_task cur_thread (\<lambda>p. p\<lparr>fd_table := (fd_table p)[idx := fd_idx]\<rparr>) s, int idx))"

text \<open>
  \<open>thread_exit\<close>.  \<open>list_remove\<close> on a tag that is in no list would follow stale pointers, hence the
  check of \<open>thread_all_list\<close>.  With \<open>need_schedule\<close> the code does not come back from \<open>schedule\<close>.
\<close>

definition thread_exit :: "u32 \<Rightarrow> bool \<Rightarrow> kernel \<Rightarrow> kernel option" where
  "thread_exit thread_over need_schedule s = do {
     let (s, _) = intr_disable s;
     let s = upd_task thread_over (\<lambda>p. p\<lparr>status := TASK_DIED\<rparr>) s;
     let s = (if thread_over \<in> set (thread_ready_list s)
              then s\<lparr>thread_ready_list := remove1 thread_over (thread_ready_list s)\<rparr> else s);
     s \<leftarrow> (if pgdir (tasks s thread_over) \<noteq> 0 then mfree_page PF_KERNEL (pgdir (tasks s thread_over)) 1 s else Some s);
     ASSERT (thread_over \<in> set (thread_all_list s));
     let s = s\<lparr>thread_all_list := remove1 thread_over (thread_all_list s)\<rparr>;
     s \<leftarrow> (if thread_over \<noteq> main_thread s then mfree_page PF_KERNEL thread_over 1 s else Some s);
     s \<leftarrow> release_pid (pid (tasks s thread_over)) s;
     if need_schedule then schedule s else Some s
   }"


section \<open>Processes\<close>

definition USER_VADDR_START :: u32 where "USER_VADDR_START = 0x8048000"
definition USER_STACK3_VADDR :: u32 where "USER_STACK3_VADDR = 0xc0000000 - 0x1000"
definition default_prio :: u8 where "default_prio = 20"

text \<open>\<open>memcpy\<close> of \<open>n\<close> words through the page tables.\<close>

fun copy_words :: "u32 \<Rightarrow> u32 \<Rightarrow> nat \<Rightarrow> kernel \<Rightarrow> kernel option" where
  "copy_words dst src 0 s = Some s"
| "copy_words dst src (Suc n) s = do {
     w \<leftarrow> load s src;
     s \<leftarrow> store s dst w;
     copy_words (dst + 4) (src + 4) n s
   }"

definition create_page_dir :: "kernel \<Rightarrow> (kernel \<times> u32) option" where
  "create_page_dir s = do {
     (s, page_dir_vaddr) \<leftarrow> get_kernel_pages 1 s;
     if page_dir_vaddr = 0 then Some (s, 0)
     else do {
       s \<leftarrow> copy_words (page_dir_vaddr + 0x300 * 4) (0xfffff000 + 0x300 * 4) 256 s;
       new_page_dir_phy_addr \<leftarrow> addr_v2p s page_dir_vaddr;
       s \<leftarrow> store s (page_dir_vaddr + 1023 * 4) (new_page_dir_phy_addr OR PG_US_U OR PG_RW_W OR PG_P_1);
       Some (s, page_dir_vaddr)
     }
   }"

definition USER_BITMAP_BYTES :: nat where
  "USER_BITMAP_BYTES = unat ((0xc0000000 - USER_VADDR_START) div PG_SIZE div 8)"

text \<open>
  \<open>create_user_vaddr_bitmap\<close>: the pages for the bitmap come zeroed from \<open>get_kernel_pages\<close>; the bitmap
  ends inside of its last page.  Without memory for it the code clears the bitmap at address \<open>NULL\<close>.
\<close>

definition create_user_vaddr_bitmap :: "u32 \<Rightarrow> kernel \<Rightarrow> kernel option" where
  "create_user_vaddr_bitmap user_prog s = do {
     let bitmap_pg_cnt = DIV_ROUND_UP USER_BITMAP_BYTES (unat PG_SIZE);
     (s, bits_vaddr) \<leftarrow> get_kernel_pages bitmap_pg_cnt s;
     ASSERT (bits_vaddr \<noteq> 0);
     bm \<leftarrow> bitmap_init \<lparr>btmp_bytes_len = USER_BITMAP_BYTES, bits = replicate (bitmap_pg_cnt * unat PG_SIZE) 0\<rparr>;
     Some (upd_task user_prog (\<lambda>p. p\<lparr>userprog_vaddr := \<lparr>vaddr_bitmap = bm, bits_ptr = bits_vaddr, vaddr_start = USER_VADDR_START\<rparr>\<rparr>) s)
   }"

definition process_execute :: "u32 \<Rightarrow> u32 \<Rightarrow> u8 list \<Rightarrow> thread_stack \<Rightarrow> kernel \<Rightarrow> kernel option" where
  "process_execute start_process filename nm frame s = do {
     (s, thread) \<leftarrow> get_kernel_pages 1 s;
     s \<leftarrow> init_thread thread nm default_prio s;
     s \<leftarrow> create_user_vaddr_bitmap thread s;
     let (s, sp, kstack) = thread_create thread start_process filename frame s;
     (s, dir) \<leftarrow> create_page_dir s;
     let s = upd_task thread (\<lambda>p. p\<lparr>pgdir := dir\<rparr>) s;
     ds \<leftarrow> block_desc_init (replicate DESC_CNT \<lparr>block_size = 0, block_per_arena = 0, free_list = []\<rparr>);
     let s = upd_task thread (\<lambda>p. p\<lparr>u_block_desc := ds\<rparr>) s;
     let (s, old_status) = intr_disable s;
     s \<leftarrow> enqueue_thread thread s;
     Some (fst (intr_set_status s old_status))
   }"

text \<open>The interrupt frame with which a process enters user mode.\<close>

definition SELECTOR_U_CODE :: u32 where "SELECTOR_U_CODE = (5 * 8) + 3"
definition SELECTOR_U_DATA :: u32 where "SELECTOR_U_DATA = (6 * 8) + 3"
definition EFLAGS_MBS :: u32 where "EFLAGS_MBS = 2"

record intr_stack =
  is_general :: "u32 list"
  is_gs :: u32
  is_fs :: u32
  is_es :: u32
  is_ds :: u32
  is_eip :: u32
  is_cs :: u32
  is_eflags :: u32
  is_esp :: u32
  is_ss :: u32

definition start_process :: "u32 \<Rightarrow> kernel \<Rightarrow> (kernel \<times> u32 \<times> intr_stack) option" where
  "start_process function s = do {
     let cur = running_thread s;
     let s = upd_task cur (\<lambda>p. p\<lparr>self_kstack := self_kstack p + THREAD_STACK_SIZE * 4\<rparr>) s;
     let proc_stack = self_kstack (tasks s cur);
     (s, page) \<leftarrow> get_a_page PF_USER USER_STACK3_VADDR s;
     Some (s, proc_stack, \<lparr>is_general = replicate 8 0, is_gs = 0, is_fs = SELECTOR_U_DATA,
       is_es = SELECTOR_U_DATA, is_ds = SELECTOR_U_DATA, is_eip = function, is_cs = SELECTOR_U_CODE,
       is_eflags = 0 OR EFLAGS_MBS OR EFLAGS_IF, is_esp = page + PG_SIZE, is_ss = SELECTOR_U_DATA\<rparr>)
   }"


section \<open>Waiting for children\<close>

definition find_child :: "kernel \<Rightarrow> u32 \<Rightarrow> int \<Rightarrow> bool" where
  "find_child s pelem ppid \<longleftrightarrow> parent_pid (tasks s pelem) = ppid"

definition find_hanging_child :: "kernel \<Rightarrow> u32 \<Rightarrow> int \<Rightarrow> bool" where
  "find_hanging_child s pelem ppid \<longleftrightarrow> parent_pid (tasks s pelem) = ppid \<and> status (tasks s pelem) = TASK_HANGING"

definition init_adopt_a_child :: "kernel \<Rightarrow> u32 \<Rightarrow> int \<Rightarrow> kernel \<times> bool" where
  "init_adopt_a_child s pelem p =
     (if parent_pid (tasks s pelem) = p then (upd_task pelem (\<lambda>t. t\<lparr>parent_pid := 1\<rparr>) s, True) else (s, False))"

text \<open>\<open>list_traversal\<close> with the callback \<open>init_adopt_a_child\<close>, as \<open>sys_exit\<close> calls it.\<close>

fun adopt_traversal :: "u32 list \<Rightarrow> int \<Rightarrow> kernel \<Rightarrow> kernel" where
  "adopt_traversal [] p s = s"
| "adopt_traversal (t # ts) p s =
     (let (s, stop) = init_adopt_a_child s t p in if stop then s else adopt_traversal ts p s)"

text \<open>One round of the loop of \<open>sys_wait\<close>: a child is collected, there is none, or the caller sleeps.\<close>

datatype wait_result =
    Collected kernel int int
  | No_child kernel
  | Waiting kernel intr_status

definition sys_wait :: "kernel \<Rightarrow> wait_result option" where
  "sys_wait s = do {
     let parent_thread = running_thread s;
     let child_elem = traverse_all s (find_hanging_child s) (pid (tasks s parent_thread));
     if child_elem \<noteq> 0 then do {
       let st = exit_status (tasks s child_elem);
       let child_pid = pid (tasks s child_elem);
       s \<leftarrow> thread_exit child_elem False s;
       Some (Collected s st child_pid)
     } else do {
       let child_elem = traverse_all s (find_child s) (pid (tasks s parent_thread));
       if child_elem = 0 then Some (No_child s)
       else do {
         (s, old_status) \<leftarrow> thread_block TASK_WAITING s;
         Some (Waiting s old_status)
       }
     }
   }"



section \<open>Process ids are unique\<close>

definition pid_ok :: "kernel \<Rightarrow> bool" where
  "pid_ok s \<longleftrightarrow> wf_bitmap (pid_bitmap s) \<and> nbits (pid_bitmap s) \<le> 1024 \<and> pid_start s = 1 \<and>
     lock_free s PidLock \<and> running s \<noteq> 0"

definition pid_of :: "nat \<Rightarrow> int" where
  "pid_of n = int n + 1"

definition all_pids :: "kernel \<Rightarrow> int set" where
  "all_pids s = pid_of ` {..<nbits (pid_bitmap s)}"

definition taken_pids :: "kernel \<Rightarrow> int set" where
  "taken_pids s = pid_of ` used (pid_bitmap s)"

lemma inj_pid_of: "inj pid_of"
  by (rule injI) (simp add: pid_of_def)

lemma int16_small: "0 \<le> x \<Longrightarrow> x < 32768 \<Longrightarrow> int16 x = x"
  by (simp add: int16_def sint_uint signed_take_bit_int_eq_self take_bit_int_eq_self unsigned_of_int) 

lemma lock_take_held: "lock_free s l \<Longrightarrow> running s \<noteq> 0 \<Longrightarrow> lock_take l s = Some (held s l 1)"
  by (subst lock_take_free) (simp_all add: lock_free_def held_def)

lemma lock_release_pid:
  assumes "lock_free s PidLock"
  shows "lock_release PidLock ((held s PidLock 1)\<lparr>pid_bitmap := bm\<rparr>) = Some (s\<lparr>pid_bitmap := bm\<rparr>)"
  using assms by (subst lock_release_last) (simp_all add: held_def lock_free_def upd_lock_def lock_same)

lemma held_pid [simp]: "pid_bitmap (held s l n) = pid_bitmap s" "pid_start (held s l n) = pid_start s"
  by (simp_all add: held_def upd_lock_def)

lemma pid_ok_upd: "pid_ok s \<Longrightarrow> wf_bitmap bm \<Longrightarrow> nbits bm = nbits (pid_bitmap s) \<Longrightarrow> pid_ok (s\<lparr>pid_bitmap := bm\<rparr>)"
  by (simp add: pid_ok_def lock_free_def)

lemma allocate_pid_ok:
  assumes ok: "pid_ok s" and nf: "taken_pids s \<noteq> all_pids s"
  shows "\<exists>s' a. allocate_pid s = Some (s', a) \<and> a \<in> all_pids s - taken_pids s \<and>
    taken_pids s' = insert a (taken_pids s) \<and> all_pids s' = all_pids s \<and> pid_ok s'"
proof -
  have lf: "lock_free s PidLock" "running s \<noteq> 0" "pid_start s = 1" using ok by (simp_all add: pid_ok_def)
  have "used (pid_bitmap s) \<noteq> {..<nbits (pid_bitmap s)}" using nf by (auto simp: taken_pids_def all_pids_def)
  then obtain n bm where n: "bitmap_scan (pid_bitmap s) 1 = Some (int n)" "bitmap_set (pid_bitmap s) n 1 = Some bm"
    "n < nbits (pid_bitmap s)" "n \<notin> used (pid_bitmap s)" "used bm = insert n (used (pid_bitmap s))" "wf_bitmap bm"
    "nbits bm = nbits (pid_bitmap s)"
    using bitmap_take_one [of "pid_bitmap s"] ok by (auto simp: pid_ok_def)
  have "int16 (int n + 1) = pid_of n" using n(3) ok by (simp add: pid_of_def int16_small pid_ok_def)
  then have "allocate_pid s = Some (s\<lparr>pid_bitmap := bm\<rparr>, pid_of n)"
    using n lf by (simp add: allocate_pid_def lock_take_held lock_release_pid)
  then show ?thesis
    using n pid_ok_upd [OF ok n(6,7)] inj_image_mem_iff [OF inj_pid_of]
    by (auto simp: taken_pids_def all_pids_def)
qed

lemma release_pid_ok:
  assumes ok: "pid_ok s" and a: "a \<in> taken_pids s"
  shows "\<exists>s'. release_pid a s = Some s' \<and> taken_pids s' = taken_pids s - {a} \<and> all_pids s' = all_pids s \<and> pid_ok s'"
proof -
  have lf: "lock_free s PidLock" "running s \<noteq> 0" "pid_start s = 1" using ok by (simp_all add: pid_ok_def)
  obtain n where n: "a = pid_of n" "n \<in> used (pid_bitmap s)" using a by (auto simp: taken_pids_def)
  obtain bm where bm: "bitmap_set (pid_bitmap s) n 0 = Some bm" "used bm = used (pid_bitmap s) - {n}" "wf_bitmap bm"
    "nbits bm = nbits (pid_bitmap s)" using bitmap_clear_one [OF _ n(2)] ok by (auto simp: pid_ok_def)
  have "release_pid a s = Some (s\<lparr>pid_bitmap := bm\<rparr>)"
    using bm(1) lf by (simp add: release_pid_def lock_take_held lock_release_pid n(1) pid_of_def)
  then show ?thesis
    using bm pid_ok_upd [OF ok bm(3,4)] image_set_diff [OF inj_pid_of, of "used (pid_bitmap s)" "{n}"]
    by (simp add: taken_pids_def all_pids_def n(1))
qed

interpretation pids: slot_pool allocate_pid release_pid taken_pids all_pids pid_ok
proof
  fix s a assume ok: "pid_ok s"
  show "finite (all_pids s)" by (simp add: all_pids_def)
  show "taken_pids s \<subseteq> all_pids s" using used_subset by (auto simp: taken_pids_def all_pids_def)
  show "a \<in> taken_pids s \<Longrightarrow> \<exists>s'. release_pid a s = Some s' \<and> taken_pids s' = taken_pids s - {a} \<and>
    all_pids s' = all_pids s \<and> pid_ok s'" by (rule release_pid_ok [OF ok])
  show "taken_pids s \<noteq> all_pids s \<Longrightarrow> \<exists>s' a. allocate_pid s = Some (s', a) \<and> a \<in> all_pids s - taken_pids s \<and>
    taken_pids s' = insert a (taken_pids s) \<and> all_pids s' = all_pids s \<and> pid_ok s'" by (rule allocate_pid_ok [OF ok])
  assume "taken_pids s = all_pids s"
  then have "used (pid_bitmap s) = {..<nbits (pid_bitmap s)}"
    using inj_image_eq_iff [OF inj_pid_of] by (simp add: taken_pids_def all_pids_def)
  moreover have "lock_free s PidLock" "running s \<noteq> 0" using ok by (simp_all add: pid_ok_def)
  ultimately show "allocate_pid s = None" by (simp add: allocate_pid_def lock_take_held bitmap_scan_full)
qed




section \<open>New threads are scheduled\<close>

text \<open>Memory management for the kernel leaves threads and queues alone.\<close>

definition same_threads :: "kernel \<Rightarrow> kernel \<Rightarrow> bool" where
  "same_threads s s' \<longleftrightarrow> tasks s' = tasks s \<and> running s' = running s \<and> thread_ready_list s' = thread_ready_list s \<and>
     thread_all_list s' = thread_all_list s \<and> idle_thread s' = idle_thread s \<and> main_thread s' = main_thread s \<and> locks s' = locks s"

lemma same_threads_trans: "same_threads s t \<Longrightarrow> same_threads t u \<Longrightarrow> same_threads s u"
  by (simp add: same_threads_def)

lemma same_threads_refl [simp]: "same_threads s s"
  by (simp add: same_threads_def)

lemma same_threads_store: "store s v w = Some s' \<Longrightarrow> same_threads s s'"
  by (auto simp: store_def bind_Some_iff same_threads_def)

lemma same_threads_clear_page: "clear_page s v = Some s' \<Longrightarrow> same_threads s s'"
  by (auto simp: clear_page_def bind_Some_iff same_threads_def)

lemma same_threads_clear_pages: "clear_pages v n s = Some s' \<Longrightarrow> same_threads s s'"
  by (induction n arbitrary: v s) (auto simp: bind_Some_iff dest: same_threads_clear_page intro: same_threads_trans)

lemma same_threads_set_pool: "same_threads s (set_pool pf p s)"
  by (cases pf) (simp_all add: same_threads_def set_pool_def)

lemma same_threads_page_table_add:
  assumes "page_table_add s v p = Some s'"
  shows "same_threads s s'"
proof -
  obtain pde where "load s (pde_ptr v) = Some pde" using assms by (auto simp: page_table_add_def bind_Some_iff Let_def)
  then consider "store s (pte_ptr v) (p OR PG_US_U OR PG_RW_W OR PG_P_1) = Some s'"
    | kp f s1 s2 where "store (s\<lparr>kernel_pool := kp\<rparr>) (pde_ptr v) (f OR PG_US_U OR PG_RW_W OR PG_P_1) = Some s1"
      "clear_page s1 (pte_ptr v AND 0xfffff000) = Some s2" "store s2 (pte_ptr v) (p OR PG_US_U OR PG_RW_W OR PG_P_1) = Some s'"
    using assms by (auto simp: page_table_add_def bind_Some_iff Let_def split: if_splits)
  then show ?thesis
  proof cases
    case 2
    have "same_threads s (s\<lparr>kernel_pool := kp\<rparr>)" by (simp add: same_threads_def)
    then show ?thesis using 2 by (meson same_threads_store same_threads_clear_page same_threads_trans)
  qed (rule same_threads_store)
qed

lemma same_threads_malloc_page_loop: "malloc_page_loop pf v n s = Some (s', r) \<Longrightarrow> same_threads s s'"
proof (induction n arbitrary: v s)
  case (Suc n)
  then obtain p a where "palloc (get_pool pf s) = Some (p, a)" by (auto simp: bind_Some_iff)
  then show ?case
    using Suc same_threads_set_pool [of s pf p]
    by (auto simp: bind_Some_iff Let_def split: if_splits) (meson same_threads_page_table_add same_threads_trans)
qed simp

lemma same_threads_get_kernel_pages:
  assumes "get_kernel_pages n s = Some (s', v)"
  shows "same_threads s s'"
proof -
  obtain s1 where s1: "malloc_page PF_KERNEL n s = Some (s1, v)" "same_threads s1 s'"
    using assms by (auto simp: get_kernel_pages_def bind_Some_iff split: if_splits dest: same_threads_clear_pages)
  obtain s2 a where s2: "vaddr_get PF_KERNEL n s = Some (s2, a)"
    using s1(1) by (auto simp: malloc_page_def bind_Some_iff split: if_splits)
  have "same_threads s s2"
    using s2 by (auto simp: vaddr_get_def bind_Some_iff Let_def set_vaddr_bitmap_def same_threads_def split: if_splits)
  moreover have "same_threads s2 s1"
    using s1(1) s2 by (auto simp: malloc_page_def bind_Some_iff split: if_splits dest: same_threads_malloc_page_loop)
  ultimately show ?thesis using s1(2) by (meson same_threads_trans)
qed

text \<open>
  \<open>allocate_pid\<close> may run the \<open>sema_up\<close> of its lock; when nobody waits for the lock it leaves threads alone.
\<close>

lemma same_threads_allocate_pid:
  assumes "lock_free s PidLock" "running s \<noteq> 0" "allocate_pid s = Some (s', p)"
  shows "same_threads s s'"
  using assms by (auto simp: allocate_pid_def lock_take_held bind_Some_iff lock_release_pid same_threads_def split: if_splits)

lemma lock_free_cong: "locks s' = locks s \<Longrightarrow> lock_free s' l = lock_free s l"
  by (simp add: lock_free_def)

lemma init_thread_effect:
  assumes r: "init_thread t nm prio s = Some s'" and lf: "lock_free s PidLock" "running s \<noteq> 0"
  shows "\<forall>x. x \<noteq> t \<longrightarrow> tasks s' x = tasks s x" "running s' = running s" "thread_ready_list s' = thread_ready_list s"
    "thread_all_list s' = thread_all_list s" "idle_thread s' = idle_thread s" "main_thread s' = main_thread s"
    "status (tasks s' t) = (if t = main_thread s then TASK_RUNNING else TASK_READY)"
    "stack_magic (tasks s' t) = STACK_MAGIC" "pgdir (tasks s' t) = 0" "self_kstack (tasks s' t) = t + PG_SIZE"
    "ticks (tasks s' t) = prio" "priority (tasks s' t) = prio"
proof -
  obtain u p where u: "allocate_pid (upd_task t (\<lambda>_. blank_task) s) = Some (u, p)"
    using r by (auto simp: init_thread_def bind_Some_iff Let_def)
  have "same_threads (upd_task t (\<lambda>_. blank_task) s) u"
    using u lf by (intro same_threads_allocate_pid) (simp_all add: lock_free_def)
  then have st: "tasks u = (tasks s)(t := blank_task)" "running u = running s" "thread_ready_list u = thread_ready_list s"
    "thread_all_list u = thread_all_list s" "idle_thread u = idle_thread s" "main_thread u = main_thread s"
    by (auto simp: same_threads_def upd_task_def)
  show "\<forall>x. x \<noteq> t \<longrightarrow> tasks s' x = tasks s x" "running s' = running s" "thread_ready_list s' = thread_ready_list s"
    "thread_all_list s' = thread_all_list s" "idle_thread s' = idle_thread s" "main_thread s' = main_thread s"
    "status (tasks s' t) = (if t = main_thread s then TASK_RUNNING else TASK_READY)"
    "stack_magic (tasks s' t) = STACK_MAGIC" "pgdir (tasks s' t) = 0" "self_kstack (tasks s' t) = t + PG_SIZE"
    "ticks (tasks s' t) = prio" "priority (tasks s' t) = prio"
    using r u st by (auto simp: init_thread_def bind_Some_iff Let_def split: if_splits)
qed

text \<open>
  C22. \<open>thread_start\<close> makes a schedulable thread: the new thread is ready, last in the ready list and
  in the list of all threads, its stack is guarded by the magic number, and the scheduler's
  invariant holds with it.
\<close>

theorem thread_start_ready:
  assumes inv: "sched_inv s" and lf: "lock_free s PidLock" "running s \<noteq> 0"
    and r: "thread_start nm prio function func_arg frame s = Some (s', t)" and m: "t \<noteq> main_thread s"
  shows "sched_inv s' \<and> thread_ready_list s' = thread_ready_list s @ [t] \<and> thread_all_list s' = thread_all_list s @ [t] \<and>
    t \<notin> set (thread_all_list s) \<and> status (tasks s' t) = TASK_READY \<and> stack_magic (tasks s' t) = STACK_MAGIC \<and>
    running s' = running s"
proof -
  obtain s1 s2 where s1: "get_kernel_pages 1 s = Some (s1, t)" and s2: "init_thread t nm prio s1 = Some s2"
    and s3: "enqueue_thread t (fst (thread_create t function func_arg frame s2)) = Some s'"
    using r by (auto simp: thread_start_def bind_Some_iff case_prod_beta Let_def)
  have st: "tasks s1 = tasks s" "running s1 = running s" "thread_ready_list s1 = thread_ready_list s"
    "thread_all_list s1 = thread_all_list s" "idle_thread s1 = idle_thread s" "main_thread s1 = main_thread s"
    using same_threads_get_kernel_pages [OF s1] by (simp_all add: same_threads_def)
  have lf1: "lock_free s1 PidLock" using same_threads_get_kernel_pages [OF s1] lf(1) by (simp add: lock_free_def same_threads_def)
  note it = init_thread_effect [OF s2 lf1 lf(2) [folded st(2)]]
  have q: "t \<notin> set (thread_ready_list s)" "t \<notin> set (thread_all_list s)"
    "thread_ready_list s' = thread_ready_list s @ [t]" "thread_all_list s' = thread_all_list s @ [t]"
    "running s' = running s" "idle_thread s' = idle_thread s" "stack_magic (tasks s' t) = STACK_MAGIC"
    using s3 it st by (auto simp: enqueue_thread_def thread_create_def Let_def split: if_splits)
  have ss: "status (tasks s' x) = (if x = t then TASK_READY else status (tasks s x))" for x
    using s3 it st m by (auto simp: enqueue_thread_def thread_create_def Let_def split: if_splits)
  have "sched_inv s'"
    using inv q unfolding sched_inv_def queues_ok_def ss q by auto
  then show ?thesis using q ss [of t] by auto
qed



section \<open>Parents and children\<close>

text \<open>
  \<open>sys_exit\<close> is meant to hand all children of the exiting process to \<open>init\<close>, but the traversal
  stops at the first one: every later child keeps the parent that is about to disappear.
\<close>

theorem adopt_only_first_child:
  assumes "\<forall>x \<in> set xs. parent_pid (tasks s x) \<noteq> p" and "parent_pid (tasks s t) = p"
  shows "adopt_traversal (xs @ t # ys) p s = upd_task t (\<lambda>k. k\<lparr>parent_pid := 1\<rparr>) s"
  using assms by (induction xs) (auto simp: init_adopt_a_child_def)

lemma lock_take_all_list: "lock_take l s = Some s' \<Longrightarrow> thread_all_list s' = thread_all_list s"
proof -
  assume r: "lock_take l s = Some s'"
  show ?thesis
  proof (cases "holder (locks s l) = running s")
    case True
    then show ?thesis using r by (auto simp: lock_take_again)
  next
    case False
    then obtain q where q: "sema_down l s = Some q"
      using r by (auto simp: lock_take_def lock_acquire_def running_thread_def bind_Some_iff)
    then obtain u where u: "sema_down l s = Some (Acquired u)" "lock_acquire_got l u = Some s'"
      using r False by (cases q) (auto simp: lock_take_def lock_acquire_def running_thread_def bind_Some_iff)
    have "thread_all_list u = thread_all_list s"
      using u(1) by (auto simp: sema_down_def case_prod_beta sema_down_loop_def bind_Some_iff Let_def split: if_splits)
    then show ?thesis using u(2) by (auto simp: lock_acquire_got_def Let_def split: if_splits)
  qed
qed

lemma lock_release_all_list: "lock_release l s = Some s' \<Longrightarrow> thread_all_list s' = thread_all_list s"
  by (auto simp: lock_release_def lock_release_begin_def bind_Some_iff split: if_splits dest: sema_up_effect(7))

lemma release_pid_all_list: "release_pid p s = Some s' \<Longrightarrow> thread_all_list s' = thread_all_list s"
  by (auto simp: release_pid_def bind_Some_iff Let_def split: if_splits dest!: lock_take_all_list lock_release_all_list)

lemma same_threads_mfree_page_loop: "mfree_page_loop u v n s = Some s' \<Longrightarrow> same_threads s s'"
proof (induction n arbitrary: v s)
  case (Suc n)
  then obtain a s1 s2 where "pfree a s = Some s1" "page_table_pte_remove s1 v = Some s2"
    "mfree_page_loop u (v + PG_SIZE) n s2 = Some s'" by (auto simp: bind_Some_iff split: if_splits)
  moreover have "same_threads s s1"
    using calculation(1) by (auto simp: pfree_def bind_Some_iff Let_def same_threads_set_pool)
  moreover have "same_threads s1 s2"
    using calculation(2) by (auto simp: page_table_pte_remove_def bind_Some_iff Let_def dest: same_threads_store)
  ultimately show ?case using Suc.IH by (meson same_threads_trans)
qed simp

lemma mfree_page_threads: "mfree_page PF_KERNEL v n s = Some s' \<Longrightarrow> same_threads s s'"
  by (auto simp: mfree_page_def vaddr_remove_def bind_Some_iff Let_def set_vaddr_bitmap_def same_threads_def split: if_splits
      dest!: same_threads_mfree_page_loop)

lemma thread_exit_all_list:
  assumes "thread_exit t False s = Some s'"
  shows "thread_all_list s' = remove1 t (thread_all_list s)"
  using assms
  by (auto simp: thread_exit_def case_prod_beta Let_def bind_Some_iff same_threads_def split: if_splits
      dest!: mfree_page_threads release_pid_all_list)

lemma find_Some: "List.find P xs = Some x \<Longrightarrow> P x \<and> x \<in> set xs"
  by (metis find_Some_iff nth_mem)



section \<open>Witnesses\<close>

lemma sample_bitmap_used: "used sample_bitmap = {}"
  by (auto simp: used_def sample_bitmap_def nbits_def bit_at_def)


lemma adopt_only_first_child_witness:
  "adopt_traversal [0x9e000, 0x9f000] (-1) sample_kernel = upd_task 0x9e000 (\<lambda>k. k\<lparr>parent_pid := 1\<rparr>) sample_kernel"
  using adopt_only_first_child [of "[]" sample_kernel "-1" "0x9e000" "[0x9f000]"]
  by (simp add: sample_kernel_def sample_task_def)

lemma thread_start_ready_witness:
  "\<exists>s'. thread_start [97] 31 0 0 \<lparr>ts_ebp = 0, ts_ebx = 0, ts_edi = 0, ts_esi = 0, ts_eip = Kernel_thread,
      ts_function = 0, ts_func_arg = 0\<rparr> sample_sched = Some (s', 0xc0100000) \<and> sched_inv s' \<and>
    thread_ready_list s' = [0xa0000, 0xa1000, 0xc0100000]"
proof -
  let ?f = "\<lparr>ts_ebp = 0, ts_ebx = 0, ts_edi = 0, ts_esi = 0, ts_eip = Kernel_thread, ts_function = 0, ts_func_arg = 0\<rparr>"
  have "map_option (\<lambda>(s, v). (v, pid_bitmap s, pid_start s)) (get_kernel_pages 1 sample_sched) = Some (0xc0100000, sample_bitmap, 1)"
    by code_simp
  then obtain s1 where s1: "get_kernel_pages 1 sample_sched = Some (s1, 0xc0100000)" "pid_bitmap s1 = sample_bitmap" "pid_start s1 = 1"
    by auto
  let ?u = "upd_task 0xc0100000 (\<lambda>_. blank_task) s1"
  have st: "thread_ready_list s1 = [0xa0000, 0xa1000]" "thread_all_list s1 = [0x9e000, 0x9f000, 0xa0000, 0xa1000]"
    "lock_free s1 PidLock" "running s1 \<noteq> 0"
    using same_threads_get_kernel_pages [OF s1(1)] by (simp_all add: same_threads_def lock_free_def) (simp_all add: sample_sched_def sample_kernel_def)
  have "pid_ok ?u" using st s1 by (simp add: pid_ok_def lock_free_def sample_bitmap_def wf_bitmap_def nbits_def)
  moreover have "taken_pids ?u = {}" "all_pids ?u \<noteq> {}"
    using s1 sample_bitmap_used by (simp_all add: taken_pids_def all_pids_def sample_bitmap_def nbits_def lessThan_empty_iff)
  ultimately obtain u p where u: "allocate_pid ?u = Some (u, p)" using allocate_pid_ok [of ?u] by auto
  have "same_threads ?u u" using u st by (intro same_threads_allocate_pid) (simp_all add: lock_free_def)
  then obtain s2 where s2: "init_thread 0xc0100000 [97] 31 s1 = Some s2"
    using u by (auto simp: init_thread_def)
  note it = init_thread_effect [OF s2 st(3,4)]
  obtain s' where s': "thread_start [97] 31 0 0 ?f sample_sched = Some (s', 0xc0100000)"
    using s1(1) s2 it st by (auto simp: thread_start_def enqueue_thread_def thread_create_def Let_def)
  have "lock_free sample_sched PidLock" "running sample_sched \<noteq> 0" "0xc0100000 \<noteq> main_thread sample_sched"
    "thread_ready_list sample_sched = [0xa0000, 0xa1000]"
    by (simp_all add: lock_free_def sample_sched_def sample_kernel_def)
  then show ?thesis using thread_start_ready [OF sample_sched_inv(1) _ _ s'] s' by simp
qed


end
