(* ===== verification/Ioqueue.thy ===== *)
theory Ioqueue
  imports Sync
begin

text \<open>
  \<^verbatim>\<open>device/ioqueue.c\<close>: the ring buffer between interrupt handlers, pipes and threads, and the transfer
  loops of \<^verbatim>\<open>shell/pipe.c\<close>.

  \<open>ioq_getchar\<close> and \<open>ioq_putchar\<close> run with interrupts off.  When the queue is empty (full) the caller goes
  to sleep, either inside of \<open>lock_acquire\<close> or as the queue's consumer (producer); the rest of the loop body
  and the next test are \<open>ioq_getchar_resume\<close> and \<open>ioq_putchar_resume\<close>.
\<close>

section \<open>Operations\<close>

definition bufsize :: nat where
  "bufsize = 2048"

record ioqueue =
  ioq_lock :: lock_id
  producer :: u32
  consumer :: u32
  buf :: "u8 list"
  head :: nat
  tail :: nat

definition ioqueue_init :: "ioqueue \<Rightarrow> kernel \<Rightarrow> ioqueue \<times> kernel" where
  "ioqueue_init ioq s =
     (ioq\<lparr>producer := 0, consumer := 0, head := 0, tail := 0\<rparr>, upd_lock (ioq_lock ioq) lock_init s)"

definition next_pos :: "nat \<Rightarrow> nat" where
  "next_pos p = (p + 1) mod bufsize"

definition ioq_full :: "ioqueue \<Rightarrow> kernel \<Rightarrow> bool option" where
  "ioq_full ioq s = do {
     ASSERT (intr_get_status s = INTR_OFF);
     Some (next_pos (head ioq) = tail ioq)
   }"

definition ioq_empty :: "ioqueue \<Rightarrow> kernel \<Rightarrow> bool option" where
  "ioq_empty ioq s = do {
     ASSERT (intr_get_status s = INTR_OFF);
     Some (head ioq = tail ioq)
   }"

text \<open>\<open>wakeup\<close> of the producer or consumer \<open>waiter\<close>; the caller stores the \<open>NULL\<close>.\<close>

definition wakeup :: "u32 \<Rightarrow> kernel \<Rightarrow> kernel option" where
  "wakeup waiter s = do {
     ASSERT (waiter \<noteq> 0);
     thread_unblock waiter s
   }"

text \<open>How a call ends: with a result, asleep on the queue, or asleep on the queue's lock.\<close>

datatype 'a ioq_result =
    Done ioqueue kernel 'a
  | On_queue ioqueue kernel intr_status
  | On_lock ioqueue kernel intr_status intr_status

definition ioq_getchar :: "ioqueue \<Rightarrow> kernel \<Rightarrow> u8 ioq_result option" where
  "ioq_getchar ioq s = do {
     ASSERT (intr_get_status s = INTR_OFF);
     empty \<leftarrow> ioq_empty ioq s;
     if empty then do {
       r \<leftarrow> lock_acquire (ioq_lock ioq) s;
       (case r of
          Sleeping s o1 o2 \<Rightarrow> Some (On_lock ioq s o1 o2)
        | Acquired s \<Rightarrow> do {
            ASSERT (consumer ioq = 0);
            let ioq = ioq\<lparr>consumer := running_thread s\<rparr>;
            (s, old_status) \<leftarrow> thread_block TASK_BLOCKED s;
            Some (On_queue ioq s old_status)
          })
     } else do {
       byte \<leftarrow> rd (buf ioq) (tail ioq);
       let ioq = ioq\<lparr>tail := next_pos (tail ioq)\<rparr>;
       if producer ioq \<noteq> 0 then do {
         s \<leftarrow> wakeup (producer ioq) s;
         Some (Done (ioq\<lparr>producer := 0\<rparr>) s byte)
       } else Some (Done ioq s byte)
     }
   }"

definition ioq_getchar_resume :: "intr_status \<Rightarrow> ioqueue \<Rightarrow> kernel \<Rightarrow> u8 ioq_result option" where
  "ioq_getchar_resume old_status ioq s = do {
     s \<leftarrow> lock_release (ioq_lock ioq) (thread_resume old_status s);
     ioq_getchar ioq s
   }"

definition ioq_putchar :: "ioqueue \<Rightarrow> u8 \<Rightarrow> kernel \<Rightarrow> unit ioq_result option" where
  "ioq_putchar ioq byte s = do {
     ASSERT (intr_get_status s = INTR_OFF);
     full \<leftarrow> ioq_full ioq s;
     if full then do {
       r \<leftarrow> lock_acquire (ioq_lock ioq) s;
       (case r of
          Sleeping s o1 o2 \<Rightarrow> Some (On_lock ioq s o1 o2)
        | Acquired s \<Rightarrow> do {
            ASSERT (producer ioq = 0);
            let ioq = ioq\<lparr>producer := running_thread s\<rparr>;
            (s, old_status) \<leftarrow> thread_block TASK_BLOCKED s;
            Some (On_queue ioq s old_status)
          })
     } else do {
       b \<leftarrow> wr (buf ioq) (head ioq) byte;
       let ioq = ioq\<lparr>buf := b, head := next_pos (head ioq)\<rparr>;
       if consumer ioq \<noteq> 0 then do {
         s \<leftarrow> wakeup (consumer ioq) s;
         Some (Done (ioq\<lparr>consumer := 0\<rparr>) s ())
       } else Some (Done ioq s ())
     }
   }"

definition ioq_putchar_resume :: "u8 \<Rightarrow> intr_status \<Rightarrow> ioqueue \<Rightarrow> kernel \<Rightarrow> unit ioq_result option" where
  "ioq_putchar_resume byte old_status ioq s = do {
     s \<leftarrow> lock_release (ioq_lock ioq) (thread_resume old_status s);
     ioq_putchar ioq byte s
   }"

definition ioq_length :: "ioqueue \<Rightarrow> nat" where
  "ioq_length ioq =
     (if head ioq \<ge> tail ioq then head ioq - tail ioq else bufsize - (tail ioq - head ioq))"

text \<open>The loops of \<open>pipe_read\<close> and \<open>pipe_write\<close> on the queue of the pipe; they stop when a call sleeps.\<close>

fun pipe_read_loop :: "nat \<Rightarrow> u8 list \<Rightarrow> ioqueue \<Rightarrow> kernel \<Rightarrow> u8 list ioq_result option" where
  "pipe_read_loop 0 acc ioq s = Some (Done ioq s acc)"
| "pipe_read_loop (Suc left) acc ioq s = do {
     r \<leftarrow> ioq_getchar ioq s;
     (case r of
        Done ioq s byte \<Rightarrow> pipe_read_loop left (acc @ [byte]) ioq s
      | On_queue ioq s old \<Rightarrow> Some (On_queue ioq s old)
      | On_lock ioq s o1 o2 \<Rightarrow> Some (On_lock ioq s o1 o2))
   }"

definition pipe_read_size :: "ioqueue \<Rightarrow> nat \<Rightarrow> nat" where
  "pipe_read_size ioq count = (let ioq_len = ioq_length ioq in if ioq_len > count then count else ioq_len)"

definition pipe_read :: "nat \<Rightarrow> ioqueue \<Rightarrow> kernel \<Rightarrow> u8 list ioq_result option" where
  "pipe_read count ioq s = pipe_read_loop (pipe_read_size ioq count) [] ioq s"

fun pipe_write_loop :: "u8 list \<Rightarrow> nat \<Rightarrow> ioqueue \<Rightarrow> kernel \<Rightarrow> nat ioq_result option" where
  "pipe_write_loop [] n ioq s = Some (Done ioq s n)"
| "pipe_write_loop (byte # rest) n ioq s = do {
     r \<leftarrow> ioq_putchar ioq byte s;
     (case r of
        Done ioq s _ \<Rightarrow> pipe_write_loop rest (n + 1) ioq s
      | On_queue ioq s old \<Rightarrow> Some (On_queue ioq s old)
      | On_lock ioq s o1 o2 \<Rightarrow> Some (On_lock ioq s o1 o2))
   }"

definition pipe_write_size :: "ioqueue \<Rightarrow> nat \<Rightarrow> nat" where
  "pipe_write_size ioq count = (let ioq_left = bufsize - ioq_length ioq in if ioq_left > count then count else ioq_left)"

definition pipe_write :: "u8 list \<Rightarrow> ioqueue \<Rightarrow> kernel \<Rightarrow> nat ioq_result option" where
  "pipe_write bytes ioq s = pipe_write_loop (take (pipe_write_size ioq (length bytes)) bytes) 0 ioq s"


section \<open>The queue as a list\<close>

definition ioq_ok :: "ioqueue \<Rightarrow> bool" where
  "ioq_ok ioq \<longleftrightarrow> length (buf ioq) = bufsize \<and> head ioq < bufsize \<and> tail ioq < bufsize"

definition contents :: "ioqueue \<Rightarrow> u8 list" where
  "contents ioq = map (\<lambda>i. buf ioq ! ((tail ioq + i) mod bufsize)) [0..<ioq_length ioq]"

lemma next_pos_eq: "p < bufsize \<Longrightarrow> next_pos p = (if p + 1 = bufsize then 0 else p + 1)"
  by (simp add: next_pos_def bufsize_def)

lemma next_pos_less [simp]: "next_pos p < bufsize"
  by (simp add: next_pos_def bufsize_def)

lemma length_contents: "length (contents ioq) = ioq_length ioq"
  by (simp add: contents_def)

lemma ioq_length_less: "ioq_ok ioq \<Longrightarrow> ioq_length ioq < bufsize"
  by (auto simp: ioq_ok_def ioq_length_def)

lemma head_eq: "ioq_ok ioq \<Longrightarrow> head ioq = (tail ioq + ioq_length ioq) mod bufsize"
  by (auto simp: ioq_ok_def ioq_length_def bufsize_def)

lemma full_iff: "ioq_ok ioq \<Longrightarrow> next_pos (head ioq) = tail ioq \<longleftrightarrow> ioq_length ioq = bufsize - 1"
  by (auto simp: ioq_ok_def ioq_length_def next_pos_eq bufsize_def)

lemma empty_iff: "ioq_ok ioq \<Longrightarrow> head ioq = tail ioq \<longleftrightarrow> contents ioq = []"
  by (auto simp: ioq_ok_def ioq_length_def bufsize_def contents_def)

text \<open>The two moves of the ring.\<close>

definition ring_put :: "u8 \<Rightarrow> ioqueue \<Rightarrow> ioqueue" where
  "ring_put b ioq = ioq\<lparr>buf := (buf ioq)[head ioq := b], head := next_pos (head ioq)\<rparr>"

definition ring_get :: "ioqueue \<Rightarrow> ioqueue" where
  "ring_get ioq = ioq\<lparr>tail := next_pos (tail ioq)\<rparr>"

lemma ring_put_ok: "ioq_ok ioq \<Longrightarrow> ioq_ok (ring_put b ioq)"
  by (simp add: ioq_ok_def ring_put_def)

lemma ring_get_ok: "ioq_ok ioq \<Longrightarrow> ioq_ok (ring_get ioq)"
  by (simp add: ioq_ok_def ring_get_def)

lemma ring_put_length:
  assumes "ioq_ok ioq" "ioq_length ioq < bufsize - 1"
  shows "ioq_length (ring_put b ioq) = ioq_length ioq + 1"
  using assms by (auto simp: ioq_ok_def ioq_length_def ring_put_def next_pos_eq bufsize_def split: if_splits)

lemma ring_get_length:
  assumes "ioq_ok ioq" "0 < ioq_length ioq"
  shows "ioq_length (ring_get ioq) = ioq_length ioq - 1"
  using assms by (auto simp: ioq_ok_def ioq_length_def ring_get_def next_pos_eq bufsize_def split: if_splits)

lemma ring_index: "t < bufsize \<Longrightarrow> i < bufsize \<Longrightarrow> (t + i) mod bufsize = (if t + i < bufsize then t + i else t + i - bufsize)"
  by (simp add: mod_if)

lemma ring_index_inj:
  "t < bufsize \<Longrightarrow> i < bufsize \<Longrightarrow> j < bufsize \<Longrightarrow> (t + i) mod bufsize = (t + j) mod bufsize \<Longrightarrow> i = j"
  by (auto simp: ring_index split: if_splits)

lemma contents_put:
  assumes ok: "ioq_ok ioq" and nf: "ioq_length ioq < bufsize - 1"
  shows "contents (ring_put b ioq) = contents ioq @ [b]"
proof -
  let ?n = "ioq_length ioq"
  have t: "tail ioq < bufsize" "length (buf ioq) = bufsize" "head ioq < bufsize" using ok by (simp_all add: ioq_ok_def)
  have old: "buf (ring_put b ioq) ! ((tail ioq + i) mod bufsize) = buf ioq ! ((tail ioq + i) mod bufsize)" if "i < ?n" for i
  proof -
    have "(tail ioq + i) mod bufsize \<noteq> (tail ioq + ?n) mod bufsize"
      using ring_index_inj [OF t(1), of i ?n] that nf by (metis less_diff_conv less_trans add_lessD1 nat_neq_iff)
    then show ?thesis using head_eq [OF ok] by (simp add: ring_put_def)
  qed
  have "buf (ring_put b ioq) ! ((tail ioq + ?n) mod bufsize) = b"
    using head_eq [OF ok] t by (simp add: ring_put_def)
  then show ?thesis
    using old unfolding contents_def ring_put_length [OF ok nf] by (simp add: ring_put_def)
qed

lemma contents_get:
  assumes ok: "ioq_ok ioq" and ne: "0 < ioq_length ioq"
  shows "contents ioq = buf ioq ! tail ioq # contents (ring_get ioq)"
proof -
  obtain n where n: "ioq_length ioq = Suc n" using ne by (cases "ioq_length ioq") auto
  have t: "tail ioq < bufsize" using ok by (simp add: ioq_ok_def)
  have s: "(next_pos (tail ioq) + i) mod bufsize = (tail ioq + Suc i) mod bufsize" for i
    by (simp add: next_pos_def mod_add_left_eq)
  have "contents ioq = map (\<lambda>i. buf ioq ! ((tail ioq + i) mod bufsize)) (0 # map Suc [0..<n])"
    unfolding contents_def n by (simp only: upt_conv_Cons map_Suc_upt zero_less_Suc)
  also have "\<dots> = buf ioq ! tail ioq # contents (ring_get ioq)"
    using t ring_get_length [OF ok ne] n by (simp add: contents_def ring_get_def s comp_def)
  finally show ?thesis .
qed


section \<open>The contract of a bounded queue of bytes\<close>

fun put_all :: "(u8 \<Rightarrow> 'q \<Rightarrow> 'q) \<Rightarrow> u8 list \<Rightarrow> 'q \<Rightarrow> 'q" where
  "put_all put [] q = q"
| "put_all put (b # bs) q = put_all put bs (put b q)"

fun get_all :: "('q \<Rightarrow> u8) \<Rightarrow> ('q \<Rightarrow> 'q) \<Rightarrow> nat \<Rightarrow> 'q \<Rightarrow> u8 list \<times> 'q" where
  "get_all front get 0 q = ([], q)"
| "get_all front get (Suc n) q = (let (bs, q') = get_all front get n (get q) in (front q # bs, q'))"

locale byte_queue =
  fixes put :: "u8 \<Rightarrow> 'q \<Rightarrow> 'q" and front :: "'q \<Rightarrow> u8" and get :: "'q \<Rightarrow> 'q"
    and items :: "'q \<Rightarrow> u8 list" and cap :: nat and ok :: "'q \<Rightarrow> bool"
  assumes put_items: "ok q \<Longrightarrow> length (items q) < cap \<Longrightarrow> ok (put b q) \<and> items (put b q) = items q @ [b]"
    and get_items: "ok q \<Longrightarrow> items q \<noteq> [] \<Longrightarrow> ok (get q) \<and> items q = front q # items (get q)"
begin

lemma put_all_items:
  "ok q \<Longrightarrow> length (items q) + length bs \<le> cap \<Longrightarrow> ok (put_all put bs q) \<and> items (put_all put bs q) = items q @ bs"
proof (induction bs arbitrary: q)
  case (Cons b bs)
  then have "ok (put b q) \<and> items (put b q) = items q @ [b]" using put_items by simp
  then show ?case using Cons by simp
qed simp

lemma get_all_items:
  "ok q \<Longrightarrow> n \<le> length (items q) \<Longrightarrow>
     (case get_all front get n q of (bs, q') \<Rightarrow> bs = take n (items q) \<and> ok q' \<and> items q' = drop n (items q))"
proof (induction n arbitrary: q)
  case (Suc n)
  then have g: "ok (get q)" "items q = front q # items (get q)" using get_items [of q] by force+
  have "n \<le> length (items (get q))" using Suc.prems(2) g(2) by (metis Suc_le_mono length_Cons)
  then show ?case
    using Suc.IH [OF g(1)] g(2) by (simp add: case_prod_beta Let_def)
qed simp

lemma transfer:
  assumes "ok q" "items q = []" "length bs \<le> cap"
  shows "fst (get_all front get (length bs) (put_all put bs q)) = bs"
  using get_all_items [of "put_all put bs q" "length bs"] put_all_items [of q bs] assms by (auto simp: case_prod_beta)

end

interpretation ring: byte_queue ring_put "\<lambda>q. buf q ! tail q" ring_get contents "bufsize - 1" ioq_ok
proof
  fix q b assume ok: "ioq_ok q"
  show "length (contents q) < bufsize - 1 \<Longrightarrow> ioq_ok (ring_put b q) \<and> contents (ring_put b q) = contents q @ [b]"
    using contents_put [OF ok] ring_put_ok [OF ok] by (simp add: length_contents)
  assume "contents q \<noteq> []"
  then have "0 < ioq_length q" by (simp add: contents_def)
  then show "ioq_ok (ring_get q) \<and> contents q = buf q ! tail q # contents (ring_get q)"
    using contents_get [OF ok] ring_get_ok [OF ok] by simp
qed


section \<open>The operations against the list\<close>

text \<open>The waiter of a queue can be woken, and what waking it does; there may be no waiter.\<close>

definition can_wake :: "u32 \<Rightarrow> kernel \<Rightarrow> bool" where
  "can_wake w s \<longleftrightarrow> w = 0 \<or> may_unblock (status (tasks s w)) \<and> w \<notin> set (thread_ready_list s)"

definition woken :: "u32 \<Rightarrow> kernel \<Rightarrow> kernel" where
  "woken w s = (if w = 0 then s
     else upd_task w (\<lambda>p. p\<lparr>status := TASK_READY\<rparr>) (s\<lparr>thread_ready_list := w # thread_ready_list s\<rparr>))"

lemma wakeup_woken: "can_wake w s \<Longrightarrow> w \<noteq> 0 \<Longrightarrow> wakeup w s = Some (woken w s)"
  by (simp add: wakeup_def can_wake_def woken_def thread_unblock_Some)

lemma ioq_ok_waiters [simp]:
  "ioq_ok (ioq\<lparr>consumer := w\<rparr>) = ioq_ok ioq" "ioq_ok (ioq\<lparr>producer := w\<rparr>) = ioq_ok ioq"
  "contents (ioq\<lparr>consumer := w\<rparr>) = contents ioq" "contents (ioq\<lparr>producer := w\<rparr>) = contents ioq"
  by (simp_all add: ioq_ok_def contents_def ioq_length_def)

lemma ring_waiters [simp]:
  "consumer (ring_put b ioq) = consumer ioq" "producer (ring_put b ioq) = producer ioq"
  "consumer (ring_get ioq) = consumer ioq" "producer (ring_get ioq) = producer ioq"
  by (simp_all add: ring_put_def ring_get_def)

lemma ioq_putchar_room:
  assumes ok: "ioq_ok ioq" and off: "intr_get_status s = INTR_OFF"
    and room: "length (contents ioq) < bufsize - 1" and w: "can_wake (consumer ioq) s"
  shows "ioq_putchar ioq b s = Some (Done ((ring_put b ioq)\<lparr>consumer := 0\<rparr>) (woken (consumer ioq) s) ())"
proof -
  have "next_pos (head ioq) \<noteq> tail ioq" using full_iff [OF ok] room by (simp add: length_contents)
  moreover have "head ioq < length (buf ioq)" using ok by (simp add: ioq_ok_def)
  ultimately show ?thesis
    using off wakeup_woken [OF w] by (auto simp: ioq_putchar_def ioq_full_def ring_put_def woken_def Let_def)
qed

lemma ioq_getchar_some:
  assumes ok: "ioq_ok ioq" and off: "intr_get_status s = INTR_OFF"
    and ne: "contents ioq \<noteq> []" and w: "can_wake (producer ioq) s"
  shows "ioq_getchar ioq s = Some (Done ((ring_get ioq)\<lparr>producer := 0\<rparr>) (woken (producer ioq) s) (hd (contents ioq)))"
proof -
  have "0 < ioq_length ioq" using ne by (simp flip: length_contents)
  then have h: "hd (contents ioq) = buf ioq ! tail ioq" using contents_get [OF ok] by simp
  have "head ioq \<noteq> tail ioq" using empty_iff [OF ok] ne by simp
  moreover have "tail ioq < length (buf ioq)" using ok by (simp add: ioq_ok_def)
  ultimately show ?thesis
    using off wakeup_woken [OF w] h by (auto simp: ioq_getchar_def ioq_empty_def ring_get_def woken_def Let_def)
qed

lemma ioq_putchar_full:
  "ioq_ok ioq \<Longrightarrow> length (contents ioq) = bufsize - 1 \<Longrightarrow> ioq_putchar ioq b s \<noteq> Some (Done ioq' s' x)"
  using full_iff [of ioq]
  by (auto simp: ioq_putchar_def ioq_full_def length_contents bind_Some_iff split: sema_result.splits if_splits)

lemma ioq_getchar_empty:
  "ioq_ok ioq \<Longrightarrow> contents ioq = [] \<Longrightarrow> ioq_getchar ioq s \<noteq> Some (Done ioq' s' x)"
  using empty_iff [of ioq]
  by (auto simp: ioq_getchar_def ioq_empty_def bind_Some_iff split: sema_result.splits if_splits)

text \<open>
  C12. The ring buffer is a bounded first-in-first-out queue of bytes.  With room in the buffer
  \<open>ioq_putchar\<close> appends its byte and wakes the waiting consumer, with bytes in the buffer
  \<open>ioq_getchar\<close> takes the oldest one and wakes the waiting producer; on a full (empty) buffer neither of
  them completes, so no byte is overwritten and none is invented.
\<close>

theorem ioqueue_refines_queue:
  assumes "ioq_ok ioq" "intr_get_status s = INTR_OFF" "can_wake (consumer ioq) s" "can_wake (producer ioq) s"
  shows "(if length (contents ioq) < bufsize - 1
          then \<exists>ioq'. ioq_putchar ioq b s = Some (Done ioq' (woken (consumer ioq) s) ()) \<and> ioq_ok ioq' \<and>
                 contents ioq' = contents ioq @ [b] \<and> consumer ioq' = 0 \<and> producer ioq' = producer ioq
          else \<forall>ioq' s'. ioq_putchar ioq b s \<noteq> Some (Done ioq' s' ())) \<and>
    (case contents ioq of
            [] \<Rightarrow> \<forall>ioq' s' c. ioq_getchar ioq s \<noteq> Some (Done ioq' s' c)
          | c # cs \<Rightarrow> \<exists>ioq'. ioq_getchar ioq s = Some (Done ioq' (woken (producer ioq) s) c) \<and> ioq_ok ioq' \<and>
                 contents ioq' = cs \<and> producer ioq' = 0 \<and> consumer ioq' = consumer ioq)"
proof (rule conjI)
  have len: "length (contents ioq) \<le> bufsize - 1"
    using ioq_length_less [OF assms(1)] by (simp add: length_contents)
  show "(if length (contents ioq) < bufsize - 1
          then \<exists>ioq'. ioq_putchar ioq b s = Some (Done ioq' (woken (consumer ioq) s) ()) \<and> ioq_ok ioq' \<and>
                 contents ioq' = contents ioq @ [b] \<and> consumer ioq' = 0 \<and> producer ioq' = producer ioq
          else \<forall>ioq' s'. ioq_putchar ioq b s \<noteq> Some (Done ioq' s' ()))"
    using ioq_putchar_room [OF assms(1,2) _ assms(3)] ring.put_items [OF assms(1), of b]
      ioq_putchar_full [OF assms(1)] len by simp
  show "(case contents ioq of
            [] \<Rightarrow> \<forall>ioq' s' c. ioq_getchar ioq s \<noteq> Some (Done ioq' s' c)
          | c # cs \<Rightarrow> \<exists>ioq'. ioq_getchar ioq s = Some (Done ioq' (woken (producer ioq) s) c) \<and> ioq_ok ioq' \<and>
                 contents ioq' = cs \<and> producer ioq' = 0 \<and> consumer ioq' = consumer ioq)"
  proof (cases "contents ioq")
    case Nil
    then show ?thesis using ioq_getchar_empty [OF assms(1)] by simp
  next
    case (Cons c cs)
    then show ?thesis
      using ioq_getchar_some [OF assms(1,2) _ assms(4)] ring.get_items [OF assms(1)] by simp
  qed
qed

lemma pipe_write_loop_put_all:
  assumes "ioq_ok ioq" "intr_get_status s = INTR_OFF" "consumer ioq = 0"
    "length (contents ioq) + length bytes \<le> bufsize - 1"
  shows "pipe_write_loop bytes n ioq s = Some (Done (put_all ring_put bytes ioq) s (n + length bytes))"
  using assms
proof (induction bytes arbitrary: ioq n)
  case (Cons b bytes)
  have "length (contents ioq) < bufsize - 1" using Cons.prems by simp
  then have p: "ioq_putchar ioq b s = Some (Done (ring_put b ioq) s ())"
    and q: "ioq_ok (ring_put b ioq)" "contents (ring_put b ioq) = contents ioq @ [b]"
    using ioq_putchar_room [OF Cons.prems(1,2), of b] ring.put_items [OF Cons.prems(1), of b] Cons.prems(3)
    by (simp_all add: can_wake_def woken_def ring_put_def)
  have "pipe_write_loop bytes (n + 1) (ring_put b ioq) s
      = Some (Done (put_all ring_put bytes (ring_put b ioq)) s (n + 1 + length bytes))"
    by (rule Cons.IH) (use q Cons.prems in simp_all)
  then show ?case using p by simp
qed simp

lemma pipe_read_loop_get_all:
  assumes "ioq_ok ioq" "intr_get_status s = INTR_OFF" "producer ioq = 0" "n \<le> length (contents ioq)"
  shows "pipe_read_loop n acc ioq s =
     (case get_all (\<lambda>q. buf q ! tail q) ring_get n ioq of (bs, ioq') \<Rightarrow> Some (Done ioq' s (acc @ bs)))"
  using assms
proof (induction n arbitrary: ioq acc)
  case (Suc n)
  have ne: "contents ioq \<noteq> []" using Suc.prems(4) by auto
  then have g: "ioq_ok (ring_get ioq)" "contents ioq = buf ioq ! tail ioq # contents (ring_get ioq)"
    using ring.get_items [OF Suc.prems(1)] by blast+
  have h: "hd (contents ioq) = buf ioq ! tail ioq" by (subst g(2)) simp
  have p: "ioq_getchar ioq s = Some (Done (ring_get ioq) s (buf ioq ! tail ioq))"
    using ioq_getchar_some [OF Suc.prems(1,2) ne] Suc.prems(3) h
    by (simp add: can_wake_def woken_def ring_get_def)
  have "n \<le> length (contents (ring_get ioq))" using Suc.prems(4) g(2) by (metis Suc_le_mono length_Cons)
  then have "pipe_read_loop n (acc @ [buf ioq ! tail ioq]) (ring_get ioq) s =
     (case get_all (\<lambda>q. buf q ! tail q) ring_get n (ring_get ioq) of (bs, ioq') \<Rightarrow>
        Some (Done ioq' s ((acc @ [buf ioq ! tail ioq]) @ bs)))"
    using Suc.IH [of "ring_get ioq" "acc @ [buf ioq ! tail ioq]"] g(1) Suc.prems(2,3) by simp
  then show ?case using p by (simp add: case_prod_beta Let_def)
qed simp

lemma put_all_waiters [simp]:
  "producer (put_all ring_put bs ioq) = producer ioq" "consumer (put_all ring_put bs ioq) = consumer ioq"
  by (induction bs arbitrary: ioq) simp_all

text \<open>
  Pipe round trip: up to 2047 bytes that \<open>pipe_write\<close> puts into an empty pipe, without anybody
  waiting, come back from \<open>pipe_read\<close> in order, and the pipe is empty again.
\<close>

theorem pipe_round_trip:
  assumes "ioq_ok ioq" "contents ioq = []" "producer ioq = 0" "consumer ioq = 0"
    and "intr_get_status s = INTR_OFF" and "length bytes \<le> bufsize - 1"
  shows "\<exists>ioq1 ioq2. pipe_write bytes ioq s = Some (Done ioq1 s (length bytes)) \<and>
     pipe_read (length bytes) ioq1 s = Some (Done ioq2 s bytes) \<and> ioq_ok ioq2 \<and> contents ioq2 = []"
proof -
  let ?q = "put_all ring_put bytes ioq"
  have l: "ioq_length ioq = 0" using assms(2) by (simp flip: length_contents)
  have w: "pipe_write bytes ioq s = Some (Done ?q s (length bytes))"
    using pipe_write_loop_put_all [OF assms(1,5,4)] assms(2,6) l
    by (simp add: pipe_write_def pipe_write_size_def bufsize_def)
  have q: "ioq_ok ?q" "contents ?q = bytes" using ring.put_all_items [OF assms(1)] assms(2,6) by simp_all
  obtain bs q' where g: "get_all (\<lambda>q. buf q ! tail q) ring_get (length bytes) ?q = (bs, q')" by (cases rule: prod.exhaust)
  have b: "bs = bytes" "ioq_ok q'" "contents q' = []"
    using ring.get_all_items [OF q(1), of "length bytes"] q(2) g by simp_all
  have "ioq_length ?q = length bytes" using q(2) by (simp flip: length_contents)
  then have "pipe_read (length bytes) ?q s = Some (Done q' s bytes)"
    using pipe_read_loop_get_all [OF q(1) assms(5), of "length bytes" "[]"] assms(3) q(2) g b(1)
    by (simp add: pipe_read_def pipe_read_size_def)
  then show ?thesis using w b by blast
qed

lemma pipe_write_loop_append:
  "pipe_write_loop (xs @ ys) n ioq s =
     Option.bind (pipe_write_loop xs n ioq s)
       (\<lambda>r. case r of Done ioq s m \<Rightarrow> pipe_write_loop ys m ioq s | On_queue a b c \<Rightarrow> Some (On_queue a b c)
          | On_lock a b c d \<Rightarrow> Some (On_lock a b c d))"
proof (induction xs arbitrary: n ioq s)
  case (Cons x xs)
  show ?case by (cases "ioq_putchar ioq x s") (auto simp: Cons.IH split: ioq_result.split)
qed simp

text \<open>
  The comment in \<open>pipe_write\<close> says that the amount is limited to avoid blocking, but the limit is
  \<open>bufsize - ioq_length\<close> while the ring only holds \<open>bufsize - 1\<close> bytes: a write of 2048 bytes or more
  into an empty pipe does not return to its caller.
\<close>

theorem pipe_write_may_block:
  assumes "ioq_ok ioq" "contents ioq = []" "consumer ioq = 0" "intr_get_status s = INTR_OFF"
    and "bufsize \<le> length bytes"
  shows "pipe_write bytes ioq s \<noteq> Some (Done ioq' s' n)"
proof -
  let ?xs = "take (bufsize - 1) bytes" and ?y = "bytes ! (bufsize - 1)"
  have l: "ioq_length ioq = 0" using assms(2) by (simp flip: length_contents)
  have b: "bufsize = Suc (bufsize - 1)" "bufsize - 1 < length bytes" using assms(5) by (simp_all add: bufsize_def)
  have t: "take bufsize bytes = ?xs @ [?y]" by (subst b(1)) (simp only: take_Suc_conv_app_nth [OF b(2)])
  have x: "length ?xs = bufsize - 1" using b by simp
  have q: "ioq_ok (put_all ring_put ?xs ioq)" "contents (put_all ring_put ?xs ioq) = ?xs"
    using ring.put_all_items [OF assms(1), of ?xs] assms(2) x by simp_all
  have "pipe_write_loop (?xs @ [?y]) 0 ioq s =
      pipe_write_loop [?y] (bufsize - 1) (put_all ring_put ?xs ioq) s"
    unfolding pipe_write_loop_append
    using pipe_write_loop_put_all [OF assms(1,4,3), of ?xs 0] assms(2) x by simp
  moreover have "pipe_write_loop [?y] (bufsize - 1) (put_all ring_put ?xs ioq) s \<noteq> Some (Done ioq' s' n)"
    using ioq_putchar_full [OF q(1), of ?y s] q(2) x by (auto simp: bind_Some_iff split: ioq_result.splits)
  moreover have "pipe_write bytes ioq s = pipe_write_loop (?xs @ [?y]) 0 ioq s"
    using l assms(5) by (simp add: pipe_write_def pipe_write_size_def t)
  ultimately show ?thesis by simp
qed


section \<open>Witnesses\<close>

text \<open>An empty queue whose head has just wrapped around, and a machine with interrupts off.\<close>

definition sample_ioqueue :: ioqueue where
  "sample_ioqueue = \<lparr>ioq_lock = IoqLock 0, producer = 0, consumer = 0, buf = replicate bufsize 0, head = 2047, tail = 2047\<rparr>"

definition sample_off :: kernel where
  "sample_off = sample_kernel\<lparr>eflags := 0\<rparr>"

lemma sample_ioqueue_ok: "ioq_ok sample_ioqueue" "contents sample_ioqueue = []"
  by (simp_all add: sample_ioqueue_def ioq_ok_def bufsize_def contents_def ioq_length_def)

lemma sample_off_intr: "intr_get_status sample_off = INTR_OFF"
  by (simp add: sample_off_def sample_kernel_def intr_get_status_def)

lemma ioqueue_refines_queue_witness:
  "\<exists>ioq'. ioq_putchar sample_ioqueue 0x61 sample_off = Some (Done ioq' sample_off ()) \<and> contents ioq' = [0x61]"
  using ioqueue_refines_queue [OF sample_ioqueue_ok(1) sample_off_intr, where b = "0x61"] sample_ioqueue_ok(2)
  by (auto simp: can_wake_def woken_def sample_ioqueue_def bufsize_def)

lemma pipe_round_trip_witness:
  "\<exists>ioq1 ioq2. pipe_write [1, 2, 3] sample_ioqueue sample_off = Some (Done ioq1 sample_off 3) \<and>
     pipe_read 3 ioq1 sample_off = Some (Done ioq2 sample_off [1, 2, 3])"
  using pipe_round_trip [OF sample_ioqueue_ok _ _ sample_off_intr, of "[1, 2, 3]"]
  by (auto simp: sample_ioqueue_def bufsize_def numeral_3_eq_3)

lemma pipe_write_may_block_witness:
  "\<forall>ioq' s' n. pipe_write (replicate 2048 0) sample_ioqueue sample_off \<noteq> Some (Done ioq' s' n)"
  using pipe_write_may_block [OF sample_ioqueue_ok _ sample_off_intr, of "replicate 2048 0"]
  by (simp add: sample_ioqueue_def bufsize_def)

end
