(* ===== verification/Keyboard.thy ===== *)
theory Keyboard
  imports Ioqueue
begin

text \<open>
  \<^verbatim>\<open>device/keyboard.c\<close>: scan codes, the state of the modifier keys, and the bytes that the interrupt
  handler puts into the keyboard's queue.
\<close>

section \<open>Operations\<close>

definition alt_r_make :: u16 where "alt_r_make = 0xe038"
definition ctrl_r_make :: u16 where "ctrl_r_make = 0xe01d"

text \<open>By scan code: the character without and with shift; keys without a character have 0.\<close>

definition keymap :: "(u8 \<times> u8) list" where
  "keymap =
    [(0x00, 0x00), (0x1b, 0x1b), (0x31, 0x21), (0x32, 0x40), (0x33, 0x23), (0x34, 0x24), (0x35, 0x25), (0x36, 0x5e),
     (0x37, 0x26), (0x38, 0x2a), (0x39, 0x28), (0x30, 0x29), (0x2d, 0x5f), (0x3d, 0x2b), (0x08, 0x08), (0x09, 0x09),
     (0x71, 0x51), (0x77, 0x57), (0x65, 0x45), (0x72, 0x52), (0x74, 0x54), (0x79, 0x59), (0x75, 0x55), (0x69, 0x49),
     (0x6f, 0x4f), (0x70, 0x50), (0x5b, 0x7b), (0x5d, 0x7d), (0x0a, 0x0a), (0x00, 0x00), (0x61, 0x41), (0x73, 0x53),
     (0x64, 0x44), (0x66, 0x46), (0x67, 0x47), (0x68, 0x48), (0x6a, 0x4a), (0x6b, 0x4b), (0x6c, 0x4c), (0x3b, 0x3a),
     (0x27, 0x22), (0x60, 0x7e), (0x00, 0x00), (0x5c, 0x7c), (0x7a, 0x5a), (0x78, 0x58), (0x63, 0x43), (0x76, 0x56),
     (0x62, 0x42), (0x6e, 0x4e), (0x6d, 0x4d), (0x2c, 0x3c), (0x2e, 0x3e), (0x2f, 0x3f), (0x00, 0x00), (0x2a, 0x2a),
     (0x00, 0x00), (0x20, 0x20), (0x00, 0x00)]"

record kbd =
  ctrl_status :: bool
  shift_status :: bool
  alt_status :: bool
  caps_lock_status :: bool
  ext_scancode :: bool

definition release_key :: "u16 \<Rightarrow> kbd \<Rightarrow> kbd" where
  "release_key make_code k =
     (if make_code = 0x1d \<or> make_code = ctrl_r_make then k\<lparr>ctrl_status := False\<rparr>
      else if make_code = 0x2a \<or> make_code = 0x36 then k\<lparr>shift_status := False\<rparr>
      else if make_code = 0x38 \<or> make_code = alt_r_make then k\<lparr>alt_status := False\<rparr>
      else k)"

definition press_modifier :: "u16 \<Rightarrow> kbd \<Rightarrow> kbd" where
  "press_modifier scancode k =
     (if scancode = 0x1d \<or> scancode = ctrl_r_make then k\<lparr>ctrl_status := True\<rparr>
      else if scancode = 0x2a \<or> scancode = 0x36 then k\<lparr>shift_status := True\<rparr>
      else if scancode = 0x38 \<or> scancode = alt_r_make then k\<lparr>alt_status := True\<rparr>
      else if scancode = 0x3a then k\<lparr>caps_lock_status := \<not> caps_lock_status k\<rparr>
      else k)"

definition key_shift :: "u16 \<Rightarrow> bool \<Rightarrow> bool \<Rightarrow> bool" where
  "key_shift scancode shift_down_last caps_down_last =
     (if scancode < 0x0e \<or> scancode \<in> set [0x29, 0x1a, 0x1b, 0x2b, 0x27, 0x28, 0x33, 0x34, 0x35] then shift_down_last
      else if shift_down_last \<and> caps_down_last then False
      else shift_down_last \<or> caps_down_last)"

text \<open>
  The decoding of a scan code: the state of the keys and, for a key with a character, the byte for the
  queue.
\<close>

definition scan_decode :: "u8 \<Rightarrow> kbd \<Rightarrow> kbd \<times> u8 option" where
  "scan_decode port k =
     (if port = 0xe0 then (k\<lparr>ext_scancode := True\<rparr>, None)
      else
        let scancode = (if ext_scancode k then 0xe000 OR ucast port else ucast port);
            ctrl_down_last = ctrl_status k; shift_down_last = shift_status k; caps_down_last = caps_lock_status k;
            k = k\<lparr>ext_scancode := False\<rparr>
        in if scancode AND 0x0080 \<noteq> 0 then (release_key (scancode AND 0xff7f) k, None)
           else if (scancode > 0 \<and> scancode < 0x3b) \<or> scancode = alt_r_make \<or> scancode = ctrl_r_make then
             let shift = key_shift scancode shift_down_last caps_down_last;
                 scancode = scancode AND 0x00ff;
                 entry = keymap ! unat scancode;
                 cur_char = (if shift then snd entry else fst entry)
             in if cur_char \<noteq> 0 then
                  (k, Some (if ctrl_down_last \<and> (cur_char = 0x6c \<or> cur_char = 0x75) then cur_char - 0x61 else cur_char))
                else (press_modifier scancode k, None)
           else (k, None))"

definition intr_keyboard_handler :: "u8 \<Rightarrow> kbd \<Rightarrow> ioqueue \<Rightarrow> kernel \<Rightarrow> (kbd \<times> ioqueue \<times> kernel) option" where
  "intr_keyboard_handler port k kbd_buf s =
     (case scan_decode port k of
        (k, None) \<Rightarrow> Some (k, kbd_buf, s)
      | (k, Some c) \<Rightarrow> do {
          full \<leftarrow> ioq_full kbd_buf s;
          if full then Some (k, kbd_buf, s)
          else do {
            r \<leftarrow> ioq_putchar kbd_buf c s;
            (case r of Done kbd_buf s _ \<Rightarrow> Some (k, kbd_buf, s) | _ \<Rightarrow> None)
          }
        })"

definition keyboard_init :: "ioqueue \<Rightarrow> kernel \<Rightarrow> ioqueue \<times> kernel" where
  "keyboard_init kbd_buf s = ioqueue_init kbd_buf s"

fun keyboard_run :: "u8 list \<Rightarrow> kbd \<Rightarrow> ioqueue \<Rightarrow> kernel \<Rightarrow> (kbd \<times> ioqueue \<times> kernel) option" where
  "keyboard_run [] k q s = Some (k, q, s)"
| "keyboard_run (b # bs) k q s = do { (k, q, s) \<leftarrow> intr_keyboard_handler b k q s; keyboard_run bs k q s }"


section \<open>Typing\<close>

text \<open>The scan codes of a key and of the strokes for a character.\<close>

definition strokes :: "u8 \<Rightarrow> u8 list" where
  "strokes c =
     (case find (\<lambda>i. fst (keymap ! i) = c) [1..<59] of
        Some i \<Rightarrow> [of_nat i, of_nat i + 0x80]
      | None \<Rightarrow> (case find (\<lambda>i. snd (keymap ! i) = c) [1..<59] of
            Some i \<Rightarrow> [0x2a, of_nat i, of_nat i + 0x80, 0xaa]
          | None \<Rightarrow> []))"

definition on_keyboard :: "u8 \<Rightarrow> bool" where
  "on_keyboard c \<longleftrightarrow> c \<noteq> 0 \<and> strokes c \<noteq> []"

text \<open>The bytes that a sequence of scan codes produces, without the queue.\<close>

fun decode_all :: "u8 list \<Rightarrow> kbd \<Rightarrow> kbd \<times> u8 list" where
  "decode_all [] k = (k, [])"
| "decode_all (b # bs) k =
     (let (k, c) = scan_decode b k; (k, cs) = decode_all bs k in (k, (case c of None \<Rightarrow> [] | Some c \<Rightarrow> [c]) @ cs))"

definition plain_kbd :: "bool \<Rightarrow> kbd" where
  "plain_kbd a = \<lparr>ctrl_status = False, shift_status = False, alt_status = a, caps_lock_status = False, ext_scancode = False\<rparr>"

lemma decode_plain:
  "list_all (\<lambda>i. fst (keymap ! i) \<noteq> 0 \<longrightarrow>
     decode_all [of_nat i, of_nat i + 0x80] (plain_kbd a) = (plain_kbd a, [fst (keymap ! i)])) [1..<59]"
  by (cases a; simp only:; code_simp)

lemma decode_shifted:
  "list_all (\<lambda>i. snd (keymap ! i) \<noteq> 0 \<longrightarrow>
     decode_all [0x2a, of_nat i, of_nat i + 0x80, 0xaa] (plain_kbd a) = (plain_kbd a, [snd (keymap ! i)])) [1..<59]"
  by (cases a; simp only:; code_simp)

lemma decode_strokes:
  assumes "on_keyboard c"
  shows "decode_all (strokes c) (plain_kbd a) = (plain_kbd a, [c])"
proof (cases "find (\<lambda>i. fst (keymap ! i) = c) [1..<59]")
  case (Some i)
  then have "i \<in> set [1..<59]" "fst (keymap ! i) = c" by (auto simp: find_Some_iff in_set_conv_nth)
  moreover have "c \<noteq> 0" using assms by (simp add: on_keyboard_def)
  ultimately show ?thesis using decode_plain [of a] Some unfolding list_all_iff strokes_def by simp
next
  case None
  then obtain i where i: "find (\<lambda>i. snd (keymap ! i) = c) [1..<59] = Some i" and "c \<noteq> 0"
    using assms by (auto simp: on_keyboard_def strokes_def split: option.splits)
  then have "i \<in> set [1..<59]" "snd (keymap ! i) = c" by (auto simp: find_Some_iff in_set_conv_nth)
  then show ?thesis using decode_shifted [of a] None i \<open>c \<noteq> 0\<close> unfolding list_all_iff strokes_def by simp
qed

lemma decode_all_append:
  "decode_all (xs @ ys) k = (let (k, cs) = decode_all xs k; (k, ds) = decode_all ys k in (k, cs @ ds))"
  by (induction xs arbitrary: k) (simp_all add: case_prod_beta Let_def)

lemma decode_text:
  "list_all on_keyboard msg \<Longrightarrow> decode_all (concat (map strokes msg)) (plain_kbd a) = (plain_kbd a, msg)"
  by (induction msg) (simp_all add: decode_all_append decode_strokes)

text \<open>The handler puts the decoded bytes into the queue, as long as there is room.\<close>

lemma keyboard_run_decode:
  assumes "ioq_ok q" "intr_get_status s = INTR_OFF" "can_wake (consumer q) s"
    and "length (contents q) + length (snd (decode_all bs k)) \<le> bufsize - 1"
  shows "\<exists>q' s'. keyboard_run bs k q s = Some (fst (decode_all bs k), q', s') \<and> ioq_ok q' \<and>
    contents q' = contents q @ snd (decode_all bs k)"
  using assms
proof (induction bs arbitrary: k q s)
  case (Cons b bs)
  obtain k' c where d: "scan_decode b k = (k', c)" by (cases "scan_decode b k")
  show ?case
  proof (cases c)
    case None
    then show ?thesis using Cons.IH [of q s k'] Cons.prems d by (simp add: intr_keyboard_handler_def case_prod_beta)
  next
    case (Some ch)
    have room: "length (contents q) < bufsize - 1" using Cons.prems(4) d Some by (simp add: case_prod_beta)
    let ?q = "(ring_put ch q)\<lparr>consumer := 0\<rparr>" and ?s = "woken (consumer q) s"
    have p: "ioq_putchar q ch s = Some (Done ?q ?s ())" by (rule ioq_putchar_room [OF Cons.prems(1,2) room Cons.prems(3)])
    have "next_pos (head q) \<noteq> tail q" using full_iff [OF Cons.prems(1)] room by (simp add: length_contents)
    then have h: "intr_keyboard_handler b k q s = Some (k', ?q, ?s)"
      using p d Some Cons.prems(2) by (simp add: intr_keyboard_handler_def ioq_full_def)
    have c: "contents ?q = contents q @ [ch]"
      using contents_put [OF Cons.prems(1), of ch] room by (simp add: length_contents)
    have "ioq_ok ?q" using ring_put_ok [OF Cons.prems(1), of ch] by (simp add: ioq_ok_def)
    moreover have "intr_get_status ?s = INTR_OFF" 
      using Cons.prems(2) intr_get_status_cong [of ?s s] by (simp add: woken_def upd_task_def)
    moreover have "can_wake (consumer ?q) ?s" by (simp add: can_wake_def)
    moreover have "length (contents ?q) + length (snd (decode_all bs k')) \<le> bufsize - 1"
      using Cons.prems(4) d Some c by (simp add: case_prod_beta)
    ultimately show ?thesis using Cons.IH [of ?q ?s k'] h d Some c by (simp add: case_prod_beta)
  qed
qed simp

text \<open>
  C40. Typing a text produces the text: when the keys of a text (letters, digits, punctuation, also the ones
  that need shift) are pressed and released one after another with caps lock and control off, the
  keyboard's queue receives exactly the bytes of the text, and the modifier keys are as before.
\<close>

theorem typing_round_trip:
  assumes "ioq_ok q" "intr_get_status s = INTR_OFF" "can_wake (consumer q) s"
    and "list_all on_keyboard msg" "length (contents q) + length msg \<le> bufsize - 1"
  shows "\<exists>q' s'. keyboard_run (concat (map strokes msg)) (plain_kbd a) q s = Some (plain_kbd a, q', s') \<and>
    contents q' = contents q @ msg"
  using keyboard_run_decode [OF assms(1-3), of "concat (map strokes msg)" "plain_kbd a"] decode_text [OF assms(4), of a] assms(5)
  by auto

lemma typing_round_trip_witness:
  "\<exists>q' s'. keyboard_run (concat (map strokes [0x4c, 0x73, 0x20, 0x7c, 0x0a])) (plain_kbd False) sample_ioqueue sample_off =
       Some (plain_kbd False, q', s') \<and> contents q' = [0x4c, 0x73, 0x20, 0x7c, 0x0a]"
proof -
  have "list_all on_keyboard [0x4c, 0x73, 0x20, 0x7c, 0x0a]" by code_simp
  moreover have "can_wake (consumer sample_ioqueue) sample_off" by (simp add: can_wake_def sample_ioqueue_def)
  ultimately show ?thesis
    using typing_round_trip [OF sample_ioqueue_ok(1) sample_off_intr, of "[0x4c, 0x73, 0x20, 0x7c, 0x0a]" False] sample_ioqueue_ok(2)
    by (simp add: bufsize_def)
qed

end
