(* ===== verification/Stdio.thy ===== *)
theory Stdio
  imports Prelude
begin

text \<open>
  \<^verbatim>\<open>lib/stdio.c\<close>: formatted output.  The output buffer is an array, the format a C string without its
  terminator, and the variable arguments the four-byte slots behind the format, each an integer or the
  string that a pointer leads to.
\<close>

section \<open>Characters\<close>

text \<open>The bytes of a string literal, and the C string at the start of an array.\<close>

definition str :: "string \<Rightarrow> u8 list" where
  "str s = map of_char s"

definition newline :: string where "newline = [CHR 0x0A]"

definition cstr :: "u8 list \<Rightarrow> u8 list option" where
  "cstr xs = (if 0 \<in> set xs then Some (takeWhile (\<lambda>c. c \<noteq> 0) xs) else None)"

lemma cstr_append_zero [simp]: "0 \<notin> set xs \<Longrightarrow> cstr (xs @ 0 # ys) = Some xs"
  by (induction xs) (auto simp: cstr_def)

lemma cstr_zeros: "0 \<notin> set xs \<Longrightarrow> 0 < n \<Longrightarrow> cstr (xs @ replicate n 0) = Some xs"
  by (cases n) simp_all


section \<open>Operations\<close>

definition digit :: "nat \<Rightarrow> u8" where
  "digit m = (if m < 10 then of_nat m + 0x30 else of_nat m - 10 + 0x41)"

text \<open>\<open>itoa\<close> is called with base 10 and 16; with a base below two the C function does not return.\<close>

function itoa :: "nat \<Rightarrow> nat \<Rightarrow> u8 list" where
  "itoa v b =
     (if b < 2 then []
      else let m = v mod b; i = v div b in (if i \<noteq> 0 then itoa i b else []) @ [digit m])"
  by pat_completeness auto
termination
  by (relation "measure fst") (auto simp: div_greater_zero_iff intro!: div_less_dividend)

declare itoa.simps [simp del]

datatype va_arg = Arg_int u32 | Arg_str "u8 list"

fun wr_str :: "u8 list \<Rightarrow> nat \<Rightarrow> u8 list \<Rightarrow> u8 list option" where
  "wr_str buf pos [] = Some buf"
| "wr_str buf pos (c # cs) = do { buf \<leftarrow> wr buf pos c; wr_str buf (pos + 1) cs }"

text \<open>What one conversion writes: the argument of \<open>%d\<close> is negated as an unsigned number.\<close>

definition conv_d :: "u32 \<Rightarrow> u8 list" where
  "conv_d arg = (if sint arg < 0 then 0x2d # itoa (unat (0 - arg)) 10 else itoa (unat arg) 10)"

fun vsprintf_loop :: "u8 list \<Rightarrow> va_arg list \<Rightarrow> u8 list \<Rightarrow> nat \<Rightarrow> u8 list option" where
  "vsprintf_loop [] ap buf pos = Some buf"
| "vsprintf_loop (c # fmt) ap buf pos =
     (if c \<noteq> 0x25 then do { buf \<leftarrow> wr buf pos c; vsprintf_loop fmt ap buf (pos + 1) }
      else (case fmt of
         [] \<Rightarrow> Some buf
       | d # fmt' \<Rightarrow>
           if d = 0x73 then (case ap of
               Arg_str s # ap \<Rightarrow> do { buf \<leftarrow> wr_str buf pos s; vsprintf_loop fmt' ap buf (pos + length s) }
             | _ \<Rightarrow> None)
           else if d = 0x63 then (case ap of
               Arg_int i # ap \<Rightarrow> do { buf \<leftarrow> wr buf pos (ucast i); vsprintf_loop fmt' ap buf (pos + 1) }
             | _ \<Rightarrow> None)
           else if d = 0x64 then (case ap of
               Arg_int i # ap \<Rightarrow> do { buf \<leftarrow> wr_str buf pos (conv_d i); vsprintf_loop fmt' ap buf (pos + length (conv_d i)) }
             | _ \<Rightarrow> None)
           else if d = 0x78 then (case ap of
               Arg_int i # ap \<Rightarrow> do { buf \<leftarrow> wr_str buf pos (itoa (unat i) 16); vsprintf_loop fmt' ap buf (pos + length (itoa (unat i) 16)) }
             | _ \<Rightarrow> None)
           else vsprintf_loop fmt ap buf pos))"

definition vsprintf :: "u8 list \<Rightarrow> u8 list \<Rightarrow> va_arg list \<Rightarrow> (u8 list \<times> nat) option" where
  "vsprintf buf format ap = do {
     buf \<leftarrow> vsprintf_loop format ap buf 0;
     s \<leftarrow> cstr buf;
     Some (buf, length s)
   }"

definition sprintf :: "u8 list \<Rightarrow> u8 list \<Rightarrow> va_arg list \<Rightarrow> (u8 list \<times> nat) option" where
  "sprintf buf format args = vsprintf buf format args"

text \<open>The text that \<open>printf\<close> and \<open>printk\<close> hand to the console: they format into 1024 zeroed bytes.\<close>

definition printf_text :: "u8 list \<Rightarrow> va_arg list \<Rightarrow> u8 list option" where
  "printf_text format args = do {
     (buf, _) \<leftarrow> vsprintf (replicate 1024 0) format args;
     cstr buf
   }"


section \<open>Numbers\<close>

definition digit_val :: "u8 \<Rightarrow> nat" where
  "digit_val c = (if c < 0x41 then unat c - 0x30 else unat c - 0x41 + 10)"

definition num_val :: "nat \<Rightarrow> u8 list \<Rightarrow> nat" where
  "num_val b cs = foldl (\<lambda>v c. v * b + digit_val c) 0 cs"

lemma digit_table: "\<forall>m \<in> set [0..<16]. unat (digit m) = (if m < 10 then m + 48 else m + 55)"
  by code_simp

lemma unat_digit: "m < 16 \<Longrightarrow> unat (digit m) = (if m < 10 then m + 48 else m + 55)"
  using digit_table by simp

lemma digit_val_digit: "m < 16 \<Longrightarrow> digit_val (digit m) = m"
  by (simp add: digit_val_def word_less_nat_alt unat_digit)

lemma digit_nonzero: "m < 16 \<Longrightarrow> digit m \<noteq> 0"
  using unat_digit [of m] by (auto split: if_splits)

lemma itoa_nonzero: "2 \<le> b \<Longrightarrow> b \<le> 16 \<Longrightarrow> 0 \<notin> set (itoa v b)"
proof (induction v b rule: itoa.induct)
  case (1 v b)
  have "v mod b < 16" using 1(2,3) by (meson less_le_trans mod_less_divisor zero_less_numeral)
  then show ?case using 1 digit_nonzero [of "v mod b"] by (subst itoa.simps) (auto simp: Let_def)
qed

lemma num_val_append: "num_val b (xs @ [c]) = num_val b xs * b + digit_val c"
  by (simp add: num_val_def)

lemma num_val_itoa: "2 \<le> b \<Longrightarrow> b \<le> 16 \<Longrightarrow> num_val b (itoa v b) = v"
proof (induction v b rule: itoa.induct)
  case (1 v b)
  have "v mod b < 16" using 1(2,3) by (meson less_le_trans mod_less_divisor zero_less_numeral)
  moreover have "v div b = 0 \<Longrightarrow> v mod b = v" using 1(2) by (simp add: div_eq_0_iff)
  ultimately show ?case
    using 1 by (subst itoa.simps) (auto simp: Let_def num_val_append digit_val_digit num_val_def)
qed

lemma itoa_digits: "2 \<le> b \<Longrightarrow> b \<le> 16 \<Longrightarrow> \<forall>c \<in> set (itoa v b). digit_val c < b"
proof (induction v b rule: itoa.induct)
  case (1 v b)
  have m: "v mod b < b" using 1(2) by simp
  then have "digit_val (digit (v mod b)) = v mod b" using 1(3) by (simp add: digit_val_digit)
  then show ?case using 1 m by (subst itoa.simps) (auto simp: Let_def)
qed

lemma itoa_head: "2 \<le> b \<Longrightarrow> b \<le> 16 \<Longrightarrow> v \<noteq> 0 \<Longrightarrow> hd (itoa v b) \<noteq> 0x30 \<and> itoa v b \<noteq> []"
proof (induction v b rule: itoa.induct)
  case (1 v b)
  have m: "v mod b < 16" using 1(2,3) by (meson less_le_trans mod_less_divisor zero_less_numeral)
  show ?case
  proof (cases "v div b = 0")
    case True
    then have "v mod b \<noteq> 0" using 1(2,4) by (auto simp: div_eq_0_iff)
    then have "digit_val (digit (v mod b)) \<noteq> digit_val 0x30"
      unfolding digit_val_digit [OF m] by (simp add: digit_val_def)
    then show ?thesis using True 1(2) by (subst (1 2) itoa.simps) (auto simp: Let_def)
  next
    case False
    then show ?thesis using 1 by (subst (1 2) itoa.simps) (auto simp: Let_def hd_append)
  qed
qed



section \<open>Formatted text\<close>

text \<open>The text that a format and its arguments stand for.\<close>

fun format_text :: "u8 list \<Rightarrow> va_arg list \<Rightarrow> u8 list option" where
  "format_text [] ap = Some []"
| "format_text (c # fmt) ap =
     (if c \<noteq> 0x25 then map_option (\<lambda>t. c # t) (format_text fmt ap)
      else (case fmt of
         [] \<Rightarrow> Some []
       | d # fmt' \<Rightarrow>
           if d \<in> {0x73, 0x63, 0x64, 0x78} then (case ap of
               Arg_str s # ap \<Rightarrow> if d = 0x73 then map_option (\<lambda>t. s @ t) (format_text fmt' ap) else None
             | Arg_int i # ap \<Rightarrow>
                 if d = 0x73 then None
                 else map_option (\<lambda>t. (if d = 0x63 then [ucast i] else if d = 0x64 then conv_d i else itoa (unat i) 16) @ t)
                        (format_text fmt' ap)
             | [] \<Rightarrow> None)
           else format_text fmt ap))"

definition put_at :: "u8 list \<Rightarrow> nat \<Rightarrow> u8 list \<Rightarrow> u8 list" where
  "put_at buf pos t = take pos buf @ t @ drop (pos + length t) buf"

lemma put_at_simps:
  "pos \<le> length buf \<Longrightarrow> put_at buf pos [] = buf"
  "pos + length t \<le> length buf \<Longrightarrow> length (put_at buf pos t) = length buf"
  "pos + length (s @ t) \<le> length buf \<Longrightarrow> put_at (put_at buf pos s) (pos + length s) t = put_at buf pos (s @ t)"
  by (simp_all add: put_at_def drop_drop ac_simps)

lemma wr_put_at: "pos < length buf \<Longrightarrow> wr buf pos c = Some (put_at buf pos [c])"
  by (simp add: put_at_def upd_conv_take_nth_drop)

lemma wr_str_put_at: "pos + length cs \<le> length buf \<Longrightarrow> wr_str buf pos cs = Some (put_at buf pos cs)"
proof (induction cs arbitrary: buf pos)
  case (Cons c cs)
  then show ?case using put_at_simps(2) [of pos "[c]" buf] put_at_simps(3) [of pos "[c]" cs buf]
    by (simp add: wr_put_at del: wr_in)
qed (simp add: put_at_simps)

lemma vsprintf_loop_text:
  "format_text fmt ap = Some t \<Longrightarrow> pos + length t \<le> length buf \<Longrightarrow> vsprintf_loop fmt ap buf pos = Some (put_at buf pos t)"
proof (induction fmt ap arbitrary: t pos buf rule: format_text.induct)
  case (1 ap)
  then show ?case by (simp add: put_at_simps)
next
  case (2 c fmt ap)
  have step: "wr_str buf pos x = Some (put_at buf pos x)" "length (put_at buf pos x) = length buf"
      "put_at (put_at buf pos x) (pos + length x) u = put_at buf pos (x @ u)" "pos + length x + length u \<le> length buf"
    if "t = x @ u" for x u
    using that 2(6) put_at_simps(2) [of pos x buf] put_at_simps(3) [of pos x u buf] wr_str_put_at [of pos x buf] by simp_all
  have one: "wr buf pos x = Some (put_at buf pos [x])" if "t = [x] @ u" for x u
    using that 2(6) by (intro wr_put_at) simp
  consider (plain) "c \<noteq> 0x25" | (last) "c = 0x25" "fmt = []"
    | (other) d fmt' where "c = 0x25" "fmt = d # fmt'" "d \<notin> {0x73, 0x63, 0x64, 0x78}"
    | (conv) d fmt' where "c = 0x25" "fmt = d # fmt'" "d \<in> {0x73, 0x63, 0x64, 0x78}"
    by (cases fmt) auto
  then show ?case
  proof cases
    case plain
    then obtain u where u: "format_text fmt ap = Some u" "t = [c] @ u" using 2(5) by auto
    show ?thesis using 2(1) [OF plain u(1), of "pos + 1" "put_at buf pos [c]"] step [OF u(2)] one [OF u(2)] plain u(2)
      by (simp del: wr_in)
  next
    case last
    then show ?thesis using 2(5,6) by (simp add: put_at_simps)
  next
    case other
    then show ?thesis using 2(4) [OF _ other(2,3)] 2(5,6) by simp
  next
    case conv
    then obtain a ap' u x where a: "ap = a # ap'" "format_text fmt' ap' = Some u" "t = x @ u"
      and x: "(d = 0x73 \<and> a = Arg_str x) \<or>
        (d \<noteq> 0x73 \<and> (\<exists>i. a = Arg_int i \<and> x = (if d = 0x63 then [ucast i] else if d = 0x64 then conv_d i else itoa (unat i) 16)))"
      using 2(5) by (auto split: list.splits va_arg.splits if_splits)
    have ih: "vsprintf_loop fmt' ap' (put_at buf pos x) (pos + length x) = Some (put_at buf pos t)"
      using 2(2) [OF _ conv(2,3) a(1) _ _ a(2), where pos = "pos + length x" and buf = "put_at buf pos x"]
        2(3) [OF _ conv(2,3) a(1) _ _ a(2), where pos = "pos + length x" and buf = "put_at buf pos x"] step [OF a(3)] x conv(1) a(3) by auto
    show ?thesis using ih step(1) [OF a(3)] one [of _ u] a(1,3) x conv by (auto simp del: wr_in)
  qed
qed

lemma sprintf_text:
  assumes "format_text format args = Some t" "0 \<notin> set t" "length t < n"
  shows "sprintf (replicate n 0) format args = Some (t @ replicate (n - length t) 0, length t)"
proof -
  have "vsprintf_loop format args (replicate n 0) 0 = Some (t @ replicate (n - length t) 0)"
    using vsprintf_loop_text [OF assms(1), of 0 "replicate n 0"] assms(3) by (simp add: put_at_def)
  then show ?thesis using cstr_zeros [OF assms(2), of "n - length t"] assms(3) by (simp add: sprintf_def vsprintf_def)
qed



section \<open>Witnesses\<close>



end
