(* ===== verification/Print.thy ===== *)
theory Print
  imports Stdio
begin

text \<open>
  \<^verbatim>\<open>lib/kernel/print.c\<close>: the text screen of 25 lines with 80 cells each, and the cursor.  The controller's
  cursor register is the field \<open>crt_cursor\<close>.
\<close>

section \<open>Operations\<close>

record screen =
  video_memory :: "u16 list"
  cursor_x :: u8
  cursor_y :: u8
  crt_cursor :: u16

definition attribute_byte :: u8 where
  "attribute_byte = push_bit 4 0 OR (15 AND 0x0f)"

definition blank :: u16 where
  "blank = 0x20 OR push_bit 8 (ucast attribute_byte)"

definition rc_black :: u8 where "rc_black = 0"
definition rc_white :: u8 where "rc_white = 15"

definition set_cursor :: "screen \<Rightarrow> screen" where
  "set_cursor s = (let cursorLocation = ucast (cursor_y s) * 80 + ucast (cursor_x s) :: u16
     in s\<lparr>crt_cursor := push_bit 8 (ucast (ucast (drop_bit 8 cursorLocation) :: u8)) OR ucast (ucast (cursorLocation AND 0xff) :: u8)\<rparr>)"

definition cls_screen :: "screen \<Rightarrow> screen" where
  "cls_screen s = set_cursor (s\<lparr>video_memory := replicate (80 * 25) blank @ drop (80 * 25) (video_memory s),
     cursor_x := 0, cursor_y := 0\<rparr>)"

definition scroll :: "screen \<Rightarrow> screen" where
  "scroll s = (if cursor_y s \<ge> 25 then
       s\<lparr>video_memory := take (24 * 80) (drop 80 (video_memory s)) @ replicate 80 blank @ drop (25 * 80) (video_memory s),
         cursor_y := 24\<rparr>
     else s)"

definition cell :: "screen \<Rightarrow> nat" where
  "cell s = unat (cursor_y s) * 80 + unat (cursor_x s)"

text \<open>\<open>char\<close> is signed: bytes from 0x80 on are below the blank and print nothing.\<close>

definition put_char_color :: "u8 \<Rightarrow> u8 \<Rightarrow> u8 \<Rightarrow> screen \<Rightarrow> screen option" where
  "put_char_color c back fore s = do {
     let attr = push_bit 4 back OR (fore AND 0x0f);
     let attribute = push_bit 8 (ucast attr);
     s \<leftarrow> (if c = 0x08 \<and> cursor_x s \<noteq> 0 then do {
             let s = s\<lparr>cursor_x := cursor_x s - 1\<rparr>;
             m \<leftarrow> wr (video_memory s) (cell s) (ucast back);
             Some (s\<lparr>video_memory := m\<rparr>)
           } else if c = 0x09 then Some (s\<lparr>cursor_x := (cursor_x s + 8) AND NOT 7\<rparr>)
           else if c = 0x0d then Some (s\<lparr>cursor_x := 0, cursor_y := cursor_y s + 1\<rparr>)
           else if c = 0x0a then Some (s\<lparr>cursor_x := 0, cursor_y := cursor_y s + 1\<rparr>)
           else if sint c \<ge> 0x20 then do {
             m \<leftarrow> wr (video_memory s) (cell s) (ucast c OR attribute);
             Some (s\<lparr>video_memory := m, cursor_x := cursor_x s + 1\<rparr>)
           } else Some s);
     let s = (if cursor_x s \<ge> 80 then s\<lparr>cursor_x := 0, cursor_y := cursor_y s + 1\<rparr> else s);
     Some (set_cursor (scroll s))
   }"

fun put_str_color :: "u8 list \<Rightarrow> u8 \<Rightarrow> u8 \<Rightarrow> screen \<Rightarrow> screen option" where
  "put_str_color [] back fore s = Some s"
| "put_str_color (c # cs) back fore s = do { s \<leftarrow> put_char_color c back fore s; put_str_color cs back fore s }"

definition put_str :: "u8 list \<Rightarrow> screen \<Rightarrow> screen option" where
  "put_str cs s = put_str_color cs rc_black rc_white s"

definition put_char :: "u8 \<Rightarrow> screen \<Rightarrow> screen option" where
  "put_char c s = put_char_color c rc_black rc_white s"

text \<open>The digits of a number, the lowest one first, and their output from the highest one on.\<close>

fun digits :: "nat \<Rightarrow> nat \<Rightarrow> nat list" where
  "digits b n = (if n = 0 \<or> b < 2 then [] else n mod b # digits b (n div b))"

declare digits.simps [simp del]

fun put_digits :: "nat list \<Rightarrow> screen \<Rightarrow> screen option" where
  "put_digits [] s = Some s"
| "put_digits (d # ds) s = do {
     s \<leftarrow> put_char_color (if d \<le> 9 then of_nat d + 0x30 else 0x41 + of_nat d - 10) rc_black rc_white s;
     put_digits ds s
   }"

definition put_int :: "u32 \<Rightarrow> screen \<Rightarrow> screen option" where
  "put_int n s = (if n = 0 then put_char_color 0x30 rc_black rc_white s else put_digits (rev (digits 16 (unat n))) s)"

definition console_write_dec :: "u32 \<Rightarrow> screen \<Rightarrow> screen option" where
  "console_write_dec n s = (if n = 0 then put_char_color 0x30 rc_black rc_white s else put_digits (rev (digits 10 (unat n))) s)"


section \<open>The screen stays in its bounds\<close>

definition screen_ok :: "screen \<Rightarrow> bool" where
  "screen_ok s \<longleftrightarrow> length (video_memory s) = 2000 \<and> cursor_x s < 80 \<and> cursor_y s < 25 \<and> unat (crt_cursor s) = cell s"

lemma set_cursor_simps [simp]:
  "video_memory (set_cursor s) = video_memory s" "cursor_x (set_cursor s) = cursor_x s" "cursor_y (set_cursor s) = cursor_y s"
  by (simp_all add: set_cursor_def Let_def)

lemma crt_set_cursor: "crt_cursor (set_cursor s) = ucast (cursor_y s) * 80 + ucast (cursor_x s)"
proof -
  have "push_bit 8 (ucast (ucast (drop_bit 8 w) :: u8)) OR ucast (ucast (w AND 0xff) :: u8) = w" for w :: u16
  proof (rule bit_word_eqI)
    fix n assume "n < LENGTH(16)"
    moreover have m: "(0xff :: u16) = mask 8" by (simp add: mask_eq_exp_minus_1)
    ultimately show "bit (push_bit 8 (ucast (ucast (drop_bit 8 w) :: u8)) OR ucast (ucast (w AND 0xff) :: u8) :: u16) n = bit w n"
      unfolding m by (auto simp: bit_simps)
  qed
  then show ?thesis by (simp add: set_cursor_def Let_def)
qed

lemma tab_stop:
  fixes x :: u8
  assumes "x < 80"
  shows "unat ((x + 8) AND NOT 7) = (unat x + 8) div 8 * 8"
proof -
  have x: "unat x < 80" using assms by (simp add: word_less_nat_alt)
  then have u: "unat (x + 8) = unat x + 8" by (simp add: unat_word_ariths)
  have tb: "take_bit 8 (unat (x + 8)) = unat (x + 8)" using x u by (simp add: take_bit_eq_mod)
  have m: "(7 :: u8) = mask 3" by (simp add: mask_eq_exp_minus_1)
  have "(x + 8) AND NOT 7 = push_bit 3 (drop_bit 3 (x + 8))"
    unfolding m by (rule bit_word_eqI) (auto simp: bit_simps)
  then have "unat ((x + 8) AND NOT 7) = take_bit 8 (push_bit 3 (drop_bit 3 (unat x + 8)))"
    using tb unfolding u [symmetric] by (simp only: unsigned_push_bit_eq unsigned_drop_bit_eq) simp
  then show ?thesis using x by (simp add: push_bit_eq_mult drop_bit_eq_div take_bit_eq_mod)
qed

lemma crt_cell:
  assumes "unat (cursor_x s) < 80" "unat (cursor_y s) < 25"
  shows "unat (crt_cursor (set_cursor s)) = cell s"
proof -
  have "unat (ucast b :: u16) = unat b" for b :: u8
  proof -
    have "unat b < 256" using unsigned_less [of b] by simp
    then show ?thesis by (simp add: unsigned_ucast_eq take_bit_eq_mod)
  qed
  then show ?thesis using assms by (simp add: crt_set_cursor cell_def unat_word_ariths)
qed

text \<open>Everything behind the first branch of \<open>put_char_color\<close>.\<close>

lemma screen_ok_finish:
  assumes "length (video_memory s) = 2000" "unat (cursor_x s) \<le> 80" "unat (cursor_y s) \<le> 25"
    and "unat (cursor_x s) = 80 \<Longrightarrow> unat (cursor_y s) < 25"
  shows "screen_ok (set_cursor (scroll (if cursor_x s \<ge> 80 then s\<lparr>cursor_x := 0, cursor_y := cursor_y s + 1\<rparr> else s)))"
proof -
  let ?t = "if cursor_x s \<ge> 80 then s\<lparr>cursor_x := 0, cursor_y := cursor_y s + 1\<rparr> else s"
  have t: "length (video_memory ?t) = 2000" "unat (cursor_x ?t) < 80" "unat (cursor_y ?t) \<le> 25"
    using assms by (auto simp: word_le_nat_alt unat_word_ariths)
  let ?u = "scroll ?t"
  have u: "length (video_memory ?u) = 2000" "unat (cursor_x ?u) < 80" "unat (cursor_y ?u) < 25"
    using t by (auto simp: scroll_def word_le_nat_alt)
  have "unat (crt_cursor (set_cursor ?u)) = cell ?u" using u(2,3) by (rule crt_cell)
  then show ?thesis using u by (simp add: screen_ok_def word_less_nat_alt cell_def)
qed

lemma put_char_color_ok:
  assumes "screen_ok s"
  shows "\<exists>s'. put_char_color c back fore s = Some s' \<and> screen_ok s'"
proof -
  have m: "length (video_memory s) = 2000" and x: "unat (cursor_x s) < 80" and y: "unat (cursor_y s) < 25"
    using assms by (simp_all add: screen_ok_def word_less_nat_alt)
  have cl: "cell s < 2000" using x y by (simp add: cell_def)
  note fin = screen_ok_finish
  consider "c = 8" "cursor_x s \<noteq> 0" | "c = 9" | "c = 13 \<or> c = 10" | "\<not> (c = 8 \<and> cursor_x s \<noteq> 0)" "c \<noteq> 9" "c \<noteq> 13" "c \<noteq> 10" "sint c \<ge> 32"
    | "\<not> (c = 8 \<and> cursor_x s \<noteq> 0)" "c \<noteq> 9" "c \<noteq> 13" "c \<noteq> 10" "\<not> sint c \<ge> 32" by blast
  then show ?thesis
  proof cases
    case 1
    let ?t = "s\<lparr>cursor_x := cursor_x s - 1\<rparr>"
    have "unat (cursor_x s - 1) = unat (cursor_x s) - 1" using 1(2) by (rule unat_minus_one)
    then have "cell ?t < 2000" "unat (cursor_x s - 1) < 80" using x y by (simp_all add: cell_def)
    then show ?thesis using 1 m y fin [of "?t\<lparr>video_memory := (video_memory s)[cell ?t := ucast back]\<rparr>"]
      by (simp add: put_char_color_def wr_def Let_def)
  next
    case 2
    have "unat ((cursor_x s + 8) AND NOT 7) \<le> 80" using tab_stop [of "cursor_x s"] x by (simp add: word_less_nat_alt)
    define z where "z = (cursor_x s + 8) AND NOT 7"
    have "put_char_color c back fore s = Some (set_cursor (scroll (let t = s\<lparr>cursor_x := z\<rparr> in
        if cursor_x t \<ge> 80 then t\<lparr>cursor_x := 0, cursor_y := cursor_y t + 1\<rparr> else t)))"
      unfolding put_char_color_def z_def using 2 by simp
    moreover have "unat z \<le> 80" unfolding z_def by fact
    ultimately show ?thesis using m y fin [of "s\<lparr>cursor_x := z\<rparr>"] by (simp add: Let_def)
  next
    case 3
    have "unat (cursor_y s + 1) \<le> 25" using y by (simp add: unat_word_ariths)
    then show ?thesis using 3 m fin [of "s\<lparr>cursor_x := 0, cursor_y := cursor_y s + 1\<rparr>"] by (auto simp: put_char_color_def)
  next
    case 4
    have "unat (cursor_x s + 1) \<le> 80" using x by (simp add: unat_word_ariths)
    then show ?thesis
      using 4 m y cl fin [of "s\<lparr>video_memory := (video_memory s)[cell s := ucast c OR push_bit 8 (ucast (push_bit 4 back OR (fore AND 0x0f)))], cursor_x := cursor_x s + 1\<rparr>"]
      by (auto simp: put_char_color_def wr_def)
  next
    case 5
    then show ?thesis using m x y fin [of s] by (auto simp: put_char_color_def)
  qed
qed

lemma put_str_color_ok:
  assumes "screen_ok s"
  shows "\<exists>s'. put_str_color cs back fore s = Some s' \<and> screen_ok s'"
  using assms
proof (induction cs arbitrary: s)
  case (Cons c cs)
  obtain t where "put_char_color c back fore s = Some t" "screen_ok t" using put_char_color_ok [OF Cons.prems] by blast
  then show ?case using Cons.IH by simp
qed simp

text \<open>
  C39. Whatever is printed, the screen stays in its bounds: every byte string is written without leaving
  the 25 lines of 80 cells, and afterwards the controller's cursor stands at the cell of \<open>cursor_x\<close>
  and \<open>cursor_y\<close>.
\<close>

theorem put_str_stays_on_screen:
  assumes "screen_ok s"
  shows "\<exists>s'. put_str_color cs back fore s = Some s' \<and> screen_ok s'"
  by (rule put_str_color_ok [OF assms])


section \<open>Numbers\<close>

lemma put_digits_str: "list_all (\<lambda>d. d < 16) ds \<Longrightarrow> put_digits ds s = put_str (map digit ds) s"
proof (induction ds arbitrary: s)
  case (Cons d ds)
  have "(if d \<le> 9 then of_nat d + 0x30 else 0x41 + of_nat d - 10) = digit d" by (simp add: digit_def)
  then show ?case using Cons by (cases "put_char_color (digit d) rc_black rc_white s") (simp_all add: put_str_def)
qed (simp add: put_str_def)

lemma itoa_digits_rev:
  assumes "0 < n" "2 \<le> b"
  shows "itoa n b = map digit (rev (digits b n))"
  using assms
proof (induction b n rule: digits.induct)
  case (1 b n)
  show ?case
  proof (cases "n div b = 0")
    case True
    then show ?thesis using "1.prems" by (simp add: itoa.simps [of n] digits.simps [of b n] digits.simps [of b 0])
  next
    case False
    then show ?thesis using 1 by (simp add: itoa.simps [of n] digits.simps [of b n])
  qed
qed

lemma digits_less: "list_all (\<lambda>d. d < b) (digits b n)"
  by (induction b n rule: digits.induct) (subst digits.simps, simp)

text \<open>
  The two functions that print numbers agree with the conversion of the formatted output: hexadecimal
  and decimal numbers appear as \<open>itoa\<close> writes them.
\<close>

theorem put_int_as_itoa:
  "put_int n s = put_str (itoa (unat n) 16) s \<and> console_write_dec n s = put_str (itoa (unat n) 10) s"
proof -
  have z: "itoa 0 b = [0x30]" if "2 \<le> b" for b using that by (simp add: itoa.simps digit_def)
  have l: "list_all (\<lambda>d. d < 16) (rev (digits 16 (unat n)))" "list_all (\<lambda>d. d < 16) (rev (digits 10 (unat n)))"
    using digits_less [of 16 "unat n"] digits_less [of 10 "unat n"] by (auto simp: list_all_iff)
  show ?thesis
  proof (cases "n = 0")
    case True
    then show ?thesis
      by (cases "put_char_color 0x30 rc_black rc_white s") (simp_all add: put_int_def console_write_dec_def z put_str_def)
  next
    case False
    then have "0 < unat n" by (simp add: unat_gt_0)
    then show ?thesis
      using False put_digits_str [OF l(1)] put_digits_str [OF l(2)] itoa_digits_rev [of "unat n" 16] itoa_digits_rev [of "unat n" 10]
      by (simp add: put_int_def console_write_dec_def)
  qed
qed


section \<open>Witness\<close>

definition sample_screen :: screen where
  "sample_screen = \<lparr>video_memory = replicate 2000 blank, cursor_x = 79, cursor_y = 24, crt_cursor = 1999\<rparr>"

lemma put_str_stays_on_screen_witness:
  "\<exists>s'. put_str_color (str ''tiny'') 0 15 sample_screen = Some s' \<and> screen_ok s'"
  by (rule put_str_stays_on_screen) (simp add: screen_ok_def sample_screen_def cell_def)

end
