(* ===== verification/Heap_Avail.thy ===== *)
theory Heap_Avail
  imports Heap
begin

text \<open>
  When the heap of \<^verbatim>\<open>kernel/memory.c\<close> serves a request: \<open>sys_malloc\<close> and \<open>sys_free\<close> return, and
  what they leave behind.  The file system, which allocates its buffers on the heap, relies on these
  lemmas for its own results.
\<close>

section \<open>Locks around a critical section\<close>

lemma lock_take_unheld:
  assumes "lock_free s l" "running s \<noteq> 0"
  shows "lock_take l s = Some (held s l 1)"
proof -
  have "holder (locks s l) \<noteq> running s" using assms by (simp add: lock_free_def)
  then show ?thesis using lock_take_free [of s l] assms(1) by (simp add: lock_free_def held_def)
qed

lemma lock_release_held:
  assumes f: "lock_free s l" and t: "locks t = locks (held s l 1)" "running t = running s"
  shows "lock_release l t = Some (t\<lparr>locks := locks s\<rparr>)"
proof -
  have l: "locks t l = (locks s l)\<lparr>sem_value := 0, holder := running s, holder_repeat_nr := 1\<rparr>"
    using t(1) by (simp add: held_def upd_lock_def)
  have "(locks t)(l := (locks t l)\<lparr>sem_value := 1, holder := 0, holder_repeat_nr := 0\<rparr>) = locks s"
  proof
    fix k
    show "((locks t)(l := (locks t l)\<lparr>sem_value := 1, holder := 0, holder_repeat_nr := 0\<rparr>)) k = locks s k"
      using f t(1) l lock_same [of "locks s l" 1 0 0] by (simp add: held_def upd_lock_def lock_free_def lock_swap)
  qed
  then show ?thesis
    using lock_release_last [of t l] l t(2) f by (simp add: lock_free_def upd_lock_def)
qed


section \<open>Writing memory that holds no page tables\<close>

definition data_frame :: "kernel \<Rightarrow> u32 \<Rightarrow> bool" where
  "data_frame s f \<longleftrightarrow> page_frame (cr3 s) \<noteq> f \<and> (\<forall>v. present (pde_of s v) \<longrightarrow> page_frame (pde_of s v) \<noteq> f)"

definition writable :: "kernel \<Rightarrow> u32 \<Rightarrow> nat \<Rightarrow> bool" where
  "writable s b n \<longleftrightarrow> (\<forall>j < n. \<exists>p. translate s (b + of_nat (4 * j)) = Some p \<and> data_frame s (page_frame p))"

definition same_map :: "kernel \<Rightarrow> kernel \<Rightarrow> bool" where
  "same_map s t \<longleftrightarrow> translate t = translate s \<and> data_frame t = data_frame s"

lemma same_map_refl [simp]: "same_map s s"
  by (simp add: same_map_def)

lemma same_map_trans: "same_map s t \<Longrightarrow> same_map t u \<Longrightarrow> same_map s u"
  by (simp add: same_map_def)

lemma same_map_writable: "same_map s t \<Longrightarrow> writable t b n = writable s b n"
  by (simp add: same_map_def writable_def)

lemma same_mapI: "phys t = phys s \<Longrightarrow> cr3 t = cr3 s \<Longrightarrow> same_map s t"
  by (simp add: same_map_def fun_eq_iff translate_def data_frame_def pde_of_def pte_addr_def)

lemma data_store:
  assumes p: "translate s v = Some p" and d: "data_frame s (page_frame p)"
  shows "store s v w = Some (s\<lparr>phys := (phys s)(p := w)\<rparr>)" "same_map s (s\<lparr>phys := (phys s)(p := w)\<rparr>)"
proof -
  let ?t = "s\<lparr>phys := (phys s)(p := w)\<rparr>"
  show "store s v w = Some ?t" by (simp add: store_def p)
  have n: "page_frame (cr3 s) + PDE_IDX u * 4 \<noteq> p" for u
    using d page_frame_entry [OF PDE_IDX_small, of "cr3 s" u] by (auto simp: data_frame_def)
  have pde: "pde_of ?t u = pde_of s u" for u using n [of u] by (simp add: pde_of_def)
  have "pte_addr s u \<noteq> p" if "present (pde_of s u)" for u
    using d that page_frame_pte_addr [of s u] by (auto simp: data_frame_def)
  then have "translate ?t u = translate s u" for u
    by (cases "present (pde_of s u)") (auto simp: translate_def pde pte_addr_def)
  then show "same_map s ?t" by (simp add: same_map_def fun_eq_iff data_frame_def pde)
qed

lemma clear_words_writable:
  "writable s b n \<Longrightarrow> \<exists>m. clear_words b n s = Some (s\<lparr>phys := m\<rparr>) \<and> same_map s (s\<lparr>phys := m\<rparr>)"
proof (induction n arbitrary: s b)
  case 0
  show ?case by (rule exI [of _ "phys s"]) simp
next
  case (Suc n)
  obtain p where p: "translate s b = Some p" "data_frame s (page_frame p)"
    using Suc.prems by (auto simp: writable_def dest: spec [of _ 0])
  let ?t = "s\<lparr>phys := (phys s)(p := 0)\<rparr>"
  note st = data_store [OF p, of 0]
  have "writable s (b + 4) n" unfolding writable_def
  proof (intro allI impI)
    fix j assume "j < n"
    then show "\<exists>p. translate s (b + 4 + of_nat (4 * j)) = Some p \<and> data_frame s (page_frame p)"
      using Suc.prems unfolding writable_def by (auto simp: add.assoc dest!: spec [of _ "Suc j"])
  qed
  then obtain m where "clear_words (b + 4) n ?t = Some (?t\<lparr>phys := m\<rparr>)" "same_map ?t (?t\<lparr>phys := m\<rparr>)"
    using Suc.IH [of ?t "b + 4"] same_map_writable [OF st(2)] by blast
  then show ?case using st same_map_trans by (intro exI [of _ m]) (auto simp: same_map_def)
qed


section \<open>Requests that are served\<close>

text \<open>The kernel after a block of class \<open>i\<close> has been taken from, or put back on, the free list.\<close>

definition took :: "nat \<Rightarrow> u32 \<Rightarrow> (u32 \<Rightarrow> u32) \<Rightarrow> kernel \<Rightarrow> kernel" where
  "took i b m s = upd_arena (block2arena b) (\<lambda>x. x\<lparr>arena_cnt := arena_cnt x - 1\<rparr>)
     (set_descs ((get_descs s)[i := (get_descs s ! i)\<lparr>free_list := tl (free_list (get_descs s ! i))\<rparr>]) (s\<lparr>phys := m\<rparr>))"

definition gave :: "nat \<Rightarrow> u32 \<Rightarrow> kernel \<Rightarrow> kernel" where
  "gave i b s = upd_arena (block2arena b) (\<lambda>x. x\<lparr>arena_cnt := arena_cnt x + 1\<rparr>)
     (set_descs ((get_descs s)[i := (get_descs s ! i)\<lparr>free_list := free_list (get_descs s ! i) @ [b]\<rparr>]) s)"

lemma held_heap [simp]:
  "heap_flags (held s l n) = heap_flags s" "get_descs (held s l n) = get_descs s" "arenas (held s l n) = arenas s"
  "running (held s l n) = running s" "phys (held s l n) = phys s" "cr3 (held s l n) = cr3 s"
  by (simp_all add: held_def upd_lock_def heap_flags_def get_descs_def cur_task_def running_thread_def)

lemma set_descs_frame [simp]:
  "locks (set_descs ds s) = locks s" "running (set_descs ds s) = running s" "phys (set_descs ds s) = phys s"
  "cr3 (set_descs ds s) = cr3 s"
  by (simp_all add: set_descs_def)

lemma upd_arena_frame2 [simp]:
  "locks (upd_arena a f s) = locks s" "running (upd_arena a f s) = running s" "phys (upd_arena a f s) = phys s"
  "cr3 (upd_arena a f s) = cr3 s"
  by (simp_all add: upd_arena_def)

lemma phys_upd_heap [simp]:
  "heap_flags (s\<lparr>phys := m\<rparr>) = heap_flags s" "get_descs (s\<lparr>phys := m\<rparr>) = get_descs s"
  by (simp_all add: heap_flags_def get_descs_def cur_task_def running_thread_def)


lemma sys_malloc_serves:
  assumes lock: "lock_free s (pool_lock (heap_flags s))" "running s \<noteq> 0"
    and sz: "0 < sz" "sz \<le> 1024" "sz < unat (pool_size (get_pool (heap_flags s) s))"
    and i: "find_desc sz (get_descs s) = i" "i < length (get_descs s)"
    and f: "free_list (get_descs s ! i) = b # F"
    and w: "writable s b (block_size (get_descs s ! i) div 4)"
  shows "\<exists>m. sys_malloc sz s = Some (took i b m s, b) \<and> same_map s (s\<lparr>phys := m\<rparr>)"
proof -
  let ?l = "pool_lock (heap_flags s)" and ?d = "get_descs s ! i"
  let ?h = "held s ?l 1"
  let ?t = "set_descs ((get_descs s)[i := ?d\<lparr>free_list := F\<rparr>]) ?h"
  have lk: "lock_take ?l s = Some ?h" by (rule lock_take_unheld [OF lock])
  have u: "upd_free_list i tl ?h = Some ?t" using i(2) f by (simp add: upd_free_list_Some)
  have "same_map s ?t" by (rule same_mapI) simp_all
  then obtain m where m: "clear_words b (block_size ?d div 4) ?t = Some (?t\<lparr>phys := m\<rparr>)" "same_map ?t (?t\<lparr>phys := m\<rparr>)"
    using clear_words_writable [of ?t] w same_map_writable by blast
  let ?v = "upd_arena (block2arena b) (\<lambda>x. x\<lparr>arena_cnt := arena_cnt x - 1\<rparr>) (?t\<lparr>phys := m\<rparr>)"
  have rel: "lock_release ?l ?v = Some (?v\<lparr>locks := locks s\<rparr>)" by (rule lock_release_held [OF lock(1)]) simp_all
  have v: "?v\<lparr>locks := locks s\<rparr> = took i b m s"
    unfolding took_def f by (simp add: upd_arena_def set_descs_def held_def upd_lock_def upd_task_def heap_flags_def
        cur_task_def running_thread_def)
  have "take_block (heap_flags s) i ?h = Some (took i b m s, b)"
    using i(2) f u m(1) rel v by (simp add: take_block_def Let_def)
  then have "sys_malloc sz s = Some (took i b m s, b)"
    using sz lk i f by (simp add: sys_malloc_def Let_def)
  moreover have "same_map s (s\<lparr>phys := m\<rparr>)"
    using same_map_trans [OF \<open>same_map s ?t\<close> m(2)] same_mapI [of "s\<lparr>phys := m\<rparr>" "?t\<lparr>phys := m\<rparr>"]
    by (simp add: same_map_def)
  ultimately show ?thesis by blast
qed

lemma sys_free_serves:
  assumes lock: "lock_free s (pool_lock (heap_flags s))" "running s \<noteq> 0"
    and b: "b \<noteq> 0" "heap_flags s = PF_KERNEL \<Longrightarrow> K_HEAP_START \<le> b"
    and i: "desc (arenas s (block2arena b)) = Some i" "i < length (get_descs s)"
    and c: "arena_cnt (arenas s (block2arena b)) + 1 \<noteq> block_per_arena (get_descs s ! i)"
  shows "sys_free b s = Some (gave i b s)"
proof -
  let ?l = "pool_lock (heap_flags s)" and ?d = "get_descs s ! i"
  let ?h = "held s ?l 1"
  let ?t = "set_descs ((get_descs s)[i := ?d\<lparr>free_list := free_list ?d @ [b]\<rparr>]) ?h"
  let ?v = "upd_arena (block2arena b) (\<lambda>x. x\<lparr>arena_cnt := arena_cnt x + 1\<rparr>) ?t"
  have lk: "lock_take ?l s = Some ?h" by (rule lock_take_unheld [OF lock])
  have u: "upd_free_list i (\<lambda>l. l @ [b]) ?h = Some ?t" using i(2) by (simp add: upd_free_list_Some)
  have rel: "lock_release ?l ?v = Some (?v\<lparr>locks := locks s\<rparr>)" by (rule lock_release_held [OF lock(1)]) simp_all
  have v: "?v\<lparr>locks := locks s\<rparr> = gave i b s"
    unfolding gave_def by (simp add: upd_arena_def set_descs_def held_def upd_lock_def upd_task_def heap_flags_def
        cur_task_def running_thread_def)
  have "ASSERT (heap_flags s = PF_KERNEL \<longrightarrow> K_HEAP_START \<le> b) = Some ()" using b(2) by simp
  then show ?thesis using b(1) lk i u c rel v by (simp add: sys_free_def Let_def)
qed


section \<open>Buffers that are borrowed\<close>

text \<open>
  The routines of the file system take two buffers of different classes and give them back in the
  reverse order.  With a free block of each class, in arenas that keep another block in use, they are
  served, and the heap ends as it began up to the order of two free lists.
\<close>

definition ready_class :: "kernel \<Rightarrow> nat \<Rightarrow> bool" where
  "ready_class s i \<longleftrightarrow> i < length (get_descs s) \<and> free_list (get_descs s ! i) \<noteq> [] \<and>
     (\<forall>b \<in> set (free_list (get_descs s ! i)). b \<noteq> 0 \<and> (heap_flags s = PF_KERNEL \<longrightarrow> K_HEAP_START \<le> b) \<and>
        writable s b (block_size (get_descs s ! i) div 4) \<and> desc (arenas s (block2arena b)) = Some i \<and>
        0 < arena_cnt (arenas s (block2arena b)) \<and>
        arena_cnt (arenas s (block2arena b)) \<noteq> block_per_arena (get_descs s ! i))"

definition heap_ready :: "kernel \<Rightarrow> bool" where
  "heap_ready s \<longleftrightarrow> lock_free s (pool_lock (heap_flags s)) \<and> running s \<noteq> 0 \<and>
     1024 < unat (pool_size (get_pool (heap_flags s) s)) \<and>
     find_desc 512 (get_descs s) = 5 \<and> find_desc 560 (get_descs s) = 6 \<and> ready_class s 5 \<and> ready_class s 6"

text \<open>The same kernel but for the order of the free lists and the contents of the blocks.\<close>

definition borrowed :: "kernel \<Rightarrow> kernel \<Rightarrow> bool" where
  "borrowed s t \<longleftrightarrow> locks t = locks s \<and> running t = running s \<and> heap_ready t"

lemma set_descs_pool [simp]: "get_pool pf (set_descs ds s) = get_pool pf s"
  by (simp add: set_descs_def get_pool_def)

lemma upd_arena_pool [simp]: "get_pool pf (upd_arena a f s) = get_pool pf s"
  by (simp add: upd_arena_def get_pool_def)

lemma phys_upd_pool [simp]: "get_pool pf (s\<lparr>phys := m\<rparr>) = get_pool pf s"
  by (simp add: get_pool_def)

lemma took_frame [simp]:
  "locks (took i b m s) = locks s" "running (took i b m s) = running s" "heap_flags (took i b m s) = heap_flags s"
  "get_pool pf (took i b m s) = get_pool pf s" "phys (took i b m s) = m" "cr3 (took i b m s) = cr3 s"
  "get_descs (took i b m s) = (get_descs s)[i := (get_descs s ! i)\<lparr>free_list := tl (free_list (get_descs s ! i))\<rparr>]"
  "arenas (took i b m s) = (arenas s)(block2arena b := (arenas s (block2arena b))\<lparr>arena_cnt := arena_cnt (arenas s (block2arena b)) - 1\<rparr>)"
  by (simp_all add: took_def)

lemma gave_frame [simp]:
  "locks (gave i b s) = locks s" "running (gave i b s) = running s" "heap_flags (gave i b s) = heap_flags s"
  "get_pool pf (gave i b s) = get_pool pf s" "phys (gave i b s) = phys s" "cr3 (gave i b s) = cr3 s"
  "get_descs (gave i b s) = (get_descs s)[i := (get_descs s ! i)\<lparr>free_list := free_list (get_descs s ! i) @ [b]\<rparr>]"
  "arenas (gave i b s) = (arenas s)(block2arena b := (arenas s (block2arena b))\<lparr>arena_cnt := arena_cnt (arenas s (block2arena b)) + 1\<rparr>)"
  by (simp_all add: gave_def)

lemma find_desc_cong: "map block_size ds = map block_size es \<Longrightarrow> find_desc n ds = find_desc n es"
  by (induction ds es rule: list_induct2') auto

lemma sizes_upd: "i < length ds \<Longrightarrow> (map block_size ds)[i := block_size (ds ! i)] = map block_size ds"
  using list_update_id [of "map block_size ds" i] by simp

lemma lock_free_same: "locks t = locks s \<Longrightarrow> lock_free t l = lock_free s l"
  by (simp add: lock_free_def)

lemma ready_classD:
  assumes "ready_class s i" "b \<in> set (free_list (get_descs s ! i))"
  shows "b \<noteq> 0" "heap_flags s = PF_KERNEL \<Longrightarrow> K_HEAP_START \<le> b" "writable s b (block_size (get_descs s ! i) div 4)"
    "desc (arenas s (block2arena b)) = Some i" "0 < arena_cnt (arenas s (block2arena b))"
    "arena_cnt (arenas s (block2arena b)) \<noteq> block_per_arena (get_descs s ! i)"
  using assms by (auto simp: ready_class_def)

lemma ready_class_same:
  assumes "ready_class s i" "get_descs t ! i = (get_descs s ! i)\<lparr>free_list := F\<rparr>" "set F = set (free_list (get_descs s ! i))"
    "length (get_descs t) = length (get_descs s)" "heap_flags t = heap_flags s" "same_map s t" "arenas t = arenas s"
  shows "ready_class t i"
  using assms same_map_writable [OF assms(6)] by (auto simp: ready_class_def)

lemma borrow_two:
  assumes r: "heap_ready s" and ij: "(sz1 :: nat, i :: nat, sz2 :: nat, j :: nat) \<in> {(512, 5, 560, 6), (560, 6, 512, 5)}"
  obtains s1 b1 s2 b2 s3 s4 where
    "sys_malloc sz1 s = Some (s1, b1)" "b1 \<noteq> 0" "sys_malloc sz2 s1 = Some (s2, b2)" "b2 \<noteq> 0"
    "sys_free b2 s2 = Some s3" "sys_free b1 s3 = Some s4" "borrowed s s4"
    "locks s1 = locks s" "running s1 = running s" "locks s2 = locks s" "running s2 = running s"
proof -
  let ?ds = "get_descs s"
  have ne: "i \<noteq> j" and sz: "0 < sz1" "sz1 \<le> 1024" "0 < sz2" "sz2 \<le> 1024" using ij by auto
  have pool: "1024 < unat (pool_size (get_pool (heap_flags s) s))" using r by (simp add: heap_ready_def)
  have fd: "find_desc sz1 ?ds = i" "find_desc sz2 ?ds = j" and rc: "ready_class s i" "ready_class s j"
    using r ij by (auto simp: heap_ready_def)
  have lk: "lock_free s (pool_lock (heap_flags s))" "running s \<noteq> 0" using r by (simp_all add: heap_ready_def)
  have len: "i < length ?ds" "j < length ?ds" using rc by (simp_all add: ready_class_def)
  obtain b1 F1 where f1: "free_list (?ds ! i) = b1 # F1" using rc(1) by (cases "free_list (?ds ! i)") (auto simp: ready_class_def)
  obtain b2 F2 where f2: "free_list (?ds ! j) = b2 # F2" using rc(2) by (cases "free_list (?ds ! j)") (auto simp: ready_class_def)
  have in1: "b1 \<in> set (free_list (?ds ! i))" and in2: "b2 \<in> set (free_list (?ds ! j))" by (simp_all add: f1 f2)
  note c1 = ready_classD [OF rc(1) in1] and c2 = ready_classD [OF rc(2) in2]
  have apart: "block2arena b1 \<noteq> block2arena b2" using c1(4) c2(4) ne by auto
  obtain m1 where m1: "sys_malloc sz1 s = Some (took i b1 m1 s, b1)" "same_map s (s\<lparr>phys := m1\<rparr>)"
    using sys_malloc_serves [OF lk sz(1,2) _ fd(1) len(1) f1 c1(3)] sz(2) pool by auto
  let ?s1 = "took i b1 m1 s"
  have sm1: "same_map s ?s1" using same_map_trans [OF m1(2)] same_mapI [of ?s1 "s\<lparr>phys := m1\<rparr>"] by simp
  have "\<exists>m2. sys_malloc sz2 ?s1 = Some (took j b2 m2 ?s1, b2) \<and> same_map ?s1 (?s1\<lparr>phys := m2\<rparr>)"
  proof (rule sys_malloc_serves)
    show "lock_free ?s1 (pool_lock (heap_flags ?s1))" using lk(1) lock_free_same [of ?s1 s] by simp
    show "free_list (get_descs ?s1 ! j) = b2 # F2" using ne f2 by simp
    show "writable ?s1 b2 (block_size (get_descs ?s1 ! j) div 4)" using c2(3) ne same_map_writable [OF sm1] by simp
    show "find_desc sz2 (get_descs ?s1) = j"
      using find_desc_cong [of "get_descs ?s1" ?ds] fd(2) by (simp add: map_update sizes_upd len)
  qed (use lk sz pool len in simp_all)
  then obtain m2 where m2: "sys_malloc sz2 ?s1 = Some (took j b2 m2 ?s1, b2)" "same_map ?s1 (?s1\<lparr>phys := m2\<rparr>)" by blast
  let ?s2 = "took j b2 m2 ?s1"
  have sm2: "same_map ?s1 ?s2" using same_map_trans [OF m2(2)] same_mapI [of ?s2 "?s1\<lparr>phys := m2\<rparr>"] by simp
  have g2: "sys_free b2 ?s2 = Some (gave j b2 ?s2)"
    by (rule sys_free_serves) (use lk lock_free_same [of ?s2 s] c2 apart len ne in simp_all)
  let ?s3 = "gave j b2 ?s2"
  have ar3: "arenas ?s3 (block2arena b1) = arenas ?s1 (block2arena b1)" using apart by simp
  have g1: "sys_free b1 ?s3 = Some (gave i b1 ?s3)"
    by (rule sys_free_serves) (use lk lock_free_same [of ?s3 s] c1 ar3 len ne in simp_all)
  let ?s4 = "gave i b1 ?s3"
  have ar4: "arenas ?s4 = arenas s" using c1(5) c2(5) apart by (auto simp: fun_eq_iff)
  have "same_map ?s2 ?s4" by (rule same_mapI) simp_all
  then have sm4: "same_map s ?s4" using same_map_trans [OF sm1 same_map_trans [OF sm2]] by blast
  have di: "get_descs ?s4 ! i = (?ds ! i)\<lparr>free_list := F1 @ [b1]\<rparr>" and dj: "get_descs ?s4 ! j = (?ds ! j)\<lparr>free_list := F2 @ [b2]\<rparr>"
    using ne len f1 f2 by simp_all
  have "ready_class ?s4 i" by (rule ready_class_same [OF rc(1) di]) (use f1 ar4 sm4 in auto)
  moreover have "ready_class ?s4 j" by (rule ready_class_same [OF rc(2) dj]) (use f2 ar4 sm4 in auto)
  moreover have "find_desc n (get_descs ?s4) = find_desc n ?ds" for n
    by (rule find_desc_cong) (use len ne in \<open>simp add: map_update sizes_upd\<close>)
  ultimately have "heap_ready ?s4"
    using r ij lock_free_same [of ?s4 s] by (auto simp: heap_ready_def)
  then show thesis by (intro that [OF m1(1) c1(1) m2(1) c2(1) g2 g1]) (simp_all add: borrowed_def)
qed

lemma borrow_one:
  assumes r: "heap_ready s"
  obtains s1 b s2 where "sys_malloc 512 s = Some (s1, b)" "b \<noteq> 0" "sys_free b s1 = Some s2" "borrowed s s2"
    "locks s1 = locks s" "running s1 = running s"
proof -
  let ?ds = "get_descs s"
  have pool: "1024 < unat (pool_size (get_pool (heap_flags s) s))" and fd: "find_desc 512 ?ds = 5"
    and rc: "ready_class s 5" "ready_class s 6" and lk: "lock_free s (pool_lock (heap_flags s))" "running s \<noteq> 0"
    using r by (simp_all add: heap_ready_def)
  have len: "5 < length ?ds" "6 < length ?ds" using rc by (simp_all add: ready_class_def)
  obtain b F where f: "free_list (?ds ! 5) = b # F" using rc(1) by (cases "free_list (?ds ! 5)") (auto simp: ready_class_def)
  have "b \<in> set (free_list (?ds ! 5))" by (simp add: f)
  note c = ready_classD [OF rc(1) this]
  obtain m where m: "sys_malloc 512 s = Some (took 5 b m s, b)" "same_map s (s\<lparr>phys := m\<rparr>)"
    using sys_malloc_serves [OF lk _ _ _ fd len(1) f c(3)] pool by auto
  let ?s1 = "took 5 b m s"
  have g: "sys_free b ?s1 = Some (gave 5 b ?s1)"
    by (rule sys_free_serves) (use lk lock_free_same [of ?s1 s] c len in simp_all)
  let ?s2 = "gave 5 b ?s1"
  have ar: "arenas ?s2 = arenas s" using c(5) by (auto simp: fun_eq_iff)
  have sm: "same_map s ?s2" using same_map_trans [OF m(2)] same_mapI [of ?s2 "s\<lparr>phys := m\<rparr>"] by simp
  have "ready_class ?s2 5" by (rule ready_class_same [OF rc(1), where F = "F @ [b]"]) (use len f ar sm in auto)
  moreover have "ready_class ?s2 6" by (rule ready_class_same [OF rc(2), where F = "free_list (?ds ! 6)"]) (use len ar sm in auto)
  moreover have "find_desc n (get_descs ?s2) = find_desc n ?ds" for n
    by (rule find_desc_cong) (use len in \<open>simp add: map_update sizes_upd\<close>)
  ultimately have "heap_ready ?s2" using r lock_free_same [of ?s2 s] by (auto simp: heap_ready_def)
  then show thesis by (intro that [OF m(1) c(1) g]) (simp_all add: borrowed_def)
qed

section \<open>A heap that serves\<close>

lemma translate_in_page:
  assumes "page_frame w = page_frame v" "translate s v = Some p"
  shows "\<exists>q. translate s w = Some q \<and> page_frame q = page_frame p"
proof -
  have i: "PDE_IDX w = PDE_IDX v" "PTE_IDX w = PTE_IDX v" using assms(1) idx_eq_frame by blast+
  then have "pde_of s w = pde_of s v" "pte_addr s w = pte_addr s v" by (simp_all add: pde_of_def pte_addr_def)
  then show ?thesis using assms(2) by (auto simp: translate_def page_frame_offset split: if_splits)
qed

text \<open>A block inside of a page that is mapped to data.\<close>

lemma writable_page:
  assumes p: "translate s b = Some p" and d: "data_frame s (page_frame p)" and n: "unat b mod 4096 + 4 * n \<le> 4096"
  shows "writable s b n"
  unfolding writable_def
proof (intro allI impI)
  fix j assume j: "j < n"
  have o: "unat b mod 4096 + 4 * j < 4096" using n j by simp
  have "unat b div 4096 * 4096 + 4096 \<le> 4294967296" using unat_less_2p32 [of b] by (simp add: div_less_iff_less_mult less_eq_div_iff_mult_less_eq)
  then have lt: "unat b + 4 * j < 4294967296" using o div_mult_mod_eq [of "unat b" 4096] by linarith
  then have "unat (of_nat (4 * j) :: u32) = 4 * j" by (subst unat_of_nat) simp
  then have u: "unat (b + of_nat (4 * j)) = unat b + 4 * j" using unat_add_small lt by simp
  have "unat b + 4 * j = unat b mod 4096 + 4 * j + unat b div 4096 * 4096" using div_mult_mod_eq [of "unat b" 4096] by linarith
  then have "(unat b + 4 * j) div 4096 = (unat b mod 4096 + 4 * j) div 4096 + unat b div 4096"
    by (metis add.commute div_mult_self1 zero_neq_numeral)
  then have "(unat b + 4 * j) div 4096 = unat b div 4096" using o by simp
  then have "page_frame (b + of_nat (4 * j)) = page_frame b"
    using u by (simp add: word_unat_eq_iff unat_page_frame)
  then show "\<exists>q. translate s (b + of_nat (4 * j)) = Some q \<and> data_frame s (page_frame q)"
    using translate_in_page [OF _ p] d by metis
qed

text \<open>Two arenas, of 512-byte and of 1024-byte blocks, each with one free block and one in use; the disk is idle.\<close>

definition sample_buffers :: kernel where
  "sample_buffers = sample_kernel\<lparr>
     locks := (locks sample_kernel)(DiskDone 0 := (locks sample_kernel (DiskDone 0))\<lparr>sem_value := 0\<rparr>),
     phys := (phys sample_kernel)(0x100c00 := 0x101007, 0x101400 := 0x208007, 0x101404 := 0x209007),
     k_block_descs := map (\<lambda>i. \<lparr>block_size = 16 * 2 ^ i, block_per_arena = 3,
        free_list = (if i = 5 then [0xc010000c] else if i = 6 then [0xc010100c] else [])\<rparr>) [0..<7],
     arenas := (arenas sample_kernel)(0xc0100000 := \<lparr>desc = Some 5, arena_cnt = 2, large = False\<rparr>,
        0xc0101000 := \<lparr>desc = Some 6, arena_cnt = 2, large = False\<rparr>)\<rparr>"

lemma sample_buffers_pde:
  "pde_of sample_buffers v = (if PDE_IDX v = 768 then 0x101007 else if PDE_IDX v = 1023 then 0x100007 else 0)"
proof -
  have "page_frame 0x100000 + PDE_IDX v * 4 = page_frame 0x100000 + 768 * 4 \<longleftrightarrow> PDE_IDX v = 768"
    "page_frame 0x100000 + PDE_IDX v * 4 = page_frame 0x100000 + 1023 * 4 \<longleftrightarrow> PDE_IDX v = 1023"
    "page_frame 0x100000 + PDE_IDX v * 4 = page_frame 0x101000 + 256 * 4 \<longleftrightarrow> False"
    "page_frame 0x100000 + PDE_IDX v * 4 = page_frame 0x101000 + 257 * 4 \<longleftrightarrow> False"
    by (subst entry_inj; simp add: PDE_IDX_small page_frame_def)+
  then show ?thesis by (simp add: pde_of_def sample_buffers_def sample_kernel_def page_frame_def)
qed

lemma sample_buffers_data: "data_frame sample_buffers 0x208000" "data_frame sample_buffers 0x209000"
  unfolding data_frame_def sample_buffers_pde
  by (simp_all add: present_def page_frame_def) (simp_all add: sample_buffers_def sample_kernel_def)

lemma sample_buffers_ready: "heap_ready sample_buffers"
proof -
  have tr: "translate sample_buffers 0xc010000c = Some 0x20800c" "translate sample_buffers 0xc010100c = Some 0x20900c" by code_simp+
  have w: "writable sample_buffers 0xc010000c 128" "writable sample_buffers 0xc010100c 256"
    by (rule writable_page [OF tr(1)] writable_page [OF tr(2)]; use sample_buffers_data in \<open>simp add: page_frame_def\<close>)+
  have f: "heap_flags sample_buffers = PF_KERNEL"
    by (simp add: heap_flags_def sample_buffers_def sample_kernel_def cur_task_def sample_task_def)
  have g: "get_descs sample_buffers = map (\<lambda>i. \<lparr>block_size = 16 * 2 ^ i, block_per_arena = 3,
        free_list = (if i = 5 then [0xc010000c] else if i = 6 then [0xc010100c] else [])\<rparr>) [0..<7]"
    unfolding get_descs_def f by (simp add: sample_buffers_def)
  have a: "block2arena 0xc010000c = 0xc0100000" "block2arena 0xc010100c = 0xc0101000" by code_simp+
  have "ready_class sample_buffers 5" "ready_class sample_buffers 6"
    unfolding ready_class_def f g a using w by (simp_all add: a K_HEAP_START_def) (simp_all add: sample_buffers_def)
  moreover have "find_desc 512 (get_descs sample_buffers) = 5" "find_desc 560 (get_descs sample_buffers) = 6"
    unfolding g by code_simp+
  moreover have "lock_free sample_buffers (pool_lock PF_KERNEL)" "running sample_buffers \<noteq> 0"
    "unat (pool_size (get_pool PF_KERNEL sample_buffers)) = 0x8000"
    by (simp_all add: lock_free_def pool_lock_def sample_buffers_def sample_kernel_def get_pool_def)
  ultimately show ?thesis unfolding heap_ready_def f by simp
qed

end
