(* ===== verification/Fs_Data.thy ===== *)
theory Fs_Data
  imports Ioqueue Print Heap_Avail
begin

text \<open>
  The data of the disk driver and the file system: \<^verbatim>\<open>device/ide.h\<close>, \<^verbatim>\<open>fs/fs.h\<close>, \<^verbatim>\<open>fs/inode.h\<close>,
  \<^verbatim>\<open>fs/super_block.h\<close>, \<^verbatim>\<open>fs/dir.h\<close> and \<^verbatim>\<open>fs/file.h\<close>, their layout in bytes, and the machine of
  which they are part.

  Sector numbers, sizes and positions are 32-bit fields kept as \<open>nat\<close>; \<open>w32\<close> is written where the C
  expression can leave the range.
\<close>

section \<open>Little-endian words\<close>

definition w32 :: "nat \<Rightarrow> nat" where
  "w32 n = n mod 2 ^ 32"

definition sub32 :: "nat \<Rightarrow> nat \<Rightarrow> nat" where
  "sub32 a b = (if b \<le> a then a - b else w32 (a + 2 ^ 32 - b))"

lemma w32_small [simp]: "n < 2 ^ 32 \<Longrightarrow> w32 n = n"
  by (simp add: w32_def)

lemma sub32_le [simp]: "b \<le> a \<Longrightarrow> sub32 a b = a - b"
  by (simp add: sub32_def)

definition put32 :: "nat \<Rightarrow> u8 list" where
  "put32 n = [of_nat n, of_nat (n div 2 ^ 8), of_nat (n div 2 ^ 16), of_nat (n div 2 ^ 24)]"

fun get32 :: "u8 list \<Rightarrow> nat" where
  "get32 (a # b # c # d # bs) = unat a + 2 ^ 8 * unat b + 2 ^ 16 * unat c + 2 ^ 24 * unat d"
| "get32 bs = 0"

fun get_words :: "nat \<Rightarrow> u8 list \<Rightarrow> nat list" where
  "get_words 0 bs = []"
| "get_words (Suc n) bs = get32 bs # get_words n (drop 4 bs)"

definition put_words :: "nat list \<Rightarrow> u8 list" where
  "put_words ws = concat (map put32 ws)"

lemma length_put32 [simp]: "length (put32 n) = 4"
  by (simp add: put32_def)

lemma length_put_words [simp]: "length (put_words ws) = 4 * length ws"
  by (induction ws) (simp_all add: put_words_def)

lemma put_words_append: "put_words (xs @ ys) = put_words xs @ put_words ys"
  by (simp add: put_words_def)

lemma length_get_words [simp]: "length (get_words n bs) = n"
  by (induction n arbitrary: bs) simp_all

lemma get32_put32 [simp]: "n < 2 ^ 32 \<Longrightarrow> get32 (put32 n @ bs) = n"
proof -
  assume n: "n < 2 ^ 32"
  have h: "n = n mod 256 + 256 * (n div 256 mod 256 + 256 * (n div 65536 mod 256 + 256 * (n div 16777216)))"
    by (simp add: div_mult2_eq [of n 256 256, simplified] div_mult2_eq [of n 65536 256, simplified])
  have "n div 16777216 < 256" using n by (simp add: div_less_iff_less_mult)
  then have "n div 16777216 mod 256 = n div 16777216" by simp
  then show ?thesis using h by (simp add: put32_def unat_of_nat)
qed

lemma get32_less: "get32 bs < 2 ^ 32"
proof (cases bs rule: get32.cases)
  case (1 a b c d r)
  have "unat a < 256" "unat b < 256" "unat c < 256" "unat d < 256"
    using unsigned_less [of a] unsigned_less [of b] unsigned_less [of c] unsigned_less [of d] by simp_all
  then show ?thesis using 1 by simp
qed simp_all

lemma drop_put32 [simp]: "drop 4 (put32 n @ bs) = bs"
  by (simp add: put32_def)

lemma get_put_words [simp]:
  "list_all (\<lambda>w. w < 2 ^ 32) ws \<Longrightarrow> get_words (length ws) (put_words ws @ bs) = ws"
  by (induction ws) (simp_all add: put_words_def)

lemma get_words_take: "4 * n \<le> k \<Longrightarrow> get_words n (take k bs) = get_words n bs"
proof (induction n arbitrary: k bs)
  case (Suc n)
  have "get32 (take k bs) = get32 bs"
  proof (cases bs rule: get32.cases)
    case (1 a b c d r)
    have "k = Suc (Suc (Suc (Suc (k - 4))))" using Suc.prems by simp
    then obtain j where "k = Suc (Suc (Suc (Suc j)))" ..
    then show ?thesis using 1 by simp
  qed (use Suc.prems in \<open>auto simp: take_Cons split: nat.splits\<close>)
  moreover have "get_words n (drop 4 (take k bs)) = get_words n (drop 4 bs)"
    using Suc.IH [of "k - 4" "drop 4 bs"] Suc.prems by (simp add: drop_take)
  ultimately show ?case by simp
qed simp


section \<open>Inodes\<close>

text \<open>
  The list node \<open>inode_tag\<close> is membership of the inode's address in the list \<open>open_inodes\<close> of its
  partition.
\<close>

record inode =
  i_no :: nat
  i_size :: nat
  i_open_cnts :: nat
  write_deny :: bool
  i_sectors :: "nat list"

definition inode_size :: nat where
  "inode_size = 76"

definition inode_bytes :: "inode \<Rightarrow> u8 list" where
  "inode_bytes i = put_words ([i_no i, i_size i, i_open_cnts i, of_bool (write_deny i)] @ i_sectors i @ [0, 0])"

definition inode_of :: "u8 list \<Rightarrow> inode" where
  "inode_of bs = (let ws = get_words 19 bs in
     \<lparr>i_no = ws ! 0, i_size = ws ! 1, i_open_cnts = ws ! 2, write_deny = (ws ! 3 \<noteq> 0), i_sectors = take 13 (drop 4 ws)\<rparr>)"

definition wf_inode :: "inode \<Rightarrow> bool" where
  "wf_inode i \<longleftrightarrow> i_no i < 2 ^ 32 \<and> i_size i < 2 ^ 32 \<and> i_open_cnts i < 2 ^ 32 \<and>
     length (i_sectors i) = 13 \<and> list_all (\<lambda>w. w < 2 ^ 32) (i_sectors i)"

lemma length_inode_bytes: "wf_inode i \<Longrightarrow> length (inode_bytes i) = inode_size"
  by (simp add: inode_bytes_def inode_size_def wf_inode_def)

lemma inode_of_bytes: "wf_inode i \<Longrightarrow> inode_of (inode_bytes i @ bs) = i"
proof -
  assume wf: "wf_inode i"
  let ?ws = "[i_no i, i_size i, i_open_cnts i, of_bool (write_deny i)] @ i_sectors i @ [0, 0]"
  have "list_all (\<lambda>w. w < 2 ^ 32) ?ws" "length ?ws = 19" using wf by (auto simp: wf_inode_def)
  then have "get_words 19 (inode_bytes i @ bs) = ?ws" using get_put_words [of ?ws bs] by (simp add: inode_bytes_def)
  then show ?thesis using wf by (simp add: inode_of_def Let_def wf_inode_def)
qed


section \<open>Directory entries\<close>

definition MAX_FILE_NAME_LEN :: nat where "MAX_FILE_NAME_LEN = 16"

definition FT_UNKNOWN :: nat where "FT_UNKNOWN = 0"
definition FT_REGULAR :: nat where "FT_REGULAR = 1"
definition FT_DIRECTORY :: nat where "FT_DIRECTORY = 2"

record dir_entry =
  filename :: "u8 list"
  de_i_no :: nat
  f_type :: nat

definition dirent_size :: nat where
  "dirent_size = 24"

definition dirent_bytes :: "dir_entry \<Rightarrow> u8 list" where
  "dirent_bytes e = filename e @ put32 (de_i_no e) @ put32 (f_type e)"

definition dirent_of :: "u8 list \<Rightarrow> dir_entry" where
  "dirent_of bs = \<lparr>filename = take 16 bs, de_i_no = get32 (drop 16 bs), f_type = get32 (drop 20 bs)\<rparr>"

definition wf_dirent :: "dir_entry \<Rightarrow> bool" where
  "wf_dirent e \<longleftrightarrow> length (filename e) = 16 \<and> de_i_no e < 2 ^ 32 \<and> f_type e < 2 ^ 32"

lemma length_dirent_bytes: "wf_dirent e \<Longrightarrow> length (dirent_bytes e) = dirent_size"
  by (simp add: dirent_bytes_def dirent_size_def wf_dirent_def)

lemma dirent_of_bytes: "wf_dirent e \<Longrightarrow> dirent_of (dirent_bytes e @ bs) = e"
proof -
  assume wf: "wf_dirent e"
  then have "drop 20 (dirent_bytes e @ bs) = put32 (f_type e) @ bs" by (simp add: dirent_bytes_def wf_dirent_def)
  then show ?thesis using wf by (simp add: dirent_of_def dirent_bytes_def wf_dirent_def)
qed


section \<open>The super block\<close>

record super_block =
  magic :: nat
  sb_sec_cnt :: nat
  inode_cnt :: nat
  part_lba_base :: nat
  block_bitmap_lba :: nat
  block_bitmap_sects :: nat
  inode_bitmap_lba :: nat
  inode_bitmap_sects :: nat
  inode_table_lba :: nat
  inode_table_sects :: nat
  data_start_lba :: nat
  root_inode_no :: nat
  dir_entry_size :: nat
  pad :: "u8 list"

definition sb_words :: "super_block \<Rightarrow> nat list" where
  "sb_words b = [magic b, sb_sec_cnt b, inode_cnt b, part_lba_base b, block_bitmap_lba b, block_bitmap_sects b,
     inode_bitmap_lba b, inode_bitmap_sects b, inode_table_lba b, inode_table_sects b, data_start_lba b,
     root_inode_no b, dir_entry_size b]"

definition sb_bytes :: "super_block \<Rightarrow> u8 list" where
  "sb_bytes b = put_words (sb_words b) @ pad b"

definition sb_of :: "u8 list \<Rightarrow> super_block" where
  "sb_of bs = (let ws = get_words 13 bs in
     \<lparr>magic = ws ! 0, sb_sec_cnt = ws ! 1, inode_cnt = ws ! 2, part_lba_base = ws ! 3, block_bitmap_lba = ws ! 4,
      block_bitmap_sects = ws ! 5, inode_bitmap_lba = ws ! 6, inode_bitmap_sects = ws ! 7, inode_table_lba = ws ! 8,
      inode_table_sects = ws ! 9, data_start_lba = ws ! 10, root_inode_no = ws ! 11, dir_entry_size = ws ! 12,
      pad = take 460 (drop 52 bs)\<rparr>)"

definition wf_sb :: "super_block \<Rightarrow> bool" where
  "wf_sb b \<longleftrightarrow> list_all (\<lambda>w. w < 2 ^ 32) (sb_words b) \<and> length (pad b) = 460"

lemma length_sb_bytes: "wf_sb b \<Longrightarrow> length (sb_bytes b) = 512"
  by (simp add: sb_bytes_def wf_sb_def sb_words_def)

lemma sb_of_bytes: "wf_sb b \<Longrightarrow> sb_of (sb_bytes b) = b"
proof -
  assume wf: "wf_sb b"
  have "length (sb_words b) = 13" by (simp add: sb_words_def)
  then have "get_words 13 (sb_bytes b) = sb_words b"
    using get_put_words [of "sb_words b" "pad b"] wf by (simp only: sb_bytes_def wf_sb_def)
  moreover have "drop 52 (sb_bytes b) = pad b" by (simp add: sb_bytes_def sb_words_def)
  ultimately show ?thesis using wf by (simp add: sb_of_def Let_def sb_words_def wf_sb_def)
qed


section \<open>Disks, partitions and the machine\<close>

text \<open>
  A disk is named by its channel and its device number, a partition by its disk and its index: 0 to 3
  for \<open>prim_parts\<close>, 4 to 11 for \<open>logic_parts\<close>.  The channel's lock and its semaphore \<open>disk_done\<close> are the
  kernel's \<open>ChannelLock\<close> and \<open>DiskDone\<close>.
\<close>

type_synonym hd_id = "nat \<times> nat"
type_synonym part_id = "hd_id \<times> nat"

record partition =
  start_lba :: nat
  sec_cnt :: nat
  my_disk :: hd_id
  part_name :: "u8 list"
  sb :: super_block
  block_bitmap :: bitmap
  inode_bitmap :: bitmap
  open_inodes :: "u32 list"

record ide_channel =
  chan_name :: "u8 list"
  port_base :: u16
  irq_no :: u8
  expecting_intr :: bool

text \<open>\<open>struct file\<close>: for a pipe \<open>fd_inode\<close> is the address of its queue and \<open>fd_pos\<close> the number of descriptors.\<close>

record fs_file =
  fd_pos :: nat
  fd_flag :: nat
  fd_inode :: u32

definition MAX_FILE_OPEN :: nat where "MAX_FILE_OPEN = 32"

text \<open>A \<open>struct dir\<close> pointer: the global \<open>root_dir\<close>, or an address in the heap.\<close>

datatype dir_ref = Root_dir | Heap_dir u32

record dir =
  dir_inode :: u32
  dir_pos :: nat
  dir_buf :: "u8 list"

text \<open>
  The machine: the kernel, the IDE channels with the sectors of their disks, and the variables of the
  driver, the file system, the keyboard and the screen.  \<open>ata_status\<close> is the sequence of values that a channel's status register
  shows after a command.  Inodes, directories and pipe queues are found by their heap addresses.
\<close>

record machine =
  krn :: kernel
  channel_cnt :: nat
  channels :: "nat \<Rightarrow> ide_channel"
  ata_status :: "nat \<Rightarrow> nat \<Rightarrow> u8"
  sectors :: "hd_id \<Rightarrow> nat \<Rightarrow> u8 list"
  disk_name :: "hd_id \<Rightarrow> u8 list"
  parts :: "part_id \<Rightarrow> partition"
  partition_list :: "part_id list"
  ext_lba_base :: nat
  p_no :: nat
  l_no :: nat
  cur_part :: part_id
  inodes :: "u32 \<Rightarrow> inode"
  file_table :: "fs_file list"
  dirs :: "dir_ref \<Rightarrow> dir"
  ioqs :: "u32 \<Rightarrow> ioqueue"
  kbd_buf :: ioqueue
  scr :: screen

text \<open>Calls into the kernel.\<close>

definition on_krn :: "(kernel \<Rightarrow> kernel option) \<Rightarrow> machine \<Rightarrow> machine option" where
  "on_krn g f = do { k \<leftarrow> g (krn f); Some (f\<lparr>krn := k\<rparr>) }"

definition fs_malloc :: "nat \<Rightarrow> machine \<Rightarrow> (machine \<times> u32) option" where
  "fs_malloc n f = do { (k, p) \<leftarrow> sys_malloc n (krn f); Some (f\<lparr>krn := k\<rparr>, p) }"

definition fs_free :: "u32 \<Rightarrow> machine \<Rightarrow> machine option" where
  "fs_free p f = on_krn (sys_free p) f"

definition upd_inode :: "u32 \<Rightarrow> (inode \<Rightarrow> inode) \<Rightarrow> machine \<Rightarrow> machine" where
  "upd_inode a g f = f\<lparr>inodes := (inodes f)(a := g (inodes f a))\<rparr>"

definition upd_part :: "part_id \<Rightarrow> (partition \<Rightarrow> partition) \<Rightarrow> machine \<Rightarrow> machine" where
  "upd_part p g f = f\<lparr>parts := (parts f)(p := g (parts f p))\<rparr>"

definition cpart :: "machine \<Rightarrow> partition" where
  "cpart f = parts f (cur_part f)"

end
