(* ===== verification/Ide.thy ===== *)
theory Ide
  imports Fs_Data
begin

text \<open>
  \<^verbatim>\<open>device/ide.c\<close>: the disk driver.

  The registers that \<open>select_sector\<close> writes are a record; \<open>ata_read\<close> and \<open>ata_write\<close> are the controller,
  which transfers the sectors that the registers name (a sector count of zero means 256).  The
  completion interrupt arrives before the driver waits for it, so \<open>sema_down\<close> does not block: this is
  \<open>wait_disk\<close>.
\<close>

section \<open>The controller\<close>

definition max_lba :: nat where
  "max_lba = 80 * 1024 * 1024 div 512 - 1"

record ata_regs =
  r_sect_cnt :: u8
  r_lba_l :: u8
  r_lba_m :: u8
  r_lba_h :: u8
  r_dev :: u8

definition ata_count :: "ata_regs \<Rightarrow> nat" where
  "ata_count r = (if r_sect_cnt r = 0 then 256 else unat (r_sect_cnt r))"

definition ata_lba :: "ata_regs \<Rightarrow> nat" where
  "ata_lba r = unat (r_lba_l r) + 2 ^ 8 * unat (r_lba_m r) + 2 ^ 16 * unat (r_lba_h r) + 2 ^ 24 * unat (r_dev r AND 0xf)"

definition ata_hd :: "nat \<Rightarrow> ata_regs \<Rightarrow> hd_id" where
  "ata_hd ch r = (ch, if bit (r_dev r) 4 then 1 else 0)"

definition ata_read :: "nat \<Rightarrow> ata_regs \<Rightarrow> machine \<Rightarrow> u8 list" where
  "ata_read ch r f = concat (map (sectors f (ata_hd ch r)) [ata_lba r ..< ata_lba r + ata_count r])"

definition write_sects :: "hd_id \<Rightarrow> nat \<Rightarrow> nat \<Rightarrow> u8 list \<Rightarrow> machine \<Rightarrow> machine" where
  "write_sects dk lba n data f = f\<lparr>sectors := (sectors f)(dk := (\<lambda>s.
     if lba \<le> s \<and> s < lba + n then take 512 (drop (512 * (s - lba)) data) else sectors f dk s))\<rparr>"

definition ata_write :: "nat \<Rightarrow> ata_regs \<Rightarrow> u8 list \<Rightarrow> machine \<Rightarrow> machine" where
  "ata_write ch r data f = write_sects (ata_hd ch r) (ata_lba r) (ata_count r) data f"


section \<open>Operations\<close>

definition select_disk :: "hd_id \<Rightarrow> u8" where
  "select_disk dk = (if snd dk = 1 then 0xa0 OR 0x40 OR 0x10 else 0xa0 OR 0x40)"

definition select_sector :: "hd_id \<Rightarrow> nat \<Rightarrow> u8 \<Rightarrow> ata_regs option" where
  "select_sector dk lba cnt = do {
     ASSERT (lba \<le> max_lba);
     Some \<lparr>r_sect_cnt = cnt, r_lba_l = of_nat lba, r_lba_m = of_nat (lba div 2 ^ 8), r_lba_h = of_nat (lba div 2 ^ 16),
           r_dev = 0xa0 OR 0x40 OR (if snd dk = 1 then 0x10 else 0) OR of_nat (lba div 2 ^ 24)\<rparr>
   }"

definition cmd_out :: "nat \<Rightarrow> machine \<Rightarrow> machine" where
  "cmd_out ch f = f\<lparr>channels := (channels f)(ch := (channels f ch)\<lparr>expecting_intr := True\<rparr>)\<rparr>"

definition xfer_bytes :: "u8 \<Rightarrow> nat" where
  "xfer_bytes cnt = (if cnt = 0 then 256 * 512 else unat cnt * 512)"

definition read_from_sector :: "u8 list \<Rightarrow> u8 \<Rightarrow> u8 list" where
  "read_from_sector data cnt = take (xfer_bytes cnt) data"

definition write_to_sector :: "u8 list \<Rightarrow> u8 \<Rightarrow> u8 list option" where
  "write_to_sector io_buf cnt = (if xfer_bytes cnt \<le> length io_buf then Some (take (xfer_bytes cnt) io_buf) else None)"

text \<open>
  \<open>time_limit -= 10 >= 0\<close> subtracts the value of the comparison, so the limit counts down by one; the
  body sleeps between two looks at the status register.
\<close>

fun busy_wait_loop :: "nat \<Rightarrow> (nat \<Rightarrow> u8) \<Rightarrow> nat \<Rightarrow> bool" where
  "busy_wait_loop 0 st i = False"
| "busy_wait_loop (Suc time_limit) st i =
     (if time_limit = 0 then False
      else if st i AND 0x80 = 0 then st (i + 1) AND 8 \<noteq> 0
      else busy_wait_loop time_limit st (i + 1))"

definition busy_wait :: "(nat \<Rightarrow> u8) \<Rightarrow> bool" where
  "busy_wait st = busy_wait_loop (30 * 1000) st 0"

definition intr_hd_handler :: "u8 \<Rightarrow> machine \<Rightarrow> machine option" where
  "intr_hd_handler irq f = do {
     ASSERT (irq = 0x2e \<or> irq = 0x2f);
     let ch = unat (irq - 0x2e);
     ASSERT (irq_no (channels f ch) = irq);
     if expecting_intr (channels f ch) then do {
       let f = f\<lparr>channels := (channels f)(ch := (channels f ch)\<lparr>expecting_intr := False\<rparr>)\<rparr>;
       on_krn (sema_up (DiskDone ch)) f
     } else Some f
   }"

definition wait_disk :: "nat \<Rightarrow> machine \<Rightarrow> machine option" where
  "wait_disk ch f = do {
     f \<leftarrow> intr_hd_handler (irq_no (channels f ch)) f;
     on_krn (\<lambda>k. do { r \<leftarrow> sema_down (DiskDone ch) k; (case r of Acquired k \<Rightarrow> Some k | Sleeping _ _ _ \<Rightarrow> None) }) f
   }"

function ide_read_loop :: "hd_id \<Rightarrow> nat \<Rightarrow> nat \<Rightarrow> nat \<Rightarrow> u8 list \<Rightarrow> machine \<Rightarrow> (machine \<times> u8 list) option" where
  "ide_read_loop dk lba cnt secs_done io_buf f =
     (if secs_done < cnt then do {
        let secs_op = (if secs_done + 256 \<le> cnt then 256 else cnt - secs_done);
        r \<leftarrow> select_sector dk (lba + secs_done) (of_nat secs_op);
        let f = cmd_out (fst dk) f;
        f \<leftarrow> wait_disk (fst dk) f;
        ASSERT (busy_wait (ata_status f (fst dk)));
        let data = read_from_sector (ata_read (fst dk) r f) (of_nat secs_op);
        ide_read_loop dk lba cnt (secs_done + secs_op) (io_buf @ data) f
      } else Some (f, io_buf))"
  by pat_completeness auto
termination
  by (relation "measure (\<lambda>(dk, lba, cnt, done, io_buf, f). cnt - done)") (auto split: if_splits)

declare ide_read_loop.simps [simp del]

definition ide_read :: "hd_id \<Rightarrow> nat \<Rightarrow> nat \<Rightarrow> machine \<Rightarrow> (machine \<times> u8 list) option" where
  "ide_read dk lba cnt f = do {
     ASSERT (lba \<le> max_lba);
     ASSERT (cnt > 0);
     f \<leftarrow> on_krn (lock_take (ChannelLock (fst dk))) f;
     (f, io_buf) \<leftarrow> ide_read_loop dk lba cnt 0 [] f;
     f \<leftarrow> on_krn (lock_release (ChannelLock (fst dk))) f;
     Some (f, io_buf)
   }"

function ide_write_loop :: "hd_id \<Rightarrow> nat \<Rightarrow> u8 list \<Rightarrow> nat \<Rightarrow> nat \<Rightarrow> machine \<Rightarrow> machine option" where
  "ide_write_loop dk lba io_buf cnt secs_done f =
     (if secs_done < cnt then do {
        let secs_op = (if secs_done + 256 \<le> cnt then 256 else cnt - secs_done);
        r \<leftarrow> select_sector dk (lba + secs_done) (of_nat secs_op);
        let f = cmd_out (fst dk) f;
        ASSERT (busy_wait (ata_status f (fst dk)));
        data \<leftarrow> write_to_sector (drop (secs_done * 512) io_buf) (of_nat secs_op);
        let f = ata_write (fst dk) r data f;
        f \<leftarrow> wait_disk (fst dk) f;
        ide_write_loop dk lba io_buf cnt (secs_done + secs_op) f
      } else Some f)"
  by pat_completeness auto
termination
  by (relation "measure (\<lambda>(dk, lba, io_buf, cnt, done, f). cnt - done)") (auto split: if_splits)

declare ide_write_loop.simps [simp del]

definition ide_write :: "hd_id \<Rightarrow> nat \<Rightarrow> u8 list \<Rightarrow> nat \<Rightarrow> machine \<Rightarrow> machine option" where
  "ide_write dk lba io_buf cnt f = do {
     ASSERT (lba \<le> max_lba);
     ASSERT (cnt > 0);
     f \<leftarrow> on_krn (lock_take (ChannelLock (fst dk))) f;
     f \<leftarrow> ide_write_loop dk lba io_buf cnt 0 f;
     on_krn (lock_release (ChannelLock (fst dk))) f
   }"


section \<open>A command\<close>

definition chan_ready :: "machine \<Rightarrow> nat \<Rightarrow> bool" where
  "chan_ready f ch \<longleftrightarrow> ch < 2 \<and> irq_no (channels f ch) = 0x2e + of_nat ch \<and> \<not> expecting_intr (channels f ch) \<and>
     sem_value (locks (krn f) (DiskDone ch)) = 0 \<and> waiters (locks (krn f) (DiskDone ch)) = [] \<and>
     busy_wait (ata_status f ch)"

definition drive_ready :: "machine \<Rightarrow> hd_id \<Rightarrow> bool" where
  "drive_ready f dk \<longleftrightarrow> chan_ready f (fst dk) \<and> snd dk < 2 \<and> lock_free (krn f) (ChannelLock (fst dk)) \<and> running (krn f) \<noteq> 0"

lemma sema_up_empty:
  assumes "sem_value (locks k l) = 0" "waiters (locks k l) = []"
  shows "sema_up l k = Some (upd_lock l (\<lambda>x. x\<lparr>sem_value := 1\<rparr>) k)"
proof -
  let ?g = "upd_lock l (\<lambda>x. x\<lparr>sem_value := sem_value x + 1\<rparr>)"
  have "fst (intr_set_status (?g (fst (intr_disable k))) (snd (intr_disable k))) = ?g k"
    by (rule critical_section) (simp add: upd_lock_def)
  then show ?thesis using assms by (simp add: sema_up_def case_prod_beta Let_def upd_lock_def)
qed

lemma sema_down_free:
  assumes "sem_value (locks k l) = 1"
  shows "sema_down l k = Some (Acquired (upd_lock l (\<lambda>x. x\<lparr>sem_value := 0\<rparr>) k))"
proof -
  let ?g = "upd_lock l (\<lambda>x. x\<lparr>sem_value := sem_value x - 1\<rparr>)"
  have "fst (intr_set_status (?g (fst (intr_disable k))) (snd (intr_disable k))) = ?g k"
    by (rule critical_section) (simp add: upd_lock_def)
  then show ?thesis using assms by (simp add: sema_down_def sema_down_loop_def case_prod_beta Let_def upd_lock_def)
qed

lemma wait_after_cmd:
  assumes "chan_ready f ch"
  shows "wait_disk ch (cmd_out ch f) = Some f"
proof -
  have c: "ch < 2" "irq_no (channels f ch) = 0x2e + of_nat ch" "\<not> expecting_intr (channels f ch)"
    and s: "sem_value (locks (krn f) (DiskDone ch)) = 0" "waiters (locks (krn f) (DiskDone ch)) = []"
    using assms by (simp_all add: chan_ready_def)
  have u: "unat (0x2e + of_nat ch - 0x2e :: u8) = ch" using c(1) by (simp add: unat_of_nat)
  have i: "0x2e + of_nat ch = (0x2e :: u8) \<or> 0x2e + of_nat ch = (0x2f :: u8)"
    using c(1) by (auto simp: less_Suc_eq numeral_2_eq_2)
  let ?k = "upd_lock (DiskDone ch) (\<lambda>x. x\<lparr>sem_value := 1\<rparr>) (krn f)"
  have d: "(channels f ch)\<lparr>expecting_intr := False\<rparr> = channels f ch" using c(3) by simp
  have h: "intr_hd_handler (irq_no (channels (cmd_out ch f) ch)) (cmd_out ch f) = Some (f\<lparr>krn := ?k\<rparr>)"
    using sema_up_empty [OF s] c(2) u i d by (simp add: intr_hd_handler_def cmd_out_def on_krn_def Let_def)
  have "(locks (krn f) (DiskDone ch))\<lparr>sem_value := 0\<rparr> = locks (krn f) (DiskDone ch)" using s(1) by simp
  then have "sema_down (DiskDone ch) ?k = Some (Acquired (krn f))"
    using sema_down_free [of ?k "DiskDone ch"] by (simp add: upd_lock_def)
  then show ?thesis using h by (simp add: wait_disk_def on_krn_def)
qed

text \<open>The registers name the sectors that the driver means.\<close>

lemma select_sector_regs:
  assumes "lba \<le> max_lba" "snd dk < 2" "0 < n" "n \<le> 256"
  obtains r where "select_sector dk lba (of_nat n) = Some r" "ata_lba r = lba" "ata_count r = n" "ata_hd (fst dk) r = dk"
    "xfer_bytes (of_nat n) = n * 512"
proof
  let ?dev = "0xa0 OR 0x40 OR (if snd dk = 1 then 0x10 else 0) OR of_nat (lba div 2 ^ 24) :: u8"
  let ?r = "\<lparr>r_sect_cnt = of_nat n, r_lba_l = of_nat lba, r_lba_m = of_nat (lba div 2 ^ 8), r_lba_h = of_nat (lba div 2 ^ 16), r_dev = ?dev\<rparr> :: ata_regs"
  have l: "lba < 65536 * 3" using assms(1) by (simp add: max_lba_def)
  then have z: "lba div 2 ^ 24 = 0" by simp
  show "select_sector dk lba (of_nat n) = Some ?r" using assms(1) by (simp add: select_sector_def)
  have "lba div 65536 < 256" using l by (simp add: div_less_iff_less_mult)
  then have m: "lba div 65536 mod 256 = lba div 65536" by simp
  have "lba = lba mod 256 + 256 * (lba div 256 mod 256 + 256 * (lba div 65536))"
    using div_mult2_eq [of lba 256 256] by simp
  moreover have "?dev AND 0xf = 0" unfolding z by (cases "snd dk = 1") simp_all
  ultimately show "ata_lba ?r = lba" by (simp add: ata_lba_def unat_of_nat m)
  have "of_nat n = (0 :: u8) \<longleftrightarrow> n = 256"
    using assms(3,4) by (auto simp: word_of_nat_eq_0_iff dest: nat_dvd_not_less)
  moreover have "n \<noteq> 256 \<Longrightarrow> unat (of_nat n :: u8) = n" using assms(4) by (simp add: unat_of_nat)
  ultimately show "ata_count ?r = n" "xfer_bytes (of_nat n) = n * 512" by (auto simp: ata_count_def xfer_bytes_def)
  have "bit ?dev 4 \<longleftrightarrow> snd dk = 1" unfolding z by (cases "snd dk = 1") (simp_all add: bit_simps)
  then show "ata_hd (fst dk) ?r = dk" using assms(2) by (cases dk) (auto simp: ata_hd_def)
qed


section \<open>Transfers\<close>

definition wf_disk :: "machine \<Rightarrow> hd_id \<Rightarrow> bool" where
  "wf_disk f dk \<longleftrightarrow> (\<forall>s. length (sectors f dk s) = 512)"

definition read_sects :: "machine \<Rightarrow> hd_id \<Rightarrow> nat \<Rightarrow> nat \<Rightarrow> u8 list" where
  "read_sects f dk lba n = concat (map (sectors f dk) [lba..<lba + n])"

lemma length_read_sects: "wf_disk f dk \<Longrightarrow> length (read_sects f dk lba n) = n * 512"
  by (simp add: read_sects_def wf_disk_def length_concat comp_def sum_list_triv)

lemma read_sects_append: "read_sects f dk lba (m + n) = read_sects f dk lba m @ read_sects f dk (lba + m) n"
proof -
  have "[lba..<lba + (m + n)] = [lba..<lba + m] @ [lba + m..<lba + m + n]"
    using upt_add_eq_append [of lba "lba + m" n] by (simp only: add.assoc le_add1)
  then show ?thesis by (simp only: read_sects_def map_append concat_append)
qed

lemma read_sects_one: "read_sects f dk lba 1 = sectors f dk lba"
  by (simp add: read_sects_def)

lemma ide_read_loop_eq:
  assumes "chan_ready f (fst dk)" "snd dk < 2" "wf_disk f dk" "lba + cnt \<le> max_lba + 1" "secs_done \<le> cnt"
  shows "ide_read_loop dk lba cnt secs_done io_buf f = Some (f, io_buf @ read_sects f dk (lba + secs_done) (cnt - secs_done))"
  using assms(5)
proof (induction "cnt - secs_done" arbitrary: secs_done io_buf rule: less_induct)
  case less
  show ?case
  proof (cases "secs_done < cnt")
    case False
    then show ?thesis using less.prems by (subst ide_read_loop.simps) (simp add: read_sects_def)
  next
    case True
    define op where "op = (if secs_done + 256 \<le> cnt then 256 else cnt - secs_done)"
    have op: "0 < op" "op \<le> 256" "secs_done + op \<le> cnt" using True by (auto simp: op_def)
    obtain r where r: "select_sector dk (lba + secs_done) (of_nat op) = Some r" "ata_lba r = lba + secs_done" "ata_count r = op"
      "ata_hd (fst dk) r = dk" "xfer_bytes (of_nat op) = op * 512"
      by (rule select_sector_regs [of "lba + secs_done" dk op]) (use assms(2,4) True op in simp_all)
    have d: "read_from_sector (ata_read (fst dk) r f) (of_nat op) = read_sects f dk (lba + secs_done) op"
      using length_read_sects [OF assms(3), of "lba + secs_done" op] r by (simp add: read_from_sector_def ata_read_def read_sects_def)
    have st: "busy_wait (ata_status f (fst dk))" using assms(1) by (simp add: chan_ready_def)
    have ih: "ide_read_loop dk lba cnt (secs_done + op) (io_buf @ read_sects f dk (lba + secs_done) op) f =
        Some (f, (io_buf @ read_sects f dk (lba + secs_done) op) @ read_sects f dk (lba + (secs_done + op)) (cnt - (secs_done + op)))"
      by (rule less.hyps) (use op True in simp_all)
    have sp: "read_sects f dk (lba + secs_done) (cnt - secs_done) =
        read_sects f dk (lba + secs_done) op @ read_sects f dk (lba + (secs_done + op)) (cnt - (secs_done + op))"
      using read_sects_append [of f dk "lba + secs_done" op "cnt - (secs_done + op)"] op by (simp add: add.assoc)
    have "ide_read_loop dk lba cnt secs_done io_buf f =
        ide_read_loop dk lba cnt (secs_done + op) (io_buf @ read_sects f dk (lba + secs_done) op) f"
      by (subst ide_read_loop.simps, unfold op_def [symmetric] Let_def) (simp add: True r(1) d st wait_after_cmd [OF assms(1)])
    then show ?thesis unfolding ih sp by simp
  qed
qed

lemma chan_ready_krn:
  "locks k (DiskDone ch) = locks (krn f) (DiskDone ch) \<Longrightarrow> chan_ready (f\<lparr>krn := k\<rparr>) ch = chan_ready f ch"
  by (simp add: chan_ready_def)

lemma ide_read_eq:
  assumes "drive_ready f dk" "wf_disk f dk" "0 < cnt" "lba + cnt \<le> max_lba + 1"
  shows "ide_read dk lba cnt f = Some (f, read_sects f dk lba cnt)"
proof -
  have d: "chan_ready f (fst dk)" "snd dk < 2" "lock_free (krn f) (ChannelLock (fst dk))" "running (krn f) \<noteq> 0"
    using assms(1) by (simp_all add: drive_ready_def)
  let ?k = "held (krn f) (ChannelLock (fst dk)) 1"
  let ?f = "f\<lparr>krn := ?k\<rparr>"
  have c: "chan_ready ?f (fst dk)" using d(1) by (subst chan_ready_krn) (simp_all add: held_def upd_lock_def)
  have w: "wf_disk ?f dk" using assms(2) by (simp add: wf_disk_def)
  have rs: "read_sects ?f dk lba cnt = read_sects f dk lba cnt" by (simp add: read_sects_def)
  have rel: "lock_release (ChannelLock (fst dk)) ?k = Some (krn f)"
    using lock_release_held [OF d(3), of ?k] by (simp add: held_def upd_lock_def)
  show ?thesis
    using lock_take_unheld [OF d(3,4)] ide_read_loop_eq [OF c d(2) w assms(4), of 0 "[]"] rs rel assms(3,4)
    by (simp add: ide_read_def on_krn_def)
qed

lemma wf_write_sects:
  "wf_disk f dk' \<Longrightarrow> n * 512 \<le> length io_buf \<Longrightarrow> wf_disk (write_sects dk lba n io_buf f) dk'"
  by (auto simp: wf_disk_def write_sects_def min_def)


lemma write_sects_append:
  assumes "op \<le> n"
  shows "write_sects dk (lba + op) (n - op) (drop (op * 512) d) (write_sects dk lba op (take (op * 512) d) f) = write_sects dk lba n d f"
proof -
  have "take 512 (drop (512 * (s - lba)) (take (op * 512) d)) = take 512 (drop (512 * (s - lba)) d)" if "lba \<le> s" "s < lba + op" for s
  proof -
    have "s - lba + 1 \<le> op" using that by linarith
    then have "512 * (s - lba + 1) \<le> 512 * op" by (rule mult_le_mono2)
    then have "512 * (s - lba) + 512 \<le> op * 512" by (simp add: algebra_simps)
    then show ?thesis by (simp add: drop_take)
  qed
  moreover have "drop (512 * (s - (lba + op))) (drop (op * 512) d) = drop (512 * (s - lba)) d" if "lba + op \<le> s" for s
  proof -
    have "512 * (s - (lba + op)) + op * 512 = 512 * (s - lba)" using that by (simp add: algebra_simps diff_mult_distrib2)
    then show ?thesis by (simp add: add.commute)
  qed
  ultimately show ?thesis
    using assms unfolding write_sects_def by (intro machine.equality) (auto simp: fun_eq_iff)
qed

lemma write_sects_frame [simp]:
  "krn (write_sects dk lba n d f) = krn f" "channels (write_sects dk lba n d f) = channels f"
  "ata_status (write_sects dk lba n d f) = ata_status f" "parts (write_sects dk lba n d f) = parts f"
  "cur_part (write_sects dk lba n d f) = cur_part f" "inodes (write_sects dk lba n d f) = inodes f"
  "file_table (write_sects dk lba n d f) = file_table f" "dirs (write_sects dk lba n d f) = dirs f"
  by (simp_all add: write_sects_def)

lemma write_sects_ready [simp]:
  "chan_ready (write_sects dk lba n d f) ch = chan_ready f ch" "drive_ready (write_sects dk lba n d f) dk' = drive_ready f dk'"
  by (simp_all add: chan_ready_def drive_ready_def)

lemma write_sects_cmd: "write_sects dk lba n d (cmd_out ch f) = cmd_out ch (write_sects dk lba n d f)"
  by (simp add: write_sects_def cmd_out_def cong: if_cong)

lemma ide_write_loop_eq:
  assumes "chan_ready f (fst dk)" "snd dk < 2" "lba + cnt \<le> max_lba + 1" "secs_done \<le> cnt" "cnt * 512 \<le> length io_buf"
  shows "ide_write_loop dk lba io_buf cnt secs_done f =
    Some (write_sects dk (lba + secs_done) (cnt - secs_done) (drop (secs_done * 512) io_buf) f)"
  using assms(1,4)
proof (induction "cnt - secs_done" arbitrary: secs_done f rule: less_induct)
  case less
  show ?case
  proof (cases "secs_done < cnt")
    case False
    then have "write_sects dk (lba + secs_done) (cnt - secs_done) (drop (secs_done * 512) io_buf) f = f"
      unfolding write_sects_def by (intro machine.equality) (auto simp: fun_eq_iff)
    then show ?thesis using False by (subst ide_write_loop.simps) simp
  next
    case True
    define op where "op = (if secs_done + 256 \<le> cnt then 256 else cnt - secs_done)"
    have op: "0 < op" "op \<le> 256" "secs_done + op \<le> cnt" using True by (auto simp: op_def)
    obtain r where r: "select_sector dk (lba + secs_done) (of_nat op) = Some r" "ata_lba r = lba + secs_done" "ata_count r = op"
      "ata_hd (fst dk) r = dk" "xfer_bytes (of_nat op) = op * 512"
      by (rule select_sector_regs [of "lba + secs_done" dk op]) (use assms(2,3) True op in simp_all)
    let ?d = "drop (secs_done * 512) io_buf"
    let ?f = "write_sects dk (lba + secs_done) op (take (op * 512) ?d) f"
    have "(secs_done + op) * 512 \<le> length io_buf" using mult_le_mono1 [OF op(3), of 512] assms(5) by linarith
    then have "op * 512 \<le> length io_buf - secs_done * 512" by (simp add: algebra_simps)
    then have d: "write_to_sector ?d (of_nat op) = Some (take (op * 512) ?d)" using r(5) by (simp add: write_to_sector_def)
    have st: "busy_wait (ata_status (cmd_out (fst dk) f) (fst dk))" using less.prems(1) by (simp add: chan_ready_def cmd_out_def)
    have w: "wait_disk (fst dk) (ata_write (fst dk) r (take (op * 512) ?d) (cmd_out (fst dk) f)) = Some ?f"
      using wait_after_cmd [of ?f "fst dk"] less.prems(1) r(2-4) by (simp add: ata_write_def write_sects_cmd)
    have ih: "ide_write_loop dk lba io_buf cnt (secs_done + op) ?f =
        Some (write_sects dk (lba + (secs_done + op)) (cnt - (secs_done + op)) (drop ((secs_done + op) * 512) io_buf) ?f)"
      by (rule less.hyps) (use op True less.prems(1) in simp_all)
    have "ide_write_loop dk lba io_buf cnt secs_done f = ide_write_loop dk lba io_buf cnt (secs_done + op) ?f"
      by (subst ide_write_loop.simps, unfold op_def [symmetric] Let_def) (simp only: True r(1) d st w if_True bind.bind_lunit ASSERT_True)
    moreover have dr: "drop ((secs_done + op) * 512) io_buf = drop (op * 512) ?d" by (simp add: algebra_simps)
    moreover have ar: "lba + (secs_done + op) = lba + secs_done + op" "cnt - (secs_done + op) = cnt - secs_done - op" by simp_all
    moreover have "op \<le> cnt - secs_done" using op(3) by simp
    ultimately show ?thesis using ih unfolding dr ar by (simp only: write_sects_append)
  qed
qed

lemma ide_write_eq:
  assumes "drive_ready f dk" "0 < cnt" "lba + cnt \<le> max_lba + 1" "cnt * 512 \<le> length io_buf"
  shows "ide_write dk lba io_buf cnt f = Some (write_sects dk lba cnt io_buf f)"
proof -
  have d: "chan_ready f (fst dk)" "snd dk < 2" "lock_free (krn f) (ChannelLock (fst dk))" "running (krn f) \<noteq> 0"
    using assms(1) by (simp_all add: drive_ready_def)
  let ?k = "held (krn f) (ChannelLock (fst dk)) 1"
  let ?f = "f\<lparr>krn := ?k\<rparr>"
  have c: "chan_ready ?f (fst dk)" using d(1) by (subst chan_ready_krn) (simp_all add: held_def upd_lock_def)
  have ws: "(write_sects dk lba cnt io_buf ?f)\<lparr>krn := krn f\<rparr> = write_sects dk lba cnt io_buf f"
    by (simp add: write_sects_def cong: if_cong)
  have rel: "lock_release (ChannelLock (fst dk)) ?k = Some (krn f)"
    using lock_release_held [OF d(3), of ?k] by (simp add: held_def upd_lock_def)
  show ?thesis
    using lock_take_unheld [OF d(3,4)] ide_write_loop_eq [OF c d(2) assms(3), of 0 io_buf] ws rel assms(2-)
    by (simp add: ide_write_def on_krn_def)
qed

lemma read_write_sects:
  assumes "n * 512 = length d"
  shows "read_sects (write_sects dk lba n d f) dk lba n = d"
proof -
  have "concat (map (\<lambda>s. take 512 (drop (512 * (s - lba)) d)) [lba..<lba + m]) = take (m * 512) d" if "m \<le> n" for m
    using that
  proof (induction m)
    case (Suc m)
    have "take (512 + m * 512) d = take (m * 512) d @ take 512 (drop (m * 512) d)"
      using take_add [of "m * 512" 512 d] by (simp only: add.commute)
    then show ?case using Suc by (simp add: mult.commute)
  qed simp
  then have "concat (map (\<lambda>s. take 512 (drop (512 * (s - lba)) d)) [lba..<lba + n]) = d" using assms by simp
  moreover have "map (sectors (write_sects dk lba n d f) dk) [lba..<lba + n] =
      map (\<lambda>s. take 512 (drop (512 * (s - lba)) d)) [lba..<lba + n]"
    by (simp add: write_sects_def)
  ultimately show ?thesis by (simp only: read_sects_def)
qed

text \<open>
  C28. What is written to the disk can be read back.  For any number of sectors, also when the transfer
  is split into commands of 256 sectors, \<open>ide_write\<close> followed by \<open>ide_read\<close> returns the buffer, and no
  other sector changes.
\<close>

theorem ide_write_read:
  assumes "drive_ready f dk" "wf_disk f dk" "0 < cnt" "lba + cnt \<le> max_lba + 1" "length io_buf = cnt * 512"
  shows "\<exists>f'. ide_write dk lba io_buf cnt f = Some f' \<and> ide_read dk lba cnt f' = Some (f', io_buf) \<and>
    (\<forall>s. s < lba \<or> lba + cnt \<le> s \<longrightarrow> sectors f' dk s = sectors f dk s) \<and> krn f' = krn f"
proof (intro exI conjI)
  let ?f = "write_sects dk lba cnt io_buf f"
  show "ide_write dk lba io_buf cnt f = Some ?f" by (rule ide_write_eq) (use assms in simp_all)
  have "wf_disk ?f dk" by (rule wf_write_sects) (use assms in simp_all)
  then show "ide_read dk lba cnt ?f = Some (?f, io_buf)"
    using ide_read_eq [of ?f dk cnt lba] read_write_sects [of cnt io_buf dk lba f] assms by simp
  show "\<forall>s. s < lba \<or> lba + cnt \<le> s \<longrightarrow> sectors ?f dk s = sectors f dk s" by (auto simp: write_sects_def)
  show "krn ?f = krn f" by simp
qed


section \<open>Witnesses\<close>

definition sample_machine :: machine where
  "sample_machine = \<lparr>krn = sample_kernel\<lparr>locks := (locks sample_kernel)(DiskDone 0 := (locks sample_kernel (DiskDone 0))\<lparr>sem_value := 0\<rparr>)\<rparr>,
     channel_cnt = 1, channels = (\<lambda>_. \<lparr>chan_name = replicate 8 0, port_base = 0x1f0, irq_no = 0x2e, expecting_intr = False\<rparr>),
     ata_status = (\<lambda>_ _. 8), sectors = (\<lambda>_ _. replicate 512 0), disk_name = (\<lambda>_. replicate 8 0),
     parts = (\<lambda>_. \<lparr>start_lba = 0, sec_cnt = 0, my_disk = (0, 1), part_name = replicate 8 0,
        sb = sb_of [], block_bitmap = sample_bitmap, inode_bitmap = sample_bitmap, open_inodes = []\<rparr>),
     partition_list = [], ext_lba_base = 0, p_no = 0, l_no = 0, cur_part = ((0, 1), 0),
     inodes = (\<lambda>_. inode_of []), file_table = replicate MAX_FILE_OPEN \<lparr>fd_pos = 0, fd_flag = 0, fd_inode = 0\<rparr>,
     dirs = (\<lambda>_. \<lparr>dir_inode = 0, dir_pos = 0, dir_buf = []\<rparr>), ioqs = (\<lambda>_. sample_ioqueue),
     kbd_buf = sample_ioqueue, scr = sample_screen\<rparr>"

lemma busy_wait_at_once:
  assumes "st 0 AND 0x80 = 0" "st 1 AND 8 \<noteq> 0"
  shows "busy_wait st"
proof -
  have "n \<noteq> 0 \<Longrightarrow> busy_wait_loop (Suc n) st 0" for n using assms by simp
  from this [of 29999] show ?thesis by (simp add: busy_wait_def)
qed

lemma sample_machine_ready: "drive_ready sample_machine (0, 1)" "wf_disk sample_machine (0, 1)"
  by (simp_all add: drive_ready_def chan_ready_def sample_machine_def sample_kernel_def lock_free_def wf_disk_def busy_wait_at_once)

lemma ide_write_read_witness:
  "\<exists>f'. ide_write (0, 1) 100 (replicate (600 * 512) 7) 600 sample_machine = Some f' \<and>
     ide_read (0, 1) 100 600 f' = Some (f', replicate (600 * 512) 7)"
proof -
  have "length (replicate (600 * 512) (7 :: u8)) = 600 * 512" by (rule length_replicate)
  moreover have "0 < (600 :: nat)" "(100 :: nat) + 600 \<le> max_lba + 1" by (simp_all add: max_lba_def)
  ultimately show ?thesis using ide_write_read [OF sample_machine_ready] by blast
qed

end
