(* ===== verification/Inode.thy ===== *)
theory Inode
  imports Ide Slot_Pool
begin

text \<open>
  \<^verbatim>\<open>fs/inode.c\<close> and the allocation part of \<^verbatim>\<open>fs/file.c\<close>: inodes on the disk and in memory, the inode and
  block bitmaps.
\<close>

section \<open>Allocation\<close>

definition inode_bitmap_alloc :: "part_id \<Rightarrow> machine \<Rightarrow> (machine \<times> int) option" where
  "inode_bitmap_alloc part f = do {
     bit_idx \<leftarrow> bitmap_scan (inode_bitmap (parts f part)) 1;
     if bit_idx = -1 then Some (f, -1)
     else do {
       bm \<leftarrow> bitmap_set (inode_bitmap (parts f part)) (nat bit_idx) 1;
       Some (upd_part part (\<lambda>p. p\<lparr>inode_bitmap := bm\<rparr>) f, bit_idx)
     }
   }"

definition block_bitmap_alloc :: "part_id \<Rightarrow> machine \<Rightarrow> (machine \<times> int) option" where
  "block_bitmap_alloc part f = do {
     bit_idx \<leftarrow> bitmap_scan (block_bitmap (parts f part)) 1;
     if bit_idx = -1 then Some (f, -1)
     else do {
       bm \<leftarrow> bitmap_set (block_bitmap (parts f part)) (nat bit_idx) 1;
       Some (upd_part part (\<lambda>p. p\<lparr>block_bitmap := bm\<rparr>) f, int (data_start_lba (sb (parts f part))) + bit_idx)
     }
   }"

datatype bitmap_type = INODE_BITMAP | BLOCK_BITMAP

definition bitmap_sync :: "part_id \<Rightarrow> nat \<Rightarrow> bitmap_type \<Rightarrow> machine \<Rightarrow> machine option" where
  "bitmap_sync part bit_idx btmp f = do {
     let off_sec = bit_idx div 4096;
     let off_bytes = off_sec * 512;
     let p = parts f part;
     let (lba, bytes) = (case btmp of
         INODE_BITMAP \<Rightarrow> (inode_bitmap_lba (sb p) + off_sec, drop off_bytes (bits (inode_bitmap p)))
       | BLOCK_BITMAP \<Rightarrow> (block_bitmap_lba (sb p) + off_sec, drop off_bytes (bits (block_bitmap p))));
     ide_write (my_disk p) lba bytes 1 f
   }"

text \<open>The two statements with which the callers give a block back.\<close>

definition set_block_bit :: "part_id \<Rightarrow> nat \<Rightarrow> int \<Rightarrow> machine \<Rightarrow> machine option" where
  "set_block_bit part idx v f = do {
     bm \<leftarrow> bitmap_set (block_bitmap (parts f part)) idx v;
     Some (upd_part part (\<lambda>p. p\<lparr>block_bitmap := bm\<rparr>) f)
   }"

definition set_inode_bit :: "part_id \<Rightarrow> nat \<Rightarrow> int \<Rightarrow> machine \<Rightarrow> machine option" where
  "set_inode_bit part idx v f = do {
     bm \<leftarrow> bitmap_set (inode_bitmap (parts f part)) idx v;
     Some (upd_part part (\<lambda>p. p\<lparr>inode_bitmap := bm\<rparr>) f)
   }"


section \<open>Inodes\<close>

record inode_position =
  two_sec :: bool
  sec_lba :: nat
  off_size :: nat

definition inode_locate :: "partition \<Rightarrow> nat \<Rightarrow> inode_position option" where
  "inode_locate part inode_no = do {
     ASSERT (inode_no < 4096);
     let off = inode_no * inode_size;
     let off_sec = off div 512;
     let off_in_sec = off mod 512;
     let left_in_sec = 512 - off_in_sec;
     Some \<lparr>two_sec = (left_in_sec < inode_size), sec_lba = inode_table_lba (sb part) + off_sec, off_size = off_in_sec\<rparr>
   }"

text \<open>\<open>memcpy\<close> into a buffer.\<close>

definition buf_write :: "u8 list \<Rightarrow> nat \<Rightarrow> u8 list \<Rightarrow> u8 list option" where
  "buf_write io_buf off xs = (if off + length xs \<le> length io_buf then Some (put_at io_buf off xs) else None)"

text \<open>\<open>buf_len\<close> is the size of the buffer \<open>io_buf\<close> that the caller provides; its old contents are not used.\<close>

definition inode_sync :: "part_id \<Rightarrow> inode \<Rightarrow> nat \<Rightarrow> machine \<Rightarrow> machine option" where
  "inode_sync part ino buf_len f = do {
     let inode_no = i_no ino mod 2 ^ 8;
     let p = parts f part;
     pos \<leftarrow> inode_locate p inode_no;
     ASSERT (sec_lba pos \<le> start_lba p + sec_cnt p);
     let pure_inode = ino\<lparr>i_open_cnts := 0, write_deny := False\<rparr>;
     let n = (if two_sec pos then 2 else 1);
     ASSERT (n * 512 \<le> buf_len);
     (f, inode_buf) \<leftarrow> ide_read (my_disk p) (sec_lba pos) n f;
     inode_buf \<leftarrow> buf_write inode_buf (off_size pos) (inode_bytes pure_inode);
     ide_write (my_disk p) (sec_lba pos) inode_buf n f
   }"

text \<open>\<open>sys_malloc\<close> and \<open>sys_free\<close> on the kernel's heap: \<open>pgdir\<close> is \<open>NULL\<close> during the call.\<close>

definition set_pgdir :: "u32 \<Rightarrow> machine \<Rightarrow> machine" where
  "set_pgdir pd f = f\<lparr>krn := upd_task (running_thread (krn f)) (\<lambda>p. p\<lparr>pgdir := pd\<rparr>) (krn f)\<rparr>"

definition kernel_malloc :: "nat \<Rightarrow> machine \<Rightarrow> (machine \<times> u32) option" where
  "kernel_malloc n f = do {
     let cur_pagedir_bak = pgdir (cur_task (krn f));
     let f = set_pgdir 0 f;
     (f, a) \<leftarrow> fs_malloc n f;
     Some (set_pgdir cur_pagedir_bak f, a)
   }"

definition kernel_free :: "u32 \<Rightarrow> machine \<Rightarrow> machine option" where
  "kernel_free a f = do {
     let cur_pagedir_bak = pgdir (cur_task (krn f));
     let f = set_pgdir 0 f;
     f \<leftarrow> fs_free a f;
     Some (set_pgdir cur_pagedir_bak f)
   }"

text \<open>The search of the open inodes; the two addresses are used without a comparison with \<open>NULL\<close>.\<close>

definition inode_open :: "part_id \<Rightarrow> nat \<Rightarrow> machine \<Rightarrow> (machine \<times> u32) option" where
  "inode_open part inode_no f =
     (case find (\<lambda>a. i_no (inodes f a) = inode_no) (open_inodes (parts f part)) of
        Some inode_found \<Rightarrow> Some (upd_inode inode_found (\<lambda>i. i\<lparr>i_open_cnts := w32 (i_open_cnts i + 1)\<rparr>) f, inode_found)
      | None \<Rightarrow> do {
          pos \<leftarrow> inode_locate (parts f part) inode_no;
          (f, inode_found) \<leftarrow> kernel_malloc inode_size f;
          ASSERT (inode_found \<noteq> 0);
          let n = (if two_sec pos then 2 else 1);
          (f, inode_buf) \<leftarrow> fs_malloc (n * 512) f;
          ASSERT (inode_buf \<noteq> 0);
          (f, bytes) \<leftarrow> ide_read (my_disk (parts f part)) (sec_lba pos) n f;
          let f = upd_inode inode_found (\<lambda>_. inode_of (drop (off_size pos) bytes)) f;
          let f = upd_part part (\<lambda>p. p\<lparr>open_inodes := inode_found # open_inodes p\<rparr>) f;
          let f = upd_inode inode_found (\<lambda>i. i\<lparr>i_open_cnts := 1\<rparr>) f;
          f \<leftarrow> fs_free inode_buf f;
          Some (f, inode_found)
        })"

text \<open>An open inode is linked into the list of the mounted partition.\<close>

definition inode_close :: "u32 \<Rightarrow> machine \<Rightarrow> machine option" where
  "inode_close a f = do {
     let (k, old_status) = intr_disable (krn f);
     let f = f\<lparr>krn := k\<rparr>;
     let f = upd_inode a (\<lambda>i. i\<lparr>i_open_cnts := sub32 (i_open_cnts i) 1\<rparr>) f;
     f \<leftarrow> (if i_open_cnts (inodes f a) = 0 then do {
             let f = upd_part (cur_part f) (\<lambda>p. p\<lparr>open_inodes := remove1 a (open_inodes p)\<rparr>) f;
             kernel_free a f
           } else Some f);
     Some (f\<lparr>krn := fst (intr_set_status (krn f) old_status)\<rparr>)
   }"

definition inode_init :: "nat \<Rightarrow> inode \<Rightarrow> inode" where
  "inode_init inode_no new_inode =
     new_inode\<lparr>i_no := inode_no, i_size := 0, i_open_cnts := 0, write_deny := False, i_sectors := replicate 13 0\<rparr>"

definition inode_delete :: "part_id \<Rightarrow> nat \<Rightarrow> nat \<Rightarrow> machine \<Rightarrow> machine option" where
  "inode_delete part inode_no buf_len f = do {
     ASSERT (inode_no < 4096);
     let p = parts f part;
     pos \<leftarrow> inode_locate p inode_no;
     ASSERT (sec_lba pos \<le> start_lba p + sec_cnt p);
     let n = (if two_sec pos then 2 else 1);
     ASSERT (n * 512 \<le> buf_len);
     (f, inode_buf) \<leftarrow> ide_read (my_disk p) (sec_lba pos) n f;
     inode_buf \<leftarrow> buf_write inode_buf (off_size pos) (replicate inode_size 0);
     ide_write (my_disk p) (sec_lba pos) inode_buf n f
   }"

text \<open>The recovery of the blocks of a deleted file.\<close>

definition release_block :: "part_id \<Rightarrow> nat \<Rightarrow> machine \<Rightarrow> machine option" where
  "release_block part lba f = do {
     let block_bitmap_idx = sub32 lba (data_start_lba (sb (parts f part)));
     ASSERT (block_bitmap_idx > 0);
     f \<leftarrow> set_block_bit part block_bitmap_idx 0 f;
     bitmap_sync (cur_part f) block_bitmap_idx BLOCK_BITMAP f
   }"

fun release_blocks :: "part_id \<Rightarrow> nat list \<Rightarrow> machine \<Rightarrow> machine option" where
  "release_blocks part [] f = Some f"
| "release_blocks part (b # bs) f = do {
     f \<leftarrow> (if b \<noteq> 0 then release_block part b f else Some f);
     release_blocks part bs f
   }"

definition inode_release :: "part_id \<Rightarrow> nat \<Rightarrow> machine \<Rightarrow> machine option" where
  "inode_release part inode_no f = do {
     (f, inode_to_del) \<leftarrow> inode_open part inode_no f;
     let ino = inodes f inode_to_del;
     ASSERT (i_no ino = inode_no);
     let direct = take 12 (i_sectors ino);
     let table = i_sectors ino ! 12;
     (f, all_blocks) \<leftarrow> (if table \<noteq> 0 then do {
           (f, bytes) \<leftarrow> ide_read (my_disk (parts f part)) table 1 f;
           f \<leftarrow> release_block part table f;
           Some (f, direct @ get_words 128 bytes)
         } else Some (f, direct));
     f \<leftarrow> release_blocks part all_blocks f;
     f \<leftarrow> set_inode_bit part inode_no 0 f;
     f \<leftarrow> bitmap_sync (cur_part f) inode_no INODE_BITMAP f;
     inode_close inode_to_del f
   }"


section \<open>Sectors inside of a region\<close>

lemma read_sects_sub:
  assumes "wf_disk f dk" "k + m \<le> n"
  shows "read_sects f dk (lba + k) m = take (m * 512) (drop (k * 512) (read_sects f dk lba n))"
proof -
  have "read_sects f dk lba n = read_sects f dk lba k @ read_sects f dk (lba + k) m @ read_sects f dk (lba + k + m) (n - k - m)"
    using read_sects_append [of f dk lba k "n - k"] read_sects_append [of f dk "lba + k" m "n - k - m"] assms(2) by simp
  then show ?thesis using length_read_sects [OF assms(1)] by simp
qed

lemma read_sects_cong: "(\<And>s. lba \<le> s \<Longrightarrow> s < lba + n \<Longrightarrow> sectors f dk s = sectors g dk s) \<Longrightarrow> read_sects f dk lba n = read_sects g dk lba n"
  by (auto simp: read_sects_def intro!: arg_cong [where f = concat])

lemma read_sects_write_in:
  assumes "wf_disk f dk" "k + m \<le> n" "length d = m * 512"
  shows "read_sects (write_sects dk (lba + k) m d f) dk lba n = put_at (read_sects f dk lba n) (k * 512) d"
proof -
  let ?g = "write_sects dk (lba + k) m d f"
  have "read_sects ?g dk lba n = read_sects ?g dk lba k @ read_sects ?g dk (lba + k) m @ read_sects ?g dk (lba + k + m) (n - k - m)"
    using read_sects_append [of ?g dk lba k "n - k"] read_sects_append [of ?g dk "lba + k" m "n - k - m"] assms(2) by simp
  also have "read_sects ?g dk (lba + k) m = d" by (rule read_write_sects) (simp add: assms(3))
  also have "read_sects ?g dk lba k = read_sects f dk lba k" by (rule read_sects_cong) (simp add: write_sects_def)
  also have "read_sects ?g dk (lba + k + m) (n - k - m) = read_sects f dk (lba + k + m) (n - k - m)"
    by (rule read_sects_cong) (simp add: write_sects_def)
  also have "read_sects f dk lba k = take (k * 512) (read_sects f dk lba n)"
    using read_sects_sub [OF assms(1), of 0 k n lba] assms(2) by simp
  also have "read_sects f dk (lba + k + m) (n - k - m) = drop (k * 512 + m * 512) (read_sects f dk lba n)"
    using read_sects_sub [OF assms(1), of "k + m" "n - k - m" n lba] assms(2) length_read_sects [OF assms(1), of lba n]
    by (simp add: algebra_simps diff_mult_distrib)
  finally show ?thesis by (simp add: put_at_def assms(3))
qed

lemma read_sects_write_out:
  "dk' \<noteq> dk \<or> lba' + n \<le> lba \<or> lba + m \<le> lba' \<Longrightarrow> read_sects (write_sects dk lba m d f) dk' lba' n = read_sects f dk' lba' n"
  by (rule read_sects_cong) (auto simp: write_sects_def)

text \<open>Changing bytes inside of a part that is then put back is changing them in the whole.\<close>

lemma put_at_nested:
  assumes "off + length x \<le> m" "base + m \<le> length xs"
  shows "put_at xs base (put_at (take m (drop base xs)) off x) = put_at xs (base + off) x"
proof -
  have "take base xs @ take off (take m (drop base xs)) = take (base + off) xs"
    using assms take_add [of base off xs] by (simp add: min_def)
  moreover have "drop (off + length x) (take m (drop base xs)) @ drop (base + m) xs = drop (base + off + length x) xs"
  proof -
    have "drop (off + length x) (drop base xs) = drop (off + length x) (take m (drop base xs)) @ drop m (drop base xs)"
      using assms(1) by (subst append_take_drop_id [of m "drop base xs", symmetric]) (simp del: append_take_drop_id add: min_def assms)
    then show ?thesis by (simp add: ac_simps)
  qed
  moreover have "length (put_at (take m (drop base xs)) off x) = m" using assms by (subst put_at_simps) simp_all
  ultimately show ?thesis using assms by (simp add: put_at_def)
qed

lemma take_put_at_same: "off + length x \<le> length xs \<Longrightarrow> take (length x) (drop off (put_at xs off x)) = x"
  by (simp add: put_at_def)

lemma take_put_at_other:
  assumes "off + length x \<le> length xs" "off' + m \<le> off \<or> off + length x \<le> off'"
  shows "take m (drop off' (put_at xs off x)) = take m (drop off' xs)"
  using assms(2)
proof
  assume "off' + m \<le> off"
  then have "take (off' + m) (put_at xs off x) = take (off' + m) xs" using assms(1) by (simp add: put_at_def min_def)
  from arg_cong [OF this, of "drop off'"] show ?thesis by (simp add: drop_take)
next
  assume a: "off + length x \<le> off'"
  then have "drop off' (put_at xs off x) = drop (off' - off - length x) (drop (off + length x) xs)"
    using assms(1) by (simp add: put_at_def)
  then show ?thesis using a by simp
qed


section \<open>The inode table on the disk\<close>

text \<open>The table as bytes, and the inode with a given number in it.\<close>

definition table_bytes :: "machine \<Rightarrow> part_id \<Rightarrow> u8 list" where
  "table_bytes f part = read_sects f (my_disk (parts f part)) (inode_table_lba (sb (parts f part))) 608"

definition disk_inode :: "machine \<Rightarrow> part_id \<Rightarrow> nat \<Rightarrow> inode" where
  "disk_inode f part n = inode_of (drop (n * inode_size) (table_bytes f part))"

definition disk_ok :: "machine \<Rightarrow> part_id \<Rightarrow> bool" where
  "disk_ok f part \<longleftrightarrow> (let p = parts f part in drive_ready f (my_disk p) \<and> wf_disk f (my_disk p) \<and>
     inode_table_lba (sb p) + 608 \<le> max_lba + 1 \<and> inode_table_lba (sb p) + 608 \<le> start_lba p + sec_cnt p)"

lemma inode_of_take: "inode_of (take inode_size bs) = inode_of bs"
  by (simp add: inode_of_def inode_size_def get_words_take)

lemma inode_locate_bounds:
  assumes "n < 4096"
  obtains pos where "inode_locate part n = Some pos" "sec_lba pos = inode_table_lba (sb part) + n * inode_size div 512"
    "off_size pos = n * inode_size mod 512"
    "n * inode_size div 512 + (if two_sec pos then 2 else 1) \<le> 608"
    "off_size pos + inode_size \<le> (if two_sec pos then 2 else 1) * 512"
proof
  let ?pos = "\<lparr>two_sec = (512 - n * inode_size mod 512 < inode_size), sec_lba = inode_table_lba (sb part) + n * inode_size div 512,
    off_size = n * inode_size mod 512\<rparr>"
  show "inode_locate part n = Some ?pos" using assms by (simp add: inode_locate_def Let_def)
  show "sec_lba ?pos = inode_table_lba (sb part) + n * inode_size div 512" "off_size ?pos = n * inode_size mod 512" by simp_all
  show "off_size ?pos + inode_size \<le> (if two_sec ?pos then 2 else 1) * 512"
    using mod_less_divisor [of 512 "n * inode_size"] by (auto simp: inode_size_def)
  have "n * 76 + 76 \<le> 608 * 512" using assms by simp
  moreover have "n * 76 = n * 76 div 512 * 512 + n * 76 mod 512" by (rule div_mult_mod_eq [symmetric])
  ultimately have "n * 76 div 512 * 512 + n * 76 mod 512 + 76 \<le> 608 * 512" by linarith
  then show "n * inode_size div 512 + (if two_sec ?pos then 2 else 1) \<le> 608"
    by (auto simp: inode_size_def)
qed

text \<open>A change of one inode in place.\<close>

lemma table_update:
  assumes ok: "disk_ok f part" and n: "n < 4096" and x: "length x = inode_size"
    and pos: "inode_locate (parts f part) n = Some pos"
  defines "p \<equiv> parts f part" and "k \<equiv> (if two_sec pos then 2 else 1)"
  shows "ide_read (my_disk p) (sec_lba pos) k f = Some (f, read_sects f (my_disk p) (sec_lba pos) k)"
    and "\<exists>b f'. buf_write (read_sects f (my_disk p) (sec_lba pos) k) (off_size pos) x = Some b \<and>
      ide_write (my_disk p) (sec_lba pos) b k f = Some f' \<and> table_bytes f' part = put_at (table_bytes f part) (n * inode_size) x \<and>
      f' = write_sects (my_disk p) (sec_lba pos) k b f \<and> length b = k * 512"
    and "sec_lba pos \<le> start_lba p + sec_cnt p" and "sec_lba pos + k \<le> inode_table_lba (sb p) + 608"
    "inode_table_lba (sb p) \<le> sec_lba pos"
proof -
  let ?dk = "my_disk p" and ?t = "inode_table_lba (sb p)" and ?q = "n * inode_size div 512"
  have d: "drive_ready f ?dk" "wf_disk f ?dk" "?t + 608 \<le> max_lba + 1" "?t + 608 \<le> start_lba p + sec_cnt p"
    using ok by (simp_all add: disk_ok_def p_def Let_def)
  have l: "sec_lba pos = ?t + ?q" "off_size pos = n * inode_size mod 512" "?q + k \<le> 608" "off_size pos + inode_size \<le> k * 512"
    by (rule inode_locate_bounds [OF n, of "parts f part"]; use pos in \<open>simp add: p_def k_def\<close>)+
  have k: "0 < k" by (simp add: k_def)
  have lim: "sec_lba pos + k \<le> max_lba + 1" using l(1,3) d(3) by linarith
  show "ide_read ?dk (sec_lba pos) k f = Some (f, read_sects f ?dk (sec_lba pos) k)" by (rule ide_read_eq [OF d(1,2) k lim])
  let ?r = "read_sects f ?dk (sec_lba pos) k"
  let ?b = "put_at ?r (off_size pos) x"
  have lr: "length ?r = k * 512" by (rule length_read_sects [OF d(2)])
  have w: "buf_write ?r (off_size pos) x = Some ?b" using l(4) x lr by (simp add: buf_write_def)
  have lb: "length ?b = k * 512" using put_at_simps(2) [of "off_size pos" x ?r] l(4) x lr by simp
  have wr: "ide_write ?dk (sec_lba pos) ?b k f = Some (write_sects ?dk (sec_lba pos) k ?b f)"
    by (rule ide_write_eq [OF d(1) k lim]) (simp add: lb)
  let ?T = "read_sects f ?dk ?t 608"
  have rr: "?r = take (k * 512) (drop (?q * 512) ?T)" unfolding l(1) by (rule read_sects_sub [OF d(2) l(3)])
  have "read_sects (write_sects ?dk (sec_lba pos) k ?b f) ?dk ?t 608 = put_at ?T (?q * 512) ?b"
    using read_sects_write_in [OF d(2) l(3) lb, of ?t] unfolding l(1) .
  also have "\<dots> = put_at ?T (?q * 512 + off_size pos) x"
    unfolding rr by (rule put_at_nested) (use l(3,4) x length_read_sects [OF d(2), of ?t 608] in auto)
  also have "?q * 512 + off_size pos = n * inode_size" by (simp add: l(2))
  finally have "table_bytes (write_sects ?dk (sec_lba pos) k ?b f) part = put_at (table_bytes f part) (n * inode_size) x"
    by (simp add: table_bytes_def p_def)
  then show "\<exists>b f'. buf_write ?r (off_size pos) x = Some b \<and> ide_write ?dk (sec_lba pos) b k f = Some f' \<and>
      table_bytes f' part = put_at (table_bytes f part) (n * inode_size) x \<and> f' = write_sects ?dk (sec_lba pos) k b f \<and> length b = k * 512"
    using w wr lb by blast
  show "sec_lba pos \<le> start_lba p + sec_cnt p" "sec_lba pos + k \<le> ?t + 608" "?t \<le> sec_lba pos" using l(1,3) d(4) by linarith+
qed

lemma disk_inode_put:
  assumes "wf_disk f (my_disk (parts f part))" "m < 4096" "n < 4096" "length x = inode_size"
    and "table_bytes f' part = put_at (table_bytes f part) (m * inode_size) x"
  shows "disk_inode f' part n = (if n = m then inode_of x else disk_inode f part n)"
proof -
  let ?T = "table_bytes f part" and ?T' = "table_bytes f' part"
  have l: "m * inode_size + length x \<le> length ?T"
    using assms length_read_sects [OF assms(1)] by (simp add: table_bytes_def inode_size_def)
  show ?thesis
  proof (cases "n = m")
    case True
    have "take inode_size (drop (n * inode_size) ?T') = x"
      using take_put_at_same [OF l] assms(4,5) True by simp
    then show ?thesis using True inode_of_take [of "drop (n * inode_size) ?T'"] by (simp add: disk_inode_def)
  next
    case False
    then consider "n + 1 \<le> m" | "m + 1 \<le> n" by linarith
    then have "n * inode_size + inode_size \<le> m * inode_size \<or> m * inode_size + length x \<le> n * inode_size"
      by cases (auto simp: assms(4) inode_size_def)
    then have "take inode_size (drop (n * inode_size) ?T') = take inode_size (drop (n * inode_size) ?T)"
      unfolding assms(5) by (rule take_put_at_other [OF l])
    then show ?thesis
      using False inode_of_take [of "drop (n * inode_size) ?T'"] inode_of_take [of "drop (n * inode_size) ?T"]
      by (simp add: disk_inode_def)
  qed
qed

definition pure_inode :: "inode \<Rightarrow> inode" where
  "pure_inode ino = ino\<lparr>i_open_cnts := 0, write_deny := False\<rparr>"

lemma wf_pure_inode: "wf_inode ino \<Longrightarrow> wf_inode (pure_inode ino)"
  by (simp add: wf_inode_def pure_inode_def)

lemma wf_disk_write_sects:
  assumes "wf_disk f dk'" "length d = k * 512"
  shows "wf_disk (write_sects dk lba k d f) dk'"
proof -
  have "length (take 512 (drop (512 * (s - lba)) d)) = 512" if "lba \<le> s" "s < lba + k" for s
  proof -
    have "s - lba + 1 \<le> k" using that by linarith
    then have "(s - lba + 1) * 512 \<le> length d" unfolding assms(2) by (rule mult_le_mono1)
    then show ?thesis by simp
  qed
  then show ?thesis using assms(1) unfolding wf_disk_def write_sects_def by (cases "dk' = dk") simp_all
qed

lemma disk_ok_write_sects: "disk_ok f part \<Longrightarrow> length d = k * 512 \<Longrightarrow> disk_ok (write_sects dk lba k d f) part"
  by (simp add: disk_ok_def Let_def wf_disk_write_sects)

text \<open>
  C30. Writing an inode to its partition replaces exactly one inode of the table on the disk and keeps the
  others.  The slot is the one of the inode's number modulo 256: \<open>inode_sync\<close> keeps the number in a
  \<open>uint8_t\<close>, so inodes above 255 are written over others.
\<close>

theorem inode_sync_updates_table:
  assumes ok: "disk_ok f part" and wf: "wf_inode ino" and len: "1024 \<le> buf_len"
  shows "\<exists>f'. inode_sync part ino buf_len f = Some f' \<and> disk_ok f' part \<and>
    (\<forall>n < 4096. disk_inode f' part n =
       (if n = i_no ino mod 256 then ino\<lparr>i_open_cnts := 0, write_deny := False\<rparr> else disk_inode f part n))"
proof -
  let ?n = "i_no ino mod 256" and ?x = "inode_bytes (pure_inode ino)"
  have n: "?n < 4096" using mod_less_divisor [of 256 "i_no ino"] by linarith
  obtain pos where pos: "inode_locate (parts f part) ?n = Some pos" by (rule inode_locate_bounds [OF n])
  have x: "length ?x = inode_size" by (rule length_inode_bytes [OF wf_pure_inode [OF wf]])
  let ?k = "if two_sec pos then 2 else 1 :: nat"
  note u = table_update [OF ok n x pos]
  obtain b f' where b: "buf_write (read_sects f (my_disk (parts f part)) (sec_lba pos) ?k) (off_size pos) ?x = Some b"
      "ide_write (my_disk (parts f part)) (sec_lba pos) b ?k f = Some f'"
    and t: "table_bytes f' part = put_at (table_bytes f part) (?n * inode_size) ?x"
    and f': "f' = write_sects (my_disk (parts f part)) (sec_lba pos) ?k b f" "length b = ?k * 512"
    using u(2) by blast
  have "inode_sync part ino buf_len f = Some f'"
    using pos u(1,3) b len by (simp add: inode_sync_def Let_def pure_inode_def split del: if_split) simp
  moreover have "disk_ok f' part" unfolding f'(1) by (rule disk_ok_write_sects [OF ok f'(2)])
  moreover have "disk_inode f' part m = (if m = ?n then pure_inode ino else disk_inode f part m)" if "m < 4096" for m
  proof -
    have "wf_disk f (my_disk (parts f part))" using ok by (simp add: disk_ok_def Let_def)
    from disk_inode_put [OF this n that x t] show ?thesis
      using inode_of_bytes [OF wf_pure_inode [OF wf], of "[]"] by simp
  qed
  ultimately show ?thesis by (auto simp: pure_inode_def)
qed


section \<open>Blocks and inode numbers as slots\<close>

definition block_slots :: "part_id \<Rightarrow> machine \<Rightarrow> int set" where
  "block_slots part f = (\<lambda>i. int (data_start_lba (sb (parts f part))) + int i) ` {..<nbits (block_bitmap (parts f part))}"

definition taken_blocks :: "part_id \<Rightarrow> machine \<Rightarrow> int set" where
  "taken_blocks part f = (\<lambda>i. int (data_start_lba (sb (parts f part))) + int i) ` used (block_bitmap (parts f part))"

definition free_block :: "part_id \<Rightarrow> int \<Rightarrow> machine \<Rightarrow> machine option" where
  "free_block part lba f = set_block_bit part (nat (lba - int (data_start_lba (sb (parts f part))))) 0 f"

definition part_ok :: "part_id \<Rightarrow> machine \<Rightarrow> bool" where
  "part_ok part f \<longleftrightarrow> wf_bitmap (block_bitmap (parts f part)) \<and> wf_bitmap (inode_bitmap (parts f part))"

lemma used_less: "used bm \<subseteq> {..<nbits bm}"
  by (auto simp: used_def)

lemma upd_part_parts [simp]: "parts (upd_part p g f) = (parts f)(p := g (parts f p))"
  by (simp add: upd_part_def)

interpretation blocks: slot_pool "block_bitmap_alloc part" "free_block part" "taken_blocks part" "block_slots part" "part_ok part"
proof
  fix s :: machine let ?bm = "block_bitmap (parts s part)" and ?d = "int (data_start_lba (sb (parts s part)))"
  show "finite (block_slots part s)" by (simp add: block_slots_def)
  show "taken_blocks part s \<subseteq> block_slots part s" using used_less by (auto simp: block_slots_def taken_blocks_def)
  assume ok: "part_ok part s"
  then have wf: "wf_bitmap ?bm" by (simp add: part_ok_def)
  have inj: "inj_on (\<lambda>i. ?d + int i) A" for A by (simp add: inj_on_def)
  {
    assume "taken_blocks part s \<noteq> block_slots part s"
    then have "used ?bm \<noteq> {..<nbits ?bm}" by (auto simp: block_slots_def taken_blocks_def)
    then obtain n bm' where n: "bitmap_scan ?bm 1 = Some (int n)" "bitmap_set ?bm n 1 = Some bm'" "n < nbits ?bm"
      "n \<notin> used ?bm" "used bm' = insert n (used ?bm)" "wf_bitmap bm'" "nbits bm' = nbits ?bm"
      by (rule bitmap_take_one [OF wf])
    let ?s = "upd_part part (\<lambda>p. p\<lparr>block_bitmap := bm'\<rparr>) s"
    have "block_bitmap_alloc part s = Some (?s, ?d + int n)" using n(1,2) by (simp add: block_bitmap_alloc_def)
    moreover have "?d + int n \<in> block_slots part s - taken_blocks part s" using n(3,4) by (auto simp: block_slots_def taken_blocks_def)
    moreover have "taken_blocks part ?s = insert (?d + int n) (taken_blocks part s)" "block_slots part ?s = block_slots part s" "part_ok part ?s"
      using n(5-7) ok by (simp_all add: taken_blocks_def block_slots_def part_ok_def)
    ultimately show "\<exists>s' a. block_bitmap_alloc part s = Some (s', a) \<and> a \<in> block_slots part s - taken_blocks part s \<and>
        taken_blocks part s' = insert a (taken_blocks part s) \<and> block_slots part s' = block_slots part s \<and> part_ok part s'" by blast
  next
    assume "taken_blocks part s = block_slots part s"
    then have "used ?bm = {..<nbits ?bm}" using inj_on_image_eq_iff [OF inj [of UNIV], of "used ?bm" "{..<nbits ?bm}"]
      by (simp add: block_slots_def taken_blocks_def)
    then show "block_bitmap_alloc part s = None" by (simp add: block_bitmap_alloc_def bitmap_scan_full)
  next
    fix a assume "a \<in> taken_blocks part s"
    then obtain n where a: "a = ?d + int n" "n \<in> used ?bm" by (auto simp: taken_blocks_def)
    obtain bm' where bm: "bitmap_set ?bm n 0 = Some bm'" "used bm' = used ?bm - {n}" "wf_bitmap bm'" "nbits bm' = nbits ?bm"
      by (rule bitmap_clear_one [OF wf a(2)])
    let ?s = "upd_part part (\<lambda>p. p\<lparr>block_bitmap := bm'\<rparr>) s"
    have "free_block part a s = Some ?s" using a(1) bm(1) by (simp add: free_block_def set_block_bit_def)
    moreover have "taken_blocks part ?s = taken_blocks part s - {a}" using bm(2) a(1) image_set_diff [OF inj [of UNIV]] by (simp add: taken_blocks_def)
    moreover have "block_slots part ?s = block_slots part s" "part_ok part ?s" using bm ok by (simp_all add: block_slots_def part_ok_def)
    ultimately show "\<exists>s'. free_block part a s = Some s' \<and> taken_blocks part s' = taken_blocks part s - {a} \<and>
        block_slots part s' = block_slots part s \<and> part_ok part s'" by blast
  }
qed

definition inode_slots :: "part_id \<Rightarrow> machine \<Rightarrow> int set" where
  "inode_slots part f = int ` {..<nbits (inode_bitmap (parts f part))}"

definition taken_inodes :: "part_id \<Rightarrow> machine \<Rightarrow> int set" where
  "taken_inodes part f = int ` used (inode_bitmap (parts f part))"

interpretation inode_nos: slot_pool "inode_bitmap_alloc part" "\<lambda>n. set_inode_bit part (nat n) 0" "taken_inodes part"
  "inode_slots part" "part_ok part"
proof
  fix s :: machine let ?bm = "inode_bitmap (parts s part)"
  show "finite (inode_slots part s)" by (simp add: inode_slots_def)
  show "taken_inodes part s \<subseteq> inode_slots part s" using used_less by (auto simp: inode_slots_def taken_inodes_def)
  assume ok: "part_ok part s"
  then have wf: "wf_bitmap ?bm" by (simp add: part_ok_def)
  {
    assume "taken_inodes part s \<noteq> inode_slots part s"
    then have "used ?bm \<noteq> {..<nbits ?bm}" by (auto simp: inode_slots_def taken_inodes_def)
    then obtain n bm' where n: "bitmap_scan ?bm 1 = Some (int n)" "bitmap_set ?bm n 1 = Some bm'" "n < nbits ?bm"
      "n \<notin> used ?bm" "used bm' = insert n (used ?bm)" "wf_bitmap bm'" "nbits bm' = nbits ?bm"
      by (rule bitmap_take_one [OF wf])
    then show "\<exists>s' a. inode_bitmap_alloc part s = Some (s', a) \<and> a \<in> inode_slots part s - taken_inodes part s \<and>
        taken_inodes part s' = insert a (taken_inodes part s) \<and> inode_slots part s' = inode_slots part s \<and> part_ok part s'"
      using ok by (auto simp: inode_bitmap_alloc_def taken_inodes_def inode_slots_def part_ok_def)
  next
    assume "taken_inodes part s = inode_slots part s"
    then have "used ?bm = {..<nbits ?bm}" using inj_image_eq_iff [OF inj_of_nat [where ?'a = int], of "used ?bm" "{..<nbits ?bm}"]
      by (simp add: inode_slots_def taken_inodes_def)
    then show "inode_bitmap_alloc part s = None" by (simp add: inode_bitmap_alloc_def bitmap_scan_full)
  next
    fix a assume "a \<in> taken_inodes part s"
    then obtain n where a: "a = int n" "n \<in> used ?bm" by (auto simp: taken_inodes_def)
    obtain bm' where "bitmap_set ?bm n 0 = Some bm'" "used bm' = used ?bm - {n}" "wf_bitmap bm'" "nbits bm' = nbits ?bm"
      by (rule bitmap_clear_one [OF wf a(2)])
    moreover have "int ` (used ?bm - {n}) = int ` used ?bm - {a}" using image_set_diff [OF inj_of_nat [where ?'a = int]] a(1) by simp
    ultimately show "\<exists>s'. set_inode_bit part (nat a) 0 s = Some s' \<and> taken_inodes part s' = taken_inodes part s - {a} \<and>
        inode_slots part s' = inode_slots part s \<and> part_ok part s'"
      using ok a(1) by (simp add: set_inode_bit_def taken_inodes_def inode_slots_def part_ok_def)
  }
qed

text \<open>
  C31. The block allocator of a partition hands out every free block of the data area exactly once, and
  a block whose bit is cleared is again among the blocks it hands out.
\<close>

theorem block_alloc_distinct:
  assumes "part_ok part f" and "n \<le> card (block_slots part f - taken_blocks part f)" "0 < n"
  shows "\<exists>f' bs f'' f3 b. take_n (block_bitmap_alloc part) n f = Some (f', bs) \<and> distinct bs \<and> length bs = n \<and>
    set bs \<subseteq> block_slots part f - taken_blocks part f \<and> free_block part (last bs) f' = Some f'' \<and>
    block_bitmap_alloc part f'' = Some (f3, b) \<and> b \<notin> taken_blocks part f \<union> set (butlast bs)"
proof -
  obtain f' bs where f': "take_n (block_bitmap_alloc part) n f = Some (f', bs)" "length bs = n" "distinct bs"
    "set bs \<subseteq> block_slots part f - taken_blocks part f" "taken_blocks part f' = taken_blocks part f \<union> set bs"
    "block_slots part f' = block_slots part f" "part_ok part f'"
    using blocks.take_n_distinct [OF assms(1,2)] by blast
  have "bs \<noteq> []" using f'(2) assms(3) by auto
  then have bs: "bs = butlast bs @ [last bs]" by simp
  then have "last bs \<notin> set (butlast bs)" using f'(3) by (metis distinct_append disjoint_iff list.set_intros(1))
  have l: "last bs \<in> taken_blocks part f'" using f'(5) \<open>bs \<noteq> []\<close> by simp
  then obtain f'' f3 b where "free_block part (last bs) f' = Some f''" "block_bitmap_alloc part f'' = Some (f3, b)"
    "b \<in> insert (last bs) (block_slots part f' - taken_blocks part f')"
    using blocks.release_alloc [OF f'(7) l] by blast
  moreover have "set (butlast bs) \<subseteq> set bs" by (rule subsetI) (rule in_set_butlastD)
  ultimately show ?thesis
    using f' \<open>last bs \<notin> set (butlast bs)\<close> \<open>bs \<noteq> []\<close> last_in_set by blast
qed


section \<open>Witnesses\<close>

text \<open>A partition of 20000 sectors from sector 2048, as \<open>partition_format\<close> lays it out.\<close>

definition sample_sb :: super_block where
  "sample_sb = \<lparr>magic = 0x19590318, sb_sec_cnt = 20000, inode_cnt = 4096, part_lba_base = 2048, block_bitmap_lba = 2050,
     block_bitmap_sects = 5, inode_bitmap_lba = 2055, inode_bitmap_sects = 1, inode_table_lba = 2056, inode_table_sects = 608,
     data_start_lba = 2664, root_inode_no = 0, dir_entry_size = 24, pad = replicate 460 0\<rparr>"

definition sample_fs :: machine where
  "sample_fs = sample_machine\<lparr>parts := (\<lambda>_. \<lparr>start_lba = 2048, sec_cnt = 20000, my_disk = (0, 1), part_name = replicate 8 0,
     sb = sample_sb, block_bitmap = sample_bitmap, inode_bitmap = sample_bitmap, open_inodes = []\<rparr>)\<rparr>"

lemma sample_fs_parts [simp]:
  "my_disk (parts sample_fs p) = (0, 1)" "sb (parts sample_fs p) = sample_sb" "start_lba (parts sample_fs p) = 2048"
  "sec_cnt (parts sample_fs p) = 20000" "open_inodes (parts sample_fs p) = []"
  "block_bitmap (parts sample_fs p) = sample_bitmap" "inode_bitmap (parts sample_fs p) = sample_bitmap"
  by (simp_all add: sample_fs_def)

lemma sample_fs_ready: "drive_ready sample_fs (0, 1)" "wf_disk sample_fs (0, 1)"
  using sample_machine_ready by (simp_all add: sample_fs_def drive_ready_def chan_ready_def wf_disk_def)

lemma sample_disk_ok: "disk_ok sample_fs p"
  by (simp add: disk_ok_def sample_fs_ready [unfolded One_nat_def] sample_sb_def max_lba_def)

definition sample_inode :: inode where
  "sample_inode = \<lparr>i_no = 262, i_size = 24, i_open_cnts = 2, write_deny = True, i_sectors = 2665 # replicate 12 0\<rparr>"

lemma inode_sync_updates_table_witness:
  "\<exists>f'. inode_sync ((0, 1), 0) sample_inode 1024 sample_fs = Some f' \<and> disk_ok f' ((0, 1), 0) \<and>
    disk_inode f' ((0, 1), 0) 6 = \<lparr>i_no = 262, i_size = 24, i_open_cnts = 0, write_deny = False, i_sectors = 2665 # replicate 12 0\<rparr>"
proof -
  have wf: "wf_inode sample_inode" by (simp add: wf_inode_def sample_inode_def list_all_iff)
  obtain f' where f': "inode_sync ((0, 1), 0) sample_inode 1024 sample_fs = Some f'" "disk_ok f' ((0, 1), 0)"
    and d: "\<forall>n < 4096. disk_inode f' ((0, 1), 0) n = (if n = i_no sample_inode mod 256
      then sample_inode\<lparr>i_open_cnts := 0, write_deny := False\<rparr> else disk_inode sample_fs ((0, 1), 0) n)"
    using inode_sync_updates_table [OF sample_disk_ok wf, of 1024 "((0, 1), 0)"] by auto
  have "disk_inode f' ((0, 1), 0) 6 = sample_inode\<lparr>i_open_cnts := 0, write_deny := False\<rparr>"
    using d by (simp add: sample_inode_def)
  then show ?thesis using f' by (simp add: sample_inode_def)
qed

lemma block_alloc_distinct_witness:
  "\<exists>f' bs f'' f3 b. take_n (block_bitmap_alloc ((0, 1), 0)) 8 sample_fs = Some (f', bs) \<and> distinct bs \<and> length bs = 8 \<and>
    set bs \<subseteq> block_slots ((0, 1), 0) sample_fs - taken_blocks ((0, 1), 0) sample_fs \<and>
    free_block ((0, 1), 0) (last bs) f' = Some f'' \<and> block_bitmap_alloc ((0, 1), 0) f'' = Some (f3, b) \<and>
    b \<notin> taken_blocks ((0, 1), 0) sample_fs \<union> set (butlast bs)"
proof (rule block_alloc_distinct)
  have u: "used sample_bitmap = {}" by (simp add: used_def bit_at_def sample_bitmap_def nbits_def)
  show "part_ok ((0, 1), 0) sample_fs" by (simp add: part_ok_def wf_bitmap_def sample_bitmap_def nbits_def)
  have "inj_on (\<lambda>i. int (data_start_lba sample_sb) + int i) {..<8}" by (simp add: inj_on_def)
  then show "8 \<le> card (block_slots ((0, 1), 0) sample_fs - taken_blocks ((0, 1), 0) sample_fs)"
    by (simp add: block_slots_def taken_blocks_def u card_image) (simp add: sample_bitmap_def nbits_def card_image)
qed simp

end
