(* ===== verification/Dir.thy ===== *)
theory Dir
  imports Inode
begin

text \<open>
  \<^verbatim>\<open>fs/dir.c\<close>: directories as files of entries of 24 bytes, 21 to a sector.

  Names that the kernel passes around are lists of bytes without the terminator; the names in a
  directory are read from the bytes of a sector.
\<close>

section \<open>Operations\<close>

text \<open>\<open>strcmp\<close> as a test for equality on bytes: \<open>None\<close> when it runs out of one of them.\<close>

fun streq :: "u8 list \<Rightarrow> u8 list \<Rightarrow> bool option" where
  "streq (x # xs) (y # ys) = (if x \<noteq> y then Some False else if x = 0 then Some True else streq xs ys)"
| "streq _ _ = None"

text \<open>
  The super block's \<open>dir_entry_size\<close> is the length of a copy and gives the number of entries in a sector,
  while the pointers advance by \<open>sizeof(struct dir_entry)\<close>; another value takes them out of the buffers.
\<close>

definition entries_per_sec :: "super_block \<Rightarrow> nat option" where
  "entries_per_sec s = do { ASSERT (dir_entry_size s = dirent_size); Some (512 div dir_entry_size s) }"

definition entry_at :: "u8 list \<Rightarrow> nat \<Rightarrow> u8 list" where
  "entry_at bytes k = drop (dirent_size * k) bytes"

definition open_root_dir :: "part_id \<Rightarrow> machine \<Rightarrow> machine option" where
  "open_root_dir part f = do {
     (f, a) \<leftarrow> inode_open part (root_inode_no (sb (parts f part))) f;
     Some (f\<lparr>dirs := (dirs f)(Root_dir := (dirs f Root_dir)\<lparr>dir_inode := a, dir_pos := 0\<rparr>)\<rparr>)
   }"

text \<open>The twelve direct blocks and the 128 entries of the indirect one.\<close>

definition all_blocks :: "hd_id \<Rightarrow> inode \<Rightarrow> machine \<Rightarrow> (machine \<times> nat list) option" where
  "all_blocks dk ino f =
     (if i_sectors ino ! 12 \<noteq> 0 then do {
        (f, bytes) \<leftarrow> ide_read dk (i_sectors ino ! 12) 1 f;
        Some (f, take 12 (i_sectors ino) @ get_words 128 bytes)
      } else Some (f, take 12 (i_sectors ino) @ replicate 128 0))"

fun search_block :: "nat list \<Rightarrow> u8 list \<Rightarrow> u8 list \<Rightarrow> dir_entry option option" where
  "search_block [] bytes nm = Some None"
| "search_block (k # ks) bytes nm = do {
     eq \<leftarrow> streq (entry_at bytes k) (nm @ [0]);
     if eq then Some (Some (dirent_of (entry_at bytes k))) else search_block ks bytes nm
   }"

fun search_blocks :: "hd_id \<Rightarrow> nat \<Rightarrow> nat list \<Rightarrow> u8 list \<Rightarrow> machine \<Rightarrow> (machine \<times> dir_entry option) option" where
  "search_blocks dk n [] nm f = Some (f, None)"
| "search_blocks dk n (b # bs) nm f =
     (if b = 0 then search_blocks dk n bs nm f
      else do {
        (f, bytes) \<leftarrow> ide_read dk b 1 f;
        r \<leftarrow> search_block [0..<n] bytes nm;
        case r of Some e \<Rightarrow> Some (f, Some e) | None \<Rightarrow> search_blocks dk n bs nm f
      })"

definition search_dir_entry :: "part_id \<Rightarrow> dir_ref \<Rightarrow> u8 list \<Rightarrow> dir_entry \<Rightarrow> machine \<Rightarrow> (machine \<times> dir_entry \<times> bool) option" where
  "search_dir_entry part pdir nm dir_e f = do {
     (f, blocks_buf) \<leftarrow> fs_malloc (48 + 512) f;
     if blocks_buf = 0 then Some (f, dir_e, False)
     else do {
       let p = parts f part;
       (f, blks) \<leftarrow> all_blocks (my_disk p) (inodes f (dir_inode (dirs f pdir))) f;
       (f, io_buf) \<leftarrow> fs_malloc 512 f;
       ASSERT (io_buf \<noteq> 0);
       n \<leftarrow> entries_per_sec (sb p);
       (f, r) \<leftarrow> search_blocks (my_disk p) n blks nm f;
       f \<leftarrow> fs_free io_buf f;
       f \<leftarrow> fs_free blocks_buf f;
       case r of Some e \<Rightarrow> Some (f, e, True) | None \<Rightarrow> Some (f, dir_e, False)
     }
   }"

definition dir_open :: "part_id \<Rightarrow> nat \<Rightarrow> machine \<Rightarrow> (machine \<times> dir_ref) option" where
  "dir_open part inode_no f = do {
     (f, pdir) \<leftarrow> fs_malloc 520 f;
     ASSERT (pdir \<noteq> 0);
     (f, a) \<leftarrow> inode_open part inode_no f;
     Some (f\<lparr>dirs := (dirs f)(Heap_dir pdir := \<lparr>dir_inode = a, dir_pos = 0, dir_buf = replicate 512 0\<rparr>)\<rparr>, Heap_dir pdir)
   }"

fun dir_close :: "dir_ref \<Rightarrow> machine \<Rightarrow> machine option" where
  "dir_close Root_dir f = Some f"
| "dir_close (Heap_dir a) f = do {
     f \<leftarrow> inode_close (dir_inode (dirs f (Heap_dir a))) f;
     fs_free a f
   }"

definition create_dir_entry :: "u8 list \<Rightarrow> nat \<Rightarrow> nat \<Rightarrow> dir_entry \<Rightarrow> dir_entry option" where
  "create_dir_entry nm inode_no file_types p_de = do {
     ASSERT (length nm \<le> MAX_FILE_NAME_LEN);
     fn \<leftarrow> buf_write (filename p_de) 0 nm;
     Some (p_de\<lparr>filename := fn, de_i_no := inode_no, f_type := file_types mod 2 ^ 8\<rparr>)
   }"

definition grow_dir :: "u32 \<Rightarrow> machine \<Rightarrow> machine" where
  "grow_dir a f = upd_inode a (\<lambda>i. i\<lparr>i_size := w32 (i_size i + dir_entry_size (sb (cpart f)))\<rparr>) f"

definition set_sector :: "u32 \<Rightarrow> nat \<Rightarrow> nat \<Rightarrow> machine \<Rightarrow> machine" where
  "set_sector a idx lba f = upd_inode a (\<lambda>i. i\<lparr>i_sectors := (i_sectors i)[idx := lba]\<rparr>) f"

text \<open>A new block is taken, recorded in the bitmap on the disk; \<open>None\<close> in the second place is \<open>-1\<close>.\<close>

definition new_block :: "machine \<Rightarrow> (machine \<times> nat option) option" where
  "new_block f = do {
     (f, block_lba) \<leftarrow> block_bitmap_alloc (cur_part f) f;
     if block_lba = -1 then Some (f, None)
     else do {
       let block_bitmap_idx = nat block_lba - data_start_lba (sb (cpart f));
       f \<leftarrow> bitmap_sync (cur_part f) block_bitmap_idx BLOCK_BITMAP f;
       Some (f, Some (nat block_lba))
     }
   }"

text \<open>
  The part of \<open>sync_dir_entry\<close> that gives the directory a new block.  Block 12 stands for the indirect
  table, with its first entry taken from a second allocation.
\<close>

definition sync_new_block :: "u32 \<Rightarrow> dir_entry \<Rightarrow> nat list \<Rightarrow> nat \<Rightarrow> machine \<Rightarrow> (machine \<times> bool) option" where
  "sync_new_block a p_de blks block_idx f = do {
     let dk = my_disk (cpart f);
     (f, r) \<leftarrow> new_block f;
     case r of None \<Rightarrow> Some (f, False)
     | Some block_lba \<Rightarrow> do {
       (f, s) \<leftarrow>
         (if block_idx < 12 then Some (set_sector a block_idx block_lba f, Some block_lba)
          else if block_idx = 12 then do {
            let f = set_sector a 12 block_lba f;
            (f, r) \<leftarrow> new_block f;
            case r of
              None \<Rightarrow> do {
                let block_bitmap_idx = sub32 (i_sectors (inodes f a) ! 12) (data_start_lba (sb (cpart f)));
                f \<leftarrow> set_block_bit (cur_part f) block_bitmap_idx 0 f;
                f \<leftarrow> bitmap_sync (cur_part f) block_bitmap_idx BLOCK_BITMAP f;
                Some (set_sector a 12 0 f, None)
              }
            | Some lba \<Rightarrow> do {
                f \<leftarrow> ide_write dk (i_sectors (inodes f a) ! 12) (put_words (drop 12 (blks[12 := lba]))) 1 f;
                Some (f, Some lba)
              }
          } else do {
            f \<leftarrow> ide_write dk (i_sectors (inodes f a) ! 12) (put_words (drop 12 (blks[block_idx := block_lba]))) 1 f;
            Some (f, Some block_lba)
          });
       case s of None \<Rightarrow> Some (f, False)
       | Some lba \<Rightarrow> do {
         f \<leftarrow> ide_write dk lba (put_at (replicate 512 0) 0 (dirent_bytes p_de)) 1 f;
         Some (grow_dir a f, True)
       }
     }
   }"

definition free_entry :: "nat \<Rightarrow> u8 list \<Rightarrow> nat option" where
  "free_entry n bytes = find (\<lambda>k. f_type (dirent_of (entry_at bytes k)) = FT_UNKNOWN) [0..<n]"

text \<open>The loop over the blocks; the indirect table is read only once \<open>block_idx\<close> is past 12.\<close>

function sync_dir_loop :: "u32 \<Rightarrow> dir_entry \<Rightarrow> nat \<Rightarrow> nat list \<Rightarrow> nat \<Rightarrow> machine \<Rightarrow> (machine \<times> bool) option" where
  "sync_dir_loop a p_de n blks block_idx f =
     (if block_idx < 140 then
        if blks ! block_idx = 0 then sync_new_block a p_de blks block_idx f
        else do {
          let dk = my_disk (cpart f);
          (f, bytes) \<leftarrow> ide_read dk (blks ! block_idx) 1 f;
          case free_entry n bytes of
            Some k \<Rightarrow> do {
              f \<leftarrow> ide_write dk (blks ! block_idx) (put_at bytes (dirent_size * k) (dirent_bytes p_de)) 1 f;
              Some (grow_dir a f, True)
            }
          | None \<Rightarrow> do {
              (f, blks) \<leftarrow> (if block_idx + 1 > 12 then do {
                    (f, bytes) \<leftarrow> ide_read dk (i_sectors (inodes f a) ! 12) 1 f;
                    Some (f, take 12 blks @ get_words 128 bytes)
                  } else Some (f, blks));
              sync_dir_loop a p_de n blks (block_idx + 1) f
            }
        }
      else Some (f, False))"
  by pat_completeness auto
termination
  by (relation "measure (\<lambda>(a, p_de, n, blks, idx, f). 140 - idx)") (auto split: if_splits)

declare sync_dir_loop.simps [simp del]

definition sync_dir_entry :: "dir_ref \<Rightarrow> dir_entry \<Rightarrow> machine \<Rightarrow> (machine \<times> bool) option" where
  "sync_dir_entry parent_dir p_de f = do {
     let a = dir_inode (dirs f parent_dir);
     let ino = inodes f a;
     n \<leftarrow> entries_per_sec (sb (cpart f));
     ASSERT (i_size ino mod dir_entry_size (sb (cpart f)) = 0);
     sync_dir_loop a p_de n (take 12 (i_sectors ino) @ replicate 128 0) 0 f
   }"

text \<open>
  One sector of \<open>delete_dir_entry\<close>: whether it holds the entry \<open>"."\<close>, the number of entries other
  than \<open>"."\<close> and \<open>".."\<close>, and the entry to be deleted.
\<close>

fun scan_sector :: "nat list \<Rightarrow> u8 list \<Rightarrow> nat \<Rightarrow> bool \<times> nat \<times> nat option \<Rightarrow> (bool \<times> nat \<times> nat option) option" where
  "scan_sector [] bytes inode_no st = Some st"
| "scan_sector (k # ks) bytes inode_no (first, cnt, found) =
     (let e = dirent_of (entry_at bytes k) in
      if f_type e \<noteq> FT_UNKNOWN then do {
        dot \<leftarrow> streq (entry_at bytes k) [0x2e, 0];
        if dot then scan_sector ks bytes inode_no (True, cnt, found)
        else do {
          dots \<leftarrow> streq (entry_at bytes k) [0x2e, 0x2e, 0];
          if dots then scan_sector ks bytes inode_no (first, cnt, found)
          else if de_i_no e = inode_no then do {
            ASSERT (found = None);
            scan_sector ks bytes inode_no (first, cnt + 1, Some k)
          } else scan_sector ks bytes inode_no (first, cnt + 1, found)
        }
      } else scan_sector ks bytes inode_no (first, cnt, found))"

text \<open>
  The block of the last entry is released; the loop that counts the indirect blocks never advances its
  index, so a release of an indirect block does not return.
\<close>

fun delete_in_blocks :: "part_id \<Rightarrow> u32 \<Rightarrow> nat \<Rightarrow> nat \<Rightarrow> nat \<Rightarrow> nat list \<Rightarrow> nat \<Rightarrow> machine \<Rightarrow> (machine \<times> bool) option" where
  "delete_in_blocks part a n inode_no buf_len [] block_idx f = Some (f, False)"
| "delete_in_blocks part a n inode_no buf_len (b # bs) block_idx f =
     (if b = 0 then delete_in_blocks part a n inode_no buf_len bs (block_idx + 1) f
      else do {
        let p = parts f part;
        (f, bytes) \<leftarrow> ide_read (my_disk p) b 1 f;
        (first, cnt, found) \<leftarrow> scan_sector [0..<n] bytes inode_no (False, 0, None);
        case found of
          None \<Rightarrow> delete_in_blocks part a n inode_no buf_len bs (block_idx + 1) f
        | Some k \<Rightarrow> do {
            f \<leftarrow> (if cnt = 1 \<and> \<not> first then do {
                    let block_bitmap_idx = sub32 b (data_start_lba (sb p));
                    f \<leftarrow> set_block_bit part block_bitmap_idx 0 f;
                    f \<leftarrow> bitmap_sync (cur_part f) block_bitmap_idx BLOCK_BITMAP f;
                    if block_idx < 12 then Some (set_sector a block_idx 0 f) else None
                  } else ide_write (my_disk p) b (put_at bytes (dirent_size * k) (replicate dirent_size 0)) 1 f);
            ASSERT (dir_entry_size (sb p) \<le> i_size (inodes f a));
            let f = upd_inode a (\<lambda>i. i\<lparr>i_size := i_size i - dir_entry_size (sb p)\<rparr>) f;
            ASSERT (1024 \<le> buf_len);
            f \<leftarrow> inode_sync part (inodes f a) buf_len f;
            Some (f, True)
          }
      })"

definition delete_dir_entry :: "part_id \<Rightarrow> dir_ref \<Rightarrow> nat \<Rightarrow> nat \<Rightarrow> machine \<Rightarrow> (machine \<times> bool) option" where
  "delete_dir_entry part pdir inode_no buf_len f = do {
     let a = dir_inode (dirs f pdir);
     (f, blks) \<leftarrow> all_blocks (my_disk (parts f part)) (inodes f a) f;
     n \<leftarrow> entries_per_sec (sb (parts f part));
     delete_in_blocks part a n inode_no buf_len blks 0 f
   }"

text \<open>Reading a directory: the position counts the entries that are in use.\<close>

fun read_sector_entries :: "nat list \<Rightarrow> u8 list \<Rightarrow> nat \<Rightarrow> nat \<Rightarrow> (nat \<times> dir_entry option) option" where
  "read_sector_entries [] bytes cur pos = Some (cur, None)"
| "read_sector_entries (k # ks) bytes cur pos =
     (if f_type (dirent_of (entry_at bytes k)) \<noteq> FT_UNKNOWN then
        if cur < pos then read_sector_entries ks bytes (cur + dirent_size) pos
        else do { ASSERT (cur = pos); Some (cur, Some (dirent_of (entry_at bytes k))) }
      else read_sector_entries ks bytes cur pos)"

fun dir_read_blocks :: "dir_ref \<Rightarrow> nat \<Rightarrow> nat list \<Rightarrow> nat \<Rightarrow> machine \<Rightarrow> (machine \<times> dir_entry option) option" where
  "dir_read_blocks d n [] cur f = Some (f, None)"
| "dir_read_blocks d n (b # bs) cur f =
     (if i_size (inodes f (dir_inode (dirs f d))) \<le> dir_pos (dirs f d) then Some (f, None)
      else if b = 0 then dir_read_blocks d n bs cur f
      else do {
        (f, bytes) \<leftarrow> ide_read (my_disk (cpart f)) b 1 f;
        let f = f\<lparr>dirs := (dirs f)(d := (dirs f d)\<lparr>dir_buf := bytes\<rparr>)\<rparr>;
        (cur, r) \<leftarrow> read_sector_entries [0..<n] bytes cur (dir_pos (dirs f d));
        case r of
          Some e \<Rightarrow> Some (f\<lparr>dirs := (dirs f)(d := (dirs f d)\<lparr>dir_pos := w32 (dir_pos (dirs f d) + dirent_size)\<rparr>)\<rparr>, Some e)
        | None \<Rightarrow> dir_read_blocks d n bs cur f
      })"

definition dir_read :: "dir_ref \<Rightarrow> machine \<Rightarrow> (machine \<times> dir_entry option) option" where
  "dir_read d f = do {
     let ino = inodes f (dir_inode (dirs f d));
     (f, blks) \<leftarrow> all_blocks (my_disk (cpart f)) ino f;
     let block_cnt = (if i_sectors ino ! 12 \<noteq> 0 then 140 else 12);
     n \<leftarrow> entries_per_sec (sb (cpart f));
     dir_read_blocks d n (take block_cnt blks) 0 f
   }"

definition dir_is_empty :: "dir_ref \<Rightarrow> machine \<Rightarrow> bool" where
  "dir_is_empty d f \<longleftrightarrow> i_size (inodes f (dir_inode (dirs f d))) = w32 (dir_entry_size (sb (cpart f)) * 2)"

definition dir_remove :: "dir_ref \<Rightarrow> dir_ref \<Rightarrow> machine \<Rightarrow> (machine \<times> int) option" where
  "dir_remove parent_dir child_dir f = do {
     let a = dir_inode (dirs f child_dir);
     ASSERT (list_all (\<lambda>s. s = 0) (tl (i_sectors (inodes f a))));
     (f, io_buf) \<leftarrow> fs_malloc 1024 f;
     if io_buf = 0 then Some (f, -1)
     else do {
       (f, _) \<leftarrow> delete_dir_entry (cur_part f) parent_dir (i_no (inodes f a)) 1024 f;
       f \<leftarrow> inode_release (cur_part f) (i_no (inodes f a)) f;
       f \<leftarrow> fs_free io_buf f;
       Some (f, 0)
     }
   }"

end
