(* ===== verification/File.thy ===== *)
theory File
  imports Dir Thread
begin

text \<open>
  \<^verbatim>\<open>fs/file.c\<close>: the table of open files, creating, opening and closing a file, and the transfer of its
  bytes.  A \<open>struct file\<close> pointer is an index into \<open>file_table\<close>; the buffer of the caller is a list of
  bytes.
\<close>

section \<open>Operations\<close>

definition O_WRONLY :: nat where "O_WRONLY = 1"
definition O_RDWR :: nat where "O_RDWR = 2"
definition O_CREAT :: nat where "O_CREAT = 4"
definition PIPE_FLAG :: nat where "PIPE_FLAG = 5"

definition upd_file :: "nat \<Rightarrow> (fs_file \<Rightarrow> fs_file) \<Rightarrow> machine \<Rightarrow> machine" where
  "upd_file i g f = f\<lparr>file_table := (file_table f)[i := g (file_table f ! i)]\<rparr>"

definition get_free_slot_in_global :: "machine \<Rightarrow> int" where
  "get_free_slot_in_global f =
     (case find (\<lambda>i. fd_inode (file_table f ! i) = 0) [3..<MAX_FILE_OPEN] of Some i \<Rightarrow> int i | None \<Rightarrow> -1)"

definition fd_install :: "int \<Rightarrow> machine \<Rightarrow> machine \<times> int" where
  "fd_install fd_idx f = (let (k, r) = pcb_fd_install fd_idx (krn f) in (f\<lparr>krn := k\<rparr>, r))"

definition null_file :: fs_file where
  "null_file = \<lparr>fd_pos = 0, fd_flag = 0, fd_inode = 0\<rparr>"

definition null_entry :: dir_entry where
  "null_entry = \<lparr>filename = replicate 16 0, de_i_no = 0, f_type = 0\<rparr>"

text \<open>
  The rollback falls through its cases: step 3 clears the slot of the file table, step 2 frees the
  inode, step 1 gives the inode number back.
\<close>

definition create_rollback :: "nat \<Rightarrow> nat \<Rightarrow> u32 \<Rightarrow> int \<Rightarrow> u32 \<Rightarrow> machine \<Rightarrow> (machine \<times> int) option" where
  "create_rollback rollback_step fd_idx new_file_inode inode_no io_buf f = do {
     let f = (if rollback_step = 3 then upd_file fd_idx (\<lambda>_. null_file) f else f);
     f \<leftarrow> (if 2 \<le> rollback_step then fs_free new_file_inode f else Some f);
     f \<leftarrow> set_inode_bit (cur_part f) (nat inode_no) 0 f;
     f \<leftarrow> fs_free io_buf f;
     Some (f, -1)
   }"

text \<open>When there is no memory for the inode, \<open>pgdir\<close> stays \<open>NULL\<close>.\<close>

definition file_create :: "dir_ref \<Rightarrow> u8 list \<Rightarrow> nat \<Rightarrow> machine \<Rightarrow> (machine \<times> int) option" where
  "file_create parent_dir fname flag f = do {
     (f, io_buf) \<leftarrow> fs_malloc 1024 f;
     if io_buf = 0 then Some (f, -1)
     else do {
       (f, inode_no) \<leftarrow> inode_bitmap_alloc (cur_part f) f;
       if inode_no = -1 then Some (f, -1)
       else do {
         let cur_pagedir_bak = pgdir (cur_task (krn f));
         let f = set_pgdir 0 f;
         (f, new_file_inode) \<leftarrow> fs_malloc inode_size f;
         if new_file_inode = 0 then create_rollback 1 0 0 inode_no io_buf f
         else do {
           let f = set_pgdir cur_pagedir_bak f;
           let f = upd_inode new_file_inode (inode_init (nat inode_no)) f;
           let fd_idx = get_free_slot_in_global f;
           if fd_idx = -1 then create_rollback 2 0 new_file_inode inode_no io_buf f
           else do {
             let f = upd_file (nat fd_idx) (\<lambda>_. \<lparr>fd_pos = 0, fd_flag = flag, fd_inode = new_file_inode\<rparr>) f;
             let f = upd_inode new_file_inode (\<lambda>i. i\<lparr>write_deny := False\<rparr>) f;
             new_dir_entry \<leftarrow> create_dir_entry fname (nat inode_no) FT_REGULAR null_entry;
             (f, synced) \<leftarrow> sync_dir_entry parent_dir new_dir_entry f;
             if \<not> synced then create_rollback 3 (nat fd_idx) new_file_inode inode_no io_buf f
             else do {
               f \<leftarrow> inode_sync (cur_part f) (inodes f (dir_inode (dirs f parent_dir))) 1024 f;
               f \<leftarrow> inode_sync (cur_part f) (inodes f new_file_inode) 1024 f;
               f \<leftarrow> bitmap_sync (cur_part f) (nat inode_no) INODE_BITMAP f;
               let f = upd_part (cur_part f) (\<lambda>p. p\<lparr>open_inodes := new_file_inode # open_inodes p\<rparr>) f;
               let f = upd_inode new_file_inode (\<lambda>i. i\<lparr>i_open_cnts := 1\<rparr>) f;
               f \<leftarrow> fs_free io_buf f;
               Some (fd_install fd_idx f)
             }
           }
         }
       }
     }
   }"

text \<open>\<open>flag & O_RDWR || flag & O_WRONLY\<close>\<close>

definition wants_write :: "nat \<Rightarrow> bool" where
  "wants_write flag \<longleftrightarrow> bit flag 0 \<or> bit flag 1"

definition file_open :: "nat \<Rightarrow> nat \<Rightarrow> machine \<Rightarrow> (machine \<times> int) option" where
  "file_open inode_no flag f = do {
     let fd_idx = get_free_slot_in_global f;
     if fd_idx = -1 then Some (f, -1)
     else do {
       (f, a) \<leftarrow> inode_open (cur_part f) inode_no f;
       let f = upd_file (nat fd_idx) (\<lambda>_. \<lparr>fd_pos = 0, fd_flag = flag, fd_inode = a\<rparr>) f;
       if wants_write flag then do {
         let (k, old_status) = intr_disable (krn f);
         let f = f\<lparr>krn := k\<rparr>;
         if \<not> write_deny (inodes f a) then do {
           let f = upd_inode a (\<lambda>i. i\<lparr>write_deny := True\<rparr>) f;
           let f = f\<lparr>krn := fst (intr_set_status (krn f) old_status)\<rparr>;
           Some (fd_install fd_idx f)
         } else Some (f\<lparr>krn := fst (intr_set_status (krn f) old_status)\<rparr>, -1)
       } else Some (fd_install fd_idx f)
     }
   }"

fun file_close :: "nat option \<Rightarrow> machine \<Rightarrow> (machine \<times> int) option" where
  "file_close None f = Some (f, -1)"
| "file_close (Some i) f = do {
     let a = fd_inode (file_table f ! i);
     let f = upd_inode a (\<lambda>n. n\<lparr>write_deny := False\<rparr>) f;
     f \<leftarrow> inode_close a f;
     Some (upd_file i (\<lambda>x. x\<lparr>fd_inode := 0\<rparr>) f, 0)
   }"

text \<open>
  The blocks of a growing file, situations 1 and 2 of \<open>file_write\<close>: direct blocks go to the inode as
  well.  The bitmap is written at an index that is counted from \<open>block_bitmap_lba\<close>.
\<close>

fun alloc_direct :: "u32 \<Rightarrow> nat list \<Rightarrow> nat \<Rightarrow> nat \<Rightarrow> machine \<Rightarrow> (machine \<times> nat list option) option" where
  "alloc_direct a blks block_idx 0 f = Some (f, Some blks)"
| "alloc_direct a blks block_idx (Suc n) f = do {
     (f, block_lba) \<leftarrow> block_bitmap_alloc (cur_part f) f;
     if block_lba = -1 then Some (f, None)
     else do {
       f \<leftarrow> (if block_idx < 12 then do {
               ASSERT (i_sectors (inodes f a) ! block_idx = 0);
               Some (set_sector a block_idx (nat block_lba) f)
             } else Some f);
       f \<leftarrow> bitmap_sync (cur_part f) (sub32 (nat block_lba) (block_bitmap_lba (sb (cpart f)))) BLOCK_BITMAP f;
       alloc_direct a (blks[block_idx := nat block_lba]) (block_idx + 1) n f
     }
   }"

text \<open>Situation 3: all new blocks are indirect ones, and the index is right.\<close>

fun alloc_indirect :: "nat list \<Rightarrow> nat \<Rightarrow> nat \<Rightarrow> machine \<Rightarrow> (machine \<times> nat list option) option" where
  "alloc_indirect blks block_idx 0 f = Some (f, Some blks)"
| "alloc_indirect blks block_idx (Suc n) f = do {
     (f, block_lba) \<leftarrow> block_bitmap_alloc (cur_part f) f;
     if block_lba = -1 then Some (f, None)
     else do {
       f \<leftarrow> bitmap_sync (cur_part f) (sub32 (nat block_lba) (data_start_lba (sb (cpart f)))) BLOCK_BITMAP f;
       alloc_indirect (blks[block_idx := nat block_lba]) (block_idx + 1) n f
     }
   }"

definition load_table :: "u32 \<Rightarrow> nat list \<Rightarrow> machine \<Rightarrow> (machine \<times> nat list) option" where
  "load_table a blks f = do {
     (f, bytes) \<leftarrow> ide_read (my_disk (cpart f)) (i_sectors (inodes f a) ! 12) 1 f;
     Some (f, take 12 blks @ get_words 128 bytes)
   }"

definition store_table :: "u32 \<Rightarrow> nat list \<Rightarrow> machine \<Rightarrow> machine option" where
  "store_table a blks f = ide_write (my_disk (cpart f)) (i_sectors (inodes f a) ! 12) (put_words (drop 12 blks)) 1 f"

text \<open>
  The collection of the blocks: \<open>used\<close> and \<open>will\<close> are the numbers of blocks before and after the write.
  The second result is \<open>None\<close> when a block cannot be had and the function returns \<open>-1\<close>.
\<close>

definition write_blocks :: "u32 \<Rightarrow> nat \<Rightarrow> nat \<Rightarrow> machine \<Rightarrow> (machine \<times> nat list option) option" where
  "write_blocks a has_used will f = do {
     let blks = replicate 140 0;
     let last = has_used - 1;
     if sub32 will has_used = 0 then
       (if will \<le> 12 then Some (f, Some (blks[last := i_sectors (inodes f a) ! last]))
        else do {
          ASSERT (i_sectors (inodes f a) ! 12 \<noteq> 0);
          (f, blks) \<leftarrow> load_table a blks f;
          Some (f, Some blks)
        })
     else if will \<le> 12 then do {
       ASSERT (last < 13);
       ASSERT (i_sectors (inodes f a) ! last \<noteq> 0);
       alloc_direct a (blks[last := i_sectors (inodes f a) ! last]) has_used (will - has_used) f
     } else if has_used \<le> 12 then do {
       let blks = blks[last := i_sectors (inodes f a) ! last];
       (f, block_lba) \<leftarrow> block_bitmap_alloc (cur_part f) f;
       if block_lba = -1 then Some (f, None)
       else do {
         ASSERT (i_sectors (inodes f a) ! 12 = 0);
         let f = set_sector a 12 (nat block_lba) f;
         f \<leftarrow> bitmap_sync (cur_part f) (sub32 (nat block_lba) (block_bitmap_lba (sb (cpart f)))) BLOCK_BITMAP f;
         (f, r) \<leftarrow> alloc_direct a blks has_used (will - has_used) f;
         case r of None \<Rightarrow> Some (f, None)
         | Some blks \<Rightarrow> do { f \<leftarrow> store_table a blks f; Some (f, Some blks) }
       }
     } else do {
       ASSERT (i_sectors (inodes f a) ! 12 \<noteq> 0);
       (f, blks) \<leftarrow> load_table a blks f;
       (f, r) \<leftarrow> alloc_indirect blks has_used (will - has_used) f;
       case r of None \<Rightarrow> Some (f, None)
       | Some blks \<Rightarrow> do { f \<leftarrow> store_table a blks f; Some (f, Some blks) }
     }
   }"

text \<open>The bytes that one step transfers: up to the end of the block or of the request.\<close>

definition chunk_size :: "nat \<Rightarrow> nat \<Rightarrow> nat" where
  "chunk_size pos size_left =
     (let sec_off_bytes = pos mod 512;
          sec_left_bytes = 512 - sec_off_bytes
      in if size_left < sec_left_bytes then size_left else sec_left_bytes)"

lemma chunk_size_bounds: "0 < n \<Longrightarrow> 0 < chunk_size pos n" "chunk_size pos n \<le> n" "pos mod 512 + chunk_size pos n \<le> 512"
  using mod_less_divisor [of 512 pos] by (auto simp: chunk_size_def Let_def simp del: mod_less_divisor)

lemma chunk_size_decreases: "w < n \<Longrightarrow> n - (w + chunk_size pos (n - w)) < n - w"
  using chunk_size_bounds(1) [of "n - w" pos] by linarith

text \<open>The transfer; only the first block is read before it is changed.\<close>

function write_loop :: "nat \<Rightarrow> nat list \<Rightarrow> u8 list \<Rightarrow> nat \<Rightarrow> nat \<Rightarrow> bool \<Rightarrow> machine \<Rightarrow> machine option" where
  "write_loop i blks src count bytes_written first f =
     (if bytes_written < count then do {
        let a = fd_inode (file_table f ! i);
        let sec_idx = i_size (inodes f a) div 512;
        sec_lba \<leftarrow> rd blks sec_idx;
        let sec_off_bytes = i_size (inodes f a) mod 512;
        let chunk = chunk_size (i_size (inodes f a)) (count - bytes_written);
        (f, io_buf) \<leftarrow> (if first then ide_read (my_disk (cpart f)) sec_lba 1 f else Some (f, replicate 512 0));
        ASSERT (bytes_written + chunk \<le> length src);
        f \<leftarrow> ide_write (my_disk (cpart f)) sec_lba (put_at io_buf sec_off_bytes (take chunk (drop bytes_written src))) 1 f;
        let f = upd_inode a (\<lambda>n. n\<lparr>i_size := w32 (i_size n + chunk)\<rparr>) f;
        let f = upd_file i (\<lambda>x. x\<lparr>fd_pos := w32 (fd_pos x + chunk)\<rparr>) f;
        write_loop i blks src count (bytes_written + chunk) False f
      } else Some f)"
  by pat_completeness auto
termination
  by (relation "measure (\<lambda>(i, blks, src, count, w, first, f). count - w)") (simp_all only: wf_measure in_measure prod.case chunk_size_decreases)

declare write_loop.simps [simp del]

text \<open>The buffer that is handed to \<open>inode_sync\<close> has 512 bytes.\<close>

definition file_write :: "nat \<Rightarrow> u8 list \<Rightarrow> nat \<Rightarrow> machine \<Rightarrow> (machine \<times> int) option" where
  "file_write i src count f = do {
     let a = fd_inode (file_table f ! i);
     if w32 (i_size (inodes f a) + count) > 512 * 140 then Some (f, -1)
     else do {
       (f, io_buf) \<leftarrow> fs_malloc 512 f;
       if io_buf = 0 then Some (f, -1)
       else do {
         (f, blocks_buf) \<leftarrow> fs_malloc (140 * 4) f;
         if blocks_buf = 0 then Some (f, -1)
         else do {
           (f, ok) \<leftarrow> (if i_sectors (inodes f a) ! 0 = 0 then do {
                 (f, block_lba) \<leftarrow> block_bitmap_alloc (cur_part f) f;
                 if block_lba = -1 then Some (f, False)
                 else do {
                   let f = set_sector a 0 (nat block_lba) f;
                   let block_bitmap_idx = sub32 (nat block_lba) (data_start_lba (sb (cpart f)));
                   ASSERT (block_bitmap_idx \<noteq> 0);
                   f \<leftarrow> bitmap_sync (cur_part f) block_bitmap_idx BLOCK_BITMAP f;
                   Some (f, True)
                 }
               } else Some (f, True));
           if \<not> ok then Some (f, -1)
           else do {
             let has_used = i_size (inodes f a) div 512 + 1;
             let will_use = w32 (i_size (inodes f a) + count) div 512 + 1;
             ASSERT (will_use \<le> 140);
             (f, r) \<leftarrow> write_blocks a has_used will_use f;
             case r of None \<Rightarrow> Some (f, -1)
             | Some blks \<Rightarrow> do {
                 let f = upd_file i (\<lambda>x. x\<lparr>fd_pos := sub32 (i_size (inodes f a)) 1\<rparr>) f;
                 f \<leftarrow> write_loop i blks src count 0 True f;
                 f \<leftarrow> inode_sync (cur_part f) (inodes f a) 512 f;
                 f \<leftarrow> fs_free blocks_buf f;
                 f \<leftarrow> fs_free io_buf f;
                 Some (f, int count)
               }
           }
         }
       }
     }
   }"

text \<open>
  Reading: the blocks from \<open>start_idx\<close> to \<open>end_idx\<close> are collected; the direct ones from the inode, the
  others from the indirect table.
\<close>

definition read_blocks :: "u32 \<Rightarrow> nat \<Rightarrow> nat \<Rightarrow> machine \<Rightarrow> (machine \<times> nat list) option" where
  "read_blocks a start_idx end_idx f = do {
     let direct = (\<lambda>lo hi. map (\<lambda>k. if lo \<le> k \<and> k \<le> hi then i_sectors (inodes f a) ! k else 0) [0..<140]);
     if sub32 end_idx start_idx = 0 then
       (if end_idx < 12 then Some (f, direct end_idx end_idx) else load_table a (replicate 140 0) f)
     else if end_idx < 12 then Some (f, direct start_idx end_idx)
     else if start_idx < 12 then do {
       ASSERT (i_sectors (inodes f a) ! 12 \<noteq> 0);
       load_table a (direct start_idx 11) f
     } else do {
       ASSERT (i_sectors (inodes f a) ! 12 \<noteq> 0);
       load_table a (replicate 140 0) f
     }
   }"

function read_loop :: "nat \<Rightarrow> nat list \<Rightarrow> nat \<Rightarrow> nat \<Rightarrow> u8 list \<Rightarrow> machine \<Rightarrow> (machine \<times> u8 list) option" where
  "read_loop i blks sz bytes_read dst f =
     (if bytes_read < sz then do {
        let pos = fd_pos (file_table f ! i);
        sec_lba \<leftarrow> rd blks (pos div 512);
        let sec_off_bytes = pos mod 512;
        let chunk = chunk_size pos (sz - bytes_read);
        (f, io_buf) \<leftarrow> ide_read (my_disk (cpart f)) sec_lba 1 f;
        let f = upd_file i (\<lambda>x. x\<lparr>fd_pos := w32 (fd_pos x + chunk)\<rparr>) f;
        read_loop i blks sz (bytes_read + chunk) (dst @ take chunk (drop sec_off_bytes io_buf)) f
      } else Some (f, dst))"
  by pat_completeness auto
termination
  by (relation "measure (\<lambda>(i, blks, sz, r, dst, f). sz - r)") (simp_all only: wf_measure in_measure prod.case chunk_size_decreases)

declare read_loop.simps [simp del]

text \<open>The bytes that arrive in the caller's buffer are the second result.\<close>

definition file_read :: "nat \<Rightarrow> nat \<Rightarrow> machine \<Rightarrow> (machine \<times> u8 list \<times> int) option" where
  "file_read i count f = do {
     let a = fd_inode (file_table f ! i);
     let pos = fd_pos (file_table f ! i);
     let beyond = (w32 (pos + count) > i_size (inodes f a));
     let sz = (if beyond then sub32 (i_size (inodes f a)) pos else count);
     if beyond \<and> sz = 0 then Some (f, [], -1)
     else do {
       (f, io_buf) \<leftarrow> fs_malloc 512 f;
       if io_buf = 0 then Some (f, [], -1)
       else do {
         (f, blocks_buf) \<leftarrow> fs_malloc (140 * 4) f;
         if blocks_buf = 0 then Some (f, [], -1)
         else do {
           let start_idx = pos div 512;
           let end_idx = w32 (pos + sz) div 512;
           ASSERT (start_idx < 139 \<and> end_idx < 139);
           (f, blks) \<leftarrow> read_blocks a start_idx end_idx f;
           (f, dst) \<leftarrow> read_loop i blks sz 0 [] f;
           f \<leftarrow> fs_free blocks_buf f;
           f \<leftarrow> fs_free io_buf f;
           Some (f, dst, int sz)
         }
       }
     }
   }"

end
