(* ===== verification/Console.thy ===== *)
theory Console
  imports Fs_Data
begin

text \<open>
  \<^verbatim>\<open>device/console.c\<close>: the screen behind a lock.  A thread that finds the lock taken goes to sleep in
  \<open>lock_acquire\<close> (see \<^verbatim>\<open>Sync\<close>); the operations here are the calls that get the lock.
\<close>

section \<open>Operations\<close>

definition on_scr :: "(screen \<Rightarrow> screen option) \<Rightarrow> machine \<Rightarrow> machine option" where
  "on_scr g f = do { s \<leftarrow> g (scr f); Some (f\<lparr>scr := s\<rparr>) }"

definition console_init :: "machine \<Rightarrow> machine" where
  "console_init f = f\<lparr>krn := upd_lock ConsoleLock lock_init (krn f)\<rparr>"

definition console_acquire :: "machine \<Rightarrow> machine option" where
  "console_acquire f = on_krn (lock_take ConsoleLock) f"

definition console_release :: "machine \<Rightarrow> machine option" where
  "console_release f = on_krn (lock_release ConsoleLock) f"

definition console_put_str :: "u8 list \<Rightarrow> machine \<Rightarrow> machine option" where
  "console_put_str cs f = do {
     f \<leftarrow> console_acquire f;
     f \<leftarrow> on_scr (put_str cs) f;
     console_release f
   }"

definition console_put_char :: "u8 \<Rightarrow> machine \<Rightarrow> machine option" where
  "console_put_char c f = do {
     f \<leftarrow> console_acquire f;
     f \<leftarrow> on_scr (put_char c) f;
     console_release f
   }"

definition console_put_int :: "u32 \<Rightarrow> machine \<Rightarrow> machine option" where
  "console_put_int n f = do {
     f \<leftarrow> console_acquire f;
     f \<leftarrow> on_scr (put_int n) f;
     console_release f
   }"

definition console_str_color :: "u8 list \<Rightarrow> u8 \<Rightarrow> machine \<Rightarrow> machine option" where
  "console_str_color cs fore f = do {
     f \<leftarrow> console_acquire f;
     f \<leftarrow> on_scr (put_str_color cs rc_black fore) f;
     console_release f
   }"

definition sys_putchar :: "u8 \<Rightarrow> machine \<Rightarrow> machine option" where
  "sys_putchar c f = console_put_char c f"

text \<open>\<^verbatim>\<open>lib/kernel/stdio_kernel.c\<close>\<close>

definition printk :: "u8 list \<Rightarrow> va_arg list \<Rightarrow> machine \<Rightarrow> machine option" where
  "printk format args f = do { txt \<leftarrow> printf_text format args; console_put_str txt f }"


section \<open>A printed string\<close>

text \<open>The lock is taken and given back, and only the screen changes.\<close>

lemma console_section:
  assumes "lock_free (krn f) ConsoleLock" "running (krn f) \<noteq> 0" "g (scr f) = Some s"
  shows "do { f \<leftarrow> console_acquire f; f \<leftarrow> on_scr g f; console_release f } = Some (f\<lparr>scr := s\<rparr>)"
proof -
  let ?k = "held (krn f) ConsoleLock 1"
  have "lock_release ConsoleLock ?k = Some (?k\<lparr>locks := locks (krn f)\<rparr>)" by (rule lock_release_held [OF assms(1)]) simp_all
  moreover have "?k\<lparr>locks := locks (krn f)\<rparr> = krn f" by (simp add: held_def upd_lock_def)
  ultimately show ?thesis
    using lock_take_unheld [OF assms(1,2)] assms(3) by (simp add: console_acquire_def console_release_def on_krn_def on_scr_def)
qed

lemma console_put_str_screen:
  assumes "lock_free (krn f) ConsoleLock" "running (krn f) \<noteq> 0" "screen_ok (scr f)"
  shows "\<exists>s. put_str cs (scr f) = Some s \<and> console_put_str cs f = Some (f\<lparr>scr := s\<rparr>) \<and> screen_ok s"
proof -
  obtain s where s: "put_str cs (scr f) = Some s" "screen_ok s"
    using put_str_color_ok [OF assms(3)] unfolding put_str_def by blast
  then show ?thesis using console_section [where g = "put_str cs", OF assms(1,2) s(1)] unfolding console_put_str_def by blast
qed

end
