(* ===== verification/Fs.thy ===== *)
theory Fs
  imports File Console
begin

text \<open>
  \<^verbatim>\<open>fs/fs.c\<close>: formatting and mounting a partition, paths, and the system calls on files and
  directories; \<^verbatim>\<open>shell/pipe.c\<close> on file descriptors.

  Paths are lists of bytes without the terminator.  The contents of local variables that the code reads
  before it has written them are the argument \<open>u\<close> of the definitions.  The diagnostic messages of the
  code (calls of \<open>printk\<close>) are left out; the values that an operation returns on its error paths are not.
\<close>

section \<open>Formatting and mounting\<close>

text \<open>The layout of a partition; the padding of the super block is uninitialised.\<close>

definition format_sb :: "nat \<Rightarrow> nat \<Rightarrow> u8 list \<Rightarrow> super_block \<times> nat" where
  "format_sb start cnt padding =
     (let inode_bitmap_sects = DIV_ROUND_UP 4096 4096;
          inode_table_sects = DIV_ROUND_UP (inode_size * 4096) 512;
          used_sects = 1 + 1 + inode_bitmap_sects + inode_table_sects;
          free_sects = sub32 cnt used_sects;
          block_bitmap_sects = w32 (free_sects + 4096 - 1) div 4096;
          block_bitmap_bit_len = sub32 free_sects block_bitmap_sects;
          block_bitmap_sects = w32 (block_bitmap_bit_len + 4096 - 1) div 4096;
          block_bitmap_lba = w32 (start + 2);
          inode_bitmap_lba = w32 (block_bitmap_lba + block_bitmap_sects);
          inode_table_lba = w32 (inode_bitmap_lba + inode_bitmap_sects);
          data_start_lba = w32 (inode_table_lba + inode_table_sects)
      in (\<lparr>magic = 0x19590318, sb_sec_cnt = cnt, inode_cnt = 4096, part_lba_base = start,
           block_bitmap_lba = block_bitmap_lba, block_bitmap_sects = block_bitmap_sects,
           inode_bitmap_lba = inode_bitmap_lba, inode_bitmap_sects = inode_bitmap_sects,
           inode_table_lba = inode_table_lba, inode_table_sects = inode_table_sects,
           data_start_lba = data_start_lba, root_inode_no = 0, dir_entry_size = dirent_size, pad = padding\<rparr>,
          block_bitmap_bit_len))"

text \<open>The block bitmap: bit 0 belongs to the root directory, the bits behind the last block are set.\<close>

definition format_bitmap :: "nat \<Rightarrow> nat \<Rightarrow> u8 list option" where
  "format_bitmap buf_size bit_len = do {
     let buf0 = (replicate buf_size 0)[0 := 1];
     let last_byte = bit_len div 8;
     let last_bit = bit_len mod 8;
     let last_size = 512 - last_byte mod 512;
     b \<leftarrow> buf_write buf0 last_byte (replicate last_size 0xff);
     wr b last_byte (foldl (\<lambda>x k. x AND NOT (push_bit k 1)) (b ! last_byte) [0..<last_bit + 1])
   }"

definition root_inode_bytes :: "super_block \<Rightarrow> u8 list" where
  "root_inode_bytes s = inode_bytes \<lparr>i_no = 0, i_size = dir_entry_size s * 2, i_open_cnts = 0, write_deny = False,
     i_sectors = data_start_lba s # replicate 12 0\<rparr>"

definition dot_entry :: "nat \<Rightarrow> dir_entry" where
  "dot_entry n = \<lparr>filename = put_at (replicate 16 0) 0 [0x2e], de_i_no = n, f_type = FT_DIRECTORY\<rparr>"

definition dotdot_entry :: "nat \<Rightarrow> dir_entry" where
  "dotdot_entry n = \<lparr>filename = put_at (replicate 16 0) 0 [0x2e, 0x2e], de_i_no = n, f_type = FT_DIRECTORY\<rparr>"

definition partition_format :: "u8 list \<Rightarrow> part_id \<Rightarrow> machine \<Rightarrow> machine option" where
  "partition_format padding part f = do {
     let p = parts f part;
     let dk = my_disk p;
     let (s, bit_len) = format_sb (start_lba p) (sec_cnt p) padding;
     f \<leftarrow> ide_write dk (start_lba p + 1) (sb_bytes s) 1 f;
     let sects = max (max (block_bitmap_sects s) (inode_bitmap_sects s)) (inode_table_sects s);
     let buf_size = w32 (sects * 512);
     (f, io_buf) \<leftarrow> fs_malloc buf_size f;
     ASSERT (io_buf \<noteq> 0);
     bits \<leftarrow> format_bitmap buf_size bit_len;
     f \<leftarrow> ide_write dk (block_bitmap_lba s) bits (block_bitmap_sects s) f;
     f \<leftarrow> ide_write dk (inode_bitmap_lba s) ((replicate buf_size 0)[0 := 1]) (inode_bitmap_sects s) f;
     f \<leftarrow> ide_write dk (inode_table_lba s) (put_at (replicate buf_size 0) 0 (root_inode_bytes s)) (inode_table_sects s) f;
     f \<leftarrow> ide_write dk (data_start_lba s)
           (put_at (replicate buf_size 0) 0 (dirent_bytes (dot_entry 0) @ dirent_bytes (dotdot_entry 0))) 1 f;
     fs_free io_buf f
   }"

definition mount_partition :: "u8 list \<Rightarrow> part_id \<Rightarrow> machine \<Rightarrow> (machine \<times> bool) option" where
  "mount_partition pname part f = do {
     eq \<leftarrow> streq (part_name (parts f part)) (pname @ [0]);
     if \<not> eq then Some (f, False)
     else do {
       let f = f\<lparr>cur_part := part\<rparr>;
       let dk = my_disk (cpart f);
       (f, sb_buf) \<leftarrow> fs_malloc 512 f;
       (f, sb_mem) \<leftarrow> fs_malloc 512 f;
       ASSERT (sb_mem \<noteq> 0);
       ASSERT (sb_buf \<noteq> 0);
       (f, bytes) \<leftarrow> ide_read dk (start_lba (cpart f) + 1) 1 f;
       let s = sb_of bytes;
       let f = upd_part part (\<lambda>p. p\<lparr>sb := s\<rparr>) f;
       (f, a) \<leftarrow> fs_malloc (w32 (block_bitmap_sects s * 512)) f;
       ASSERT (a \<noteq> 0);
       (f, bytes) \<leftarrow> ide_read dk (block_bitmap_lba s) (block_bitmap_sects s) f;
       let f = upd_part part (\<lambda>p. p\<lparr>block_bitmap := \<lparr>btmp_bytes_len = w32 (block_bitmap_sects s * 512), bits = bytes\<rparr>\<rparr>) f;
       (f, a) \<leftarrow> fs_malloc (w32 (inode_bitmap_sects s * 512)) f;
       ASSERT (a \<noteq> 0);
       (f, bytes) \<leftarrow> ide_read dk (inode_bitmap_lba s) (inode_bitmap_sects s) f;
       let f = upd_part part (\<lambda>p. p\<lparr>inode_bitmap := \<lparr>btmp_bytes_len = w32 (inode_bitmap_sects s * 512), bits = bytes\<rparr>\<rparr>) f;
       let f = upd_part part (\<lambda>p. p\<lparr>open_inodes := []\<rparr>) f;
       f \<leftarrow> fs_free sb_buf f;
       Some (f, True)
     }
   }"

fun mount_list :: "u8 list \<Rightarrow> part_id list \<Rightarrow> machine \<Rightarrow> (machine \<times> bool) option" where
  "mount_list pname [] f = Some (f, False)"
| "mount_list pname (p # ps) f = do {
     (f, found) \<leftarrow> mount_partition pname p f;
     if found then Some (f, True) else mount_list pname ps f
   }"

fun format_parts :: "u8 list \<Rightarrow> hd_id \<Rightarrow> nat list \<Rightarrow> machine \<Rightarrow> machine option" where
  "format_parts padding dk [] f = Some f"
| "format_parts padding dk (k # ks) f = do {
     let p = parts f (dk, k);
     f \<leftarrow> (if sec_cnt p \<noteq> 0 then do {
             (f, bytes) \<leftarrow> ide_read dk (start_lba p + 1) 1 f;
             if magic (sb_of bytes) = 0x19590318 then Some f else partition_format padding (dk, k) f
           } else Some f);
     format_parts padding dk ks f
   }"

text \<open>\<open>part_idx\<close> is not set back between the channels, so only the first channel's partitions are looked at.\<close>

fun format_channels :: "u8 list \<Rightarrow> nat \<Rightarrow> nat \<Rightarrow> nat \<Rightarrow> machine \<Rightarrow> machine option" where
  "format_channels padding 0 channel_no part_idx f = Some f"
| "format_channels padding (Suc left) channel_no part_idx f = do {
     f \<leftarrow> format_parts padding (channel_no, 1) [part_idx..<12] f;
     format_channels padding left (channel_no + 1) 12 f
   }"

definition filesys_init :: "u8 list \<Rightarrow> machine \<Rightarrow> machine option" where
  "filesys_init padding f = do {
     (f, sb_buf) \<leftarrow> fs_malloc 512 f;
     ASSERT (sb_buf \<noteq> 0);
     f \<leftarrow> format_channels padding (channel_cnt f) 0 0 f;
     f \<leftarrow> fs_free sb_buf f;
     (f, mounted) \<leftarrow> mount_list (str ''sdb1'') (partition_list f) f;
     ASSERT mounted;
     f \<leftarrow> open_root_dir (cur_part f) f;
     Some (f\<lparr>file_table := map (\<lambda>x. x\<lparr>fd_inode := 0\<rparr>) (file_table f)\<rparr>)
   }"


section \<open>Paths\<close>

definition slash :: u8 where "slash = 0x2f"

definition path_parse :: "u8 list \<Rightarrow> u8 list \<Rightarrow> (u8 list option \<times> u8 list) option" where
  "path_parse pathname name_store = do {
     let p = dropWhile (\<lambda>c. c = slash) pathname;
     name_store \<leftarrow> buf_write name_store 0 (takeWhile (\<lambda>c. c \<noteq> slash) p);
     let rest = dropWhile (\<lambda>c. c \<noteq> slash) p;
     Some (if rest = [] then None else Some rest, name_store)
   }"

definition no_name :: "u8 list" where
  "no_name = replicate MAX_FILE_NAME_LEN 0"

text \<open>The name array is cleared and, when there is something left of the path, the next component parsed.\<close>

definition next_name :: "u8 list option \<Rightarrow> (u8 list option \<times> u8 list) option" where
  "next_name sub = (case sub of None \<Rightarrow> Some (None, no_name) | Some p \<Rightarrow> path_parse p no_name)"

definition path_measure :: "u8 list option \<Rightarrow> u8 list \<Rightarrow> nat" where
  "path_measure sub nm = 2 * (case sub of None \<Rightarrow> 0 | Some p \<Rightarrow> Suc (length p)) + (if nm ! 0 \<noteq> 0 then 1 else 0)"

lemma next_name_decreases:
  assumes "nm ! 0 \<noteq> 0" "next_name sub = Some (sub', nm')"
  shows "path_measure sub' nm' < path_measure sub nm"
proof (cases sub)
  case None
  then show ?thesis using assms by (auto simp: next_name_def path_measure_def no_name_def MAX_FILE_NAME_LEN_def)
next
  case (Some p)
  let ?q = "dropWhile (\<lambda>c. c = slash) p"
  let ?r = "dropWhile (\<lambda>c. c \<noteq> slash) ?q"
  have s: "sub' = (if ?r = [] then None else Some ?r)"
    using assms(2) Some by (auto simp: next_name_def path_parse_def Let_def bind_Some_iff)
  have "length ?r < length p" if "?r \<noteq> []"
  proof -
    have q: "?q \<noteq> []" using that by (metis dropWhile.simps(1))
    then have "hd ?q \<noteq> slash" using hd_dropWhile [of "\<lambda>c. c = slash" p] by blast
    then obtain x xs where "?q = x # xs" "x \<noteq> slash" using q by (metis list.sel(1) neq_Nil_conv)
    then have "length ?r < length ?q" using length_dropWhile_le [of "\<lambda>c. c \<noteq> slash" xs] by (simp add: le_imp_less_Suc)
    then show ?thesis using length_dropWhile_le [of "\<lambda>c. c = slash" p] by linarith
  qed
  then show ?thesis using s Some assms(1) by (auto simp: path_measure_def)
qed

function depth_loop :: "u8 list option \<Rightarrow> u8 list \<Rightarrow> nat \<Rightarrow> nat option" where
  "depth_loop sub nm depth =
     (if nm ! 0 \<noteq> 0 then do { r \<leftarrow> next_name sub; depth_loop (fst r) (snd r) (depth + 1) } else Some depth)"
  by pat_completeness auto
termination
  by (relation "measure (\<lambda>(sub, nm, d). path_measure sub nm)") (auto intro: next_name_decreases)

declare depth_loop.simps [simp del]

text \<open>The array \<open>name\<close> is not cleared before the first component; \<open>u_name\<close> is what it holds.\<close>

record uninit =
  u_name :: "u8 list"
  u_entry :: dir_entry

definition path_depth_cnt :: "uninit \<Rightarrow> u8 list \<Rightarrow> nat option" where
  "path_depth_cnt u pathname = do {
     (p, nm) \<leftarrow> path_parse pathname (u_name u);
     depth_loop p nm 0
   }"

record path_search_record =
  searched_path :: "u8 list"
  parent_dir :: dir_ref
  file_type :: nat

text \<open>\<open>strcat\<close> into an array of \<open>cap\<close> bytes.\<close>

definition str_append :: "nat \<Rightarrow> u8 list \<Rightarrow> u8 list \<Rightarrow> u8 list option" where
  "str_append cap s t = (if length s + length t < cap then Some (s @ t) else None)"

definition is_root_path :: "u8 list \<Rightarrow> bool" where
  "is_root_path p \<longleftrightarrow> p \<in> set [[0x2f], [0x2f, 0x2e], [0x2f, 0x2e, 0x2e]]"

text \<open>
  The loop of \<open>search_file\<close>: the result is \<open>Inl\<close> when the function returns from inside of the loop, and
  the parent's number with the last entry when the path is exhausted.
\<close>

function search_loop ::
    "u8 list option \<Rightarrow> u8 list \<Rightarrow> nat \<Rightarrow> dir_entry \<Rightarrow> path_search_record \<Rightarrow> machine \<Rightarrow>
     (machine \<times> path_search_record \<times> (int + nat \<times> dir_entry)) option" where
  "search_loop sub nm parent_inode_no dir_e r f =
     (if nm ! 0 \<noteq> 0 then do {
        ASSERT (length (searched_path r) < 512);
        nm_str \<leftarrow> cstr nm;
        path \<leftarrow> str_append 512 (searched_path r) [slash];
        path \<leftarrow> str_append 512 path nm_str;
        let r = r\<lparr>searched_path := path\<rparr>;
        (f, dir_e, found) \<leftarrow> search_dir_entry (cur_part f) (parent_dir r) nm_str dir_e f;
        if found then do {
          nx \<leftarrow> next_name sub;
          if f_type dir_e = FT_DIRECTORY then do {
            let parent_inode_no = i_no (inodes f (dir_inode (dirs f (parent_dir r))));
            f \<leftarrow> dir_close (parent_dir r) f;
            (f, d) \<leftarrow> dir_open (cur_part f) (de_i_no dir_e) f;
            search_loop (fst nx) (snd nx) parent_inode_no dir_e (r\<lparr>parent_dir := d\<rparr>) f
          } else if f_type dir_e = FT_REGULAR then
            Some (f, r\<lparr>file_type := FT_REGULAR\<rparr>, Inl (int (de_i_no dir_e)))
          else search_loop (fst nx) (snd nx) parent_inode_no dir_e r f
        } else Some (f, r, Inl (-1))
      } else Some (f, r, Inr (parent_inode_no, dir_e)))"
  by pat_completeness auto
termination
  by (relation "measure (\<lambda>(sub, nm, p, e, r, f). path_measure sub nm)") (auto intro: next_name_decreases)

declare search_loop.simps [simp del]

definition search_file :: "uninit \<Rightarrow> u8 list \<Rightarrow> machine \<Rightarrow> (machine \<times> path_search_record \<times> int) option" where
  "search_file u pathname f =
     (if is_root_path pathname then
        Some (f, \<lparr>searched_path = [], parent_dir = Root_dir, file_type = FT_DIRECTORY\<rparr>, 0)
      else do {
        ASSERT (pathname \<noteq> [] \<and> pathname ! 0 = slash \<and> length pathname > 1 \<and> length pathname < 512);
        let r = \<lparr>searched_path = [], parent_dir = Root_dir, file_type = FT_UNKNOWN\<rparr>;
        (sub, nm) \<leftarrow> path_parse pathname no_name;
        (f, r, e) \<leftarrow> search_loop sub nm 0 (u_entry u) r f;
        case e of
          Inl n \<Rightarrow> Some (f, r, n)
        | Inr (parent_inode_no, dir_e) \<Rightarrow> do {
            f \<leftarrow> dir_close (parent_dir r) f;
            (f, d) \<leftarrow> dir_open (cur_part f) parent_inode_no f;
            Some (f, r\<lparr>parent_dir := d, file_type := FT_DIRECTORY\<rparr>, int (de_i_no dir_e))
          }
      })"


section \<open>Files\<close>

definition after_slash :: "u8 list \<Rightarrow> u8 list" where
  "after_slash p = rev (takeWhile (\<lambda>c. c \<noteq> slash) (rev p))"

definition sys_open :: "uninit \<Rightarrow> u8 list \<Rightarrow> nat \<Rightarrow> machine \<Rightarrow> (machine \<times> int) option" where
  "sys_open u pathname flags f = do {
     ASSERT (pathname \<noteq> []);
     if last pathname = slash then Some (f, -1)
     else do {
       ASSERT (flags \<le> 7);
       pathname_depth \<leftarrow> path_depth_cnt u pathname;
       (f, r, inode_no) \<leftarrow> search_file u pathname f;
       let found = (inode_no \<noteq> -1);
       if file_type r = FT_DIRECTORY then do { f \<leftarrow> dir_close (parent_dir r) f; Some (f, -1) }
       else do {
         path_search_depth \<leftarrow> path_depth_cnt u (searched_path r);
         if pathname_depth \<noteq> path_search_depth then do { f \<leftarrow> dir_close (parent_dir r) f; Some (f, -1) }
         else if \<not> found \<and> \<not> bit flags 2 then do { f \<leftarrow> dir_close (parent_dir r) f; Some (f, -1) }
         else if found \<and> bit flags 2 then do { f \<leftarrow> dir_close (parent_dir r) f; Some (f, -1) }
         else if bit flags 2 then do {
           (f, fd) \<leftarrow> file_create (parent_dir r) (after_slash pathname) flags f;
           f \<leftarrow> dir_close (parent_dir r) f;
           Some (f, fd)
         } else file_open (nat inode_no) flags f
       }
     }
   }"

text \<open>A descriptor of a process as an index into \<open>file_table\<close>; the assertion admits the first eight.\<close>

definition fd_local2global :: "nat \<Rightarrow> machine \<Rightarrow> nat option" where
  "fd_local2global local_fd f = do {
     global_idx \<leftarrow> rd (fd_table (cur_task (krn f))) local_fd;
     ASSERT (0 \<le> global_idx \<and> global_idx < int MAX_FILES_OPEN_PER_PROC);
     Some (nat global_idx)
   }"

definition is_pipe :: "nat \<Rightarrow> machine \<Rightarrow> bool option" where
  "is_pipe local_fd f = do {
     global_fd \<leftarrow> fd_local2global local_fd f;
     Some (fd_flag (file_table f ! global_fd) = PIPE_FLAG)
   }"

definition set_fd :: "nat \<Rightarrow> int \<Rightarrow> machine \<Rightarrow> machine" where
  "set_fd fd v f = f\<lparr>krn := upd_task (running_thread (krn f)) (\<lambda>p. p\<lparr>fd_table := (fd_table p)[fd := v]\<rparr>) (krn f)\<rparr>"

definition sys_close :: "int \<Rightarrow> machine \<Rightarrow> (machine \<times> int) option" where
  "sys_close fd f =
     (if fd > 2 then do {
        g \<leftarrow> fd_local2global (nat fd) f;
        pipe \<leftarrow> is_pipe (nat fd) f;
        (f, ret) \<leftarrow> (if pipe then do {
              let f = upd_file g (\<lambda>x. x\<lparr>fd_pos := sub32 (fd_pos x) 1\<rparr>) f;
              f \<leftarrow> (if fd_pos (file_table f ! g) = 0 then do {
                      f \<leftarrow> on_krn (mfree_page PF_KERNEL (fd_inode (file_table f ! g)) 1) f;
                      Some (upd_file g (\<lambda>x. x\<lparr>fd_inode := 0\<rparr>) f)
                    } else Some f);
              Some (f, 0)
            } else file_close (Some g) f);
        Some (set_fd (nat fd) (-1) f, ret)
      } else Some (f, -1))"

definition sys_create :: "uninit \<Rightarrow> u8 list \<Rightarrow> machine \<Rightarrow> (machine \<times> int) option" where
  "sys_create u pathname f = do {
     ASSERT (pathname \<noteq> []);
     if last pathname = slash then Some (f, -1)
     else do {
       pathname_depth \<leftarrow> path_depth_cnt u pathname;
       (f, r, inode_no) \<leftarrow> search_file u pathname f;
       if inode_no \<noteq> -1 then Some (f, -1)
       else do {
         path_search_depth \<leftarrow> path_depth_cnt u (searched_path r);
         if pathname_depth \<noteq> path_search_depth then do { f \<leftarrow> dir_close (parent_dir r) f; Some (f, -1) }
         else do {
           (f, fd) \<leftarrow> file_create (parent_dir r) (after_slash pathname) O_CREAT f;
           f \<leftarrow> dir_close (parent_dir r) f;
           (f, _) \<leftarrow> sys_close fd f;
           Some (f, 0)
         }
       }
     }
   }"

text \<open>How a transfer ends: with a result, or with the caller asleep on a queue.\<close>

datatype 'a io_result = Finished machine 'a | Asleep machine

definition on_pipe :: "u32 \<Rightarrow> 'a ioq_result \<Rightarrow> machine \<Rightarrow> 'a io_result" where
  "on_pipe a r f = (case r of
       Done q k x \<Rightarrow> Finished (f\<lparr>krn := k, ioqs := (ioqs f)(a := q)\<rparr>) x
     | On_queue q k _ \<Rightarrow> Asleep (f\<lparr>krn := k, ioqs := (ioqs f)(a := q)\<rparr>)
     | On_lock q k _ _ \<Rightarrow> Asleep (f\<lparr>krn := k, ioqs := (ioqs f)(a := q)\<rparr>))"

definition fd_pipe_write :: "nat \<Rightarrow> u8 list \<Rightarrow> machine \<Rightarrow> int io_result option" where
  "fd_pipe_write fd src f = do {
     g \<leftarrow> fd_local2global fd f;
     let a = fd_inode (file_table f ! g);
     r \<leftarrow> pipe_write src (ioqs f a) (krn f);
     Some (case on_pipe a r f of Finished f n \<Rightarrow> Finished f (int n) | Asleep f \<Rightarrow> Asleep f)
   }"

definition fd_pipe_read :: "nat \<Rightarrow> nat \<Rightarrow> machine \<Rightarrow> (u8 list \<times> int) io_result option" where
  "fd_pipe_read fd count f = do {
     g \<leftarrow> fd_local2global fd f;
     let a = fd_inode (file_table f ! g);
     r \<leftarrow> pipe_read count (ioqs f a) (krn f);
     Some (case on_pipe a r f of Finished f bs \<Rightarrow> Finished f (bs, int (length bs)) | Asleep f \<Rightarrow> Asleep f)
   }"

text \<open>
  Standard output goes through a local buffer of 1024 zeroed bytes; what is printed ends at the first
  zero.  \<open>src\<close> holds at least \<open>count\<close> bytes.
\<close>

definition sys_write :: "int \<Rightarrow> u8 list \<Rightarrow> nat \<Rightarrow> machine \<Rightarrow> int io_result option" where
  "sys_write fd src count f =
     (if fd < 0 then Some (Finished f (-1))
      else do {
        ASSERT (count \<le> length src);
        pipe \<leftarrow> is_pipe (nat fd) f;
        if pipe then fd_pipe_write (nat fd) (take count src) f
        else if fd = 1 then do {
          tmp_buf \<leftarrow> buf_write (replicate 1024 0) 0 (take count src);
          cs \<leftarrow> cstr tmp_buf;
          f \<leftarrow> console_put_str cs f;
          Some (Finished f (int count))
        } else do {
          g \<leftarrow> fd_local2global (nat fd) f;
          if wants_write (fd_flag (file_table f ! g)) then do {
            (f, n) \<leftarrow> file_write g src count f;
            Some (Finished f n)
          } else do {
            f \<leftarrow> console_put_str (str ''sys_write: not allowed to write file without flag O_RDWR or O_WRONLY'' @ [0x0a]) f;
            Some (Finished f (-1))
          }
        }
      })"

text \<open>
  Reading the keyboard up to a newline; the first look at \<open>buffer - 1\<close> is at the byte in front of the
  buffer.
\<close>

fun stdin_loop :: "nat \<Rightarrow> u8 \<Rightarrow> u8 list \<Rightarrow> ioqueue \<Rightarrow> kernel \<Rightarrow> u8 list ioq_result option" where
  "stdin_loop 0 prev acc q k = Some (Done q k acc)"
| "stdin_loop (Suc left) prev acc q k =
     (if prev = 0x0a then Some (Done q k acc)
      else do {
        r \<leftarrow> ioq_getchar q k;
        (case r of
           Done q k c \<Rightarrow> stdin_loop left c (acc @ [c]) q k
         | On_queue q k o1 \<Rightarrow> Some (On_queue q k o1)
         | On_lock q k o1 o2 \<Rightarrow> Some (On_lock q k o1 o2))
      })"

definition sys_read :: "u8 \<Rightarrow> int \<Rightarrow> nat \<Rightarrow> machine \<Rightarrow> (u8 list \<times> int) io_result option" where
  "sys_read before fd count f =
     (if fd < 0 \<or> fd = 1 \<or> fd = 2 then Some (Finished f ([], -1))
      else do {
        pipe \<leftarrow> is_pipe (nat fd) f;
        if pipe then fd_pipe_read (nat fd) count f
        else if fd = 0 then do {
          r \<leftarrow> stdin_loop count before [] (kbd_buf f) (krn f);
          Some (case r of
              Done q k bs \<Rightarrow> Finished (f\<lparr>krn := k, kbd_buf := q\<rparr>) (bs, if bs = [] then -1 else int (length bs))
            | On_queue q k _ \<Rightarrow> Asleep (f\<lparr>krn := k, kbd_buf := q\<rparr>)
            | On_lock q k _ _ \<Rightarrow> Asleep (f\<lparr>krn := k, kbd_buf := q\<rparr>))
        } else do {
          g \<leftarrow> fd_local2global (nat fd) f;
          (f, bs, n) \<leftarrow> file_read g count f;
          Some (Finished f (bs, n))
        }
      })"

definition int32 :: "int \<Rightarrow> int" where
  "int32 x = (x + 2 ^ 31) mod 2 ^ 32 - 2 ^ 31"

definition sys_lseek :: "int \<Rightarrow> int \<Rightarrow> nat \<Rightarrow> machine \<Rightarrow> (machine \<times> int) option" where
  "sys_lseek fd offset whence f =
     (if fd < 0 then Some (f, -1)
      else do {
        ASSERT (whence > 0 \<and> whence < 4);
        g \<leftarrow> fd_local2global (nat fd) f;
        let file_size = int32 (int (i_size (inodes f (fd_inode (file_table f ! g)))));
        let new_pos = (if whence = 1 then offset
                       else if whence = 2 then int32 (int32 (int (fd_pos (file_table f ! g))) + offset)
                       else int32 (file_size + offset));
        if new_pos < 0 \<or> new_pos > file_size - 1 then Some (f, -1)
        else Some (upd_file g (\<lambda>x. x\<lparr>fd_pos := nat new_pos\<rparr>) f, new_pos)
      })"

text \<open>The search for the inode among the open files also reads through the entries of pipes.\<close>

definition file_in_use :: "nat \<Rightarrow> machine \<Rightarrow> bool" where
  "file_in_use inode_no f \<longleftrightarrow> list_ex (\<lambda>x. fd_inode x \<noteq> 0 \<and> i_no (inodes f (fd_inode x)) = inode_no) (file_table f)"

definition sys_unlink :: "uninit \<Rightarrow> u8 list \<Rightarrow> machine \<Rightarrow> (machine \<times> int) option" where
  "sys_unlink u pathname f = do {
     ASSERT (length pathname < 512);
     (f, r, inode_no) \<leftarrow> search_file u pathname f;
     ASSERT (inode_no \<noteq> 0);
     if inode_no = -1 then do { f \<leftarrow> dir_close (parent_dir r) f; Some (f, -1) }
     else if file_type r = FT_DIRECTORY then do { f \<leftarrow> dir_close (parent_dir r) f; Some (f, -1) }
     else if file_in_use (nat inode_no) f then do { f \<leftarrow> dir_close (parent_dir r) f; Some (f, -1) }
     else do {
       (f, io_buf) \<leftarrow> fs_malloc 1024 f;
       if io_buf = 0 then do { f \<leftarrow> dir_close (parent_dir r) f; Some (f, -1) }
       else do {
         (f, _) \<leftarrow> delete_dir_entry (cur_part f) (parent_dir r) (nat inode_no) 1024 f;
         f \<leftarrow> inode_release (cur_part f) (nat inode_no) f;
         f \<leftarrow> fs_free io_buf f;
         f \<leftarrow> dir_close (parent_dir r) f;
         Some (f, 0)
       }
     }
   }"


section \<open>Directories\<close>

definition mkdir_rollback :: "nat \<Rightarrow> int \<Rightarrow> dir_ref \<Rightarrow> u32 \<Rightarrow> machine \<Rightarrow> (machine \<times> int) option" where
  "mkdir_rollback rollback_step inode_no d io_buf f = do {
     f \<leftarrow> (if rollback_step = 2 then set_inode_bit (cur_part f) (nat inode_no) 0 f else Some f);
     f \<leftarrow> dir_close d f;
     f \<leftarrow> fs_free io_buf f;
     Some (f, -1)
   }"

definition mkdir_new :: "dir_ref \<Rightarrow> u8 list \<Rightarrow> u32 \<Rightarrow> machine \<Rightarrow> (machine \<times> int) option" where
  "mkdir_new d dirname io_buf f = do {
     (f, inode_no) \<leftarrow> inode_bitmap_alloc (cur_part f) f;
     if inode_no = -1 then mkdir_rollback 1 inode_no d io_buf f
     else do {
       (f, block_lba) \<leftarrow> block_bitmap_alloc (cur_part f) f;
       if block_lba = -1 then mkdir_rollback 2 inode_no d io_buf f
       else do {
         let new_dir_inode = (inode_init (nat inode_no) (inode_of []))\<lparr>i_sectors := nat block_lba # replicate 12 0\<rparr>;
         let block_bitmap_idx = sub32 (nat block_lba) (data_start_lba (sb (cpart f)));
         ASSERT (block_bitmap_idx \<noteq> 0);
         f \<leftarrow> bitmap_sync (cur_part f) block_bitmap_idx BLOCK_BITMAP f;
         let up = i_no (inodes f (dir_inode (dirs f d)));
         f \<leftarrow> ide_write (my_disk (cpart f)) (nat block_lba)
               (put_at (replicate 1024 0) 0 (dirent_bytes (dot_entry (nat inode_no)) @ dirent_bytes (dotdot_entry up))) 1 f;
         let new_dir_inode = new_dir_inode\<lparr>i_size := w32 (2 * dir_entry_size (sb (cpart f)))\<rparr>;
         new_dir_entry \<leftarrow> create_dir_entry dirname (nat inode_no) FT_DIRECTORY null_entry;
         (f, synced) \<leftarrow> sync_dir_entry d new_dir_entry f;
         if \<not> synced then mkdir_rollback 2 inode_no d io_buf f
         else do {
           f \<leftarrow> inode_sync (cur_part f) (inodes f (dir_inode (dirs f d))) 1024 f;
           f \<leftarrow> inode_sync (cur_part f) new_dir_inode 1024 f;
           f \<leftarrow> bitmap_sync (cur_part f) (nat inode_no) INODE_BITMAP f;
           f \<leftarrow> fs_free io_buf f;
           f \<leftarrow> dir_close d f;
           Some (f, 0)
         }
       }
     }
   }"

definition sys_mkdir :: "uninit \<Rightarrow> u8 list \<Rightarrow> machine \<Rightarrow> (machine \<times> int) option" where
  "sys_mkdir u pathname f = do {
     (f, io_buf) \<leftarrow> fs_malloc 1024 f;
     if io_buf = 0 then Some (f, -1)
     else do {
       (f, r, inode_no) \<leftarrow> search_file u pathname f;
       if inode_no \<noteq> -1 then mkdir_rollback 1 inode_no (parent_dir r) io_buf f
       else do {
         pathname_depth \<leftarrow> path_depth_cnt u pathname;
         path_searched_depth \<leftarrow> path_depth_cnt u (searched_path r);
         if pathname_depth \<noteq> path_searched_depth then mkdir_rollback 1 inode_no (parent_dir r) io_buf f
         else do {
           ASSERT (slash \<in> set (searched_path r));
           mkdir_new (parent_dir r) (after_slash (searched_path r)) io_buf f
         }
       }
     }
   }"

definition sys_opendir :: "uninit \<Rightarrow> u8 list \<Rightarrow> machine \<Rightarrow> (machine \<times> dir_ref option) option" where
  "sys_opendir u path f = do {
     ASSERT (length path < 512);
     if path \<noteq> [] \<and> path ! 0 = slash \<and> (length path = 1 \<or> path ! 1 = 0x2e) then Some (f, Some Root_dir)
     else do {
       (f, r, inode_no) \<leftarrow> search_file u path f;
       (f, ret) \<leftarrow> (if inode_no \<noteq> -1 \<and> file_type r = FT_DIRECTORY then do {
             (f, d) \<leftarrow> dir_open (cur_part f) (nat inode_no) f;
             Some (f, Some d)
           } else Some (f, None));
       f \<leftarrow> dir_close (parent_dir r) f;
       Some (f, ret)
     }
   }"

definition sys_closedir :: "dir_ref option \<Rightarrow> machine \<Rightarrow> (machine \<times> int) option" where
  "sys_closedir d f = (case d of None \<Rightarrow> Some (f, -1) | Some d \<Rightarrow> do { f \<leftarrow> dir_close d f; Some (f, 0) })"

definition sys_readdir :: "dir_ref option \<Rightarrow> machine \<Rightarrow> (machine \<times> dir_entry option) option" where
  "sys_readdir d f = (case d of None \<Rightarrow> None | Some d \<Rightarrow> dir_read d f)"

definition sys_rewinddir :: "dir_ref \<Rightarrow> machine \<Rightarrow> machine" where
  "sys_rewinddir d f = f\<lparr>dirs := (dirs f)(d := (dirs f d)\<lparr>dir_pos := 0\<rparr>)\<rparr>"

definition sys_rmdir :: "uninit \<Rightarrow> u8 list \<Rightarrow> machine \<Rightarrow> (machine \<times> int) option" where
  "sys_rmdir u pathname f = do {
     (f, r, inode_no) \<leftarrow> search_file u pathname f;
     ASSERT (inode_no \<noteq> 0);
     (f, retval) \<leftarrow> (if inode_no = -1 \<or> file_type r = FT_REGULAR then Some (f, -1)
       else do {
         (f, d) \<leftarrow> dir_open (cur_part f) (nat inode_no) f;
         (f, retval) \<leftarrow> (if \<not> dir_is_empty d f then Some (f, -1)
           else do {
             (f, n) \<leftarrow> dir_remove (parent_dir r) d f;
             Some (f, if n = 0 then 0 else -1)
           });
         f \<leftarrow> dir_close d f;
         Some (f, retval)
       });
     f \<leftarrow> dir_close (parent_dir r) f;
     Some (f, retval)
   }"

definition get_parent_dir_inode_nr :: "nat \<Rightarrow> machine \<Rightarrow> (machine \<times> nat) option" where
  "get_parent_dir_inode_nr child_inode_nr f = do {
     (f, a) \<leftarrow> inode_open (cur_part f) child_inode_nr f;
     let block_lba = i_sectors (inodes f a) ! 0;
     ASSERT (block_lba \<ge> data_start_lba (sb (cpart f)));
     f \<leftarrow> inode_close a f;
     (f, bytes) \<leftarrow> ide_read (my_disk (cpart f)) block_lba 1 f;
     let e = dirent_of (entry_at bytes 1);
     ASSERT (de_i_no e < 4096 \<and> f_type e = FT_DIRECTORY);
     Some (f, de_i_no e)
   }"

fun child_name_blocks :: "nat \<Rightarrow> nat \<Rightarrow> nat list \<Rightarrow> machine \<Rightarrow> (machine \<times> u8 list option) option" where
  "child_name_blocks n c [] f = Some (f, None)"
| "child_name_blocks n c (b # bs) f =
     (if b = 0 then child_name_blocks n c bs f
      else do {
        (f, bytes) \<leftarrow> ide_read (my_disk (cpart f)) b 1 f;
        case find (\<lambda>k. de_i_no (dirent_of (entry_at bytes k)) = c) [0..<n] of
          Some k \<Rightarrow> do { nm \<leftarrow> cstr (entry_at bytes k); Some (f, Some nm) }
        | None \<Rightarrow> child_name_blocks n c bs f
      })"

definition get_child_dir_name :: "nat \<Rightarrow> nat \<Rightarrow> u8 list \<Rightarrow> machine \<Rightarrow> (machine \<times> u8 list option) option" where
  "get_child_dir_name p_inode_nr c_inode_nr path f = do {
     (f, a) \<leftarrow> inode_open (cur_part f) p_inode_nr f;
     (f, blks) \<leftarrow> all_blocks (my_disk (cpart f)) (inodes f a) f;
     f \<leftarrow> inode_close a f;
     n \<leftarrow> entries_per_sec (sb (cpart f));
     (f, r) \<leftarrow> child_name_blocks n c_inode_nr blks f;
     case r of None \<Rightarrow> Some (f, None)
     | Some nm \<Rightarrow> do {
         path \<leftarrow> str_append 512 path [slash];
         path \<leftarrow> str_append 512 path nm;
         Some (f, Some path)
       }
   }"

text \<open>The way up to the root; it does not end when the parents form a cycle.\<close>

partial_function (option) cwd_loop :: "nat \<Rightarrow> u8 list \<Rightarrow> machine \<Rightarrow> (machine \<times> u8 list option) option" where
  "cwd_loop child path f =
     (if child = 0 then Some (f, Some path)
      else do {
        (f, parent) \<leftarrow> get_parent_dir_inode_nr child f;
        (f, r) \<leftarrow> get_child_dir_name parent child path f;
        case r of None \<Rightarrow> Some (f, None) | Some path \<Rightarrow> cwd_loop parent path f
      })"

text \<open>The components come in the wrong order; the last one is cut off and appended to the result.\<close>

function reverse_path :: "u8 list \<Rightarrow> u8 list \<Rightarrow> u8 list" where
  "reverse_path dst path =
     (if slash \<in> set path then
        reverse_path (dst @ slash # after_slash path) (take (length path - length (after_slash path) - 1) path)
      else dst)"
  by pat_completeness auto
termination
  by (relation "measure (\<lambda>(dst, path). length path)") (auto intro!: diff_less length_pos_if_in_set)

declare reverse_path.simps [simp del]

definition sys_getcwd :: "nat \<Rightarrow> machine \<Rightarrow> (machine \<times> u8 list option) option" where
  "sys_getcwd sz f = do {
     (f, io_buf) \<leftarrow> fs_malloc 512 f;
     if io_buf = 0 then Some (f, None)
     else do {
       let child_inode_nr = cwd_inode_nr (cur_task (krn f));
       ASSERT (child_inode_nr < 4096);
       if child_inode_nr = 0 then Some (f, Some [slash])
       else do {
         (f, r) \<leftarrow> cwd_loop child_inode_nr [] f;
         case r of
           None \<Rightarrow> do { f \<leftarrow> fs_free io_buf f; Some (f, None) }
         | Some path \<Rightarrow> do {
             ASSERT (length path \<le> sz);
             f \<leftarrow> fs_free io_buf f;
             Some (f, Some (reverse_path [] path))
           }
       }
     }
   }"

definition sys_chdir :: "uninit \<Rightarrow> u8 list \<Rightarrow> machine \<Rightarrow> (machine \<times> int) option" where
  "sys_chdir u path f = do {
     (f, r, inode_no) \<leftarrow> search_file u path f;
     let (f, ret) = (if inode_no \<noteq> -1 \<and> file_type r = FT_DIRECTORY then
           (f\<lparr>krn := upd_task (running_thread (krn f)) (\<lambda>p. p\<lparr>cwd_inode_nr := nat inode_no\<rparr>) (krn f)\<rparr>, 0)
         else (f, -1));
     f \<leftarrow> dir_close (parent_dir r) f;
     Some (f, ret)
   }"

record stat =
  st_ino :: nat
  st_size :: nat
  st_filetype :: nat

definition sys_stat :: "uninit \<Rightarrow> u8 list \<Rightarrow> stat \<Rightarrow> machine \<Rightarrow> (machine \<times> stat \<times> int) option" where
  "sys_stat u path st f =
     (if is_root_path path then
        Some (f, \<lparr>st_ino = 0, st_size = i_size (inodes f (dir_inode (dirs f Root_dir))), st_filetype = FT_DIRECTORY\<rparr>, 0)
      else do {
        (f, r, inode_no) \<leftarrow> search_file u path f;
        (f, st, ret) \<leftarrow> (if inode_no \<noteq> -1 then do {
              (f, a) \<leftarrow> inode_open (cur_part f) (nat inode_no) f;
              let sz = i_size (inodes f a);
              f \<leftarrow> inode_close a f;
              Some (f, \<lparr>st_ino = nat inode_no, st_size = sz, st_filetype = file_type r\<rparr>, 0)
            } else Some (f, st, -1));
        f \<leftarrow> dir_close (parent_dir r) f;
        Some (f, st, ret)
      })"


section \<open>Pipes\<close>

text \<open>
  Without a free slot the index is \<open>-1\<close> and the access to the table is out of bounds.  The queue is
  initialised before its address is compared with \<open>NULL\<close>.
\<close>

definition sys_pipe :: "machine \<Rightarrow> (machine \<times> int \<times> int \<times> int) option" where
  "sys_pipe f = do {
     let global_fd = get_free_slot_in_global f;
     ASSERT (global_fd \<noteq> -1);
     let g = nat global_fd;
     (k, a) \<leftarrow> get_kernel_pages 1 (krn f);
     let f = upd_file g (\<lambda>x. x\<lparr>fd_inode := a\<rparr>) (f\<lparr>krn := k\<rparr>);
     ASSERT (a \<noteq> 0);
     let (q, k) = ioqueue_init ((ioqs f a)\<lparr>ioq_lock := IoqLock a, buf := replicate bufsize 0\<rparr>) (krn f);
     let f = f\<lparr>krn := k, ioqs := (ioqs f)(a := q)\<rparr>;
     let f = upd_file g (\<lambda>x. x\<lparr>fd_flag := PIPE_FLAG, fd_pos := 2\<rparr>) f;
     let (f, fd0) = fd_install global_fd f;
     let (f, fd1) = fd_install global_fd f;
     Some (f, fd0, fd1, 0)
   }"

definition sys_fd_redirect :: "nat \<Rightarrow> nat \<Rightarrow> machine \<Rightarrow> machine option" where
  "sys_fd_redirect old_local_fd new_local_fd f = do {
     ASSERT (old_local_fd < MAX_FILES_OPEN_PER_PROC);
     if new_local_fd < 3 then Some (set_fd old_local_fd (int new_local_fd) f)
     else do {
       new_global_fd \<leftarrow> rd (fd_table (cur_task (krn f))) new_local_fd;
       Some (set_fd old_local_fd new_global_fd f)
     }
   }"

end
