(* ===== verification/Fs_Spec.thy ===== *)
theory Fs_Spec
  imports Fs
begin

text \<open>
  Properties of \<^verbatim>\<open>fs/fs.c\<close>: the depth of a path, the layout of a formatted partition, the file position,
  and the path of the working directory.
\<close>

section \<open>Paths\<close>

text \<open>The words of a text between occurrences of a character.\<close>

function words :: "u8 \<Rightarrow> u8 list \<Rightarrow> u8 list list" where
  "words token t =
     (let q = dropWhile (\<lambda>c. c = token) t
      in if q = [] then [] else takeWhile (\<lambda>c. c \<noteq> token) q # words token (dropWhile (\<lambda>c. c \<noteq> token) q))"
  by pat_completeness auto
termination
proof (relation "measure (length \<circ> snd)", goal_cases)
  case (2 token t q)
  then have "hd q \<noteq> token" using hd_dropWhile [of "\<lambda>c. c = token" t] by auto
  then obtain x xs where q: "q = x # xs" "x \<noteq> token" using 2(2) by (metis list.sel(1) neq_Nil_conv)
  then have "length (dropWhile (\<lambda>c. c \<noteq> token) q) < length q"
    using length_dropWhile_le [of "\<lambda>c. c \<noteq> token" xs] by (simp add: le_imp_less_Suc)
  moreover have "length q \<le> length t" unfolding 2(1) by (rule length_dropWhile_le)
  ultimately show ?case by simp
qed simp

declare words.simps [simp del]

text \<open>The components of a path, as a specification of \<open>path_parse\<close>.\<close>

definition components :: "u8 list \<Rightarrow> u8 list list" where
  "components p = words slash p"

lemma components_empty: "dropWhile (\<lambda>c. c = slash) p = [] \<Longrightarrow> components p = []"
  unfolding components_def words.simps [of slash p] Let_def by simp

lemma components_step:
  "dropWhile (\<lambda>c. c = slash) p \<noteq> [] \<Longrightarrow> components p =
     takeWhile (\<lambda>c. c \<noteq> slash) (dropWhile (\<lambda>c. c = slash) p) # components (dropWhile (\<lambda>c. c \<noteq> slash) (dropWhile (\<lambda>c. c = slash) p))"
  unfolding components_def words.simps [of slash p] Let_def by (simp only: if_False)

definition short_names :: "u8 list \<Rightarrow> bool" where
  "short_names p \<longleftrightarrow> list_all (\<lambda>c. length c \<le> MAX_FILE_NAME_LEN) (components p) \<and> 0 \<notin> set p"

lemma path_parse_component:
  assumes s: "short_names p" and c: "components p = c # cs" and l: "length arr = MAX_FILE_NAME_LEN"
  shows "\<exists>sub nm. path_parse p arr = Some (sub, nm) \<and> nm = put_at arr 0 c \<and> nm ! 0 \<noteq> 0 \<and>
    (case sub of None \<Rightarrow> cs = [] | Some r \<Rightarrow> short_names r \<and> components r = cs)"
proof -
  let ?q = "dropWhile (\<lambda>c. c = slash) p"
  let ?r = "dropWhile (\<lambda>c. c \<noteq> slash) ?q"
  have q: "?q \<noteq> []" using c components_empty [of p] by (metis list.distinct(1))
  then have cc: "c = takeWhile (\<lambda>c. c \<noteq> slash) ?q" "cs = components ?r" using c components_step [OF q] by simp_all
  have "hd ?q \<noteq> slash" using hd_dropWhile [of "\<lambda>c. c = slash" p] q by blast
  then obtain x xs where x: "?q = x # xs" "x \<noteq> slash" using q by (metis list.sel(1) neq_Nil_conv)
  have "x \<in> set p" using x(1) set_dropWhileD [of x "\<lambda>c. c = slash" p] by simp
  then have x0: "x \<noteq> 0" using s by (auto simp: short_names_def)
  have cx: "c = x # takeWhile (\<lambda>c. c \<noteq> slash) xs" unfolding cc(1) x(1) using x(2) by simp
  have len: "length c \<le> length arr" using s c l by (simp add: short_names_def)
  then have "path_parse p arr = Some (if ?r = [] then None else Some ?r, put_at arr 0 c)"
    unfolding path_parse_def Let_def cc(1) [symmetric] by (simp add: buf_write_def)
  moreover have "put_at arr 0 c ! 0 \<noteq> 0" using x0 by (simp add: put_at_def cx)
  moreover have "short_names ?r"
    using s c cc(2) set_dropWhileD [of 0 "\<lambda>c. c \<noteq> slash" ?q] set_dropWhileD [of 0 "\<lambda>c. c = slash" p]
    by (auto simp: short_names_def)
  moreover have "cs = []" if "?r = []" unfolding cc(2) that by (rule components_empty) simp
  ultimately have n: "path_parse p arr = Some (if ?r = [] then None else Some ?r, put_at arr 0 c)" "put_at arr 0 c ! 0 \<noteq> 0"
    "short_names ?r" "?r = [] \<Longrightarrow> cs = []" by blast+
  show ?thesis
  proof (intro exI conjI)
    show "path_parse p arr = Some (if ?r = [] then None else Some ?r, put_at arr 0 c)" "put_at arr 0 c ! 0 \<noteq> 0" by fact+
    show "put_at arr 0 c = put_at arr 0 c" by (rule refl)
    show "case if ?r = [] then None else Some ?r of None \<Rightarrow> cs = [] | Some r \<Rightarrow> short_names r \<and> components r = cs"
    proof (cases "?r = []")
      case True
      then show ?thesis using n(4) by (simp only: if_True option.case refl simp_thms)
    next
      case False
      then show ?thesis using n(3) cc(2) by (simp only: if_False option.case refl simp_thms)
    qed
  qed
qed

lemma depth_loop_components:
  assumes "nm ! 0 \<noteq> 0" "case sub of None \<Rightarrow> cs = [] | Some r \<Rightarrow> short_names r \<and> components r = cs"
  shows "depth_loop sub nm d = Some (d + 1 + length cs)"
  using assms
proof (induction cs arbitrary: sub nm d)
  case Nil
  have z: "no_name ! 0 = 0" by (simp add: no_name_def MAX_FILE_NAME_LEN_def)
  have stop: "depth_loop s no_name e = Some e" for s e using z by (simp add: depth_loop.simps)
  show ?case
  proof (cases sub)
    case None
    then show ?thesis using Nil stop by (subst depth_loop.simps) (simp add: next_name_def)
  next
    case (Some r)
    have "components r = []" using Nil(2) Some by simp
    then have q: "dropWhile (\<lambda>c. c = slash) r = []" using components_step [of r] by (metis list.distinct(1))
    then have "path_parse r no_name = Some (None, no_name)" unfolding path_parse_def Let_def q by (simp add: buf_write_def put_at_def)
    then show ?thesis using Nil(1) Some stop by (subst depth_loop.simps) (simp add: next_name_def)
  qed
next
  case (Cons c cs)
  then obtain r where r: "sub = Some r" "short_names r" "components r = c # cs" by (cases sub) auto
  have "length no_name = MAX_FILE_NAME_LEN" by (simp add: no_name_def)
  from path_parse_component [OF r(2,3) this] obtain s m where m: "path_parse r no_name = Some (s, m)" "m ! 0 \<noteq> 0"
    "case s of None \<Rightarrow> cs = [] | Some r \<Rightarrow> short_names r \<and> components r = cs" by blast
  then show ?case using Cons.IH [OF m(2,3), of "d + 1"] Cons.prems(1) r(1) by (subst depth_loop.simps) (simp add: next_name_def)
qed

text \<open>
  The depth of a path is the number of its components, whatever slashes are doubled or trail, for paths
  with at least one component and names that fit.
\<close>

theorem path_depth_cnt_components:
  assumes "short_names p" "components p \<noteq> []" "length (u_name u) = MAX_FILE_NAME_LEN"
  shows "path_depth_cnt u p = Some (length (components p))"
proof -
  obtain c cs where c: "components p = c # cs" using assms(2) by (cases "components p") auto
  obtain s m where "path_parse p (u_name u) = Some (s, m)" "m ! 0 \<noteq> 0"
    "case s of None \<Rightarrow> cs = [] | Some r \<Rightarrow> short_names r \<and> components r = cs"
    using path_parse_component [OF assms(1) c assms(3)] by blast
  then show ?thesis using depth_loop_components [where nm = m and sub = s and cs = cs and d = 0] c by (simp add: path_depth_cnt_def)
qed

text \<open>Without a component the result depends on the uninitialised array.\<close>

theorem path_depth_cnt_uninitialised:
  "path_depth_cnt \<lparr>u_name = replicate 16 0, u_entry = e\<rparr> [slash] = Some 0 \<and>
   path_depth_cnt \<lparr>u_name = replicate 16 1, u_entry = e\<rparr> [slash] = Some 1"
  by (simp add: path_depth_cnt_def path_parse_def buf_write_def put_at_def depth_loop.simps next_name_def no_name_def MAX_FILE_NAME_LEN_def)

lemma path_depth_cnt_components_witness:
  "path_depth_cnt \<lparr>u_name = replicate 16 7, u_entry = dirent_of []\<rparr> (str ''/home//notes/'') = Some 2"
proof -
  have c: "components (str ''/home//notes/'') = [str ''home'', str ''notes'']"
    by (simp add: components_def words.simps str_def slash_def)
  have "short_names (str ''/home//notes/'')" unfolding short_names_def c by (simp add: str_def MAX_FILE_NAME_LEN_def)
  from path_depth_cnt_components [OF this, of "\<lparr>u_name = replicate 16 7, u_entry = dirent_of []\<rparr>"] show ?thesis
    by (simp add: c MAX_FILE_NAME_LEN_def)
qed


section \<open>The working directory\<close>

lemma after_slash_append: "slash \<notin> set c \<Longrightarrow> after_slash (p @ slash # c) = c"
  by (simp add: after_slash_def takeWhile_append2 del: takeWhile_append) (subst takeWhile_append2, auto)

definition join_path :: "u8 list list \<Rightarrow> u8 list" where
  "join_path cs = concat (map (\<lambda>c. slash # c) cs)"

lemma reverse_path_join:
  assumes "list_all (\<lambda>c. slash \<notin> set c) cs"
  shows "reverse_path dst (join_path cs) = dst @ join_path (rev cs)"
  using assms
proof (induction cs arbitrary: dst rule: rev_induct)
  case Nil
  show ?case by (simp add: join_path_def reverse_path.simps)
next
  case (snoc c cs)
  have j: "join_path (cs @ [c]) = join_path cs @ slash # c" by (simp add: join_path_def)
  have "after_slash (join_path (cs @ [c])) = c" unfolding j using snoc.prems by (intro after_slash_append) simp
  then have "reverse_path dst (join_path (cs @ [c])) = reverse_path (dst @ slash # c) (join_path cs)"
    by (subst reverse_path.simps) (simp add: j)
  then show ?case using snoc by (simp add: join_path_def)
qed

text \<open>
  The path that \<open>sys_getcwd\<close> collects from the working directory up to the root comes out in the order
  from the root down.
\<close>

theorem getcwd_reverses:
  assumes "list_all (\<lambda>c. slash \<notin> set c) cs"
  shows "reverse_path [] (concat (map (\<lambda>c. slash # c) cs)) = concat (map (\<lambda>c. slash # c) (rev cs))"
  using reverse_path_join [OF assms, of "[]"] by (simp add: join_path_def)

lemma getcwd_reverses_witness: "reverse_path [] (str ''/c/bb/a'') = str ''/a/bb/c''"
  using getcwd_reverses [of "[str ''c'', str ''bb'', str ''a'']"] by (simp add: str_def slash_def)


section \<open>The file position\<close>

lemma int32_id: "- (2 ^ 31) \<le> x \<Longrightarrow> x < 2 ^ 31 \<Longrightarrow> int32 x = x"
  by (simp add: int32_def)

lemma int32_high: "2 ^ 31 \<le> x \<Longrightarrow> x < 2 ^ 32 \<Longrightarrow> int32 x < 0"
proof -
  assume x: "2 ^ 31 \<le> x" "x < 2 ^ 32"
  have "(x + 2 ^ 31) mod 2 ^ 32 = (x - 2 ^ 31 + 2 ^ 32) mod 2 ^ 32" by (simp add: algebra_simps)
  also have "\<dots> = x - 2 ^ 31" using x by (simp only: mod_add_self2) simp
  finally show ?thesis using x by (simp add: int32_def)
qed

definition seek_target :: "nat \<Rightarrow> int \<Rightarrow> nat \<Rightarrow> nat \<Rightarrow> int" where
  "seek_target whence offset pos sz = (if whence = 1 then offset else if whence = 2 then int pos + offset else int sz + offset)"



section \<open>A formatted partition\<close>


lemma bit_clear_low:
  fixes w :: u8
  shows "j < 8 \<Longrightarrow> bit (foldl (\<lambda>x k. x AND NOT (push_bit k 1)) w [0..<n]) j \<longleftrightarrow> bit w j \<and> \<not> j < n"
  by (induction n) (auto simp: bit_simps less_Suc_eq)

lemma nth_put_at:
  "pos + length x \<le> length xs \<Longrightarrow> j < length xs \<Longrightarrow>
     put_at xs pos x ! j = (if j < pos then xs ! j else if j < pos + length x then x ! (j - pos) else xs ! j)"
  by (auto simp: put_at_def nth_append min_def)

lemma bits_of_ff: "j < 8 \<Longrightarrow> bit (0xff :: u8) j"
  using byte_full_iff by blast

text \<open>
  The block bitmap that \<open>partition_format\<close> writes: up to the end of the sector with the last block, the bit
  of the root directory and the bits behind bit \<open>len\<close> are set.  There are \<open>len\<close> blocks, with the numbers
  below \<open>len\<close>: bit \<open>len\<close> itself is clear, so the allocator can hand out one block that does not exist.
\<close>

theorem format_bitmap_bits:
  assumes "8 \<le> len" "(len div 4096 + 1) * 512 \<le> buf_size"
  shows "\<exists>b. format_bitmap buf_size len = Some b \<and> length b = buf_size \<and>
    (\<forall>i < (len div 4096 + 1) * 4096. bit (b ! (i div 8)) (i mod 8) \<longleftrightarrow> i = 0 \<or> len < i)"
proof -
  define B where "B = len div 8"
  have B: "0 < B" "len = 8 * B + len mod 8" "B div 512 = len div 4096"
    using assms(1) by (simp_all add: B_def div_greater_zero_iff div_mult2_eq [symmetric])
  have m512: "B mod 512 < 512" by simp
  define n where "n = 512 - B mod 512"
  have e: "B + n = (len div 4096 + 1) * 512" "0 < n"
  proof -
    have "q * 512 + r + (512 - r) = (q + 1) * 512" if "r < 512" for q r :: nat using that by simp
    from this [OF m512, of "B div 512"] show "B + n = (len div 4096 + 1) * 512"
      unfolding B(3) [symmetric] div_mult_mod_eq n_def .
    show "0 < n" using m512 by (simp add: n_def)
  qed
  let ?b0 = "(replicate buf_size 0)[0 := 1] :: u8 list"
  let ?b1 = "put_at ?b0 B (replicate n 0xff)"
  have fit: "B + length (replicate n (0xff :: u8)) \<le> length ?b0" using e assms(2) by simp
  have w1: "buf_write ?b0 B (replicate n 0xff) = Some ?b1" using fit by (simp add: buf_write_def)
  have l1: "length ?b1 = buf_size" using put_at_simps(2) [OF fit] by simp
  have BL: "B < buf_size" using e assms(2) by linarith
  let ?x = "foldl (\<lambda>x k. x AND NOT (push_bit k 1)) (?b1 ! B) [0..<len mod 8 + 1]"
  have nth1: "?b1 ! j = (if j < B then ?b0 ! j else if j < B + n then 0xff else ?b0 ! j)" if "j < buf_size" for j
    using that nth_put_at [OF fit, of j] by simp
  have f: "format_bitmap buf_size len = Some (?b1[B := ?x])"
    using w1 l1 BL by (simp add: format_bitmap_def Let_def B_def [symmetric] n_def [symmetric] wr_def del: upt_Suc)
  have "bit (?b1[B := ?x] ! (i div 8)) (i mod 8) \<longleftrightarrow> i = 0 \<or> len < i" if i: "i < (len div 4096 + 1) * 4096" for i
  proof -
    have j: "i div 8 < (len div 4096 + 1) * 512" using i by (simp add: div_less_iff_less_mult)
    then have jb: "i div 8 < buf_size" using assms(2) by linarith
    have m: "i mod 8 < 8" and m8: "len mod 8 < 8" by simp_all
    have id: "i = 8 * (i div 8) + i mod 8" by simp
    consider "i div 8 < B" | "i div 8 = B" | "B < i div 8" by linarith
    then show ?thesis
    proof cases
      case 1
      then have lt: "i < len" using B(2) id m by linarith
      show ?thesis
      proof (cases "i div 8 = 0")
        case True
        then have "?b1[B := ?x] ! (i div 8) = 1" using 1 B(1) BL nth1 [OF jb] by simp
        then show ?thesis using True lt id by (auto simp: bit_1_iff)
      next
        case False
        then have "?b1[B := ?x] ! (i div 8) = 0" using 1 jb nth1 [OF jb] by simp
        then show ?thesis using False lt by auto
      qed
    next
      case 2
      then have "bit (?b1[B := ?x] ! (i div 8)) (i mod 8) \<longleftrightarrow> \<not> i mod 8 < len mod 8 + 1"
        using BL l1 nth1 [OF BL] bit_clear_low [OF m] bits_of_ff [OF m] e(2) by (simp del: upt_Suc)
      moreover have "i = 8 * B + i mod 8" using id unfolding 2 .
      then have "(\<not> i mod 8 < len mod 8 + 1) \<longleftrightarrow> i = 0 \<or> len < i" using B(1,2) by linarith
      ultimately show ?thesis by (rule trans)
    next
      case 3
      then have "?b1[B := ?x] ! (i div 8) = 0xff" using nth1 [OF jb] j e(1) by simp
      then show ?thesis using bits_of_ff [OF m] 3 B(2) id m8 by (simp only: simp_thms) linarith
    qed
  qed
  then show ?thesis using f l1 by auto
qed


section \<open>Witnesses\<close>



lemma format_bitmap_bits_witness:
  "\<exists>b. format_bitmap 512 100 = Some b \<and> \<not> bit (b ! (100 div 8)) (100 mod 8) \<and> bit (b ! (101 div 8)) (101 mod 8)"
proof -
  obtain b where b: "format_bitmap 512 100 = Some b" "\<forall>i < (100 div 4096 + 1) * 4096. bit (b ! (i div 8)) (i mod 8) \<longleftrightarrow> i = 0 \<or> 100 < i"
    using format_bitmap_bits [of 100 512] by auto
  then show ?thesis using spec [OF b(2), of 100] spec [OF b(2), of 101] by simp
qed

end
