(* ===== verification/Fs_Inv.thy ===== *)
theory Fs_Inv
  imports File
begin

text \<open>
  The state of a mounted partition on which the operations on directories and files rely, and what the
  allocation of a block does to it.
\<close>

section \<open>A mounted partition\<close>

definition fs_ok :: "machine \<Rightarrow> bool" where
  "fs_ok f \<longleftrightarrow> (let p = cpart f; bm = block_bitmap p in
     drive_ready f (my_disk p) \<and> wf_disk f (my_disk p) \<and> part_ok (cur_part f) f \<and>
     length (bits bm) = btmp_bytes_len bm \<and> 512 dvd btmp_bytes_len bm \<and>
     block_bitmap_lba (sb p) + nbits bm div 4096 \<le> inode_table_lba (sb p) \<and>
     inode_table_lba (sb p) + 608 \<le> data_start_lba (sb p) \<and>
     data_start_lba (sb p) + nbits bm \<le> max_lba + 1 \<and> data_start_lba (sb p) \<le> start_lba p + sec_cnt p \<and>
     dir_entry_size (sb p) = dirent_size)"

lemma fs_okD:
  assumes "fs_ok f"
  shows "drive_ready f (my_disk (cpart f))" "wf_disk f (my_disk (cpart f))" "part_ok (cur_part f) f"
    "length (bits (block_bitmap (cpart f))) = btmp_bytes_len (block_bitmap (cpart f))"
    "512 dvd btmp_bytes_len (block_bitmap (cpart f))"
    "block_bitmap_lba (sb (cpart f)) + nbits (block_bitmap (cpart f)) div 4096 \<le> inode_table_lba (sb (cpart f))"
    "inode_table_lba (sb (cpart f)) + 608 \<le> data_start_lba (sb (cpart f))"
    "data_start_lba (sb (cpart f)) + nbits (block_bitmap (cpart f)) \<le> max_lba + 1"
    "data_start_lba (sb (cpart f)) \<le> start_lba (cpart f) + sec_cnt (cpart f)"
    "dir_entry_size (sb (cpart f)) = dirent_size"
  using assms by (auto simp: fs_ok_def Let_def)

text \<open>The sectors of the data area and everything outside of the disk are the same.\<close>

definition same_data :: "machine \<Rightarrow> machine \<Rightarrow> bool" where
  "same_data f f' \<longleftrightarrow> cur_part f' = cur_part f \<and> inodes f' = inodes f \<and> dirs f' = dirs f \<and> file_table f' = file_table f \<and>
     krn f' = krn f \<and> my_disk (cpart f') = my_disk (cpart f) \<and> sb (cpart f') = sb (cpart f) \<and>
     (\<forall>s \<ge> data_start_lba (sb (cpart f)). sectors f' (my_disk (cpart f)) s = sectors f (my_disk (cpart f)) s)"

lemma same_data_refl [simp]: "same_data f f"
  by (simp add: same_data_def)

lemma same_data_trans: "same_data f g \<Longrightarrow> same_data g h \<Longrightarrow> same_data f h"
  by (simp add: same_data_def)

lemma cpart_upd_part [simp]: "cpart (upd_part (cur_part f) g f) = g (cpart f)"
  by (simp add: cpart_def upd_part_def)

lemma upd_part_frame [simp]:
  "krn (upd_part p g f) = krn f" "channels (upd_part p g f) = channels f" "ata_status (upd_part p g f) = ata_status f"
  "sectors (upd_part p g f) = sectors f" "cur_part (upd_part p g f) = cur_part f" "inodes (upd_part p g f) = inodes f"
  "dirs (upd_part p g f) = dirs f" "file_table (upd_part p g f) = file_table f"
  by (simp_all add: upd_part_def)

lemma upd_part_ready [simp]:
  "drive_ready (upd_part p g f) dk = drive_ready f dk" "wf_disk (upd_part p g f) dk = wf_disk f dk"
  by (simp_all add: drive_ready_def chan_ready_def wf_disk_def)

lemma cpart_write_sects [simp]: "cpart (write_sects dk lba n d f) = cpart f"
  by (simp add: cpart_def)

lemma part_ok_parts: "parts g part = parts f part \<Longrightarrow> part_ok part g = part_ok part f"
  by (simp add: part_ok_def)

text \<open>Writing one sector of the bitmap.\<close>

lemma block_bitmap_sync:
  assumes ok: "fs_ok f" and i: "i div 4096 < nbits (block_bitmap (cpart f)) div 4096"
  shows "\<exists>f'. bitmap_sync (cur_part f) i BLOCK_BITMAP f = Some f' \<and> same_data f f' \<and> parts f' = parts f \<and> fs_ok f'"
proof -
  let ?p = "cpart f" let ?bm = "block_bitmap ?p" and ?o = "i div 4096"
  let ?lba = "block_bitmap_lba (sb ?p) + ?o" and ?d = "drop (?o * 512) (bits ?bm)"
  note d = fs_okD [OF ok]
  obtain k where k: "btmp_bytes_len ?bm = 512 * k" using d(5) by (rule dvdE)
  have "nbits ?bm = 4096 * k" by (simp add: nbits_def k)
  then have o: "?o + 1 \<le> k" using i by simp
  then have "(?o + 1) * 512 \<le> k * 512" by (rule mult_le_mono1)
  then have len: "512 \<le> length ?d" using d(4) k by simp
  have lba: "?lba + 1 \<le> inode_table_lba (sb ?p)" using d(6) o \<open>nbits ?bm = 4096 * k\<close> by simp
  then have lim: "?lba + 1 \<le> max_lba + 1" using d(7,8) by linarith
  let ?f = "write_sects (my_disk ?p) ?lba 1 ?d f"
  have "bitmap_sync (cur_part f) i BLOCK_BITMAP f = Some ?f"
    using ide_write_eq [OF d(1), of 1 ?lba ?d] len lim by (simp add: bitmap_sync_def Let_def cpart_def)
  moreover have "same_data f ?f" using lba d(7) by (auto simp: same_data_def write_sects_def cpart_def)
  moreover have "parts ?f = parts f" by simp
  moreover have "fs_ok ?f"
  proof -
    have "wf_disk ?f (my_disk ?p)" using d(2) len by (auto simp: wf_disk_def write_sects_def)
    then show ?thesis using ok part_ok_parts [of ?f "cur_part f" f] by (simp add: fs_ok_def Let_def)
  qed
  ultimately show ?thesis by blast
qed

text \<open>The blocks in use, by their sector numbers.\<close>

definition used_lbas :: "machine \<Rightarrow> nat set" where
  "used_lbas f = (\<lambda>i. data_start_lba (sb (cpart f)) + i) ` used (block_bitmap (cpart f))"

definition block_left :: "machine \<Rightarrow> bool" where
  "block_left f \<longleftrightarrow> used (block_bitmap (cpart f)) \<noteq> {..<nbits (block_bitmap (cpart f))}"

lemma block_alloc_ok:
  assumes ok: "fs_ok f" and left: "block_left f"
  obtains f' lba where "block_bitmap_alloc (cur_part f) f = Some (f', int lba)" "same_data f f'" "fs_ok f'"
    "lba \<notin> used_lbas f" "used_lbas f' = insert lba (used_lbas f)" "data_start_lba (sb (cpart f)) \<le> lba" "lba \<le> max_lba"
    "lba - data_start_lba (sb (cpart f)) < nbits (block_bitmap (cpart f))"
    "nbits (block_bitmap (cpart f')) = nbits (block_bitmap (cpart f))"
proof -
  let ?p = "cpart f" let ?bm = "block_bitmap ?p" and ?d = "data_start_lba (sb ?p)"
  note d = fs_okD [OF ok]
  have wf: "wf_bitmap ?bm" using d(3) by (simp add: part_ok_def cpart_def)
  obtain n bm' where n: "bitmap_scan ?bm 1 = Some (int n)" "bitmap_set ?bm n 1 = Some bm'" "n < nbits ?bm" "n \<notin> used ?bm"
    "used bm' = insert n (used ?bm)" "wf_bitmap bm'" "nbits bm' = nbits ?bm"
    using left unfolding block_left_def by (rule bitmap_take_one [OF wf])
  let ?f = "upd_part (cur_part f) (\<lambda>p. p\<lparr>block_bitmap := bm'\<rparr>) f"
  have a: "block_bitmap_alloc (cur_part f) f = Some (?f, int (?d + n))"
    using n(1,2) by (simp add: block_bitmap_alloc_def cpart_def)
  have sz: "length (bits bm') = length (bits ?bm)" "btmp_bytes_len bm' = btmp_bytes_len ?bm"
    by (rule bitmap_set_Some [OF n(2)])+
  have "part_ok (cur_part f) ?f" using d(3) n(6) by (simp add: part_ok_def)
  then have okf: "fs_ok ?f" using ok sz n(7) by (simp add: fs_ok_def Let_def)
  show thesis
  proof
    show "block_bitmap_alloc (cur_part f) f = Some (?f, int (?d + n))" by (rule a)
    show "same_data f ?f" by (simp add: same_data_def)
    show "fs_ok ?f" by (rule okf)
    show "?d + n \<notin> used_lbas f" using n(4) by (auto simp: used_lbas_def)
    show "used_lbas ?f = insert (?d + n) (used_lbas f)" using n(5) by (simp add: used_lbas_def)
    show "?d \<le> ?d + n" by simp
    show "?d + n \<le> max_lba" using d(8) n(3) by linarith
    show "?d + n - ?d < nbits ?bm" using n(3) by simp
    show "nbits (block_bitmap (cpart ?f)) = nbits ?bm" using n(7) by simp
  qed
qed

lemma fs_ok_sector: "fs_ok f \<Longrightarrow> i < nbits (block_bitmap (cpart f)) \<Longrightarrow> i div 4096 < nbits (block_bitmap (cpart f)) div 4096"
proof -
  assume ok: "fs_ok f" and i: "i < nbits (block_bitmap (cpart f))"
  obtain k where "btmp_bytes_len (block_bitmap (cpart f)) = 512 * k" using fs_okD(5) [OF ok] by (rule dvdE)
  then have "nbits (block_bitmap (cpart f)) = k * 4096" by (simp add: nbits_def)
  then show ?thesis using i by (simp add: div_less_iff_less_mult)
qed

lemma used_lbas_cong: "parts f' = parts f \<Longrightarrow> cur_part f' = cur_part f \<Longrightarrow> used_lbas f' = used_lbas f"
  by (simp add: used_lbas_def cpart_def)

lemma new_block_ok:
  assumes ok: "fs_ok f" and left: "block_left f"
  obtains f' lba where "new_block f = Some (f', Some lba)" "same_data f f'" "fs_ok f'" "lba \<notin> used_lbas f"
    "used_lbas f' = insert lba (used_lbas f)" "data_start_lba (sb (cpart f)) \<le> lba" "lba \<le> max_lba"
    "nbits (block_bitmap (cpart f')) = nbits (block_bitmap (cpart f))"
proof -
  obtain g lba where g: "block_bitmap_alloc (cur_part f) f = Some (g, int lba)" "same_data f g" "fs_ok g"
    "lba \<notin> used_lbas f" "used_lbas g = insert lba (used_lbas f)" "data_start_lba (sb (cpart f)) \<le> lba" "lba \<le> max_lba"
    "lba - data_start_lba (sb (cpart f)) < nbits (block_bitmap (cpart f))"
    "nbits (block_bitmap (cpart g)) = nbits (block_bitmap (cpart f))"
    by (rule block_alloc_ok [OF ok left])
  let ?i = "lba - data_start_lba (sb (cpart g))"
  have sb: "sb (cpart g) = sb (cpart f)" "cur_part g = cur_part f" using g(2) by (simp_all add: same_data_def)
  then have "?i div 4096 < nbits (block_bitmap (cpart g)) div 4096" using g(8,9) by (intro fs_ok_sector [OF g(3)]) simp
  then obtain h where h: "bitmap_sync (cur_part g) ?i BLOCK_BITMAP g = Some h" "same_data g h" "parts h = parts g" "fs_ok h"
    using block_bitmap_sync [OF g(3)] by blast
  have c: "cur_part h = cur_part g" using h(2) by (simp add: same_data_def)
  show thesis
  proof
    show "new_block f = Some (h, Some lba)" using g(1) h(1) by (simp add: new_block_def Let_def)
    show "same_data f h" by (rule same_data_trans [OF g(2) h(2)])
    show "fs_ok h" "lba \<notin> used_lbas f" "data_start_lba (sb (cpart f)) \<le> lba" "lba \<le> max_lba" by fact+
    show "used_lbas h = insert lba (used_lbas f)" using used_lbas_cong [OF h(3) c] g(5) by simp
    show "nbits (block_bitmap (cpart h)) = nbits (block_bitmap (cpart f))" using g(9) h(3) c by (simp add: cpart_def)
  qed
qed

text \<open>Changes of inodes and of sectors.\<close>

lemma upd_inode_frame [simp]:
  "krn (upd_inode a g f) = krn f" "channels (upd_inode a g f) = channels f" "ata_status (upd_inode a g f) = ata_status f"
  "sectors (upd_inode a g f) = sectors f" "parts (upd_inode a g f) = parts f" "cur_part (upd_inode a g f) = cur_part f"
  "dirs (upd_inode a g f) = dirs f" "file_table (upd_inode a g f) = file_table f" "cpart (upd_inode a g f) = cpart f"
  "inodes (upd_inode a g f) = (inodes f)(a := g (inodes f a))"
  by (simp_all add: upd_inode_def cpart_def)

lemma upd_inode_ready [simp]:
  "drive_ready (upd_inode a g f) dk = drive_ready f dk" "wf_disk (upd_inode a g f) dk = wf_disk f dk"
  "part_ok p (upd_inode a g f) = part_ok p f" "fs_ok (upd_inode a g f) = fs_ok f" "used_lbas (upd_inode a g f) = used_lbas f"
  by (simp_all add: drive_ready_def chan_ready_def wf_disk_def part_ok_def fs_ok_def Let_def used_lbas_def)

lemma fs_ok_write:
  assumes "fs_ok f" "length bytes = 512"
  shows "fs_ok (write_sects dk b 1 bytes f)"
proof -
  have "wf_disk (write_sects dk b 1 bytes f) (my_disk (cpart f))"
    using fs_okD(2) [OF assms(1)] assms(2) by (auto simp: wf_disk_def write_sects_def)
  then show ?thesis using assms(1) part_ok_parts [of "write_sects dk b 1 bytes f" "cur_part f" f] by (simp add: fs_ok_def Let_def)
qed

lemma used_lbas_write [simp]: "used_lbas (write_sects dk b n d f) = used_lbas f"
  by (simp add: used_lbas_def)

lemma sectors_write_one:
  "length bytes = 512 \<Longrightarrow> sectors (write_sects dk b 1 bytes f) dk s = (if s = b then bytes else sectors f dk s)"
  by (auto simp: write_sects_def)

lemma read_block:
  assumes "fs_ok f" "b \<le> max_lba"
  shows "ide_read (my_disk (cpart f)) b 1 f = Some (f, sectors f (my_disk (cpart f)) b)"
  using ide_read_eq [OF fs_okD(1,2) [OF assms(1)], of 1 b] assms(2) by (simp add: read_sects_def)

lemma write_block:
  assumes "fs_ok f" "b \<le> max_lba" "length bytes = 512"
  shows "ide_write (my_disk (cpart f)) b bytes 1 f = Some (write_sects (my_disk (cpart f)) b 1 bytes f)"
  using ide_write_eq [OF fs_okD(1) [OF assms(1)], of 1 b bytes] assms by simp

end
