(* ===== verification/Dir_Spec.thy ===== *)
theory Dir_Spec
  imports Fs_Inv
begin

text \<open>
  Directories as finite maps from names to entries.  The contract of a directory (a lookup after an
  insertion) is a locale; it is interpreted on \<open>sync_dir_entry\<close> and the lookup that
  \<open>search_dir_entry\<close> computes.
\<close>

section \<open>Names\<close>

definition entry_name :: "dir_entry \<Rightarrow> u8 list option" where
  "entry_name e = cstr (filename e)"

lemma streq_cstr: "cstr xs = Some s \<Longrightarrow> 0 \<notin> set nm \<Longrightarrow> streq xs (nm @ [0]) = Some (s = nm)"
proof (induction xs arbitrary: s nm)
  case (Cons x xs)
  show ?case
  proof (cases "x = 0")
    case True
    then show ?thesis using Cons.prems by (cases nm) (auto simp: cstr_def)
  next
    case False
    then obtain s' where s: "cstr xs = Some s'" "s = x # s'" using Cons.prems(1) by (auto simp: cstr_def split: if_splits)
    then show ?thesis using False Cons.IH [OF s(1)] Cons.prems(2) by (cases nm) auto
  qed
qed (simp add: cstr_def)

lemma cstr_take: "cstr (take n xs) = Some s \<Longrightarrow> cstr xs = Some s"
proof -
  assume "cstr (take n xs) = Some s"
  then have z: "0 \<in> set (take n xs)" "s = takeWhile (\<lambda>c. c \<noteq> 0) (take n xs)" by (auto simp: cstr_def split: if_splits)
  have "takeWhile (\<lambda>c. c \<noteq> 0) xs = takeWhile (\<lambda>c. c \<noteq> 0) (take n xs @ drop n xs)" by simp
  also have "\<dots> = takeWhile (\<lambda>c. c \<noteq> 0) (take n xs)" using z(1) by (intro takeWhile_append1) auto
  finally show ?thesis using z in_set_takeD [of 0 n xs] by (simp add: cstr_def)
qed

lemma streq_entry:
  assumes "entry_name (dirent_of bs) = Some s" "0 \<notin> set nm"
  shows "streq bs (nm @ [0]) = Some (s = nm)"
  using assms by (intro streq_cstr) (auto simp: entry_name_def dirent_of_def intro: cstr_take)


section \<open>The slots of a sector\<close>

definition slots :: "u8 list \<Rightarrow> dir_entry list" where
  "slots bytes = map (\<lambda>k. dirent_of (entry_at bytes k)) [0..<21]"

lemma length_slots [simp]: "length (slots bytes) = 21"
  by (simp add: slots_def)

lemma search_block_find:
  assumes "\<forall>k \<in> set ks. entry_name (dirent_of (entry_at bytes k)) \<noteq> None" "0 \<notin> set nm"
  shows "search_block ks bytes nm = Some (find (\<lambda>e. entry_name e = Some nm) (map (\<lambda>k. dirent_of (entry_at bytes k)) ks))"
  using assms
proof (induction ks)
  case (Cons k ks)
  then obtain s where "entry_name (dirent_of (entry_at bytes k)) = Some s" by auto
  then show ?case using Cons streq_entry [of "entry_at bytes k" s nm] by simp
qed simp

lemma get32_take: "4 \<le> k \<Longrightarrow> get32 (take k bs) = get32 bs"
  using get_words_take [of 1 k bs] by simp

lemma get32_zero: "list_all (\<lambda>b. b = 0) bs \<Longrightarrow> get32 bs = 0"
  by (cases bs rule: get32.cases) simp_all

lemma dirent_of_take: "dirent_of (take 24 bs) = dirent_of bs"
  by (simp add: dirent_of_def drop_take get32_take)

lemma slots_put_at:
  assumes k: "k < 21" and l: "length bytes = 512" and e: "wf_dirent e"
  shows "slots (put_at bytes (dirent_size * k) (dirent_bytes e)) = (slots bytes)[k := e]"
proof (rule nth_equalityI)
  fix j assume "j < length (slots (put_at bytes (dirent_size * k) (dirent_bytes e)))"
  then have j: "j < 21" by simp
  let ?x = "dirent_bytes e" and ?off = "dirent_size * k"
  have lx: "length ?x = 24" using length_dirent_bytes [OF e] by (simp add: dirent_size_def)
  have fit: "?off + length ?x \<le> length bytes" using k l lx by (simp add: dirent_size_def)
  have s: "slots b ! j = dirent_of (take 24 (drop (24 * j) b))" for b
    using j dirent_of_take by (simp add: slots_def entry_at_def dirent_size_def)
  show "slots (put_at bytes ?off ?x) ! j = (slots bytes)[k := e] ! j"
  proof (cases "j = k")
    case True
    then have "take 24 (drop (24 * j) (put_at bytes ?off ?x)) = ?x"
      using take_put_at_same [OF fit] lx by (simp add: dirent_size_def)
    then show ?thesis using True k s dirent_of_bytes [OF e, of "[]"] by simp
  next
    case False
    then have "24 * j + 24 \<le> ?off \<or> ?off + length ?x \<le> 24 * j" using lx by (simp add: dirent_size_def) linarith
    then have "take 24 (drop (24 * j) (put_at bytes ?off ?x)) = take 24 (drop (24 * j) bytes)"
      by (rule take_put_at_other [OF fit])
    then show ?thesis using False s by simp
  qed
qed simp

definition no_entry :: dir_entry where
  "no_entry = \<lparr>filename = replicate 16 0, de_i_no = 0, f_type = 0\<rparr>"

lemma slots_zero: "slots (replicate 512 0) = replicate 21 no_entry"
proof -
  have "dirent_of (entry_at (replicate 512 0) k) = no_entry" if "k < 21" for k
  proof -
    have z: "get32 (replicate n 0) = 0" for n by (rule get32_zero) (simp add: list_all_iff)
    show ?thesis using that by (simp add: dirent_of_def entry_at_def dirent_size_def no_entry_def z)
  qed
  then show ?thesis by (auto simp: slots_def intro!: nth_equalityI)
qed

lemma free_entry_find: "free_entry 21 bytes = find (\<lambda>k. f_type (slots bytes ! k) = FT_UNKNOWN) [0..<21]"
  unfolding free_entry_def by (rule find_cong) (auto simp: slots_def)


section \<open>The slots of a directory\<close>

definition dir_slots :: "machine \<Rightarrow> nat list \<Rightarrow> dir_entry list" where
  "dir_slots f blks = concat (map (\<lambda>b. slots (sectors f (my_disk (cpart f)) b)) (filter (\<lambda>b. b \<noteq> 0) blks))"

definition lookup :: "u8 list \<Rightarrow> dir_entry list \<Rightarrow> dir_entry option" where
  "lookup nm es = find (\<lambda>e. entry_name e = Some nm) es"

text \<open>Every slot has a terminated name, and a free slot has the empty one.\<close>

definition named :: "dir_entry list \<Rightarrow> bool" where
  "named es \<longleftrightarrow> list_all (\<lambda>e. entry_name e \<noteq> None \<and> (f_type e = FT_UNKNOWN \<longrightarrow> entry_name e = Some [])) es"

lemma lookup_append: "lookup nm (xs @ ys) = (case lookup nm xs of None \<Rightarrow> lookup nm ys | Some e \<Rightarrow> Some e)"
  by (induction xs) (simp_all add: lookup_def)

lemma named_append [simp]: "named (xs @ ys) \<longleftrightarrow> named xs \<and> named ys"
  by (simp add: named_def)

lemma dir_slots_simps [simp]:
  "dir_slots f [] = []" "dir_slots f (0 # bs) = dir_slots f bs"
  "b \<noteq> 0 \<Longrightarrow> dir_slots f (b # bs) = slots (sectors f (my_disk (cpart f)) b) @ dir_slots f bs"
  "dir_slots f (xs @ ys) = dir_slots f xs @ dir_slots f ys"
  by (simp_all add: dir_slots_def)

lemma dir_slots_cong:
  assumes "my_disk (cpart f') = my_disk (cpart f)"
    and "\<And>b. b \<in> set blks \<Longrightarrow> b \<noteq> 0 \<Longrightarrow> sectors f' (my_disk (cpart f)) b = sectors f (my_disk (cpart f)) b"
  shows "dir_slots f' blks = dir_slots f blks"
  using assms by (auto simp: dir_slots_def intro!: arg_cong [where f = concat])

lemma search_blocks_lookup:
  assumes ok: "fs_ok f" and "list_all (\<lambda>b. b \<le> max_lba) blks" "named (dir_slots f blks)" "0 \<notin> set nm"
  shows "search_blocks (my_disk (cpart f)) 21 blks nm f = Some (f, lookup nm (dir_slots f blks))"
  using assms(2-)
proof (induction blks)
  case (Cons b bs)
  show ?case
  proof (cases "b = 0")
    case False
    let ?dk = "my_disk (cpart f)"
    have r: "ide_read ?dk b 1 f = Some (f, sectors f ?dk b)"
      using ide_read_eq [OF fs_okD(1,2) [OF ok], of 1 b] Cons.prems(1) by (simp add: read_sects_def)
    have "search_block [0..<21] (sectors f ?dk b) nm = Some (lookup nm (slots (sectors f ?dk b)))"
      unfolding lookup_def slots_def
      by (rule search_block_find) (use Cons.prems(2,3) False in \<open>auto simp: named_def slots_def list_all_iff\<close>)
    then show ?thesis using r Cons False by (simp add: lookup_append split: option.split)
  qed (use Cons in simp)
qed (simp add: lookup_def)

lemma lookup_None_iff: "lookup nm es = None \<longleftrightarrow> (\<forall>e \<in> set es. entry_name e \<noteq> Some nm)"
  by (auto simp: lookup_def find_None_iff)

text \<open>An entry takes a free slot, or the first slot of a new sector.\<close>

definition inserted :: "dir_entry list \<Rightarrow> dir_entry \<Rightarrow> dir_entry list \<Rightarrow> bool" where
  "inserted es e es' \<longleftrightarrow> (\<exists>xs o1 ys. es = xs @ o1 # ys \<and> f_type o1 = FT_UNKNOWN \<and> es' = xs @ e # ys) \<or>
     (\<exists>xs ys. es = xs @ ys \<and> es' = xs @ e # replicate 20 no_entry @ ys)"

lemma no_entry_name: "entry_name no_entry = Some []"
  by (simp add: entry_name_def no_entry_def cstr_def)

lemma lookup_inserted:
  assumes "inserted es e es'" "named es" "entry_name e = Some nm" "lookup nm es = None" "x \<noteq> []"
  shows "lookup x es' = (if x = nm then Some e else lookup x es)"
proof -
  have n: "lookup x (replicate k no_entry) = None" for k using assms(5) no_entry_name by (simp add: lookup_None_iff)
  have l: "lookup x (e # zs) = (if x = nm then Some e else lookup x zs)" for zs using assms(3) by (auto simp: lookup_def)
  from assms(1) consider (slot) xs o1 ys where "es = xs @ o1 # ys" "f_type o1 = FT_UNKNOWN" "es' = xs @ e # ys"
    | (sector) xs ys where "es = xs @ ys" "es' = xs @ e # replicate 20 no_entry @ ys"
    unfolding inserted_def by blast
  then show ?thesis
  proof cases
    case slot
    then have "entry_name o1 = Some []" using assms(2) by (simp add: named_def)
    then have o1: "lookup x (o1 # ys) = lookup x ys" using assms(5) by (simp add: lookup_def)
    have "x = nm \<Longrightarrow> lookup x xs = None" using assms(4) slot(1) by (auto simp: lookup_append split: option.splits)
    then show ?thesis unfolding slot(1,3) lookup_append l o1 by simp
  next
    case sector
    have "x = nm \<Longrightarrow> lookup x xs = None" using assms(4) sector(1) by (auto simp: lookup_append split: option.splits)
    then show ?thesis unfolding sector lookup_append l n by (simp split: option.split)
  qed
qed

lemma named_inserted:
  assumes "inserted es e es'" "named es" "entry_name e \<noteq> None" "f_type e \<noteq> FT_UNKNOWN"
  shows "named es'"
proof -
  have "named (replicate k no_entry)" for k by (simp add: named_def no_entry_name list_all_iff)
  then show ?thesis using assms by (auto simp: inserted_def named_def)
qed


section \<open>A directory\<close>

text \<open>A directory of the mounted partition with direct blocks only.\<close>

definition dir_blocks :: "machine \<Rightarrow> dir_ref \<Rightarrow> nat list" where
  "dir_blocks f d = take 12 (i_sectors (inodes f (dir_inode (dirs f d))))"

definition dir_entries :: "machine \<Rightarrow> dir_ref \<Rightarrow> dir_entry list" where
  "dir_entries f d = dir_slots f (dir_blocks f d)"

definition used_entries :: "dir_entry list \<Rightarrow> nat" where
  "used_entries es = length (filter (\<lambda>e. f_type e \<noteq> FT_UNKNOWN) es)"

definition dir_ok :: "machine \<Rightarrow> dir_ref \<Rightarrow> bool" where
  "dir_ok f d \<longleftrightarrow> (let ino = inodes f (dir_inode (dirs f d)); bs = filter (\<lambda>b. b \<noteq> 0) (dir_blocks f d) in
     fs_ok f \<and> length (i_sectors ino) = 13 \<and> i_sectors ino ! 12 = 0 \<and> distinct bs \<and> set bs \<subseteq> used_lbas f \<and>
     list_all (\<lambda>b. data_start_lba (sb (cpart f)) \<le> b \<and> b \<le> max_lba) bs \<and>
     i_size ino = dirent_size * used_entries (dir_entries f d) \<and> named (dir_entries f d))"

definition has_room :: "machine \<Rightarrow> nat \<Rightarrow> bool" where
  "has_room f b \<longleftrightarrow> b = 0 \<or> (\<exists>e \<in> set (slots (sectors f (my_disk (cpart f)) b)). f_type e = FT_UNKNOWN)"

definition dir_full :: "machine \<Rightarrow> dir_ref \<Rightarrow> bool" where
  "dir_full f d \<longleftrightarrow> (\<forall>b \<in> set (dir_blocks f d). \<not> has_room f b)"

lemma dir_okD:
  assumes "dir_ok f d"
  shows "fs_ok f" "length (i_sectors (inodes f (dir_inode (dirs f d)))) = 13" "i_sectors (inodes f (dir_inode (dirs f d))) ! 12 = 0"
    "distinct (filter (\<lambda>b. b \<noteq> 0) (dir_blocks f d))" "set (filter (\<lambda>b. b \<noteq> 0) (dir_blocks f d)) \<subseteq> used_lbas f"
    "\<And>b. b \<in> set (dir_blocks f d) \<Longrightarrow> b \<noteq> 0 \<Longrightarrow> data_start_lba (sb (cpart f)) \<le> b \<and> b \<le> max_lba"
    "i_size (inodes f (dir_inode (dirs f d))) = dirent_size * used_entries (dir_entries f d)" "named (dir_entries f d)"
  using assms by (auto simp: dir_ok_def Let_def list_all_iff)

lemma length_dir_blocks: "dir_ok f d \<Longrightarrow> length (dir_blocks f d) = 12"
  using dir_okD(2) by (simp add: dir_blocks_def)

text \<open>The loop passes over full blocks up to the first one with room.\<close>

lemma free_entry_full:
  "\<not> has_room f b \<Longrightarrow> free_entry 21 (sectors f (my_disk (cpart f)) b) = None"
  by (auto simp: has_room_def free_entry_find find_None_iff slots_def)

lemma free_entry_room:
  assumes "has_room f b" "b \<noteq> 0"
  obtains k where "free_entry 21 (sectors f (my_disk (cpart f)) b) = Some k" "k < 21"
    "f_type (slots (sectors f (my_disk (cpart f)) b) ! k) = FT_UNKNOWN"
proof -
  let ?s = "slots (sectors f (my_disk (cpart f)) b)"
  have "\<exists>k < 21. f_type (?s ! k) = FT_UNKNOWN" using assms by (auto simp: has_room_def in_set_conv_nth)
  then have "find (\<lambda>k. f_type (?s ! k) = FT_UNKNOWN) [0..<21] \<noteq> None" by (auto simp: find_None_iff)
  then obtain k where k: "find (\<lambda>k. f_type (?s ! k) = FT_UNKNOWN) [0..<21] = Some k" by blast
  then have "k < 21" "f_type (?s ! k) = FT_UNKNOWN" by (auto simp: find_Some_iff)
  with k show thesis using that free_entry_find by metis
qed

lemma sync_dir_loop_skip:
  assumes ok: "fs_ok f" and n: "n \<le> 12"
    and full: "\<And>j. i \<le> j \<Longrightarrow> j < n \<Longrightarrow> blks ! j \<noteq> 0 \<and> blks ! j \<le> max_lba \<and> \<not> has_room f (blks ! j)" and i: "i \<le> n"
  shows "sync_dir_loop a e 21 blks i f = sync_dir_loop a e 21 blks n f"
  using full i
proof (induction "n - i" arbitrary: i)
  case (Suc m)
  then have lt: "i < n" by simp
  note b = Suc.prems(1) [OF order.refl lt]
  have "sync_dir_loop a e 21 blks i f = sync_dir_loop a e 21 blks (i + 1) f"
    using lt n b read_block [OF ok, of "blks ! i"] free_entry_full [of f "blks ! i"]
    by (subst sync_dir_loop.simps) (simp add: Let_def)
  also have "\<dots> = sync_dir_loop a e 21 blks n f" using Suc lt by (intro Suc.hyps(1)) auto
  finally show ?case .
qed simp

lemma used_inserted: "inserted es e es' \<Longrightarrow> f_type e \<noteq> FT_UNKNOWN \<Longrightarrow> used_entries es' = used_entries es + 1"
proof -
  have "used_entries (replicate k no_entry) = 0" for k by (simp add: used_entries_def no_entry_def FT_UNKNOWN_def)
  then show "inserted es e es' \<Longrightarrow> f_type e \<noteq> FT_UNKNOWN \<Longrightarrow> used_entries es' = used_entries es + 1"
    by (auto simp: inserted_def used_entries_def)
qed

lemma used_entries_bound: "dir_ok f d \<Longrightarrow> used_entries (dir_entries f d) \<le> 252"
proof -
  assume "dir_ok f d"
  have "length (dir_slots f bs) \<le> 21 * length bs" for bs
    by (induction bs) (auto simp: dir_slots_def)
  from this [of "dir_blocks f d"] have "length (dir_entries f d) \<le> 252"
    using length_dir_blocks [OF \<open>dir_ok f d\<close>] by (simp add: dir_entries_def)
  then show ?thesis unfolding used_entries_def by (rule order_trans [OF length_filter_le])
qed

text \<open>The directory after a change of one of its blocks and of its size.\<close>

lemma dir_ok_grown:
  assumes ok: "dir_ok f d" and a: "a = dir_inode (dirs f d)"
    and g: "fs_ok g" "dirs g = dirs f" "sb (cpart g) = sb (cpart f)"
    and ino: "inodes g a = (inodes f a)\<lparr>i_sectors := (i_sectors (inodes f a))[n := b]\<rparr>" "n < 12"
    and blk: "distinct (filter (\<lambda>b. b \<noteq> 0) ((dir_blocks f d)[n := b]))" "b \<in> used_lbas g" "used_lbas f \<subseteq> used_lbas g"
      "data_start_lba (sb (cpart f)) \<le> b" "b \<le> max_lba"
    and ins: "inserted (dir_entries f d) e (dir_slots g ((dir_blocks f d)[n := b]))"
    and e: "entry_name e \<noteq> None" "f_type e \<noteq> FT_UNKNOWN"
  shows "dir_ok (grow_dir a g) d \<and> inserted (dir_entries f d) e (dir_entries (grow_dir a g) d)"
proof -
  note o = dir_okD [OF ok]
  let ?g = "grow_dir a g"
  have sz: "dir_entry_size (sb (cpart g)) = dirent_size" by (rule fs_okD(10) [OF g(1)])
  have dg: "dir_inode (dirs ?g d) = a" using g(2) a by (simp add: grow_dir_def)
  have isec: "i_sectors (inodes ?g a) = (i_sectors (inodes f a))[n := b]" by (simp add: grow_dir_def ino(1))
  have bl: "dir_blocks ?g d = (dir_blocks f d)[n := b]"
    unfolding dir_blocks_def dg isec a [symmetric] by (rule take_update_swap)
  have en: "dir_entries ?g d = dir_slots g ((dir_blocks f d)[n := b])"
    unfolding dir_entries_def bl by (rule dir_slots_cong) (simp_all add: grow_dir_def)
  have i1: "inserted (dir_entries f d) e (dir_entries ?g d)" using ins en by simp
  have "i_size (inodes f a) = dirent_size * used_entries (dir_entries f d)" "used_entries (dir_entries f d) \<le> 252"
    using o(7) used_entries_bound [OF ok] a by simp_all
  then have "w32 (i_size (inodes f a) + dirent_size) = dirent_size * used_entries (dir_entries ?g d)"
    using used_inserted [OF i1 e(2)] by (simp add: dirent_size_def)
  then have size: "i_size (inodes ?g a) = dirent_size * used_entries (dir_entries ?g d)"
    using sz by (simp add: grow_dir_def ino(1))
  have sub: "set (filter (\<lambda>b. b \<noteq> 0) ((dir_blocks f d)[n := b])) \<subseteq> insert b (set (filter (\<lambda>b. b \<noteq> 0) (dir_blocks f d)))"
    using set_update_subset_insert [of "dir_blocks f d" n b] by auto
  have in_use: "set (filter (\<lambda>b. b \<noteq> 0) ((dir_blocks f d)[n := b])) \<subseteq> used_lbas ?g"
    using sub o(5) blk(2,3) by (auto simp: grow_dir_def)
  have rng: "data_start_lba (sb (cpart ?g)) \<le> x \<and> x \<le> max_lba" if "x \<in> set (filter (\<lambda>b. b \<noteq> 0) ((dir_blocks f d)[n := b]))" for x
  proof -
    have "x = b \<or> x \<in> set (dir_blocks f d) \<and> x \<noteq> 0" using that sub by auto
    then show ?thesis using o(6) [of x] blk(4,5) g(3) by (auto simp: grow_dir_def)
  qed
  have "dir_ok ?g d"
    unfolding dir_ok_def Let_def bl dg
    using g(1) o(2,3) ino blk(1) in_use rng size named_inserted [OF i1 o(8) e] a
    by (auto simp: grow_dir_def list_all_iff)
  then show ?thesis using i1 by blast
qed

text \<open>The machine after an insertion: at most one block more is in use.\<close>

definition grown :: "machine \<Rightarrow> dir_ref \<Rightarrow> dir_entry \<Rightarrow> machine \<Rightarrow> bool" where
  "grown f d e f' \<longleftrightarrow> dir_ok f' d \<and> inserted (dir_entries f d) e (dir_entries f' d) \<and> krn f' = krn f \<and> cur_part f' = cur_part f \<and>
     nbits (block_bitmap (cpart f')) = nbits (block_bitmap (cpart f)) \<and> (\<exists>x. used_lbas f' \<subseteq> insert x (used_lbas f))"

text \<open>A free slot of an existing block.\<close>

lemma insert_in_block:
  assumes ok: "dir_ok f d" and n: "n < 12" and b: "dir_blocks f d ! n = b" "b \<noteq> 0" "has_room f b"
    and e: "wf_dirent e" "entry_name e \<noteq> None" "f_type e \<noteq> FT_UNKNOWN" and blks: "blks ! n = b"
  defines "a \<equiv> dir_inode (dirs f d)"
  shows "\<exists>f'. sync_dir_loop a e 21 blks n f = Some (f', True) \<and> grown f d e f'"
proof -
  note o = dir_okD [OF ok]
  let ?dk = "my_disk (cpart f)" and ?bl = "dir_blocks f d"
  let ?pre = "take n ?bl" and ?post = "drop (Suc n) ?bl"
  have L: "n < length ?bl" using n length_dir_blocks [OF ok] by simp
  have split: "?bl = ?pre @ b # ?post" using id_take_nth_drop [OF L] b(1) by simp
  then have "b \<in> set ?bl" using b(1) L nth_mem by blast
  then have lba: "data_start_lba (sb (cpart f)) \<le> b" "b \<le> max_lba" "b \<in> used_lbas f" using o(5) o(6) [of b] b(2) by auto
  have "filter (\<lambda>b. b \<noteq> 0) ?bl = filter (\<lambda>b. b \<noteq> 0) ?pre @ b # filter (\<lambda>b. b \<noteq> 0) ?post"
    by (subst split) (simp add: b(2))
  then have nb: "b \<notin> set ?pre" "b \<notin> set ?post" using o(4) b(2) by auto
  obtain k where k: "free_entry 21 (sectors f ?dk b) = Some k" "k < 21" "f_type (slots (sectors f ?dk b) ! k) = FT_UNKNOWN"
    by (rule free_entry_room [OF b(3,2)])
  have l: "length (sectors f ?dk b) = 512" using fs_okD(2) [OF o(1)] by (simp add: wf_disk_def)
  let ?x = "put_at (sectors f ?dk b) (dirent_size * k) (dirent_bytes e)"
  have lx: "length ?x = 512"
    using put_at_simps(2) [of "dirent_size * k" "dirent_bytes e" "sectors f ?dk b"] l k(2) length_dirent_bytes [OF e(1)]
    by (simp add: dirent_size_def)
  let ?g = "write_sects ?dk b 1 ?x f"
  have run: "sync_dir_loop a e 21 blks n f = Some (grow_dir a ?g, True)"
    using n blks b(2) k(1) read_block [OF o(1) lba(2)] write_block [OF o(1) lba(2) lx]
    by (subst sync_dir_loop.simps) (simp add: Let_def)
  have same: "dir_slots ?g bs = dir_slots f bs" if "b \<notin> set bs" for bs
    by (rule dir_slots_cong) (use that sectors_write_one [OF lx] in auto)
  let ?s = "slots (sectors f ?dk b)"
  have new: "slots (sectors ?g ?dk b) = ?s[k := e]" using slots_put_at [OF k(2) l e(1)] sectors_write_one [OF lx] by simp
  have es: "dir_entries f d = dir_slots f ?pre @ ?s @ dir_slots f ?post"
    unfolding dir_entries_def by (subst split) (simp add: b(2))
  have es': "dir_slots ?g (?bl[n := b]) = dir_slots f ?pre @ ?s[k := e] @ dir_slots f ?post"
    unfolding upd_conv_take_nth_drop [OF L] using same [OF nb(1)] same [OF nb(2)] new b(2) by simp
  have ks: "k < length ?s" using k(2) by simp
  have ins: "inserted (dir_entries f d) e (dir_slots ?g (?bl[n := b]))"
    unfolding inserted_def es es' upd_conv_take_nth_drop [OF ks]
    by (rule disjI1, rule exI [of _ "dir_slots f ?pre @ take k ?s"], rule exI [of _ "?s ! k"],
        rule exI [of _ "drop (Suc k) ?s @ dir_slots f ?post"])
      (use k(3) id_take_nth_drop [OF ks] in simp)
  have "i_sectors (inodes f a) ! n = b" using b(1) n by (simp add: dir_blocks_def a_def)
  then have ino: "inodes ?g a = (inodes f a)\<lparr>i_sectors := (i_sectors (inodes f a))[n := b]\<rparr>"
    using list_update_id [of "i_sectors (inodes f a)" n] by simp
  have "?bl[n := b] = ?bl" using b(1) list_update_id [of ?bl n] by simp
  then have dis: "distinct (filter (\<lambda>b. b \<noteq> 0) (?bl[n := b]))" using o(4) by (simp only:)
  have "dir_ok (grow_dir a ?g) d \<and> inserted (dir_entries f d) e (dir_entries (grow_dir a ?g) d)"
    by (rule dir_ok_grown [OF ok _ fs_ok_write [OF o(1) lx] _ _ ino n dis _ _ lba(1,2) ins e(2,3)])
      (use lba(3) in \<open>simp_all add: a_def\<close>)
  then have "grown f d e (grow_dir a ?g)" by (auto simp: grown_def grow_dir_def)
  then show ?thesis using run by blast
qed

text \<open>A new block.\<close>

lemma slots_new_block:
  assumes "wf_dirent e"
  shows "slots (put_at (replicate 512 0) 0 (dirent_bytes e)) = e # replicate 20 no_entry"
proof -
  have "(21 :: nat) = Suc 20" by simp
  then have r: "replicate 21 no_entry = no_entry # replicate 20 no_entry" by (simp only: replicate_Suc)
  have "slots (put_at (replicate 512 0) (dirent_size * 0) (dirent_bytes e)) = (slots (replicate 512 0))[0 := e]"
    by (rule slots_put_at) (use assms in simp_all)
  then show ?thesis unfolding slots_zero r mult_0_right list_update_code .
qed

lemma distinct_fill_hole:
  assumes "distinct (filter (\<lambda>b. b \<noteq> 0) xs)" "n < length xs" "xs ! n = 0" "x \<notin> set xs" "x \<noteq> (0 :: nat)"
  shows "distinct (filter (\<lambda>b. b \<noteq> 0) (xs[n := x]))"
proof -
  let ?pre = "take n xs" and ?post = "drop (Suc n) xs"
  have "xs = ?pre @ 0 # ?post" using id_take_nth_drop [OF assms(2)] assms(3) by simp
  then have "filter (\<lambda>b. b \<noteq> 0) xs = filter (\<lambda>b. b \<noteq> 0) ?pre @ filter (\<lambda>b. b \<noteq> 0) ?post"
    by (metis (mono_tags, lifting) filter.simps(2) filter_append)
  then have "distinct (filter (\<lambda>b. b \<noteq> 0) ?pre @ x # filter (\<lambda>b. b \<noteq> 0) ?post)"
    using assms(1,4) by (auto dest: in_set_takeD in_set_dropD)
  then show ?thesis unfolding upd_conv_take_nth_drop [OF assms(2)] using assms(5) by simp
qed

lemma insert_new_block:
  assumes ok: "dir_ok f d" and n: "n < 12" and b: "dir_blocks f d ! n = 0" and left: "block_left f"
    and e: "wf_dirent e" "entry_name e \<noteq> None" "f_type e \<noteq> FT_UNKNOWN" and blks: "blks ! n = 0"
  defines "a \<equiv> dir_inode (dirs f d)"
  shows "\<exists>f'. sync_dir_loop a e 21 blks n f = Some (f', True) \<and> grown f d e f'"
proof -
  note o = dir_okD [OF ok]
  let ?dk = "my_disk (cpart f)" and ?bl = "dir_blocks f d"
  let ?pre = "take n ?bl" and ?post = "drop (Suc n) ?bl"
  have L: "n < length ?bl" using n length_dir_blocks [OF ok] by simp
  have split: "?bl = ?pre @ 0 # ?post" using id_take_nth_drop [OF L] b by simp
  obtain h lba where h: "new_block f = Some (h, Some lba)" "same_data f h" "fs_ok h" "lba \<notin> used_lbas f"
    "used_lbas h = insert lba (used_lbas f)" "data_start_lba (sb (cpart f)) \<le> lba" "lba \<le> max_lba"
    "nbits (block_bitmap (cpart h)) = nbits (block_bitmap (cpart f))"
    by (rule new_block_ok [OF o(1) left])
  have fr: "my_disk (cpart h) = ?dk" "inodes h = inodes f" "dirs h = dirs f" "sb (cpart h) = sb (cpart f)"
    "\<And>s. data_start_lba (sb (cpart f)) \<le> s \<Longrightarrow> sectors h ?dk s = sectors f ?dk s"
    using h(2) by (simp_all add: same_data_def)
  have pos: "0 < data_start_lba (sb (cpart f))" using fs_okD(7) [OF o(1)] by linarith
  then have nz: "lba \<noteq> 0" using h(6) by simp
  have nb: "lba \<notin> set ?bl" using h(4) o(5) nz by auto
  let ?x = "put_at (replicate 512 0) 0 (dirent_bytes e)"
  have lx: "length ?x = 512"
    using put_at_simps(2) [of 0 "dirent_bytes e" "replicate 512 0"] length_dirent_bytes [OF e(1)] by (simp add: dirent_size_def)
  let ?u = "set_sector a n lba h"
  let ?g = "write_sects ?dk lba 1 ?x ?u"
  have oku: "fs_ok ?u" using h(3) by (simp add: set_sector_def)
  have wr: "ide_write ?dk lba ?x 1 ?u = Some ?g" using write_block [OF oku h(7) lx] fr(1) by (simp add: set_sector_def)
  have run: "sync_dir_loop a e 21 blks n f = Some (grow_dir a ?g, True)"
    using n blks h(1) wr by (subst sync_dir_loop.simps) (simp add: sync_new_block_def Let_def)
  have cg: "cpart ?g = cpart h" by (simp add: set_sector_def)
  have same: "dir_slots ?g bs = dir_slots f bs" if "set bs \<subseteq> set ?bl" for bs
  proof (rule dir_slots_cong)
    show "my_disk (cpart ?g) = ?dk" using cg fr(1) by simp
    fix x assume "x \<in> set bs" "x \<noteq> 0"
    then have "x \<noteq> lba" "data_start_lba (sb (cpart f)) \<le> x" using that nb o(6) [of x] by auto
    then show "sectors ?g ?dk x = sectors f ?dk x" using sectors_write_one [OF lx] fr(5) by (simp add: set_sector_def)
  qed
  have new: "slots (sectors ?g (my_disk (cpart ?g)) lba) = e # replicate 20 no_entry"
    using cg fr(1) slots_new_block [OF e(1)] sectors_write_one [OF lx] by simp
  have sub: "set ?pre \<subseteq> set ?bl" "set ?post \<subseteq> set ?bl" by (rule set_take_subset, rule set_drop_subset)
  have es: "dir_entries f d = dir_slots f ?pre @ dir_slots f ?post"
    unfolding dir_entries_def by (subst split) simp
  have es': "dir_slots ?g (?bl[n := lba]) = dir_slots f ?pre @ e # replicate 20 no_entry @ dir_slots f ?post"
    unfolding upd_conv_take_nth_drop [OF L] using same [OF sub(1)] same [OF sub(2)] new nz by simp
  have ins: "inserted (dir_entries f d) e (dir_slots ?g (?bl[n := lba]))"
    unfolding inserted_def es es' by blast
  have ino: "inodes ?g a = (inodes f a)\<lparr>i_sectors := (i_sectors (inodes f a))[n := lba]\<rparr>"
    using fr(2) by (simp add: set_sector_def)
  have dis: "distinct (filter (\<lambda>b. b \<noteq> 0) (?bl[n := lba]))" by (rule distinct_fill_hole [OF o(4) L b nb nz])
  have "dir_ok (grow_dir a ?g) d \<and> inserted (dir_entries f d) e (dir_entries (grow_dir a ?g) d)"
    by (rule dir_ok_grown [OF ok _ fs_ok_write [OF oku lx] _ _ ino n dis _ _ h(6,7) ins e(2,3)])
      (use h(5) fr in \<open>auto simp: a_def set_sector_def\<close>)
  moreover have "krn h = krn f" "cur_part h = cur_part f" using h(2) by (simp_all add: same_data_def)
  ultimately have "grown f d e (grow_dir a ?g)" using cg h(5,8) by (auto simp: grown_def grow_dir_def set_sector_def)
  then show ?thesis using run by blast
qed

lemma not_fullD:
  assumes "\<not> dir_full f d"
  obtains n where "n < length (dir_blocks f d)" "has_room f (dir_blocks f d ! n)" "\<forall>j < n. \<not> has_room f (dir_blocks f d ! j)"
proof -
  let ?P = "\<lambda>n. n < length (dir_blocks f d) \<and> has_room f (dir_blocks f d ! n)"
  have "\<exists>n. ?P n" using assms by (auto simp: dir_full_def in_set_conv_nth)
  then have "\<exists>n. ?P n \<and> (\<forall>j < n. \<not> ?P j)" by (simp only: exists_least_iff [of ?P])
  then obtain n where n: "?P n" "\<forall>j < n. \<not> ?P j" by blast
  show thesis by (rule that [of n]) (use n in auto)
qed

text \<open>The first block with room takes the entry.\<close>

lemma sync_dir_entry_inserts:
  assumes ok: "dir_ok f d" and full: "\<not> dir_full f d" and left: "block_left f"
    and e: "wf_dirent e" "entry_name e \<noteq> None" "f_type e \<noteq> FT_UNKNOWN"
  shows "\<exists>f'. sync_dir_entry d e f = Some (f', True) \<and> grown f d e f'"
proof -
  note o = dir_okD [OF ok]
  let ?a = "dir_inode (dirs f d)" let ?blks = "dir_blocks f d @ replicate 128 0"
  have len: "length (dir_blocks f d) = 12" by (rule length_dir_blocks [OF ok])
  obtain n where n: "n < length (dir_blocks f d)" "has_room f (dir_blocks f d ! n)"
    and "\<forall>j < n. \<not> has_room f (dir_blocks f d ! j)" by (rule not_fullD [OF full])
  then have before: "\<not> has_room f (dir_blocks f d ! j)" if "j < n" for j using that by simp
  have nth: "?blks ! j = dir_blocks f d ! j" if "j \<le> n" for j using that n(1) by (simp add: nth_append)
  have skip: "?blks ! j \<noteq> 0 \<and> ?blks ! j \<le> max_lba \<and> \<not> has_room f (?blks ! j)" if "j < n" for j
  proof -
    have "dir_blocks f d ! j \<noteq> 0" using before [OF that] by (auto simp: has_room_def)
    then show ?thesis using before [OF that] o(6) [of "dir_blocks f d ! j"] that n(1) nth [of j] by simp
  qed
  have "sync_dir_entry d e f = sync_dir_loop ?a e 21 ?blks 0 f"
    using fs_okD(10) [OF o(1)] o(7)
    by (simp add: sync_dir_entry_def entries_per_sec_def dir_blocks_def dirent_size_def Let_def)
  also have "\<dots> = sync_dir_loop ?a e 21 ?blks n f"
    by (rule sync_dir_loop_skip [OF o(1)]) (use n(1) len skip in auto)
  finally have run: "sync_dir_entry d e f = sync_dir_loop ?a e 21 ?blks n f" .
  have "\<exists>f'. sync_dir_loop ?a e 21 ?blks n f = Some (f', True) \<and> grown f d e f'"
  proof (cases "dir_blocks f d ! n = 0")
    case True
    then show ?thesis by (intro insert_new_block [OF ok _ _ left e]) (use n(1) len nth [of n] in auto)
  next
    case False
    then show ?thesis by (intro insert_in_block [OF ok _ refl _ n(2) e]) (use n(1) len nth [of n] in auto)
  qed
  then show ?thesis unfolding run .
qed


section \<open>Lookup\<close>

definition same_drive :: "machine \<Rightarrow> machine \<Rightarrow> bool" where
  "same_drive f f' \<longleftrightarrow> (\<exists>k. f' = f\<lparr>krn := k\<rparr> \<and> locks k = locks (krn f) \<and> running k = running (krn f))"

lemma same_drive_fs_ok: "same_drive f f' \<Longrightarrow> fs_ok f' = fs_ok f"
  by (auto simp: same_drive_def fs_ok_def Let_def cpart_def drive_ready_def chan_ready_def lock_free_def wf_disk_def part_ok_def)

lemma same_drive_dirs:
  assumes "same_drive f f'"
  shows "dir_entries f' d = dir_entries f d" "dir_ok f' d = dir_ok f d" "cpart f' = cpart f" "cur_part f' = cur_part f"
proof -
  have s: "sectors f' = sectors f" "cpart f' = cpart f" "dirs f' = dirs f" "inodes f' = inodes f" "used_lbas f' = used_lbas f"
    using assms by (auto simp: same_drive_def cpart_def used_lbas_def)
  have b: "dir_blocks f' d = dir_blocks f d" by (simp add: dir_blocks_def s)
  show e: "dir_entries f' d = dir_entries f d" by (simp add: dir_entries_def dir_slots_def b s)
  show "dir_ok f' d = dir_ok f d" by (simp add: dir_ok_def Let_def e b s same_drive_fs_ok [OF assms])
  show "cpart f' = cpart f" by (rule s)
  show "cur_part f' = cur_part f" using assms by (auto simp: same_drive_def)
qed

text \<open>The value of a search: the entry that is found, or the caller's own with the result \<open>false\<close>.\<close>

definition search_result :: "dir_entry \<Rightarrow> dir_entry option \<Rightarrow> dir_entry \<times> bool" where
  "search_result e0 r = (case r of Some e \<Rightarrow> (e, True) | None \<Rightarrow> (e0, False))"

lemma search_dir_entry_lookup:
  assumes ok: "dir_ok f d" and heap: "heap_ready (krn f)" and nm: "0 \<notin> set nm"
  shows "\<exists>f'. search_dir_entry (cur_part f) d nm e0 f = Some (f', search_result e0 (lookup nm (dir_entries f d))) \<and>
    same_drive f f' \<and> heap_ready (krn f')"
proof -
  note o = dir_okD [OF ok]
  obtain s1 b1 s2 b2 s3 s4 where s:
    "sys_malloc 560 (krn f) = Some (s1, b1)" "b1 \<noteq> 0" "sys_malloc 512 s1 = Some (s2, b2)" "b2 \<noteq> 0"
    "sys_free b2 s2 = Some s3" "sys_free b1 s3 = Some s4" "borrowed (krn f) s4"
    "locks s2 = locks (krn f)" "running s2 = running (krn f)"
    by (rule borrow_two [OF heap, of 560 6 512 5]) auto
  let ?f2 = "f\<lparr>krn := s2\<rparr>" and ?blks = "dir_blocks f d @ replicate 128 0"
  have sd: "same_drive f ?f2" using s(8,9) by (auto simp: same_drive_def)
  have cp: "cpart ?f2 = cpart f" by (rule same_drive_dirs(3) [OF sd])
  have ds: "dir_slots ?f2 ?blks = dir_entries f d"
    unfolding dir_entries_def dir_slots_def cp by (simp add: filter_replicate)
  have "search_blocks (my_disk (cpart ?f2)) 21 ?blks nm ?f2 = Some (?f2, lookup nm (dir_slots ?f2 ?blks))"
  proof (rule search_blocks_lookup [OF _ _ _ nm])
    show "fs_ok ?f2" using o(1) same_drive_fs_ok [OF sd] by simp
    show "list_all (\<lambda>b. b \<le> max_lba) ?blks" using o(6) by (fastforce simp: list_all_iff)
    show "named (dir_slots ?f2 ?blks)" unfolding ds by (rule o(8))
  qed
  then have sr: "search_blocks (my_disk (cpart f)) 21 ?blks nm ?f2 = Some (?f2, lookup nm (dir_entries f d))"
    unfolding cp ds .
  have "search_dir_entry (cur_part f) d nm e0 f = Some (f\<lparr>krn := s4\<rparr>, search_result e0 (lookup nm (dir_entries f d)))"
    using s sr [unfolded cpart_def dir_blocks_def] o(3) fs_okD(10) [OF o(1)]
    by (simp add: search_dir_entry_def fs_malloc_def fs_free_def on_krn_def all_blocks_def entries_per_sec_def cpart_def
        dirent_size_def search_result_def split: option.split)
  moreover have "same_drive f (f\<lparr>krn := s4\<rparr>)" "heap_ready s4" using s(7) by (auto simp: same_drive_def borrowed_def)
  ultimately show ?thesis by fastforce
qed


section \<open>The contract of a name table\<close>

text \<open>Entries are put in one after the other; the first failure stops.\<close>

fun insert_all :: "('v \<Rightarrow> 's \<Rightarrow> ('s \<times> bool) option) \<Rightarrow> 'v list \<Rightarrow> 's \<Rightarrow> 's option" where
  "insert_all ins [] s = Some s"
| "insert_all ins (v # vs) s = do { (s, ok) \<leftarrow> ins v s; ASSERT ok; insert_all ins vs s }"

locale name_table =
  fixes ok :: "'s \<Rightarrow> bool" and room :: "'s \<Rightarrow> nat" and tab :: "'s \<Rightarrow> 'k \<Rightarrow> 'v option"
    and key :: "'v \<Rightarrow> 'k" and valid :: "'v \<Rightarrow> bool" and good :: "'k \<Rightarrow> bool"
    and ins :: "'v \<Rightarrow> 's \<Rightarrow> ('s \<times> bool) option" and find_key :: "'k \<Rightarrow> 's \<Rightarrow> ('s \<times> 'r) option" and res :: "'v option \<Rightarrow> 'r"
  assumes ins_new: "ok s \<Longrightarrow> 0 < room s \<Longrightarrow> valid v \<Longrightarrow> tab s (key v) = None \<Longrightarrow>
      \<exists>s'. ins v s = Some (s', True) \<and> ok s' \<and> tab s' = (tab s)(key v \<mapsto> v) \<and> room s \<le> room s' + 1"
    and find_tab: "ok s \<Longrightarrow> good k \<Longrightarrow> \<exists>s'. find_key k s = Some (s', res (tab s k)) \<and> ok s' \<and> tab s' = tab s"
begin

lemma ins_list:
  assumes "ok s" "length vs \<le> room s" "list_all valid vs" "distinct (map key vs)" "\<forall>v \<in> set vs. tab s (key v) = None"
  shows "\<exists>s'. insert_all ins vs s = Some s' \<and> ok s' \<and> tab s' = tab s ++ map_of (map (\<lambda>v. (key v, v)) vs)"
  using assms
proof (induction vs arbitrary: s)
  case (Cons v vs)
  obtain s' where s': "ins v s = Some (s', True)" "ok s'" "tab s' = (tab s)(key v \<mapsto> v)" "room s \<le> room s' + 1"
    using ins_new [of s v] Cons.prems by auto
  have new: "\<forall>w \<in> set vs. tab s' (key w) = None"
  proof
    fix w assume w: "w \<in> set vs"
    then have "key w \<noteq> key v" using Cons.prems(4) by (metis distinct.simps(2) image_eqI list.simps(9) list.set_map)
    then show "tab s' (key w) = None" using Cons.prems(5) s'(3) w by simp
  qed
  obtain t where t: "insert_all ins vs s' = Some t" "ok t" "tab t = tab s' ++ map_of (map (\<lambda>v. (key v, v)) vs)"
    using Cons.IH [OF s'(2) _ _ _ new] Cons.prems s'(4) by auto
  have "key v \<notin> dom (map_of (map (\<lambda>v. (key v, v)) vs))"
    using Cons.prems(4) by (auto simp: dom_map_of_conv_image_fst image_image)
  then have "tab t = tab s ++ map_of (map (\<lambda>v. (key v, v)) (v # vs))"
    using t(3) s'(3) by (simp add: map_add_upd_left)
  moreover have "insert_all ins (v # vs) s = Some t" using s'(1) t(1) by simp
  ultimately show ?case using t(2) by blast
qed simp


end


section \<open>Directories as name tables\<close>

definition de_name :: "dir_entry \<Rightarrow> u8 list" where
  "de_name e = the (entry_name e)"

definition dir_map :: "machine \<Rightarrow> dir_ref \<Rightarrow> u8 list \<Rightarrow> dir_entry option" where
  "dir_map f d nm = (if nm = [] then None else lookup nm (dir_entries f d))"

definition dir_room :: "machine \<Rightarrow> dir_ref \<Rightarrow> nat" where
  "dir_room f d = min (252 - used_entries (dir_entries f d)) (nbits (block_bitmap (cpart f)) - card (used_lbas f))"

definition new_entry :: "dir_entry \<Rightarrow> bool" where
  "new_entry e \<longleftrightarrow> wf_dirent e \<and> entry_name e \<noteq> None \<and> entry_name e \<noteq> Some [] \<and> f_type e \<noteq> FT_UNKNOWN"

definition c_name :: "u8 list \<Rightarrow> bool" where
  "c_name nm \<longleftrightarrow> nm \<noteq> [] \<and> 0 \<notin> set nm"

lemma card_used_lbas: "card (used_lbas f) = card (used (block_bitmap (cpart f)))" "finite (used_lbas f)"
  by (simp_all add: used_lbas_def card_image inj_on_def used_def)

lemma full_used:
  assumes ok: "dir_ok f d" and full: "dir_full f d"
  shows "used_entries (dir_entries f d) = 252"
proof -
  have "used_entries (dir_slots f bs) = 21 * length bs" if "\<forall>b \<in> set bs. \<not> has_room f b" for bs
    using that
  proof (induction bs)
    case (Cons b bs)
    then have b: "b \<noteq> 0" "filter (\<lambda>e. f_type e \<noteq> FT_UNKNOWN) (slots (sectors f (my_disk (cpart f)) b)) = slots (sectors f (my_disk (cpart f)) b)"
      by (auto simp: has_room_def filter_id_conv)
    then show ?case using Cons by (simp add: used_entries_def)
  qed (simp add: used_entries_def)
  then show ?thesis using full length_dir_blocks [OF ok] by (simp add: dir_full_def dir_entries_def)
qed

lemma dir_room_pos:
  assumes "dir_ok f d" "0 < dir_room f d"
  shows "\<not> dir_full f d" "block_left f"
proof -
  show "\<not> dir_full f d" using assms(2) full_used [OF assms(1)] by (auto simp: dir_room_def)
  have "card (used (block_bitmap (cpart f))) \<noteq> nbits (block_bitmap (cpart f))"
    using assms(2) by (simp add: dir_room_def card_used_lbas(1))
  then show "block_left f" unfolding block_left_def using card_lessThan by metis
qed

lemma dir_room_grown:
  assumes "grown f d e f'" "f_type e \<noteq> FT_UNKNOWN"
  shows "dir_room f d \<le> dir_room f' d + 1"
proof -
  obtain x where x: "used_lbas f' \<subseteq> insert x (used_lbas f)" using assms(1) by (auto simp: grown_def)
  have "card (used_lbas f') \<le> card (used_lbas f) + 1"
    using card_mono [OF _ x] card_insert_le_m1 [of "card (used_lbas f) + 1" "used_lbas f" x] card_used_lbas(2) [of f] by simp
  moreover have "used_entries (dir_entries f' d) = used_entries (dir_entries f d) + 1"
    using assms used_inserted by (auto simp: grown_def)
  ultimately show ?thesis using assms(1) by (simp add: dir_room_def grown_def)
qed

lemma dir_map_grown:
  assumes g: "grown f d e f'" and ok: "dir_ok f d" and e: "new_entry e" and new: "dir_map f d (de_name e) = None"
  shows "dir_map f' d = (dir_map f d)(de_name e \<mapsto> e)"
proof
  fix x
  have n: "entry_name e = Some (de_name e)" "de_name e \<noteq> []" using e by (auto simp: new_entry_def de_name_def)
  have "lookup (de_name e) (dir_entries f d) = None" using new n(2) by (simp add: dir_map_def)
  then show "dir_map f' d x = ((dir_map f d)(de_name e \<mapsto> e)) x"
    using lookup_inserted [OF _ dir_okD(8) [OF ok] n(1), of "dir_entries f' d" x] g n(2)
    by (auto simp: grown_def dir_map_def)
qed

interpretation dirs: name_table "\<lambda>f. dir_ok f d \<and> heap_ready (krn f)" "\<lambda>f. dir_room f d" "\<lambda>f. dir_map f d" de_name new_entry c_name
  "sync_dir_entry d" "\<lambda>nm f. search_dir_entry (cur_part f) d nm e0 f" "search_result e0" for d e0
proof
  fix f e
  assume ok: "dir_ok f d \<and> heap_ready (krn f)" and r: "0 < dir_room f d" and e: "new_entry e" and n: "dir_map f d (de_name e) = None"
  obtain f' where f': "sync_dir_entry d e f = Some (f', True)" "grown f d e f'"
    using sync_dir_entry_inserts [of f d e] dir_room_pos [OF _ r] ok e by (auto simp: new_entry_def)
  have "dir_ok f' d \<and> heap_ready (krn f')" using f'(2) ok by (simp add: grown_def)
  moreover have "dir_room f d \<le> dir_room f' d + 1" using dir_room_grown [OF f'(2)] e by (simp add: new_entry_def)
  ultimately show "\<exists>f'. sync_dir_entry d e f = Some (f', True) \<and> (dir_ok f' d \<and> heap_ready (krn f')) \<and>
      dir_map f' d = (dir_map f d)(de_name e \<mapsto> e) \<and> dir_room f d \<le> dir_room f' d + 1"
    using f' dir_map_grown [OF f'(2) _ e n] ok by blast
next
  fix f nm
  assume ok: "dir_ok f d \<and> heap_ready (krn f)" and nm: "c_name nm"
  obtain f' where f': "search_dir_entry (cur_part f) d nm e0 f = Some (f', search_result e0 (lookup nm (dir_entries f d)))"
    "same_drive f f'" "heap_ready (krn f')" using search_dir_entry_lookup [of f d nm e0] ok nm by (auto simp: c_name_def)
  have "dir_map f' d = dir_map f d" "dir_map f d nm = lookup nm (dir_entries f d)"
    using same_drive_dirs(1) [OF f'(2)] nm by (auto simp: dir_map_def c_name_def)
  then show "\<exists>f'. search_dir_entry (cur_part f) d nm e0 f = Some (f', search_result e0 (dir_map f d nm)) \<and>
      (dir_ok f' d \<and> heap_ready (krn f')) \<and> dir_map f' d = dir_map f d"
    using f' same_drive_dirs(2) [OF f'(2)] ok by auto
qed



section \<open>Witness\<close>

text \<open>A root directory with one empty block, sector 2665 of the partition.\<close>

definition sample_dir :: machine where
  "sample_dir = sample_machine\<lparr>krn := sample_buffers,
     parts := (\<lambda>_. \<lparr>start_lba = 2048, sec_cnt = 20000, my_disk = (0, 1), part_name = replicate 8 0, sb = sample_sb,
        block_bitmap = \<lparr>btmp_bytes_len = 512, bits = 3 # replicate 511 0\<rparr>, inode_bitmap = sample_bitmap, open_inodes = []\<rparr>),
     inodes := (\<lambda>_. \<lparr>i_no = 0, i_size = 0, i_open_cnts = 1, write_deny = False, i_sectors = 2665 # replicate 12 0\<rparr>)\<rparr>"

lemma sample_dir_part [simp]:
  "cpart sample_dir = \<lparr>start_lba = 2048, sec_cnt = 20000, my_disk = (0, 1), part_name = replicate 8 0, sb = sample_sb,
     block_bitmap = \<lparr>btmp_bytes_len = 512, bits = 3 # replicate 511 0\<rparr>, inode_bitmap = sample_bitmap, open_inodes = []\<rparr>"
  "krn sample_dir = sample_buffers"
  by (simp_all add: sample_dir_def cpart_def)

lemma sample_dir_used: "used_lbas sample_dir = {2664, 2665}"
proof -
  have "used \<lparr>btmp_bytes_len = 512, bits = 3 # replicate 511 0\<rparr> = {0, 1}"
  proof (intro set_eqI iffI)
    fix i assume i: "i \<in> used \<lparr>btmp_bytes_len = 512, bits = 3 # replicate 511 0\<rparr>"
    have "i div 8 = 0" using i by (cases "i div 8") (auto simp: used_def bit_at_def nbits_def)
    then have "i < 8" by simp
    then have "i \<in> set [0..<8]" by simp
    then show "i \<in> {0, 1}" using i by (auto simp: used_def bit_at_def upt_rec)
  next
    fix i :: nat assume "i \<in> {0, 1}"
    then show "i \<in> used \<lparr>btmp_bytes_len = 512, bits = 3 # replicate 511 0\<rparr>" by (auto simp: used_def bit_at_def nbits_def)
  qed
  then show ?thesis by (simp add: used_lbas_def sample_sb_def)
qed

lemma sample_dir_entries: "dir_entries sample_dir d = replicate 21 no_entry"
  using slots_zero by (simp add: dir_entries_def dir_blocks_def dir_slots_def) (simp add: sample_dir_def sample_machine_def)

lemma sample_dir_fs_ok: "fs_ok sample_dir"
proof -
  have "drive_ready sample_dir (0, 1)" "wf_disk sample_dir (0, 1)"
    using sample_machine_ready
    by (simp_all add: drive_ready_def chan_ready_def wf_disk_def lock_free_def)
      (simp_all add: sample_dir_def sample_machine_def sample_buffers_def sample_kernel_def)
  moreover have "part_ok (cur_part sample_dir) sample_dir"
    by (simp add: part_ok_def sample_dir_def wf_bitmap_def nbits_def sample_bitmap_def)
  ultimately show ?thesis unfolding fs_ok_def by (simp add: nbits_def sample_sb_def max_lba_def dirent_size_def)
qed

lemma sample_dir_ok: "dir_ok sample_dir d"
proof -
  have i: "inodes sample_dir a = \<lparr>i_no = 0, i_size = 0, i_open_cnts = 1, write_deny = False, i_sectors = 2665 # replicate 12 0\<rparr>" for a
    by (simp add: sample_dir_def)
  have b: "dir_blocks sample_dir d = 2665 # replicate 11 0" by (simp add: dir_blocks_def i)
  have n: "named (replicate k no_entry)" "used_entries (replicate k no_entry) = 0" for k
    by (simp add: named_def no_entry_name list_all_iff) (simp add: used_entries_def no_entry_def FT_UNKNOWN_def)
  show ?thesis
    unfolding dir_ok_def sample_dir_entries b
    by (simp add: i sample_dir_fs_ok sample_dir_used n max_lba_def sample_sb_def)
qed

definition sample_entry :: "u8 \<Rightarrow> dir_entry" where
  "sample_entry c = \<lparr>filename = c # replicate 15 0, de_i_no = 7, f_type = 1\<rparr>"

lemma sample_entry_new: "c \<noteq> 0 \<Longrightarrow> new_entry (sample_entry c) \<and> de_name (sample_entry c) = [c]"
  by (simp add: new_entry_def sample_entry_def wf_dirent_def entry_name_def de_name_def cstr_def FT_UNKNOWN_def)


end
