(* ===== verification/Process.thy ===== *)
theory Process
  imports Fs
begin

text \<open>
  Processes and the file system together: \<^verbatim>\<open>userprog/fork.c\<close>, \<^verbatim>\<open>userprog/exec.c\<close>,
  \<open>sys_exit\<close> in \<^verbatim>\<open>userprog/wait_exit.c\<close>, and \<open>sys_ps\<close> and \<open>thread_init\<close> in \<^verbatim>\<open>thread/thread.c\<close>.

  The structure at the start of a PCB's page is the entry of \<open>tasks\<close>; the kernel stack at its end is in
  the memory, so \<open>memcpy\<close> of the page copies both.  \<open>intr_exit\<close> is a label of \<^verbatim>\<open>kernel/kernel.asm\<close>:
  its address is a parameter.
\<close>

section \<open>Fork\<close>

definition copy_pcb_vaddrbitmap_stack0 :: "u32 \<Rightarrow> u32 \<Rightarrow> kernel \<Rightarrow> (kernel \<times> int) option" where
  "copy_pcb_vaddrbitmap_stack0 child_thread parent_thread s = do {
     s \<leftarrow> copy_words child_thread parent_thread 1024 s;
     let s = upd_task child_thread (\<lambda>_. tasks s parent_thread) s;
     (s, p) \<leftarrow> fork_pid s;
     let s = upd_task child_thread (\<lambda>t. t\<lparr>pid := p, elapsed_ticks := 0, status := TASK_READY, ticks := priority t,
       parent_pid := pid (tasks s parent_thread)\<rparr>) s;
     ds \<leftarrow> block_desc_init (u_block_desc (tasks s child_thread));
     let s = upd_task child_thread (\<lambda>t. t\<lparr>u_block_desc := ds\<rparr>) s;
     let bitmap_pg_cnt = DIV_ROUND_UP USER_BITMAP_BYTES (unat PG_SIZE);
     (s, vaddr_btmp) \<leftarrow> get_kernel_pages bitmap_pg_cnt s;
     ASSERT (vaddr_btmp \<noteq> 0 \<and> bits_ptr (userprog_vaddr (tasks s child_thread)) \<noteq> 0);
     let s = upd_task child_thread (\<lambda>t. t\<lparr>userprog_vaddr := (userprog_vaddr t)\<lparr>bits_ptr := vaddr_btmp\<rparr>\<rparr>) s;
     nm \<leftarrow> cstr (name (tasks s child_thread));
     nm \<leftarrow> buf_write (name (tasks s child_thread)) (length nm) (str ''_fork'' @ [0]);
     Some (upd_task child_thread (\<lambda>t. t\<lparr>name := nm\<rparr>) s, 0)
   }"

text \<open>Steps a to e of the loop in \<open>copy_body_stack3\<close>: one page goes through the kernel buffer.\<close>

definition copy_user_page :: "u32 \<Rightarrow> u32 \<Rightarrow> u32 \<Rightarrow> u32 \<Rightarrow> kernel \<Rightarrow> kernel option" where
  "copy_user_page child_thread parent_thread buf_page prog_vaddr s = do {
     s \<leftarrow> copy_words buf_page prog_vaddr 1024 s;
     s \<leftarrow> page_dir_activate s child_thread;
     (s, _) \<leftarrow> get_a_page_without_opvaddrbitmap PF_USER prog_vaddr s;
     s \<leftarrow> copy_words prog_vaddr buf_page 1024 s;
     page_dir_activate s parent_thread
   }"

fun copy_bits :: "u32 \<Rightarrow> u32 \<Rightarrow> u32 \<Rightarrow> u32 \<Rightarrow> u8 \<Rightarrow> nat \<Rightarrow> nat list \<Rightarrow> kernel \<Rightarrow> kernel option" where
  "copy_bits child_thread parent_thread buf_page start byte idx_byte [] s = Some s"
| "copy_bits child_thread parent_thread buf_page start byte idx_byte (idx_bit # bs) s = do {
     s \<leftarrow> (if push_bit idx_bit BITMAP_MASK AND byte \<noteq> 0
          then copy_user_page child_thread parent_thread buf_page (of_nat (idx_byte * 8 + idx_bit) * PG_SIZE + start) s
          else Some s);
     copy_bits child_thread parent_thread buf_page start byte idx_byte bs s
   }"

fun copy_bytes :: "u32 \<Rightarrow> u32 \<Rightarrow> u32 \<Rightarrow> u32 \<Rightarrow> u8 list \<Rightarrow> nat \<Rightarrow> kernel \<Rightarrow> kernel option" where
  "copy_bytes child_thread parent_thread buf_page start [] idx_byte s = Some s"
| "copy_bytes child_thread parent_thread buf_page start (byte # bytes) idx_byte s = do {
     s \<leftarrow> (if byte \<noteq> 0 then copy_bits child_thread parent_thread buf_page start byte idx_byte [0..<8] s else Some s);
     copy_bytes child_thread parent_thread buf_page start bytes (idx_byte + 1) s
   }"

definition copy_body_stack3 :: "u32 \<Rightarrow> u32 \<Rightarrow> u32 \<Rightarrow> kernel \<Rightarrow> kernel option" where
  "copy_body_stack3 child_thread parent_thread buf_page s = do {
     let va = userprog_vaddr (tasks s parent_thread);
     ASSERT (btmp_bytes_len (vaddr_bitmap va) \<le> length (bits (vaddr_bitmap va)));
     copy_bytes child_thread parent_thread buf_page (vaddr_start va)
       (take (btmp_bytes_len (vaddr_bitmap va)) (bits (vaddr_bitmap va))) 0 s
   }"

text \<open>
  The frame of the system call at the end of the child's kernel stack, with \<open>eax\<close> at offset 32, and the
  thread stack below it.
\<close>

definition intr_frame :: "u32 \<Rightarrow> u32" where
  "intr_frame thread = thread + PG_SIZE - INTR_STACK_SIZE"

definition build_child_stack :: "u32 \<Rightarrow> u32 \<Rightarrow> kernel \<Rightarrow> (kernel \<times> int) option" where
  "build_child_stack intr_exit child_thread s = do {
     let intr_0_stack = intr_frame child_thread;
     s \<leftarrow> store s (intr_0_stack + 32) 0;
     s \<leftarrow> store s (intr_0_stack - 4) intr_exit;
     s \<leftarrow> store s (intr_0_stack - 16) 0;
     s \<leftarrow> store s (intr_0_stack - 20) 0;
     s \<leftarrow> store s (intr_0_stack - 8) 0;
     s \<leftarrow> store s (intr_0_stack - 12) 0;
     Some (upd_task child_thread (\<lambda>t. t\<lparr>self_kstack := intr_0_stack - 20\<rparr>) s, 0)
   }"

text \<open>\<open>is_pipe\<close> looks at the descriptors of the running process, the parent.\<close>

fun open_cnts_loop :: "u32 \<Rightarrow> nat list \<Rightarrow> machine \<Rightarrow> machine option" where
  "open_cnts_loop thread [] f = Some f"
| "open_cnts_loop thread (local_fd # fds) f = do {
     global_fd \<leftarrow> rd (fd_table (tasks (krn f) thread)) local_fd;
     f \<leftarrow> (if global_fd \<noteq> -1 then do {
             pipe \<leftarrow> is_pipe local_fd f;
             ASSERT (0 \<le> global_fd \<and> nat global_fd < length (file_table f));
             let g = nat global_fd;
             Some (if pipe then upd_file g (\<lambda>x. x\<lparr>fd_pos := w32 (fd_pos x + 1)\<rparr>) f
                   else upd_inode (fd_inode (file_table f ! g)) (\<lambda>n. n\<lparr>i_open_cnts := w32 (i_open_cnts n + 1)\<rparr>) f)
           } else Some f);
     open_cnts_loop thread fds f
   }"

definition update_inode_open_cnts :: "u32 \<Rightarrow> machine \<Rightarrow> machine option" where
  "update_inode_open_cnts thread f = open_cnts_loop thread [3..<MAX_FILES_OPEN_PER_PROC] f"

text \<open>The early returns leave the pages that have been taken so far behind.\<close>

definition copy_process :: "u32 \<Rightarrow> u32 \<Rightarrow> u32 \<Rightarrow> machine \<Rightarrow> (machine \<times> int) option" where
  "copy_process intr_exit child_thread parent_thread f = do {
     (k, buf_page) \<leftarrow> get_kernel_pages 1 (krn f);
     if buf_page = 0 then Some (f\<lparr>krn := k\<rparr>, -1)
     else do {
       (k, ret) \<leftarrow> copy_pcb_vaddrbitmap_stack0 child_thread parent_thread k;
       if ret = -1 then Some (f\<lparr>krn := k\<rparr>, -1)
       else do {
         (k, dir) \<leftarrow> create_page_dir k;
         let k = upd_task child_thread (\<lambda>t. t\<lparr>pgdir := dir\<rparr>) k;
         if dir = 0 then Some (f\<lparr>krn := k\<rparr>, -1)
         else do {
           k \<leftarrow> copy_body_stack3 child_thread parent_thread buf_page k;
           (k, _) \<leftarrow> build_child_stack intr_exit child_thread k;
           f \<leftarrow> update_inode_open_cnts child_thread (f\<lparr>krn := k\<rparr>);
           f \<leftarrow> on_krn (mfree_page PF_KERNEL buf_page 1) f;
           Some (f, 0)
         }
       }
     }
   }"

definition sys_fork :: "u32 \<Rightarrow> machine \<Rightarrow> (machine \<times> int) option" where
  "sys_fork intr_exit f = do {
     let parent_thread = running_thread (krn f);
     (k, child_thread) \<leftarrow> get_kernel_pages 1 (krn f);
     let f = f\<lparr>krn := k\<rparr>;
     if child_thread = 0 then Some (f, -1)
     else do {
       (f, ret) \<leftarrow> copy_process intr_exit child_thread parent_thread f;
       if ret = -1 then Some (f, -1)
       else do {
         f \<leftarrow> on_krn (enqueue_thread child_thread) f;
         Some (f, pid (tasks (krn f) child_thread))
       }
     }
   }"


section \<open>Exit\<close>

text \<open>The frames of one page table, which is read through the recursive mapping, are released.\<close>

fun free_ptes :: "u32 \<Rightarrow> nat \<Rightarrow> kernel \<Rightarrow> kernel option" where
  "free_ptes v_pte_ptr 0 s = Some s"
| "free_ptes v_pte_ptr (Suc left) s = do {
     pte \<leftarrow> load s v_pte_ptr;
     s \<leftarrow> (if present pte then free_a_phy_page (pte AND 0xfffff000) s else Some s);
     free_ptes (v_pte_ptr + 4) left s
   }"

fun free_pdes :: "u32 \<Rightarrow> nat \<Rightarrow> nat \<Rightarrow> kernel \<Rightarrow> kernel option" where
  "free_pdes pgdir_vaddr pde_idx 0 s = Some s"
| "free_pdes pgdir_vaddr pde_idx (Suc left) s = do {
     pde \<leftarrow> load s (pgdir_vaddr + of_nat (4 * pde_idx));
     s \<leftarrow> (if present pde then do {
             s \<leftarrow> free_ptes (pte_ptr (of_nat pde_idx * 0x400000)) 1024 s;
             free_a_phy_page (pde AND 0xfffff000) s
           } else Some s);
     free_pdes pgdir_vaddr (pde_idx + 1) left s
   }"

text \<open>
  The descriptors are closed, in \<open>realease_prog_resource\<close> and in \<open>proc_clean\<close>.  A pipe's descriptor
  keeps its value.
\<close>

fun close_fds :: "u32 \<Rightarrow> nat list \<Rightarrow> machine \<Rightarrow> machine option" where
  "close_fds thread [] f = Some f"
| "close_fds thread (fd_idx # fds) f = do {
     v \<leftarrow> rd (fd_table (tasks (krn f) thread)) fd_idx;
     f \<leftarrow> (if v \<noteq> -1 then do {
             pipe \<leftarrow> is_pipe fd_idx f;
             if pipe then do {
               g \<leftarrow> fd_local2global fd_idx f;
               let f = upd_file g (\<lambda>x. x\<lparr>fd_pos := sub32 (fd_pos x) 1\<rparr>) f;
               if fd_pos (file_table f ! g) = 0 then do {
                 f \<leftarrow> on_krn (mfree_page PF_KERNEL (fd_inode (file_table f ! g)) 1) f;
                 Some (upd_file g (\<lambda>x. x\<lparr>fd_inode := 0\<rparr>) f)
               } else Some f
             } else do { (f, _) \<leftarrow> sys_close (int fd_idx) f; Some f }
           } else Some f);
     close_fds thread fds f
   }"

definition realease_prog_resource :: "u32 \<Rightarrow> machine \<Rightarrow> machine option" where
  "realease_prog_resource release_thread f = do {
     let t = tasks (krn f) release_thread;
     f \<leftarrow> on_krn (free_pdes (pgdir t) 0 768) f;
     let bitmap_pg_cnt = btmp_bytes_len (vaddr_bitmap (userprog_vaddr t)) div unat PG_SIZE;
     f \<leftarrow> on_krn (mfree_page PF_KERNEL (bits_ptr (userprog_vaddr t)) bitmap_pg_cnt) f;
     close_fds release_thread [3..<MAX_FILES_OPEN_PER_PROC] f
   }"

text \<open>
  The caller does not come back from \<open>thread_block\<close>.  A parent that is not found is a null pointer whose
  status is read.
\<close>

definition sys_exit :: "int \<Rightarrow> machine \<Rightarrow> (machine \<times> intr_status) option" where
  "sys_exit st f = do {
     let child_thread = running_thread (krn f);
     let f = f\<lparr>krn := upd_task child_thread (\<lambda>t. t\<lparr>exit_status := int8 st\<rparr>) (krn f)\<rparr>;
     ASSERT (parent_pid (tasks (krn f) child_thread) \<noteq> -1);
     let f = f\<lparr>krn := adopt_traversal (thread_all_list (krn f)) (pid (tasks (krn f) child_thread)) (krn f)\<rparr>;
     f \<leftarrow> realease_prog_resource child_thread f;
     let parent_thread = pid2thread (parent_pid (tasks (krn f) child_thread)) (krn f);
     ASSERT (parent_thread \<noteq> 0);
     f \<leftarrow> (if status (tasks (krn f) parent_thread) = TASK_WAITING then on_krn (thread_unblock parent_thread) f else Some f);
     (k, old_status) \<leftarrow> thread_block TASK_HANGING (krn f);
     Some (f\<lparr>krn := k\<rparr>, old_status)
   }"


section \<open>Exec\<close>

text \<open>The rest of a computation runs when a transfer is finished; it waits with a caller that sleeps.\<close>

definition io_bind :: "'a io_result option \<Rightarrow> (machine \<Rightarrow> 'a \<Rightarrow> 'b io_result option) \<Rightarrow> 'b io_result option" where
  "io_bind r k = (case r of
       None \<Rightarrow> None
     | Some (Finished f x) \<Rightarrow> k f x
     | Some (Asleep f) \<Rightarrow> Some (Asleep f))"

definition get16 :: "u8 list \<Rightarrow> nat" where
  "get16 bs = (case bs of a # b # _ \<Rightarrow> unat a + 2 ^ 8 * unat b | _ \<Rightarrow> 0)"

record Elf32_Ehdr =
  e_ident :: "u8 list"
  e_type :: nat
  e_machine :: nat
  e_version :: nat
  e_entry :: nat
  e_phoff :: nat
  e_shoff :: nat
  e_flags :: nat
  e_ehsize :: nat
  e_phentsize :: nat
  e_phnum :: nat
  e_shentsize :: nat
  e_shnum :: nat
  e_shstrndx :: nat

definition ehdr_size :: nat where "ehdr_size = 52"

definition ehdr_of :: "u8 list \<Rightarrow> Elf32_Ehdr" where
  "ehdr_of bs = \<lparr>e_ident = take 16 bs, e_type = get16 (drop 16 bs), e_machine = get16 (drop 18 bs),
     e_version = get32 (drop 20 bs), e_entry = get32 (drop 24 bs), e_phoff = get32 (drop 28 bs),
     e_shoff = get32 (drop 32 bs), e_flags = get32 (drop 36 bs), e_ehsize = get16 (drop 40 bs),
     e_phentsize = get16 (drop 42 bs), e_phnum = get16 (drop 44 bs), e_shentsize = get16 (drop 46 bs),
     e_shnum = get16 (drop 48 bs), e_shstrndx = get16 (drop 50 bs)\<rparr>"

record Elf32_Phdr =
  p_type :: nat
  p_offset :: nat
  p_vaddr :: nat
  p_paddr :: nat
  p_filesz :: nat
  p_memsz :: nat
  p_flags :: nat
  p_align :: nat

definition phdr_size :: nat where "phdr_size = 32"

definition phdr_of :: "u8 list \<Rightarrow> Elf32_Phdr" where
  "phdr_of bs = \<lparr>p_type = get32 bs, p_offset = get32 (drop 4 bs), p_vaddr = get32 (drop 8 bs), p_paddr = get32 (drop 12 bs),
     p_filesz = get32 (drop 16 bs), p_memsz = get32 (drop 20 bs), p_flags = get32 (drop 24 bs), p_align = get32 (drop 28 bs)\<rparr>"

definition PT_LOAD :: nat where "PT_LOAD = 1"

text \<open>Bytes that arrive in the memory of the process, which is kept in words.\<close>

definition set_byte :: "u32 \<Rightarrow> nat \<Rightarrow> u8 \<Rightarrow> u32" where
  "set_byte w k b = (w AND NOT (push_bit (8 * k) 0xff)) OR push_bit (8 * k) (ucast b)"

definition store_byte :: "kernel \<Rightarrow> u32 \<Rightarrow> u8 \<Rightarrow> kernel option" where
  "store_byte s v b = do {
     let a = v AND NOT 3;
     w \<leftarrow> load s a;
     store s a (set_byte w (unat (v AND 3)) b)
   }"

fun store_bytes :: "u32 \<Rightarrow> u8 list \<Rightarrow> kernel \<Rightarrow> kernel option" where
  "store_bytes v [] s = Some s"
| "store_bytes v (b # bs) s = do { s \<leftarrow> store_byte s v b; store_bytes (v + 1) bs s }"

text \<open>The pages of a segment: those that are missing are allocated.\<close>

definition occupy_pages :: "u32 \<Rightarrow> u32 \<Rightarrow> nat" where
  "occupy_pages vaddr filesz =
     (let size_in_first_page = PG_SIZE - (vaddr AND 0xfff)
      in if filesz > size_in_first_page
         then unat ((filesz - size_in_first_page + PG_SIZE - 1) div PG_SIZE + 1) else 1)"

fun segment_pages :: "nat \<Rightarrow> u32 \<Rightarrow> kernel \<Rightarrow> (kernel \<times> bool) option" where
  "segment_pages 0 vaddr_page s = Some (s, True)"
| "segment_pages (Suc left) vaddr_page s = do {
     pde \<leftarrow> load s (pde_ptr vaddr_page);
     missing \<leftarrow> (if \<not> present pde then Some True else do { pte \<leftarrow> load s (pte_ptr vaddr_page); Some (\<not> present pte) });
     if missing then do {
       (s, a) \<leftarrow> get_a_page PF_USER vaddr_page s;
       if a = 0 then Some (s, False) else segment_pages left (vaddr_page + PG_SIZE) s
     } else segment_pages left (vaddr_page + PG_SIZE) s
   }"

text \<open>\<open>sys_read\<close> looks at the byte in front of the buffer for the standard input only.\<close>

definition segment_load :: "int \<Rightarrow> nat \<Rightarrow> nat \<Rightarrow> u32 \<Rightarrow> machine \<Rightarrow> bool io_result option" where
  "segment_load fd offset filesz vaddr f = do {
     (k, ok) \<leftarrow> segment_pages (occupy_pages vaddr (of_nat filesz)) (vaddr AND 0xfffff000) (krn f);
     let f = f\<lparr>krn := k\<rparr>;
     if \<not> ok then Some (Finished f False)
     else do {
       (f, _) \<leftarrow> sys_lseek fd (int32 (int offset)) 1 f;
       io_bind (sys_read 0 fd filesz f) (\<lambda>f (bytes, _). do {
         f \<leftarrow> on_krn (store_bytes vaddr bytes) f;
         Some (Finished f True)
       })
     }
   }"

definition elf_header_ok :: "Elf32_Ehdr \<Rightarrow> bool" where
  "elf_header_ok h \<longleftrightarrow> take 7 (e_ident h) = [0x7f, 0x45, 0x4c, 0x46, 1, 1, 1] \<and> e_type h = 2 \<and> e_machine h = 3 \<and>
     e_version h = 1 \<and> e_phnum h \<le> 1024 \<and> e_phentsize h = phdr_size"

text \<open>The loop over the program headers, \<open>left\<close> of them.\<close>

fun load_segments :: "int \<Rightarrow> nat \<Rightarrow> nat \<Rightarrow> machine \<Rightarrow> bool io_result option" where
  "load_segments fd prog_header_offset 0 f = Some (Finished f True)"
| "load_segments fd prog_header_offset (Suc left) f = do {
     (f, _) \<leftarrow> sys_lseek fd (int32 (int prog_header_offset)) 1 f;
     io_bind (sys_read 0 fd phdr_size f) (\<lambda>f (bytes, n).
       if n \<noteq> int phdr_size then Some (Finished f False)
       else (let ph = phdr_of bytes in
         if p_type ph = PT_LOAD then
           io_bind (segment_load fd (p_offset ph) (p_filesz ph) (of_nat (p_vaddr ph)) f) (\<lambda>f ok.
             if ok then load_segments fd (w32 (prog_header_offset + phdr_size)) left f else Some (Finished f False))
         else load_segments fd (w32 (prog_header_offset + phdr_size)) left f))
   }"

definition exec_load :: "uninit \<Rightarrow> u8 list \<Rightarrow> machine \<Rightarrow> int io_result option" where
  "exec_load u pathname f = do {
     (f, fd) \<leftarrow> sys_open u pathname 0 f;
     if fd = -1 then Some (Finished f (-1))
     else
       io_bind (io_bind (sys_read 0 fd ehdr_size f) (\<lambda>f (bytes, n).
           if n \<noteq> int ehdr_size \<or> \<not> elf_header_ok (ehdr_of bytes) then Some (Finished f (-1))
           else io_bind (load_segments fd (e_phoff (ehdr_of bytes)) (e_phnum (ehdr_of bytes)) f) (\<lambda>f ok.
             Some (Finished f (if ok then int32 (int (e_entry (ehdr_of bytes))) else -1)))))
         (\<lambda>f ret. do { (f, _) \<leftarrow> sys_close fd f; Some (Finished f ret) })
   }"

definition proc_clean :: "machine \<Rightarrow> machine option" where
  "proc_clean f = do {
     let cur = running_thread (krn f);
     let f = f\<lparr>krn := upd_task cur (\<lambda>t. t\<lparr>u_block_desc := map (\<lambda>d. d\<lparr>free_list := []\<rparr>) (u_block_desc t)\<rparr>) (krn f)\<rparr>;
     close_fds cur [3..<MAX_FILES_OPEN_PER_PROC] f
   }"

text \<open>The arguments are counted in the memory of the process, up to a null pointer.\<close>

partial_function (option) count_args :: "u32 \<Rightarrow> u32 \<Rightarrow> kernel \<Rightarrow> u32 option" where
  "count_args argv argc s = do {
     p \<leftarrow> load s (argv + argc * 4);
     if p = 0 then Some argc else count_args argv (argc + 1) s
   }"

text \<open>
  \<open>sys_execv\<close> either returns \<open>-1\<close> or jumps to \<open>intr_exit\<close> with the frame at \<open>intr_0_stack\<close>; \<open>path_mem\<close> is
  the memory from \<open>path\<close> on, of which 16 bytes become the name.
\<close>

datatype exec_result = Exec_failed | Exec_jump u32

definition sys_execv :: "uninit \<Rightarrow> u8 list \<Rightarrow> u32 \<Rightarrow> machine \<Rightarrow> exec_result io_result option" where
  "sys_execv u path_mem argv f = do {
     argc \<leftarrow> count_args argv 0 (krn f);
     let cur = running_thread (krn f);
     path \<leftarrow> cstr path_mem;
     f \<leftarrow> proc_clean f;
     io_bind (exec_load u path f) (\<lambda>f entry_point.
       if entry_point = -1 then Some (Finished f Exec_failed)
       else do {
         ASSERT (16 \<le> length path_mem);
         let s = upd_task cur (\<lambda>t. t\<lparr>name := (take 16 path_mem)[15 := 0]\<rparr>) (krn f);
         let intr_0_stack = intr_frame cur;
         s \<leftarrow> store s (intr_0_stack + 20) argv;
         s \<leftarrow> store s (intr_0_stack + 28) argc;
         s \<leftarrow> store s (intr_0_stack + 56) (word_of_int entry_point);
         s \<leftarrow> store s (intr_0_stack + 68) 0xc0000000;
         Some (Finished (f\<lparr>krn := s\<rparr>) (Exec_jump intr_0_stack))
       })
   }"


section \<open>The list of processes\<close>

datatype pad_arg = Pad_s "u8 list" | Pad_d int | Pad_x u32

text \<open>The buffer has 16 bytes; the counter is a \<open>uint8_t\<close>.\<close>

definition pad_print :: "nat \<Rightarrow> pad_arg \<Rightarrow> machine \<Rightarrow> int io_result option" where
  "pad_print buf_len arg f = do {
     (arr, n) \<leftarrow> (case arg of
         Pad_s x \<Rightarrow> sprintf (replicate buf_len 0) (str ''%s'') [Arg_str x]
       | Pad_d x \<Rightarrow> sprintf (replicate buf_len 0) (str ''%d'') [Arg_int (word_of_int x)]
       | Pad_x x \<Rightarrow> sprintf (replicate buf_len 0) (str ''%x'') [Arg_int x]);
     let out_pad_0idx = n mod 2 ^ 8;
     sys_write 1 (take out_pad_0idx arr @ replicate (buf_len - out_pad_0idx) 0x20) (buf_len - 1) f
   }"

fun status_text :: "task_status \<Rightarrow> u8 list" where
  "status_text TASK_RUNNING = str ''RUNNING''"
| "status_text TASK_READY = str ''READY''"
| "status_text TASK_BLOCKED = str ''BLOCKED''"
| "status_text TASK_WAITING = str ''WAITING''"
| "status_text TASK_HANGING = str ''HANGING''"
| "status_text TASK_DIED = str ''DIED''"

definition elem2thread_info :: "u32 \<Rightarrow> machine \<Rightarrow> bool io_result option" where
  "elem2thread_info pthread f =
     (let t = tasks (krn f) pthread in
      io_bind (pad_print 16 (Pad_d (pid t)) f) (\<lambda>f _.
      io_bind (pad_print 16 (if parent_pid t = -1 then Pad_s (str ''NULL'') else Pad_d (parent_pid t)) f) (\<lambda>f _.
      io_bind (pad_print 16 (Pad_s (status_text (status t))) f) (\<lambda>f _.
      io_bind (pad_print 16 (Pad_x (elapsed_ticks t)) f) (\<lambda>f _. do {
        nm \<leftarrow> cstr (name t);
        ASSERT (length nm < 17);
        out_pad \<leftarrow> str_append 16 nm [0x0a];
        io_bind (sys_write 1 out_pad (length out_pad) f) (\<lambda>f _. Some (Finished f False))
      })))))"

fun ps_traversal :: "u32 list \<Rightarrow> machine \<Rightarrow> unit io_result option" where
  "ps_traversal [] f = Some (Finished f ())"
| "ps_traversal (t # ts) f =
     io_bind (elem2thread_info t f) (\<lambda>f stop. if stop then Some (Finished f ()) else ps_traversal ts f)"

definition ps_title :: "u8 list" where
  "ps_title = str ''PID            PPID           STAT           TICKS          COMMAND'' @ [0x0a]"

definition sys_ps :: "machine \<Rightarrow> unit io_result option" where
  "sys_ps f = io_bind (sys_write 1 ps_title (length ps_title) f) (\<lambda>f _. ps_traversal (thread_all_list (krn f)) f)"


section \<open>Threads at start-up\<close>

text \<open>
  \<open>init\<close>, \<open>start_proc\<close> and \<open>idle\<close> are the addresses of the functions, and the frames are what the new
  kernel stacks hold.
\<close>

definition thread_init :: "u32 \<Rightarrow> u32 \<Rightarrow> u32 \<Rightarrow> thread_stack \<Rightarrow> thread_stack \<Rightarrow> kernel \<Rightarrow> kernel option" where
  "thread_init init start_proc idle frame1 frame2 s = do {
     let s = s\<lparr>thread_ready_list := [], thread_all_list := []\<rparr>;
     let s = upd_lock PidLock lock_init s;
     s \<leftarrow> pid_pool_init s;
     s \<leftarrow> process_execute start_proc init (str ''init'') frame1 s;
     s \<leftarrow> make_main_thread s;
     (s, t) \<leftarrow> thread_start (str ''idle'') 10 idle 0 frame2 s;
     Some (s\<lparr>idle_thread := t\<rparr>)
   }"


section \<open>Small system calls\<close>

definition sys_getpid :: "machine \<Rightarrow> u32" where
  "sys_getpid f = word_of_int (pid (cur_task (krn f)))"

definition help_text :: "u8 list" where
  "help_text =
     str '' buildin commands:'' @ [0x0a] @
     str ''       ls: show directory or file information'' @ [0x0a] @
     str ''       cd: change current work directory'' @ [0x0a] @
     str ''       mkdir: create a directory'' @ [0x0a] @
     str ''       rmdir: remove a empty directory'' @ [0x0a] @
     str ''       rm: remove a regular file'' @ [0x0a] @
     str ''       pwd: show current work directory'' @ [0x0a] @
     str ''       ps: show process information'' @ [0x0a] @
     str ''       clear: clear screen'' @ [0x0a] @
     str '' shortcut key:'' @ [0x0a] @
     str ''       ctrl+l: clear screen'' @ [0x0a] @
     str ''       ctrl+u: clear input'' @ [0x0a, 0x0a]"

definition sys_help :: "machine \<Rightarrow> machine option" where
  "sys_help f = printk help_text [] f"

end
