(* ===== verification/Shell.thy ===== *)
theory Shell
  imports Process
begin

text \<open>
  The shell: \<^verbatim>\<open>shell/shell.c\<close> and \<^verbatim>\<open>shell/buildin_cmd.c\<close>.

  The shell is a user process; its system calls are the calls of the kernel's functions, and what it
  prints goes through \<open>sys_write\<close>, so that it can sleep on a pipe.  The globals \<open>final_path\<close> and
  \<open>cwd_cache\<close> are strings; \<open>cmd_line\<close> is an array of bytes and the entries of \<open>argv\<close> are positions in it.
  An \<open>assert\<close> that fails spins forever: the result is \<open>None\<close>.
\<close>

section \<open>Command lines\<close>

definition MAX_ARG_NR :: nat where "MAX_ARG_NR = 16"
definition cmd_len :: nat where "cmd_len = 128"

function skip_token :: "u8 list \<Rightarrow> u8 \<Rightarrow> nat \<Rightarrow> nat option" where
  "skip_token cmd token i = do { c \<leftarrow> rd cmd i; if c = token then skip_token cmd token (i + 1) else Some i }"
  by pat_completeness auto
termination
  by (relation "measure (\<lambda>(cmd, token, i). length cmd - i)") (auto simp: rd_Some_iff)

function skip_word :: "u8 list \<Rightarrow> u8 \<Rightarrow> nat \<Rightarrow> nat option" where
  "skip_word cmd token i = do { c \<leftarrow> rd cmd i; if c \<noteq> 0 \<and> c \<noteq> token then skip_word cmd token (i + 1) else Some i }"
  by pat_completeness auto
termination
  by (relation "measure (\<lambda>(cmd, token, i). length cmd - i)") (auto simp: rd_Some_iff)

declare skip_token.simps [simp del] skip_word.simps [simp del]

lemma skip_token_bounds: "skip_token cmd token i = Some j \<Longrightarrow> i \<le> j \<and> j < length cmd \<and> cmd ! j \<noteq> token"
  by (induction cmd token i rule: skip_token.induct)
    (subst (asm) (2) skip_token.simps, auto simp: bind_Some_iff rd_Some_iff split: if_splits dest: Suc_leD)

lemma skip_word_bounds:
  "skip_word cmd token i = Some j \<Longrightarrow> i \<le> j \<and> j < length cmd \<and> (cmd ! i \<noteq> 0 \<and> cmd ! i \<noteq> token \<longrightarrow> i < j)"
  by (induction cmd token i rule: skip_word.induct)
    (subst (asm) (2) skip_word.simps, auto simp: bind_Some_iff rd_Some_iff split: if_splits dest: Suc_leD)

text \<open>
  The outer loop of \<open>cmd_parse\<close>.  The position of a word is stored before \<open>argc\<close> is compared with the
  size of the array.
\<close>

function cmd_parse_loop ::
    "u8 list \<Rightarrow> nat option list \<Rightarrow> u8 \<Rightarrow> nat \<Rightarrow> nat \<Rightarrow> (u8 list \<times> nat option list \<times> int) option" where
  "cmd_parse_loop cmd argv token i argc = do {
     c \<leftarrow> rd cmd i;
     if c = 0 then Some (cmd, argv, int argc)
     else do {
       j \<leftarrow> skip_token cmd token i;
       if cmd ! j = 0 then Some (cmd, argv, int argc)
       else do {
         argv \<leftarrow> wr argv argc (Some j);
         e \<leftarrow> skip_word cmd token j;
         let (cmd, n) = (if cmd ! e \<noteq> 0 then (cmd[e := 0], e + 1) else (cmd, e));
         if argc > MAX_ARG_NR then Some (cmd, argv, -1)
         else cmd_parse_loop cmd argv token n (argc + 1)
       }
     }
   }"
  by pat_completeness auto
termination
  by (relation "measure (\<lambda>(cmd, argv, token, i, argc). length cmd - i)")
    (auto dest!: skip_token_bounds skip_word_bounds split: if_splits)

declare cmd_parse_loop.simps [simp del]

definition cmd_parse :: "u8 list \<Rightarrow> nat \<Rightarrow> u8 \<Rightarrow> (u8 list \<times> nat option list \<times> int) option" where
  "cmd_parse cmd cmd_str token = cmd_parse_loop cmd (replicate MAX_ARG_NR None) token cmd_str 0"


section \<open>Paths\<close>

definition MAX_PATH_LEN :: nat where "MAX_PATH_LEN = 512"

text \<open>\<open>strcat\<close> into an array.\<close>

definition buf_strcat :: "u8 list \<Rightarrow> u8 list \<Rightarrow> u8 list option" where
  "buf_strcat arr t = do { s \<leftarrow> cstr arr; buf_write arr (length s) (t @ [0]) }"

text \<open>\<open>strrchr (arr, '/')\<close> as an index; \<open>None\<close> when there is no slash, where the code writes through a null pointer.\<close>

definition last_slash :: "u8 list \<Rightarrow> nat option" where
  "last_slash s = (if slash \<in> set s then Some (length s - length (after_slash s) - 1) else None)"

text \<open>What one component of the path does to the new path.\<close>

definition wash_step :: "u8 list \<Rightarrow> u8 list \<Rightarrow> u8 list option" where
  "wash_step nm new_abs_path =
     (if nm = [0x2e, 0x2e] then do {
        s \<leftarrow> cstr new_abs_path;
        k \<leftarrow> last_slash s;
        wr new_abs_path (if k \<noteq> 0 then k else k + 1) 0
      } else if nm \<noteq> [0x2e] then do {
        s \<leftarrow> cstr new_abs_path;
        new_abs_path \<leftarrow> (if s \<noteq> [slash] then buf_strcat new_abs_path [slash] else Some new_abs_path);
        buf_strcat new_abs_path nm
      } else Some new_abs_path)"

function wash_loop :: "u8 list option \<Rightarrow> u8 list \<Rightarrow> u8 list \<Rightarrow> u8 list option" where
  "wash_loop sub nm new_abs_path =
     (if nm ! 0 \<noteq> 0 then do {
        s \<leftarrow> cstr nm;
        new_abs_path \<leftarrow> wash_step s new_abs_path;
        r \<leftarrow> next_name sub;
        wash_loop (fst r) (snd r) new_abs_path
      } else Some new_abs_path)"
  by pat_completeness auto
termination
  by (relation "measure (\<lambda>(sub, nm, new). path_measure sub nm)") (auto intro: next_name_decreases)

declare wash_loop.simps [simp del]

definition wash_path :: "u8 list \<Rightarrow> u8 list \<Rightarrow> u8 list option" where
  "wash_path old_abs_path new_abs_path = do {
     ASSERT (old_abs_path \<noteq> [] \<and> old_abs_path ! 0 = slash);
     (sub, nm) \<leftarrow> path_parse old_abs_path no_name;
     if nm ! 0 = 0 then buf_write new_abs_path 0 [slash, 0]
     else do {
       new_abs_path \<leftarrow> wr new_abs_path 0 0;
       new_abs_path \<leftarrow> buf_strcat new_abs_path [slash];
       wash_loop sub nm new_abs_path
     }
   }"

text \<open>
  The system call \<open>getcwd\<close>: what the buffer holds, and whether the call succeeded.  The root's path
  overwrites two bytes, any other one the whole buffer.
\<close>

definition getcwd :: "u8 list \<Rightarrow> machine \<Rightarrow> (machine \<times> u8 list \<times> bool) option" where
  "getcwd arr f = do {
     (_, io_buf) \<leftarrow> fs_malloc 512 f;
     let root = (cwd_inode_nr (cur_task (krn f)) = 0);
     (f, r) \<leftarrow> sys_getcwd (length arr) f;
     case r of
       None \<Rightarrow> Some (f, if io_buf = 0 then arr else replicate (length arr) 0, False)
     | Some path \<Rightarrow> do {
         arr \<leftarrow> (if root then buf_write arr 0 (path @ [0]) else buf_write (replicate (length arr) 0) 0 path);
         Some (f, arr, True)
       }
   }"

definition make_clear_abs_path :: "u8 list \<Rightarrow> u8 list \<Rightarrow> machine \<Rightarrow> (machine \<times> u8 list) option" where
  "make_clear_abs_path path final_path f = do {
     let abs_path = replicate MAX_PATH_LEN 0;
     (f, abs_path) \<leftarrow> (if path \<noteq> [] \<and> path ! 0 = slash then Some (f, abs_path)
       else do {
         (f, abs_path, ok) \<leftarrow> getcwd abs_path f;
         if ok \<and> \<not> (abs_path ! 0 = slash \<and> abs_path ! 1 = 0) then do {
           abs_path \<leftarrow> buf_strcat abs_path [slash];
           Some (f, abs_path)
         } else Some (f, abs_path)
       });
     abs_path \<leftarrow> buf_strcat abs_path path;
     old \<leftarrow> cstr abs_path;
     final_path \<leftarrow> wash_path old final_path;
     Some (f, final_path)
   }"


section \<open>Built-in commands\<close>

definition printf :: "string \<Rightarrow> va_arg list \<Rightarrow> machine \<Rightarrow> int io_result option" where
  "printf fmt args f = do { txt \<leftarrow> printf_text (str fmt) args; sys_write 1 txt (length txt) f }"

text \<open>The commands return what they leave in \<open>final_path\<close>, and their own result if there is one.\<close>

definition buildin_pwd :: "nat \<Rightarrow> u8 list \<Rightarrow> machine \<Rightarrow> u8 list io_result option" where
  "buildin_pwd argc final_path f =
     (if argc \<noteq> 1 then io_bind (printf (''pwd: too many arguments'' @ newline) [] f) (\<lambda>f _. Some (Finished f final_path))
      else do {
        (f, final_path, ok) \<leftarrow> getcwd final_path f;
        if ok then do {
          s \<leftarrow> cstr final_path;
          io_bind (printf (''%s'' @ newline) [Arg_str s] f) (\<lambda>f _. Some (Finished f final_path))
        } else io_bind (printf (''pwd: get current work directory failed.'' @ newline) [] f) (\<lambda>f _. Some (Finished f final_path))
      })"

definition buildin_cd :: "uninit \<Rightarrow> u8 list list \<Rightarrow> u8 list \<Rightarrow> machine \<Rightarrow> (u8 list \<times> bool) io_result option" where
  "buildin_cd u argv final_path f =
     (if length argv > 2 then
        io_bind (printf (''cd: only support 1 argument!'' @ newline) [] f) (\<lambda>f _. Some (Finished f (final_path, False)))
      else do {
        (f, final_path) \<leftarrow> (if length argv = 1 then do {
              final_path \<leftarrow> buf_write final_path 0 [slash, 0x30];
              Some (f, final_path)
            } else do { a \<leftarrow> rd argv 1; make_clear_abs_path a final_path f });
        s \<leftarrow> cstr final_path;
        (f, ret) \<leftarrow> sys_chdir u s f;
        if ret = -1 then
          io_bind (printf (''cd: no such directory: %s'' @ newline) [Arg_str s] f) (\<lambda>f _. Some (Finished f (final_path, False)))
        else Some (Finished f (final_path, True))
      })"

text \<open>The options of \<open>ls\<close>: a message ends the command.\<close>

fun ls_args :: "u8 list list \<Rightarrow> bool \<Rightarrow> u8 list option \<Rightarrow> ((string \<times> va_arg list) + bool \<times> u8 list option)" where
  "ls_args [] long_info pathname = Inr (long_info, pathname)"
| "ls_args (a # as) long_info pathname =
     (if a \<noteq> [] \<and> a ! 0 = 0x2d then
        if a = str ''-l'' then ls_args as True pathname
        else if a = str ''-h'' then
          Inl (''usage: -l list all infomation about the file.'' @ newline @ ''-h for help'' @ newline @
               ''list all files in the current dirctory if no option'' @ newline, [])
        else Inl (''ls: invalid option %s'' @ newline @ ''Try `ls -h' for more information.'' @ newline, [Arg_str a])
      else case pathname of
          None \<Rightarrow> ls_args as long_info (Some a)
        | Some _ \<Rightarrow> Inl (''ls: only support one path'' @ newline, []))"

partial_function (option) ls_short :: "dir_ref \<Rightarrow> machine \<Rightarrow> unit io_result option" where
  "ls_short d f = do {
     (f, e) \<leftarrow> sys_readdir (Some d) f;
     case e of
       None \<Rightarrow> io_bind (printf newline [] f) (\<lambda>f _. Some (Finished f ()))
     | Some e \<Rightarrow> do {
         nm \<leftarrow> cstr (filename e);
         r \<leftarrow> printf ''%s '' [Arg_str nm] f;
         case r of Finished f _ \<Rightarrow> ls_short d f | Asleep f \<Rightarrow> Some (Asleep f)
       }
   }"

text \<open>The result tells whether the loop ran to its end; the early return leaves the directory open.\<close>

partial_function (option) ls_long :: "uninit \<Rightarrow> u8 list \<Rightarrow> dir_ref \<Rightarrow> machine \<Rightarrow> bool io_result option" where
  "ls_long u sub_pathname d f = do {
     (f, e) \<leftarrow> sys_readdir (Some d) f;
     case e of
       None \<Rightarrow> Some (Finished f True)
     | Some e \<Rightarrow> do {
         nm \<leftarrow> cstr (filename e);
         path \<leftarrow> str_append MAX_PATH_LEN sub_pathname nm;
         (f, st, ret) \<leftarrow> sys_stat u path \<lparr>st_ino = 0, st_size = 0, st_filetype = 0\<rparr> f;
         if ret = -1 then
           io_bind (printf (''ls: cannot access %s: No such file or directory'' @ newline) [Arg_str nm] f)
             (\<lambda>f _. Some (Finished f False))
         else do {
           r \<leftarrow> printf (''%c %d %d %s'' @ newline)
             [Arg_int (if f_type e = FT_REGULAR then 0x2d else 0x64), Arg_int (of_nat (de_i_no e)), Arg_int (of_nat (st_size st)), Arg_str nm] f;
           case r of Finished f _ \<Rightarrow> ls_long u sub_pathname d f | Asleep f \<Rightarrow> Some (Asleep f)
         }
       }
   }"

definition ls_dir :: "uninit \<Rightarrow> bool \<Rightarrow> u8 list \<Rightarrow> nat \<Rightarrow> machine \<Rightarrow> unit io_result option" where
  "ls_dir u long_info pathname sz f = do {
     (f, d) \<leftarrow> sys_opendir u pathname f;
     d \<leftarrow> d;
     sub_pathname \<leftarrow> (if last pathname \<noteq> slash then str_append MAX_PATH_LEN pathname [slash] else Some pathname);
     let f = sys_rewinddir d f;
     io_bind (if long_info then io_bind (printf (''total: %d'' @ newline) [Arg_int (of_nat sz)] f) (\<lambda>f _. ls_long u sub_pathname d f)
              else io_bind (ls_short d f) (\<lambda>f _. Some (Finished f True)))
       (\<lambda>f complete. if complete then do { (f, _) \<leftarrow> sys_closedir (Some d) f; Some (Finished f ()) } else Some (Finished f ()))
   }"

definition buildin_ls :: "uninit \<Rightarrow> u8 list list \<Rightarrow> u8 list \<Rightarrow> machine \<Rightarrow> u8 list io_result option" where
  "buildin_ls u argv final_path f = (case ls_args (tl argv) False None of
       Inl (fmt, args) \<Rightarrow> io_bind (printf fmt args f) (\<lambda>f _. Some (Finished f final_path))
     | Inr (long_info, path) \<Rightarrow> do {
         (f, final_path, ok) \<leftarrow> (case path of
             None \<Rightarrow> getcwd final_path f
           | Some a \<Rightarrow> do { (f, final_path) \<leftarrow> make_clear_abs_path a final_path f; Some (f, final_path, True) });
         if \<not> ok then io_bind (printf (''ls: getcwd for default path failed'' @ newline) [] f) (\<lambda>f _. Some (Finished f final_path))
         else do {
           pathname \<leftarrow> cstr final_path;
           (f, st, ret) \<leftarrow> sys_stat u pathname \<lparr>st_ino = 0, st_size = 0, st_filetype = 0\<rparr> f;
           io_bind
             (if ret = -1 then
                io_bind (printf (''ls: cannot access %s: No such file or directory'' @ newline) [Arg_str pathname] f) (\<lambda>f _. Some (Finished f ()))
              else if st_filetype st = FT_DIRECTORY then ls_dir u long_info pathname (st_size st) f
              else if long_info then
                io_bind (printf (''- %d %d %s'' @ newline)
                  [Arg_int (of_nat (st_ino st)), Arg_int (of_nat (st_size st)), Arg_str (tl pathname)] f) (\<lambda>f _. Some (Finished f ()))
              else io_bind (printf (''%s'' @ newline) [Arg_str (tl pathname)] f) (\<lambda>f _. Some (Finished f ())))
             (\<lambda>f _. Some (Finished f final_path))
         }
       })"

definition buildin_ps :: "nat \<Rightarrow> machine \<Rightarrow> unit io_result option" where
  "buildin_ps argc f =
     (if argc \<noteq> 1 then io_bind (printf (''ps: no argument support!'' @ newline) [] f) (\<lambda>f _. Some (Finished f ()))
      else sys_ps f)"

definition buildin_clear :: "nat \<Rightarrow> machine \<Rightarrow> unit io_result option" where
  "buildin_clear argc f =
     (if argc \<noteq> 1 then io_bind (printf (''clear: no argument support!'' @ newline) [] f) (\<lambda>f _. Some (Finished f ()))
      else Some (Finished (f\<lparr>scr := cls_screen (scr f)\<rparr>) ()))"

text \<open>
  The common body of \<open>mkdir\<close>, \<open>touch\<close>, \<open>rmdir\<close> and \<open>rm\<close>: one argument, made absolute, not the root, and
  one system call.
\<close>

definition path_command ::
    "string \<Rightarrow> string \<Rightarrow> (u8 list \<Rightarrow> machine \<Rightarrow> (machine \<times> int) option) \<Rightarrow> u8 list list \<Rightarrow> u8 list \<Rightarrow> machine \<Rightarrow>
     (u8 list \<times> int) io_result option" where
  "path_command usage failed call argv final_path f =
     (if length argv \<noteq> 2 then io_bind (printf (usage @ newline) [] f) (\<lambda>f _. Some (Finished f (final_path, -1)))
      else do {
        (f, final_path) \<leftarrow> make_clear_abs_path (argv ! 1) final_path f;
        s \<leftarrow> cstr final_path;
        if s \<noteq> [slash] then do {
          (f, ret) \<leftarrow> call s f;
          if ret = 0 then Some (Finished f (final_path, 0))
          else io_bind (printf (failed @ newline) [Arg_str (argv ! 1)] f) (\<lambda>f _. Some (Finished f (final_path, -1)))
        } else Some (Finished f (final_path, -1))
      })"

definition buildin_mkdir :: "uninit \<Rightarrow> u8 list list \<Rightarrow> u8 list \<Rightarrow> machine \<Rightarrow> (u8 list \<times> int) io_result option" where
  "buildin_mkdir u = path_command ''mkdir: only support 1 argument!'' ''mkdir: create directory %s failed.'' (sys_mkdir u)"

definition buildin_touch :: "uninit \<Rightarrow> u8 list list \<Rightarrow> u8 list \<Rightarrow> machine \<Rightarrow> (u8 list \<times> int) io_result option" where
  "buildin_touch u = path_command ''mkdir: only support 1 argument!'' ''mkdir: create directory %s failed.'' (sys_create u)"

definition buildin_rmdir :: "uninit \<Rightarrow> u8 list list \<Rightarrow> u8 list \<Rightarrow> machine \<Rightarrow> (u8 list \<times> int) io_result option" where
  "buildin_rmdir u = path_command ''rmdir: only support 1 argument!'' ''rmdir: remove %s failed.'' (sys_rmdir u)"

definition buildin_rm :: "uninit \<Rightarrow> u8 list list \<Rightarrow> u8 list \<Rightarrow> machine \<Rightarrow> (u8 list \<times> int) io_result option" where
  "buildin_rm u = path_command ''rm: only support 1 argument!'' ''rm: delete %s failed.'' (sys_unlink u)"


section \<open>Reading a line\<close>

record shell =
  cmd_line :: "u8 list"
  final_path :: "u8 list"
  cwd_cache :: "u8 list"
  argv :: "nat option list"
  argc :: int

definition print_prompt :: "shell \<Rightarrow> machine \<Rightarrow> int io_result option" where
  "print_prompt sh f = do {
     cwd \<leftarrow> cstr (cwd_cache sh);
     printf ''[rabbit@localhost %s]$ '' [Arg_str cwd] f
   }"

text \<open>\<open>ctrl+u\<close>: backspaces are printed and zeros stored from the position down to, but not at, the start.\<close>

fun wipe_input :: "nat \<Rightarrow> u8 list \<Rightarrow> machine \<Rightarrow> (machine \<times> u8 list) option" where
  "wipe_input 0 arr f = Some (f, arr)"
| "wipe_input (Suc pos) arr f = do {
     f \<leftarrow> sys_putchar 0x08 f;
     arr \<leftarrow> wr arr (Suc pos) 0;
     wipe_input pos arr f
   }"

text \<open>
  One byte is read to the position, also when the position is behind the end of the array, and then
  looked at.  \<open>before\<close> is the byte in front of the array.
\<close>

partial_function (option) readline :: "u8 \<Rightarrow> nat \<Rightarrow> nat \<Rightarrow> shell \<Rightarrow> machine \<Rightarrow> shell io_result option" where
  "readline before count pos sh f = do {
     r \<leftarrow> sys_read (if pos = 0 then before else cmd_line sh ! (pos - 1)) 0 1 f;
     case r of
       Asleep f \<Rightarrow> Some (Asleep f)
     | Finished f (bytes, n) \<Rightarrow> do {
         arr \<leftarrow> buf_write (cmd_line sh) pos bytes;
         let sh = sh\<lparr>cmd_line := arr\<rparr>;
         if n = -1 \<or> \<not> pos < count then
           io_bind (printf (''readline: can`t find enter_key in the cmd_line, max num of char is 128'' @ newline) [] f)
             (\<lambda>f _. Some (Finished f sh))
         else (let c = arr ! pos in
           if c = 0x0a \<or> c = 0x0d then do {
             f \<leftarrow> sys_putchar 0x0a f;
             Some (Finished f (sh\<lparr>cmd_line := arr[pos := 0]\<rparr>))
           } else if c = 0x08 then
             (if arr ! 0 \<noteq> 0x08 then do {
                f \<leftarrow> sys_putchar 0x08 f;
                readline before count (pos - 1) sh f
              } else readline before count pos sh f)
           else if c = 0x0b then do {
             let sh = sh\<lparr>cmd_line := arr[pos := 0]\<rparr>;
             let f = f\<lparr>scr := cls_screen (scr f)\<rparr>;
             r \<leftarrow> print_prompt sh f;
             case r of Asleep f \<Rightarrow> Some (Asleep f) | Finished f _ \<Rightarrow> do {
               txt \<leftarrow> cstr (cmd_line sh);
               r \<leftarrow> printf ''%s'' [Arg_str txt] f;
               case r of Asleep f \<Rightarrow> Some (Asleep f) | Finished f _ \<Rightarrow> readline before count pos sh f
             }
           } else if c = 0x14 then do {
             (f, arr) \<leftarrow> wipe_input pos arr f;
             readline before count 0 (sh\<lparr>cmd_line := arr\<rparr>) f
           } else do {
             f \<leftarrow> sys_putchar c f;
             readline before count (pos + 1) sh f
           })
       }
   }"


section \<open>Executing commands\<close>

text \<open>The words of the command: the strings at the positions in \<open>argv\<close>; a null pointer is not read.\<close>

fun arg_strings :: "u8 list \<Rightarrow> nat option list \<Rightarrow> nat \<Rightarrow> u8 list list option" where
  "arg_strings arr ps 0 = Some []"
| "arg_strings arr ps (Suc n) = (case ps of
       Some p # ps \<Rightarrow> do { s \<leftarrow> cstr (drop p arr); ss \<leftarrow> arg_strings arr ps n; Some (s # ss) }
     | _ \<Rightarrow> None)"

text \<open>
  The array \<open>cwd_cache\<close> has 64 bytes; \<open>memset\<close> clears \<open>MAX_PATH_LEN\<close> bytes from its start.
\<close>

definition set_cwd_cache :: "shell \<Rightarrow> shell option" where
  "set_cwd_cache sh = do {
     arr \<leftarrow> buf_write (cwd_cache sh) 0 (replicate MAX_PATH_LEN 0);
     s \<leftarrow> cstr (final_path sh);
     arr \<leftarrow> buf_write arr 0 s;
     Some (sh\<lparr>cwd_cache := arr\<rparr>)
   }"

definition keep_path :: "shell \<Rightarrow> u8 list io_result option \<Rightarrow> shell io_result option" where
  "keep_path sh r = io_bind r (\<lambda>f p. Some (Finished f (sh\<lparr>final_path := p\<rparr>)))"

text \<open>
  An external command.  The parent waits for the child; the child, which runs when the scheduler
  chooses it, continues with \<open>cmd_child\<close> and, without a program to execute, with the loop of the shell.
\<close>

definition cmd_parent :: "u32 \<Rightarrow> shell \<Rightarrow> machine \<Rightarrow> shell io_result option" where
  "cmd_parent intr_exit sh f = do {
     (f, pid) \<leftarrow> sys_fork intr_exit f;
     w \<leftarrow> sys_wait (krn f);
     case w of
       Waiting k _ \<Rightarrow> Some (Asleep (f\<lparr>krn := k\<rparr>))
     | No_child k \<Rightarrow> None
     | Collected k st child_pid \<Rightarrow>
         io_bind (printf newline [] (f\<lparr>krn := k\<rparr>)) (\<lambda>f _.
         io_bind (printf (''child_pid %d, it's status: %d'' @ newline)
             [Arg_int (word_of_int child_pid), Arg_int (word_of_int st)] f) (\<lambda>f _.
         Some (Finished f (sh\<lparr>argv := replicate MAX_ARG_NR None\<rparr>))))
   }"

definition cmd_child :: "uninit \<Rightarrow> u32 \<Rightarrow> u8 list \<Rightarrow> shell \<Rightarrow> machine \<Rightarrow> (shell \<times> exec_result) io_result option" where
  "cmd_child u argv_addr arg0 sh f = do {
     (f, path) \<leftarrow> make_clear_abs_path arg0 (final_path sh) f;
     let sh = sh\<lparr>final_path := path\<rparr>;
     s \<leftarrow> cstr path;
     (f, st, ret) \<leftarrow> sys_stat u s \<lparr>st_ino = 0, st_size = 0, st_filetype = 0\<rparr> f;
     let out = sh\<lparr>argv := replicate MAX_ARG_NR None\<rparr>;
     if ret = -1 then
       io_bind (printf (''my_shell: cannot access %s,No such file or directory'' @ newline) [Arg_str s] f)
         (\<lambda>f _. Some (Finished f (out, Exec_failed)))
     else io_bind (sys_execv u path argv_addr f) (\<lambda>f r. Some (Finished f (out, r)))
   }"

definition cmd_exectue :: "uninit \<Rightarrow> u32 \<Rightarrow> shell \<Rightarrow> machine \<Rightarrow> shell io_result option" where
  "cmd_exectue u intr_exit sh f = do {
     p0 \<leftarrow> rd (argv sh) 0;
     p0 \<leftarrow> p0;
     arg0 \<leftarrow> cstr (drop p0 (cmd_line sh));
     args \<leftarrow> (if argc sh < 0 then Some [] else arg_strings (cmd_line sh) (argv sh) (nat (argc sh)));
     let n = length args;
     let fp = final_path sh;
     if arg0 = str ''ls'' then keep_path sh (buildin_ls u args fp f)
     else if arg0 = str ''cd'' then
       io_bind (buildin_cd u args fp f) (\<lambda>f (p, ok).
         if ok then do { sh \<leftarrow> set_cwd_cache (sh\<lparr>final_path := p\<rparr>); Some (Finished f sh) }
         else Some (Finished f (sh\<lparr>final_path := p\<rparr>)))
     else if arg0 = str ''ps'' then io_bind (buildin_ps n f) (\<lambda>f _. Some (Finished f sh))
     else if arg0 = str ''clear'' then io_bind (buildin_clear n f) (\<lambda>f _. Some (Finished f sh))
     else if arg0 = str ''mkdir'' then io_bind (buildin_mkdir u args fp f) (\<lambda>f r. Some (Finished f (sh\<lparr>final_path := fst r\<rparr>)))
     else if arg0 = str ''rmdir'' then io_bind (buildin_rmdir u args fp f) (\<lambda>f r. Some (Finished f (sh\<lparr>final_path := fst r\<rparr>)))
     else if arg0 = str ''rm'' then io_bind (buildin_rm u args fp f) (\<lambda>f r. Some (Finished f (sh\<lparr>final_path := fst r\<rparr>)))
     else if arg0 = str ''touch'' then io_bind (buildin_touch u args fp f) (\<lambda>f r. Some (Finished f (sh\<lparr>final_path := fst r\<rparr>)))
     else if arg0 = str ''pwd'' then keep_path sh (buildin_pwd n fp f)
     else if arg0 = str ''help'' then do { f \<leftarrow> sys_help f; Some (Finished f sh) }
     else cmd_parent intr_exit sh f
   }"


section \<open>The loop\<close>

text \<open>A command from position \<open>p\<close> of the line on.\<close>

definition run_command :: "uninit \<Rightarrow> u32 \<Rightarrow> nat \<Rightarrow> shell \<Rightarrow> machine \<Rightarrow> shell io_result option" where
  "run_command u intr_exit p sh f = do {
     (line, ps, n) \<leftarrow> cmd_parse (cmd_line sh) p 0x20;
     cmd_exectue u intr_exit (sh\<lparr>cmd_line := line, argv := ps, argc := n\<rparr>) f
   }"

text \<open>\<open>strchr (each_cmd, '|')\<close> as a position of the line.\<close>

definition find_bar :: "u8 list \<Rightarrow> nat \<Rightarrow> nat option option" where
  "find_bar line p = do {
     s \<leftarrow> cstr (drop p line);
     Some (if 0x7c \<in> set s then Some (p + length (takeWhile (\<lambda>c. c \<noteq> 0x7c) s)) else None)
   }"

partial_function (option) middle_commands :: "uninit \<Rightarrow> u32 \<Rightarrow> nat \<Rightarrow> shell \<Rightarrow> machine \<Rightarrow> (shell \<times> nat) io_result option" where
  "middle_commands u intr_exit each_cmd sh f = do {
     b \<leftarrow> find_bar (cmd_line sh) each_cmd;
     case b of
       None \<Rightarrow> Some (Finished f (sh, each_cmd))
     | Some k \<Rightarrow> do {
         r \<leftarrow> run_command u intr_exit each_cmd (sh\<lparr>cmd_line := (cmd_line sh)[k := 0]\<rparr>) f;
         case r of Asleep f \<Rightarrow> Some (Asleep f) | Finished f sh \<Rightarrow> middle_commands u intr_exit (k + 1) sh f
       }
   }"

text \<open>The commands of a pipe, which starts at position \<open>k\<close>; one queue serves all of them.\<close>

definition run_pipe :: "uninit \<Rightarrow> u32 \<Rightarrow> nat \<Rightarrow> shell \<Rightarrow> machine \<Rightarrow> shell io_result option" where
  "run_pipe u intr_exit k sh f = do {
     (f, fd0, fd1, _) \<leftarrow> sys_pipe f;
     ASSERT (0 \<le> fd0 \<and> 0 \<le> fd1);
     f \<leftarrow> sys_fd_redirect 1 (nat fd1) f;
     io_bind (run_command u intr_exit 0 (sh\<lparr>cmd_line := (cmd_line sh)[k := 0]\<rparr>) f) (\<lambda>f sh. do {
       f \<leftarrow> sys_fd_redirect 0 (nat fd0) f;
       io_bind (middle_commands u intr_exit (k + 1) sh f) (\<lambda>f (sh, each_cmd). do {
         f \<leftarrow> sys_fd_redirect 1 1 f;
         io_bind (run_command u intr_exit each_cmd sh f) (\<lambda>f sh. do {
           f \<leftarrow> sys_fd_redirect 0 0 f;
           (f, _) \<leftarrow> sys_close fd0 f;
           (f, _) \<leftarrow> sys_close fd1 f;
           Some (Finished f sh)
         })
       })
     })
   }"

text \<open>One round of the loop of \<open>my_shell\<close>.\<close>

definition shell_round :: "u8 \<Rightarrow> uninit \<Rightarrow> u32 \<Rightarrow> shell \<Rightarrow> machine \<Rightarrow> shell io_result option" where
  "shell_round before u intr_exit sh f =
     io_bind (print_prompt sh f) (\<lambda>f _.
     io_bind (readline before cmd_len 0 (sh\<lparr>final_path := replicate MAX_PATH_LEN 0, cmd_line := replicate cmd_len 0\<rparr>) f) (\<lambda>f sh.
       if cmd_line sh ! 0 = 0 then Some (Finished f sh)
       else do {
         b \<leftarrow> find_bar (cmd_line sh) 0;
         case b of
           Some k \<Rightarrow> run_pipe u intr_exit k sh f
         | None \<Rightarrow> do {
             (line, ps, n) \<leftarrow> cmd_parse (cmd_line sh) 0 0x20;
             let sh = sh\<lparr>cmd_line := line, argv := ps, argc := n\<rparr>;
             if n = -1 then
               io_bind (printf (''num of arguments exceed %d'' @ newline) [Arg_int (of_nat MAX_ARG_NR)] f) (\<lambda>f _. Some (Finished f sh))
             else cmd_exectue u intr_exit sh f
           }
       }))"

definition shell_start :: shell where
  "shell_start = \<lparr>cmd_line = replicate cmd_len 0, final_path = replicate MAX_PATH_LEN 0, cwd_cache = slash # replicate 63 0,
     argv = replicate MAX_ARG_NR None, argc = -1\<rparr>"

text \<open>\<open>my_shell\<close> never returns: the value is defined only when the shell goes to sleep.\<close>

partial_function (option) my_shell :: "u8 \<Rightarrow> uninit \<Rightarrow> u32 \<Rightarrow> shell \<Rightarrow> machine \<Rightarrow> shell io_result option" where
  "my_shell before u intr_exit sh f = do {
     r \<leftarrow> shell_round before u intr_exit sh f;
     case r of Finished f sh \<Rightarrow> my_shell before u intr_exit sh f | Asleep f \<Rightarrow> Some (Asleep f)
   }"

end
