(* ===== verification/Shell_Spec.thy ===== *)
theory Shell_Spec
  imports Shell Fs_Spec
begin

text \<open>
  Properties of the shell: \<open>cmd_parse\<close> splits a line into its words, and \<open>wash_path\<close> normalises a path.
\<close>

section \<open>Words of a line\<close>

lemma words_blank: "words token (replicate k token) = []"
  by (simp add: words.simps)

lemma words_word:
  assumes "w \<noteq> []" "token \<notin> set w" "r = [] \<or> hd r = token"
  shows "words token (replicate k token @ w @ r) = w # words token r"
proof -
  obtain x xs where w: "w = x # xs" using assms(1) by (cases w) auto
  have d: "dropWhile (\<lambda>c. c = token) (replicate k token @ w @ r) = w @ r"
    using w assms(2) by (subst dropWhile_append2) auto
  have w1: "\<And>x. x \<in> set w \<Longrightarrow> x \<noteq> token" using assms(2) by auto
  have r: "takeWhile (\<lambda>c. c \<noteq> token) r = []" "dropWhile (\<lambda>c. c \<noteq> token) r = r" using assms(3) by (cases r; simp)+
  have t: "takeWhile (\<lambda>c. c \<noteq> token) (w @ r) = w" "dropWhile (\<lambda>c. c \<noteq> token) (w @ r) = r"
    using takeWhile_append2 [of w "\<lambda>c. c \<noteq> token" r] dropWhile_append2 [of w "\<lambda>c. c \<noteq> token" r] w1 r by simp_all
  have "words token (replicate k token @ w @ r) = (let q = w @ r in if q = [] then [] else takeWhile (\<lambda>c. c \<noteq> token) q # words token (dropWhile (\<lambda>c. c \<noteq> token) q))"
    by (subst words.simps) (simp only: d)
  then show ?thesis using t w by (simp add: Let_def)
qed

lemma words_tail: "words token (token # r) = words token r"
  by (simp add: words.simps [of token "token # r"] words.simps [of token r])

text \<open>Every text is blanks alone, or blanks, a word and a rest.\<close>

lemma text_cases:
  obtains (blank) k where "t = replicate k token"
    | (word) k w r where "t = replicate k token @ w @ r" "w \<noteq> []" "token \<notin> set w" "r = [] \<or> hd r = token"
proof -
  let ?q = "dropWhile (\<lambda>c. c = token) t"
  let ?w = "takeWhile (\<lambda>c. c \<noteq> token) ?q" and ?r = "dropWhile (\<lambda>c. c \<noteq> token) ?q"
  have "takeWhile (\<lambda>c. c = token) t = replicate (length (takeWhile (\<lambda>c. c = token) t)) token"
    using replicate_length_same [of "takeWhile (\<lambda>c. c = token) t" token] set_takeWhileD [of _ "\<lambda>c. c = token" t] by simp
  then have t: "t = replicate (length (takeWhile (\<lambda>c. c = token) t)) token @ ?q" using takeWhile_dropWhile_id by metis
  show thesis
  proof (cases "?q = []")
    case True
    then have "replicate (length t) token = t" using replicate_length_same [of t token] by simp
    then show thesis by (intro blank [of "length t"]) simp
  next
    case False
    then have "?w \<noteq> []" using hd_dropWhile [of "\<lambda>c. c = token" t] by (cases ?q) auto
    moreover have "token \<notin> set ?w" using set_takeWhileD by fastforce
    moreover have "?r = [] \<or> hd ?r = token" using hd_dropWhile [of "\<lambda>c. c \<noteq> token" ?q] by blast
    moreover have "t = replicate (length (takeWhile (\<lambda>c. c = token) t)) token @ ?w @ ?r"
      using t by (simp only: takeWhile_dropWhile_id)
    ultimately show thesis by (intro word [of _ ?w ?r])
  qed
qed

lemma skip_token_run:
  assumes "c \<noteq> token"
  shows "skip_token (pre @ replicate k token @ c # r) token (length pre) = Some (length pre + k)"
proof (induction k arbitrary: pre)
  case 0
  then show ?case using assms by (subst skip_token.simps) simp
next
  case (Suc k)
  have "pre @ replicate (Suc k) token @ c # r = (pre @ [token]) @ replicate k token @ c # r" by simp
  then show ?case using Suc [of "pre @ [token]"] by (subst skip_token.simps) (simp add: nth_append)
qed

lemma skip_word_run:
  assumes "token \<notin> set w" "0 \<notin> set w" "c = 0 \<or> c = token"
  shows "skip_word (pre @ w @ c # r) token (length pre) = Some (length pre + length w)"
  using assms(1,2)
proof (induction w arbitrary: pre)
  case Nil
  then show ?case using assms(3) by (subst skip_word.simps) auto
next
  case (Cons x w)
  have "pre @ (x # w) @ c # r = (pre @ [x]) @ w @ c # r" by simp
  then show ?case using Cons.IH [of "pre @ [x]"] Cons.prems by (subst skip_word.simps) (auto simp: nth_append)
qed

text \<open>One round of the loop: the word is recorded and the byte behind it becomes its terminator.\<close>

lemma parse_word:
  assumes w: "w \<noteq> []" "token \<notin> set w" "0 \<notin> set w" and tok: "token \<noteq> 0" and n: "n < length ps" "n \<le> MAX_ARG_NR"
  shows "cmd_parse_loop (pre @ replicate k token @ w @ 0 # post) ps token (length pre) n =
      Some (pre @ replicate k token @ w @ 0 # post, ps[n := Some (length pre + k)], int (n + 1))"
    and "cmd_parse_loop (pre @ replicate k token @ w @ token # post) ps token (length pre) n =
      cmd_parse_loop ((pre @ replicate k token @ w @ [0]) @ post) (ps[n := Some (length pre + k)]) token
        (length (pre @ replicate k token @ w @ [0])) (n + 1)"
proof -
  obtain x xs where x: "w = x # xs" using w(1) by (cases w) auto
  have st: "skip_token (pre @ replicate k token @ w @ c # post) token (length pre) = Some (length pre + k)" for c
    using skip_token_run [of x token pre k "xs @ c # post"] w(2) x by auto
  have sw: "skip_word (pre @ replicate k token @ w @ c # post) token (length pre + k) = Some (length pre + k + length w)"
    if "c = 0 \<or> c = token" for c
    using skip_word_run [OF w(2,3) that, of "pre @ replicate k token" post] by simp
  have c0: "(pre @ replicate k token @ w @ c # post) ! length pre \<noteq> 0" for c
    using tok w(3) x by (cases k) (simp_all add: nth_append)
  have cj: "(pre @ replicate k token @ w @ c # post) ! (length pre + k) \<noteq> 0" for c
    using w(3) x by (simp add: nth_append)
  have ce: "(pre @ replicate k token @ w @ c # post) ! (length pre + k + length w) = c" for c
    using nth_append_length [of "pre @ replicate k token @ w" c post] by (simp add: add.assoc)
  have up: "(pre @ replicate k token @ w @ token # post)[length pre + k + length w := 0] = (pre @ replicate k token @ w @ [0]) @ post"
    using list_update_length [of "pre @ replicate k token @ w" token post 0] by (simp add: add.assoc)
  have stop: "cmd_parse_loop arr qs token i m = Some (arr, qs, int m)" if "i < length arr" "arr ! i = 0" for arr qs i m
    using that by (subst cmd_parse_loop.simps) simp
  show "cmd_parse_loop (pre @ replicate k token @ w @ 0 # post) ps token (length pre) n =
      Some (pre @ replicate k token @ w @ 0 # post, ps[n := Some (length pre + k)], int (n + 1))"
    using n c0 [of 0] cj [of 0] ce [of 0] st [of 0] sw [of 0] stop [of "length pre + k + length w" "pre @ replicate k token @ w @ 0 # post"]
    by (subst cmd_parse_loop.simps) (simp add: Let_def)
  show "cmd_parse_loop (pre @ replicate k token @ w @ token # post) ps token (length pre) n =
      cmd_parse_loop ((pre @ replicate k token @ w @ [0]) @ post) (ps[n := Some (length pre + k)]) token
        (length (pre @ replicate k token @ w @ [0])) (n + 1)"
    using n tok c0 [of token] cj [of token] ce [of token] st [of token] sw [of token] up
    by (subst cmd_parse_loop.simps) (simp add: Let_def ac_simps)
qed

lemma parse_blank:
  assumes "token \<noteq> 0"
  shows "cmd_parse_loop (pre @ replicate k token @ 0 # post) ps token (length pre) n =
    Some (pre @ replicate k token @ 0 # post, ps, int n)"
proof -
  have "skip_token (pre @ replicate k token @ 0 # post) token (length pre) = Some (length pre + k)"
    by (rule skip_token_run) (use assms in simp)
  moreover have "(pre @ replicate k token @ 0 # post) ! (length pre + k) = 0" by (simp add: nth_append)
  ultimately show ?thesis by (subst cmd_parse_loop.simps) (auto simp: nth_append)
qed

text \<open>The rest of the loop from the \<open>n\<close>-th word on.\<close>

lemma parse_rest:
  assumes "token \<noteq> 0" "0 \<notin> set t" "n + length (words token t) \<le> length ps" "length ps = MAX_ARG_NR"
  shows "\<exists>l ps'. cmd_parse_loop (pre @ t @ 0 # post) ps token (length pre) n =
      Some (pre @ l @ 0 # post, ps', int (n + length (words token t))) \<and> length l = length t \<and> take n ps' = take n ps \<and>
    drop (n + length (words token t)) ps' = drop (n + length (words token t)) ps \<and>
    arg_strings (pre @ l @ 0 # post) (drop n ps') (length (words token t)) = Some (words token t)"
  using assms(2-)
proof (induction t arbitrary: pre ps n rule: length_induct)
  case (1 t)
  show ?case
  proof (cases t token rule: text_cases)
    case (blank k)
    then show ?thesis using parse_blank [OF assms(1), of pre k post ps n] words_blank
      by (intro exI [of _ t] exI [of _ ps]) simp
  next
    case (word k w r)
    have ws: "words token t = w # words token r" unfolding word(1) by (rule words_word [OF word(2-4)])
    have w0: "0 \<notin> set w" using 1(2) word(1) by auto
    have n: "n < length ps" "n \<le> MAX_ARG_NR" using 1(3,4) ws by simp_all
    let ?p = "ps[n := Some (length pre + k)]"
    have str: "cstr (drop (length pre + k) (pre @ replicate k token @ w @ 0 # xs)) = Some w" for xs
      using cstr_append_zero [OF w0, of xs] by (simp add: drop_append)
    show ?thesis
    proof (cases r)
      case Nil
      have dr: "drop n ?p = Some (length pre + k) # drop (Suc n) ps" using n by (simp add: upd_conv_take_nth_drop)
      have "words token r = []" using Nil by (simp add: words.simps)
      then show ?thesis using parse_word(1) [OF word(2,3) w0 assms(1) n, of pre k post] word(1) Nil ws str [of post] dr
        by (intro exI [of _ t] exI [of _ ?p]) simp
    next
      case (Cons c r')
      then have r: "r = token # r'" using word(4) by simp
      have wr: "words token r = words token r'" unfolding r by (rule words_tail)
      let ?pre = "pre @ replicate k token @ w @ [0]"
      have "length r' < length t" "0 \<notin> set r'" "n + 1 + length (words token r') \<le> length ?p" "length ?p = MAX_ARG_NR"
        using 1(2-4) word(1) r ws wr by simp_all
      then obtain l ps' where l: "cmd_parse_loop (?pre @ r' @ 0 # post) ?p token (length ?pre) (n + 1) =
          Some (?pre @ l @ 0 # post, ps', int (n + 1 + length (words token r')))" "length l = length r'"
        and ps': "take (n + 1) ps' = take (n + 1) ?p" "drop (n + 1 + length (words token r')) ps' = drop (n + 1 + length (words token r')) ?p"
        and as: "arg_strings (?pre @ l @ 0 # post) (drop (n + 1) ps') (length (words token r')) = Some (words token r')"
        using 1(1) by blast
      have run: "cmd_parse_loop (pre @ t @ 0 # post) ps token (length pre) n =
          Some (pre @ (replicate k token @ w @ 0 # l) @ 0 # post, ps', int (n + length (words token t)))"
        using parse_word(2) [OF word(2,3) w0 assms(1) n, of pre k "r' @ 0 # post"] l(1) word(1) r ws wr by simp
      have len: "n < length ps'" using ps'(1) n by (metis Suc_eq_plus1 length_list_update length_take less_Suc_eq min_less_iff_conj nat_neq_iff)
      have nth: "ps' ! n = Some (length pre + k)" using ps'(1) n by (metis less_add_one nth_list_update_eq nth_take)
      have "drop n ps' = Some (length pre + k) # drop (n + 1) ps'" using Cons_nth_drop_Suc [OF len] nth by simp
      moreover have "take n ps' = take n ps"
        using arg_cong [OF ps'(1), of "take n"] by (simp add: min_def)
      moreover have "drop (n + length (words token t)) ps' = drop (n + length (words token t)) ps"
        using ps'(2) ws wr by simp
      ultimately show ?thesis
        using run l(2) as str [of "l @ 0 # post"] word(1) r ws wr
        by (intro exI [of _ "replicate k token @ w @ 0 # l"] exI [of _ ps']) simp
    qed
  qed
qed

text \<open>
  C34. \<open>cmd_parse\<close> splits a command line at the separator: for a line with at most 16 words it returns their number,
  the entries of \<open>argv\<close> point to strings that are the words, in order, and the other entries are null pointers.
\<close>

theorem cmd_parse_words:
  assumes "token \<noteq> 0" "0 \<notin> set t" "length (words token t) \<le> MAX_ARG_NR"
  shows "\<exists>line ps. cmd_parse (pre @ t @ 0 # post) (length pre) token = Some (line, ps, int (length (words token t))) \<and>
    length line = length (pre @ t @ 0 # post) \<and> arg_strings line ps (length (words token t)) = Some (words token t) \<and>
    drop (length (words token t)) ps = replicate (MAX_ARG_NR - length (words token t)) None"
proof -
  have "0 + length (words token t) \<le> length (replicate MAX_ARG_NR None)" using assms(3) by simp
  from parse_rest [OF assms(1,2) this, of pre post] obtain l ps where
    "cmd_parse_loop (pre @ t @ 0 # post) (replicate MAX_ARG_NR None) token (length pre) 0 =
      Some (pre @ l @ 0 # post, ps, int (length (words token t)))" "length l = length t"
    "drop (length (words token t)) ps = drop (length (words token t)) (replicate MAX_ARG_NR None)"
    "arg_strings (pre @ l @ 0 # post) ps (length (words token t)) = Some (words token t)"
    by (auto simp: MAX_ARG_NR_def)
  then show ?thesis unfolding cmd_parse_def by (intro exI [of _ "pre @ l @ 0 # post"] exI [of _ ps]) simp
qed

lemma cmd_parse_words_witness:
  "\<exists>line ps. cmd_parse (str ''  ls   -l /tmp'' @ 0 # [7]) 0 0x20 = Some (line, ps, 3) \<and>
     arg_strings line ps 3 = Some [str ''ls'', str ''-l'', str ''/tmp'']"
proof -
  have w: "words 0x20 (str ''  ls   -l /tmp'') = [str ''ls'', str ''-l'', str ''/tmp'']" by (simp add: words.simps str_def)
  have z: "0 \<notin> set (str ''  ls   -l /tmp'')" by (simp add: str_def)
  obtain line ps where "cmd_parse ([] @ str ''  ls   -l /tmp'' @ 0 # [7]) (length ([] :: u8 list)) 0x20 = Some (line, ps, int (length (words 0x20 (str ''  ls   -l /tmp''))))"
    "arg_strings line ps (length (words 0x20 (str ''  ls   -l /tmp''))) = Some (words 0x20 (str ''  ls   -l /tmp''))"
    using cmd_parse_words [of "0x20" "str ''  ls   -l /tmp''" "[]" "[7]"] z unfolding w by (auto simp: MAX_ARG_NR_def)
  then show ?thesis unfolding w by (auto simp: numeral_3_eq_3)
qed

lemma parse_overrun:
  assumes "token \<noteq> 0" "0 \<notin> set t" "length ps < n + length (words token t)" "n \<le> length ps" "length ps = MAX_ARG_NR"
  shows "cmd_parse_loop (pre @ t @ 0 # post) ps token (length pre) n = None"
  using assms(2-)
proof (induction t arbitrary: pre ps n rule: length_induct)
  case (1 t)
  show ?case
  proof (cases t token rule: text_cases)
    case (blank k)
    then show ?thesis using 1(3,4) words_blank [of token k] by simp
  next
    case (word k w r)
    have ws: "words token t = w # words token r" unfolding word(1) by (rule words_word [OF word(2-4)])
    have w0: "0 \<notin> set w" using 1(2) word(1) by auto
    show ?thesis
    proof (cases "n = length ps")
      case True
      obtain x xs where x: "w = x # xs" using word(2) by (cases w) auto
      let ?a = "pre @ t @ 0 # post"
      have a: "?a = pre @ replicate k token @ x # xs @ r @ 0 # post" using word(1) x by simp
      have "skip_token ?a token (length pre) = Some (length pre + k)"
        unfolding a by (rule skip_token_run) (use word(3) x in auto)
      moreover have "?a ! (length pre + k) \<noteq> 0" using w0 x unfolding a by (simp add: nth_append)
      moreover have "?a ! length pre \<noteq> 0" using assms(1) w0 x unfolding a by (cases k) (simp_all add: nth_append)
      moreover have "length pre < length ?a" by simp
      moreover have "wr ps n v = None" for v using True by (simp add: wr_def)
      ultimately show ?thesis by (subst cmd_parse_loop.simps) (simp add: Let_def)
    next
      case False
      then have n: "n < length ps" "n \<le> MAX_ARG_NR" using 1(4,5) by simp_all
      have "words token r \<noteq> []" using 1(3) ws n by (cases "words token r") auto
      then obtain c r' where "r = c # r'" by (cases r) (auto simp: words.simps)
      then have r: "r = token # r'" using word(4) by simp
      have wr: "words token r = words token r'" unfolding r by (rule words_tail)
      let ?p = "ps[n := Some (length pre + k)]" let ?pre = "pre @ replicate k token @ w @ [0]"
      have "length r' < length t" "0 \<notin> set r'" "length ?p < n + 1 + length (words token r')" "n + 1 \<le> length ?p" "length ?p = MAX_ARG_NR"
        using 1(2-5) word(1) r ws wr n by simp_all
      then have "cmd_parse_loop (?pre @ r' @ 0 # post) ?p token (length ?pre) (n + 1) = None" using 1(1) by blast
      then show ?thesis using parse_word(2) [OF word(2,3) w0 assms(1) n, of pre k "r' @ 0 # post"] word(1) r by simp
    qed
  qed
qed

text \<open>
  C36. With more than 16 words \<open>cmd_parse\<close> never returns its error value: it stores the pointer to the
  seventeenth word behind the end of \<open>argv\<close>.
\<close>

theorem cmd_parse_overruns_argv:
  assumes "token \<noteq> 0" "0 \<notin> set t" "MAX_ARG_NR < length (words token t)"
  shows "cmd_parse (pre @ t @ 0 # post) (length pre) token = None"
  unfolding cmd_parse_def by (rule parse_overrun [OF assms(1,2)]) (use assms(3) in simp_all)

lemma cmd_parse_overruns_argv_witness: "cmd_parse (concat (replicate 17 [0x78, 0x20]) @ [0]) 0 0x20 = None"
proof -
  let ?t = "concat (replicate 17 [0x78, 0x20]) :: u8 list"
  have w: "words 0x20 (concat (replicate n [0x78, 0x20])) = replicate n [0x78]" for n
  proof (induction n)
    case (Suc n)
    have "words 0x20 (replicate 0 0x20 @ [0x78] @ 0x20 # concat (replicate n [0x78, 0x20])) = [0x78] # words 0x20 (0x20 # concat (replicate n [0x78, 0x20]))"
      by (rule words_word) simp_all
    then show ?case using Suc words_tail by simp
  qed (simp add: words.simps)
  have z: "0 \<notin> set ?t" by auto
  have "cmd_parse ([] @ ?t @ 0 # []) (length ([] :: u8 list)) 0x20 = None"
    by (rule cmd_parse_overruns_argv) (use z w [of 17] in \<open>simp_all add: MAX_ARG_NR_def\<close>)
  then show ?thesis by simp
qed


section \<open>Normalised paths\<close>

definition dot :: "u8 list" where "dot = [0x2e]"
definition dotdot :: "u8 list" where "dotdot = [0x2e, 0x2e]"

definition clean_step :: "u8 list list \<Rightarrow> u8 list \<Rightarrow> u8 list list" where
  "clean_step cs c = (if c = dotdot then butlast cs else if c = dot then cs else cs @ [c])"

text \<open>The specification: \<open>.\<close> is dropped and \<open>..\<close> removes the component before it.\<close>

definition normal_path :: "u8 list list \<Rightarrow> u8 list list" where
  "normal_path cs = foldl clean_step [] cs"

definition path_text :: "u8 list list \<Rightarrow> u8 list" where
  "path_text cs = (if cs = [] then [slash] else join_path cs)"

definition names_ok :: "u8 list list \<Rightarrow> bool" where
  "names_ok cs \<longleftrightarrow> list_all (\<lambda>c. c \<noteq> [] \<and> slash \<notin> set c \<and> 0 \<notin> set c) cs"

lemma join_path_simps [simp]:
  "join_path [] = []" "join_path (c # cs) = slash # c @ join_path cs" "join_path (xs @ ys) = join_path xs @ join_path ys"
  by (simp_all add: join_path_def)

lemma slash_nonzero [simp]: "slash \<noteq> 0" "0 \<noteq> slash"
  by (simp_all add: slash_def)

lemma path_text_nonzero: "names_ok cs \<Longrightarrow> 0 \<notin> set (path_text cs)"
  by (induction cs) (auto simp: path_text_def names_ok_def split: if_splits)

lemma cstr_split: "cstr arr = Some s \<longleftrightarrow> 0 \<notin> set s \<and> (\<exists>ys. arr = s @ 0 # ys)"
proof
  assume "cstr arr = Some s"
  then have s: "0 \<in> set arr" "s = takeWhile (\<lambda>c. c \<noteq> 0) arr" by (auto simp: cstr_def split: if_splits)
  have "dropWhile (\<lambda>c. c \<noteq> 0) arr \<noteq> []" using s(1) by (auto simp: dropWhile_eq_Nil_conv)
  then obtain y ys where y: "dropWhile (\<lambda>c. c \<noteq> 0) arr = y # ys" "y = 0"
    using hd_dropWhile [of "\<lambda>c. c \<noteq> 0" arr] by (metis list.collapse)
  have "arr = s @ 0 # ys" using takeWhile_dropWhile_id [of "\<lambda>c. c \<noteq> 0" arr] y s(2) by simp
  moreover have "0 \<notin> set s" unfolding s(2) using set_takeWhileD by fastforce
  ultimately show "0 \<notin> set s \<and> (\<exists>ys. arr = s @ 0 # ys)" by blast
qed auto

lemma buf_strcat_ok:
  assumes "cstr arr = Some s" "0 \<notin> set t" "length s + length t < length arr"
  shows "\<exists>arr'. buf_strcat arr t = Some arr' \<and> length arr' = length arr \<and> cstr arr' = Some (s @ t)"
proof -
  obtain ys where a: "0 \<notin> set s" "arr = s @ 0 # ys" using assms(1) cstr_split by blast
  have "put_at arr (length s) (t @ [0]) = (s @ t) @ 0 # drop (length t) ys" using a(2) by (simp add: put_at_def)
  moreover have "cstr ((s @ t) @ 0 # drop (length t) ys) = Some (s @ t)" using a(1) assms(2) by (intro cstr_append_zero) simp
  ultimately show ?thesis using assms a put_at_simps(2) [of "length s" "t @ [0]" arr]
    by (simp add: buf_strcat_def buf_write_def)
qed

lemma cstr_cut:
  assumes "cstr arr = Some s" "k \<le> length s"
  shows "wr arr k 0 = Some (arr[k := 0])" "cstr (arr[k := 0]) = Some (take k s)"
proof -
  obtain ys where a: "0 \<notin> set s" "arr = s @ 0 # ys" using assms(1) cstr_split by blast
  then show "wr arr k 0 = Some (arr[k := 0])" using assms(2) by simp
  have k: "k < length arr" using a(2) assms(2) by simp
  have "take k arr = take k s" using a(2) assms(2) by simp
  then have "arr[k := 0] = take k s @ 0 # drop (Suc k) arr" using upd_conv_take_nth_drop [OF k, of 0] by simp
  moreover have "0 \<notin> set (take k s)" using a(1) by (auto dest: in_set_takeD)
  ultimately show "cstr (arr[k := 0]) = Some (take k s)" by simp
qed

definition holds_path :: "u8 list \<Rightarrow> u8 list list \<Rightarrow> bool" where
  "holds_path arr cs \<longleftrightarrow> length arr = MAX_PATH_LEN \<and> names_ok cs \<and> cstr arr = Some (path_text cs)"

lemma names_ok_step: "names_ok cs \<Longrightarrow> names_ok [c] \<Longrightarrow> names_ok (clean_step cs c)"
  by (auto simp: names_ok_def clean_step_def list_all_iff dest: in_set_butlastD)

lemma clean_step_length: "length (join_path (clean_step cs c)) \<le> length (join_path cs) + length (join_path [c])"
  by (cases cs rule: rev_cases) (auto simp: clean_step_def)

lemma wash_step_clean:
  assumes h: "holds_path arr cs" and c: "names_ok [c]" and fit: "length (join_path cs) + length (join_path [c]) < MAX_PATH_LEN"
  shows "\<exists>arr'. wash_step c arr = Some arr' \<and> holds_path arr' (clean_step cs c)"
proof -
  have ok: "names_ok cs" "cstr arr = Some (path_text cs)" "length arr = MAX_PATH_LEN" using h by (simp_all add: holds_path_def)
  have ok': "names_ok (clean_step cs c)" by (rule names_ok_step [OF ok(1) c])
  consider (up) "c = dotdot" | (here) "c = dot" | (down) "c \<noteq> dotdot" "c \<noteq> dot" by blast
  then show ?thesis
  proof cases
    case up
    obtain k where k: "last_slash (path_text cs) = Some k" "(if k \<noteq> 0 then k else k + 1) \<le> length (path_text cs)"
      "take (if k \<noteq> 0 then k else k + 1) (path_text cs) = path_text (butlast cs)"
    proof (cases cs rule: rev_cases)
      case Nil
      then show thesis by (intro that [of 0]) (simp_all add: path_text_def last_slash_def after_slash_def)
    next
      case (snoc ds d)
      have "slash \<notin> set d" using ok(1) snoc by (simp add: names_ok_def)
      then have a: "after_slash (join_path ds @ slash # d) = d" by (rule after_slash_append)
      have t: "path_text cs = join_path ds @ slash # d" using snoc by (simp add: path_text_def)
      have "length (join_path ds) \<noteq> 0 \<longleftrightarrow> ds \<noteq> []" by (cases ds) simp_all
      then show thesis unfolding t using a snoc
        by (intro that [of "length (join_path ds)"]) (auto simp: last_slash_def path_text_def)
    qed
    note cut = cstr_cut [OF ok(2) k(2)]
    have "wash_step c arr = Some (arr[(if k \<noteq> 0 then k else k + 1) := 0])"
      using up ok(2) k(1) cut(1) by (simp add: wash_step_def dotdot_def)
    then show ?thesis using cut(2) k(3) ok(3) ok' up by (simp add: holds_path_def clean_step_def)
  next
    case here
    then show ?thesis using h by (auto simp: wash_step_def clean_step_def dot_def dotdot_def)
  next
    case down
    let ?s = "if path_text cs = [slash] then path_text cs else path_text cs @ [slash]"
    have sl: "path_text cs = [slash] \<longleftrightarrow> cs = []" using ok(1) by (cases cs) (auto simp: path_text_def names_ok_def)
    have len: "length (path_text cs) + 1 < length arr" using fit c ok(3) sl
      by (cases "cs = []") (auto simp: path_text_def names_ok_def MAX_PATH_LEN_def neq_Nil_conv)
    obtain a where a: "(if path_text cs \<noteq> [slash] then buf_strcat arr [slash] else Some arr) = Some a" "length a = length arr" "cstr a = Some ?s"
      using buf_strcat_ok [OF ok(2), of "[slash]"] len ok(2) by (cases "path_text cs = [slash]") auto
    have "length ?s + length c < length a" using fit ok(3) a(2) sl by (cases "cs = []") (auto simp: path_text_def)
    then obtain b where b: "buf_strcat a c = Some b" "length b = length a" "cstr b = Some (?s @ c)"
      using buf_strcat_ok [OF a(3), of c] c by (auto simp: names_ok_def)
    have "?s @ c = path_text (clean_step cs c)" using down sl by (cases "cs = []") (simp_all add: path_text_def clean_step_def)
    moreover have "wash_step c arr = Some b"
      using down ok(2) a(1) b(1) unfolding wash_step_def dot_def dotdot_def by (simp split: if_splits)
    ultimately show ?thesis using a(2) b(2,3) ok(3) ok' by (simp add: holds_path_def)
  qed
qed

text \<open>Names that fit into the array with their terminator.\<close>

definition proper_names :: "u8 list \<Rightarrow> bool" where
  "proper_names p \<longleftrightarrow> list_all (\<lambda>c. length c < MAX_FILE_NAME_LEN) (components p) \<and> 0 \<notin> set p"

lemma proper_short: "proper_names p \<Longrightarrow> short_names p"
  by (auto simp: proper_names_def short_names_def list_all_iff)

lemma components_names_ok:
  "0 \<notin> set p \<Longrightarrow> names_ok (components p)"
proof (induction p rule: length_induct)
  case (1 p)
  show ?case
  proof (cases "dropWhile (\<lambda>c. c = slash) p = []")
    case True
    then show ?thesis using components_empty by (simp add: names_ok_def)
  next
    case False
    let ?q = "dropWhile (\<lambda>c. c = slash) p"
    let ?c = "takeWhile (\<lambda>c. c \<noteq> slash) ?q" and ?r = "dropWhile (\<lambda>c. c \<noteq> slash) ?q"
    have q0: "0 \<notin> set ?q" using 1(2) set_dropWhileD by metis
    have hd: "hd ?q \<noteq> slash" using hd_dropWhile [of "\<lambda>c. c = slash" p] False by blast
    then have c: "?c \<noteq> []" using False by (cases ?q) auto
    have "length ?r < length ?q" using c takeWhile_dropWhile_id [of "\<lambda>c. c \<noteq> slash" ?q] by (metis length_append length_greater_0_conv less_add_same_cancel2)
    then have "length ?r < length p" using length_dropWhile_le [of "\<lambda>c. c = slash" p] by linarith
    moreover have "0 \<notin> set ?r" using q0 set_dropWhileD by metis
    ultimately have "names_ok (components ?r)" using 1(1) by blast
    moreover have "slash \<notin> set ?c" "0 \<notin> set ?c" using q0 set_takeWhileD by fastforce+
    ultimately show ?thesis using c unfolding components_step [OF False] by (simp add: names_ok_def)
  qed
qed

lemma name_array:
  assumes "c \<noteq> []" "0 \<notin> set c" "length c < MAX_FILE_NAME_LEN"
  shows "put_at no_name 0 c ! 0 \<noteq> 0" "cstr (put_at no_name 0 c) = Some c"
proof -
  have p: "put_at no_name 0 c = c @ replicate (MAX_FILE_NAME_LEN - length c) 0" by (simp add: put_at_def no_name_def)
  show "put_at no_name 0 c ! 0 \<noteq> 0" using assms(1,2) unfolding p by (cases c) simp_all
  show "cstr (put_at no_name 0 c) = Some c" unfolding p by (rule cstr_zeros) (use assms in simp_all)
qed

lemma wash_loop_clean:
  assumes "names_ok (c # cs)" "list_all (\<lambda>c. length c < MAX_FILE_NAME_LEN) (c # cs)"
    and "case sub of None \<Rightarrow> cs = [] | Some r \<Rightarrow> short_names r \<and> components r = cs"
    and "holds_path arr ds" "length (join_path ds) + length (join_path (c # cs)) < MAX_PATH_LEN"
  shows "\<exists>arr'. wash_loop sub (put_at no_name 0 c) arr = Some arr' \<and> holds_path arr' (foldl clean_step ds (c # cs))"
  using assms
proof (induction cs arbitrary: c sub arr ds)
  case Nil
  have nm: "put_at no_name 0 c ! 0 \<noteq> 0" "cstr (put_at no_name 0 c) = Some c"
    using name_array [of c] Nil(1,2) by (simp_all add: names_ok_def)
  obtain b where b: "wash_step c arr = Some b" "holds_path b (clean_step ds c)"
    using wash_step_clean [OF Nil(4), of c] Nil(1,5) by auto
  have stop: "wash_loop s no_name e = Some e" for s e
    by (subst wash_loop.simps) (simp add: no_name_def MAX_FILE_NAME_LEN_def)
  have "\<exists>s. next_name sub = Some (s, no_name)"
  proof (cases sub)
    case (Some r)
    have "components r = []" using Nil(3) Some by simp
    then have q: "dropWhile (\<lambda>c. c = slash) r = []" using components_step [of r] by (metis list.distinct(1))
    show ?thesis unfolding Some next_name_def path_parse_def Let_def option.case q by (simp add: buf_write_def put_at_def)
  qed (simp add: next_name_def)
  then show ?case using nm b stop by (subst wash_loop.simps) auto
next
  case (Cons c2 cs)
  have nm: "put_at no_name 0 c ! 0 \<noteq> 0" "cstr (put_at no_name 0 c) = Some c"
    using name_array [of c] Cons(2,3) by (simp_all add: names_ok_def)
  obtain b where b: "wash_step c arr = Some b" "holds_path b (clean_step ds c)"
    using wash_step_clean [OF Cons(5), of c] Cons(2,6) by (auto simp: names_ok_def)
  obtain r where r: "sub = Some r" "short_names r" "components r = c2 # cs" using Cons(4) by (cases sub) auto
  have "length no_name = MAX_FILE_NAME_LEN" by (simp add: no_name_def)
  from path_parse_component [OF r(2,3) this] obtain s where s: "path_parse r no_name = Some (s, put_at no_name 0 c2)"
    "case s of None \<Rightarrow> cs = [] | Some r \<Rightarrow> short_names r \<and> components r = cs" by blast
  have "length (join_path (clean_step ds c)) + length (join_path (c2 # cs)) < MAX_PATH_LEN"
    using clean_step_length [of ds c] Cons(6) by simp
  then obtain a where "wash_loop s (put_at no_name 0 c2) b = Some a" "holds_path a (foldl clean_step (clean_step ds c) (c2 # cs))"
    using Cons.IH [OF _ _ s(2) b(2)] Cons(2,3) by (auto simp: names_ok_def)
  then show ?case using nm b r(1) s(1) by (subst wash_loop.simps) (simp add: next_name_def)
qed

lemma normal_path_clean: "names_ok cs \<Longrightarrow> names_ok (normal_path cs) \<and> dot \<notin> set (normal_path cs) \<and> dotdot \<notin> set (normal_path cs)"
proof (induction cs rule: rev_induct)
  case (snoc c cs)
  have s: "normal_path (cs @ [c]) = clean_step (normal_path cs) c" by (simp add: normal_path_def)
  have IH: "names_ok (normal_path cs)" "dot \<notin> set (normal_path cs)" "dotdot \<notin> set (normal_path cs)" "names_ok [c]"
    using snoc by (simp_all add: names_ok_def)
  have "dot \<notin> set (clean_step (normal_path cs) c)" "dotdot \<notin> set (clean_step (normal_path cs) c)"
    using IH(2,3) by (auto simp: clean_step_def dest: in_set_butlastD)
  then show ?case unfolding s using names_ok_step [OF IH(1,4)] by blast
qed (simp add: normal_path_def names_ok_def)

text \<open>
  C35. \<open>wash_path\<close> turns an absolute path into the path of the same place without \<open>.\<close>, \<open>..\<close>, doubled or
  trailing slashes: the components are those of the specification, which removes the component before
  each \<open>..\<close> and stays at the root when there is none.
\<close>

theorem wash_path_normalises:
  assumes "p \<noteq> []" "p ! 0 = slash" "proper_names p" "length (join_path (components p)) < MAX_PATH_LEN" "length arr = MAX_PATH_LEN"
  shows "\<exists>arr'. wash_path p arr = Some arr' \<and> length arr' = MAX_PATH_LEN \<and> cstr arr' = Some (path_text (normal_path (components p))) \<and>
    dot \<notin> set (normal_path (components p)) \<and> dotdot \<notin> set (normal_path (components p))"
proof (cases "components p")
  case Nil
  then have q: "dropWhile (\<lambda>c. c = slash) p = []" using components_step [of p] by (metis list.distinct(1))
  have "path_parse p no_name = Some (None, no_name)" unfolding path_parse_def Let_def q by (simp add: buf_write_def put_at_def)
  moreover have "no_name ! 0 = 0" by (simp add: no_name_def MAX_FILE_NAME_LEN_def)
  moreover have "cstr (put_at arr 0 [slash, 0]) = Some [slash]" using cstr_append_zero [of "[slash]"] by (simp add: put_at_def)
  ultimately show ?thesis
    using assms(1,2,5) Nil put_at_simps(2) [of 0 "[slash, 0]" arr]
    by (simp add: wash_path_def buf_write_def normal_path_def path_text_def MAX_PATH_LEN_def)
next
  case (Cons c cs)
  have ok: "names_ok (components p)" using assms(3) by (intro components_names_ok) (simp add: proper_names_def)
  have len: "length no_name = MAX_FILE_NAME_LEN" by (simp add: no_name_def)
  obtain s where s: "path_parse p no_name = Some (s, put_at no_name 0 c)" "put_at no_name 0 c ! 0 \<noteq> 0"
    "case s of None \<Rightarrow> cs = [] | Some r \<Rightarrow> short_names r \<and> components r = cs"
    using path_parse_component [OF proper_short [OF assms(3)] Cons len] by blast
  have z: "wr arr 0 0 = Some (arr[0 := 0])" "cstr (arr[0 := 0]) = Some []"
    using assms(5) by (cases arr; simp add: MAX_PATH_LEN_def cstr_def)+
  obtain b where b: "buf_strcat (arr[0 := 0]) [slash] = Some b" "length b = MAX_PATH_LEN" "cstr b = Some [slash]"
    using buf_strcat_ok [OF z(2), of "[slash]"] assms(5) by (auto simp: MAX_PATH_LEN_def)
  then have h: "holds_path b []" by (simp add: holds_path_def names_ok_def path_text_def)
  obtain a where "wash_loop s (put_at no_name 0 c) b = Some a" "holds_path a (foldl clean_step [] (c # cs))"
    using wash_loop_clean [OF _ _ s(3) h] ok assms(3,4) Cons by (auto simp: proper_names_def)
  then show ?thesis
    using assms(1,2) s(1,2) z(1) b(1) normal_path_clean [OF ok] Cons by (simp add: wash_path_def holds_path_def normal_path_def)
qed

lemma wash_path_normalises_witness:
  "\<exists>arr'. wash_path (str ''/home/./rabbit//../x/'') (replicate 512 7) = Some arr' \<and> cstr arr' = Some (str ''/home/x'')"
proof -
  have c: "components (str ''/home/./rabbit//../x/'') = [str ''home'', str ''.'', str ''rabbit'', str ''..'', str ''x'']"
    by (simp add: components_def words.simps str_def slash_def)
  have n: "normal_path (components (str ''/home/./rabbit//../x/'')) = [str ''home'', str ''x'']"
    unfolding c by (simp add: normal_path_def clean_step_def dot_def dotdot_def str_def)
  have p: "proper_names (str ''/home/./rabbit//../x/'')" unfolding proper_names_def c by (simp add: str_def MAX_FILE_NAME_LEN_def)
  have "path_text [str ''home'', str ''x''] = str ''/home/x''" by (simp add: path_text_def str_def slash_def)
  then show ?thesis
    using wash_path_normalises [OF _ _ p, of "replicate 512 7"] n unfolding c
    by (auto simp: MAX_PATH_LEN_def str_def slash_def)
qed

end
