(* ===== verification/File_Spec.thy ===== *)
theory File_Spec
  imports Dir_Spec
begin

text \<open>
  A file as a list of bytes: \<open>file_write\<close> appends and \<open>file_read\<close> reads, for files in the twelve direct
  blocks.  The blocks of a file are the entries of \<open>i_sectors\<close> up to the one of the last byte.
\<close>

section \<open>Free blocks\<close>

definition free_blocks :: "machine \<Rightarrow> nat" where
  "free_blocks f = nbits (block_bitmap (cpart f)) - card (used_lbas f)"

text \<open>
  \<open>file_write\<close> counts the index for the sector of the bitmap from \<open>block_bitmap_lba\<close> on.  The sector that it
  writes is one of the bitmap as long as no free block is too close to the end of the bitmap.
\<close>

definition far_free :: "machine \<Rightarrow> bool" where
  "far_free f \<longleftrightarrow> (\<forall>b. data_start_lba (sb (cpart f)) \<le> b \<and> b - data_start_lba (sb (cpart f)) < nbits (block_bitmap (cpart f)) \<and>
     b \<notin> used_lbas f \<longrightarrow> b - block_bitmap_lba (sb (cpart f)) < nbits (block_bitmap (cpart f)))"

lemma used_lbas_range:
  assumes "fs_ok f" "b \<in> used_lbas f"
  shows "data_start_lba (sb (cpart f)) \<le> b" "b \<le> max_lba" "0 < b"
proof -
  obtain i where i: "b = data_start_lba (sb (cpart f)) + i" "i < nbits (block_bitmap (cpart f))"
    using assms(2) used_less by (auto simp: used_lbas_def)
  then show "data_start_lba (sb (cpart f)) \<le> b" "b \<le> max_lba" "0 < b" using fs_okD(7,8) [OF assms(1)] by linarith+
qed

lemma card_used_lbas_le: "card (used_lbas f) \<le> nbits (block_bitmap (cpart f))"
proof -
  have "card (used (block_bitmap (cpart f))) \<le> card {..<nbits (block_bitmap (cpart f))}"
    by (rule card_mono) (simp_all add: used_less)
  then show ?thesis unfolding card_used_lbas(1) by simp
qed

lemma free_block_left: "0 < free_blocks f \<Longrightarrow> block_left f"
  unfolding block_left_def free_blocks_def card_used_lbas(1) by (rule notI) simp

lemma alloc_block:
  assumes ok: "fs_ok f" and far: "far_free f" and left: "0 < free_blocks f"
  obtains g lba where "block_bitmap_alloc (cur_part f) f = Some (g, int lba)" "same_data f g" "fs_ok g" "far_free g"
    "lba \<notin> used_lbas f" "used_lbas g = insert lba (used_lbas f)" "free_blocks g = free_blocks f - 1"
    "lba - data_start_lba (sb (cpart f)) < nbits (block_bitmap (cpart g))"
    "lba - block_bitmap_lba (sb (cpart f)) < nbits (block_bitmap (cpart g))"
    "data_start_lba (sb (cpart f)) \<le> lba" "lba \<le> max_lba"
proof -
  obtain g lba where g: "block_bitmap_alloc (cur_part f) f = Some (g, int lba)" "same_data f g" "fs_ok g"
    "lba \<notin> used_lbas f" "used_lbas g = insert lba (used_lbas f)" "data_start_lba (sb (cpart f)) \<le> lba" "lba \<le> max_lba"
    "lba - data_start_lba (sb (cpart f)) < nbits (block_bitmap (cpart f))"
    "nbits (block_bitmap (cpart g)) = nbits (block_bitmap (cpart f))"
    by (rule block_alloc_ok [OF ok free_block_left [OF left]])
  have sb: "sb (cpart g) = sb (cpart f)" using g(2) by (simp add: same_data_def)
  have "far_free g" using far unfolding far_free_def sb g(5,9) by blast
  moreover have "free_blocks g = free_blocks f - 1" using g(4,5,9) card_used_lbas(2) [of f] by (simp add: free_blocks_def)
  moreover have "lba - block_bitmap_lba (sb (cpart f)) < nbits (block_bitmap (cpart g))"
    using far g(4,6,8) unfolding far_free_def g(9) by blast
  ultimately show thesis using g by (intro that [of g lba]) simp_all
qed

lemma part_cong:
  assumes "cpart g = cpart f"
  shows "used_lbas g = used_lbas f" "free_blocks g = free_blocks f" "far_free g = far_free f"
  using assms by (simp_all add: used_lbas_def free_blocks_def far_free_def)


section \<open>The blocks of a file\<close>

definition blocks_ok :: "machine \<Rightarrow> u32 \<Rightarrow> nat \<Rightarrow> bool" where
  "blocks_ok f a m \<longleftrightarrow> (let ss = i_sectors (inodes f a) in
     length ss = 13 \<and> m \<le> 12 \<and> distinct (take m ss) \<and> set (take m ss) \<subseteq> used_lbas f \<and> (\<forall>k. m \<le> k \<and> k < 13 \<longrightarrow> ss ! k = 0))"

lemma blocks_okD:
  assumes "blocks_ok f a m"
  shows "length (i_sectors (inodes f a)) = 13" "m \<le> 12" "distinct (take m (i_sectors (inodes f a)))"
    "\<And>k. k < m \<Longrightarrow> i_sectors (inodes f a) ! k \<in> used_lbas f"
    "\<And>k. m \<le> k \<Longrightarrow> k < 13 \<Longrightarrow> i_sectors (inodes f a) ! k = 0"
proof -
  have b: "length (i_sectors (inodes f a)) = 13" "m \<le> 12" "distinct (take m (i_sectors (inodes f a)))"
    "set (take m (i_sectors (inodes f a))) \<subseteq> used_lbas f" "\<forall>k. m \<le> k \<and> k < 13 \<longrightarrow> i_sectors (inodes f a) ! k = 0"
    using assms by (simp_all add: blocks_ok_def Let_def)
  show "length (i_sectors (inodes f a)) = 13" "m \<le> 12" "distinct (take m (i_sectors (inodes f a)))" by fact+
  show "i_sectors (inodes f a) ! k \<in> used_lbas f" if "k < m" for k
  proof -
    have "take m (i_sectors (inodes f a)) ! k \<in> set (take m (i_sectors (inodes f a)))" using that b(1,2) by (intro nth_mem) simp
    then show ?thesis using that b(4) by auto
  qed
  show "i_sectors (inodes f a) ! k = 0" if "m \<le> k" "k < 13" for k using that b(5) by blast
qed

text \<open>Only the bitmap and the sectors of the inode differ.\<close>

definition grew :: "u32 \<Rightarrow> machine \<Rightarrow> machine \<Rightarrow> bool" where
  "grew a f g \<longleftrightarrow> file_table g = file_table f \<and> krn g = krn f \<and> cur_part g = cur_part f \<and>
     my_disk (cpart g) = my_disk (cpart f) \<and> sb (cpart g) = sb (cpart f) \<and> used_lbas f \<subseteq> used_lbas g \<and>
     (\<forall>s \<ge> data_start_lba (sb (cpart f)). sectors g (my_disk (cpart f)) s = sectors f (my_disk (cpart f)) s) \<and>
     (\<exists>ss. inodes g = (inodes f)(a := (inodes f a)\<lparr>i_sectors := ss\<rparr>))"

lemma grew_refl [simp]: "grew a f f"
  by (auto simp: grew_def intro: exI [of _ "i_sectors (inodes f a)"])

lemma grew_trans: "grew a f g \<Longrightarrow> grew a g h \<Longrightarrow> grew a f h"
  by (auto simp: grew_def)

lemma grew_frame:
  assumes "grew a f g"
  shows "i_size (inodes g a) = i_size (inodes f a)" "file_table g = file_table f" "krn g = krn f" "cur_part g = cur_part f"
    "my_disk (cpart g) = my_disk (cpart f)" "sb (cpart g) = sb (cpart f)" "i_no (inodes g a) = i_no (inodes f a)"
    "i_open_cnts (inodes g a) = i_open_cnts (inodes f a)" "b \<noteq> a \<Longrightarrow> inodes g b = inodes f b" "used_lbas f \<subseteq> used_lbas g"
  using assms by (auto simp: grew_def)

text \<open>One more direct block, and the sector of the bitmap on the disk.\<close>

lemma add_block:
  assumes ok: "fs_ok f" and far: "far_free f" and left: "0 < free_blocks f" and bl: "blocks_ok f a m" and m: "m < 12"
    and base: "base = data_start_lba (sb (cpart f)) \<or> base = block_bitmap_lba (sb (cpart f))"
  obtains g lba h where "block_bitmap_alloc (cur_part f) f = Some (g, int lba)" "same_data f g" "lba \<notin> used_lbas f"
    "bitmap_sync (cur_part f) (sub32 lba base) BLOCK_BITMAP (set_sector a m lba g) = Some h" "fs_ok h" "far_free h"
    "blocks_ok h a (Suc m)" "grew a f h" "free_blocks h = free_blocks f - 1"
    "i_sectors (inodes h a) = (i_sectors (inodes f a))[m := lba]" "used_lbas h = insert lba (used_lbas f)"
proof -
  obtain g lba where g: "block_bitmap_alloc (cur_part f) f = Some (g, int lba)" "same_data f g" "fs_ok g" "far_free g"
    "lba \<notin> used_lbas f" "used_lbas g = insert lba (used_lbas f)" "free_blocks g = free_blocks f - 1"
    "lba - data_start_lba (sb (cpart f)) < nbits (block_bitmap (cpart g))"
    "lba - block_bitmap_lba (sb (cpart f)) < nbits (block_bitmap (cpart g))"
    "data_start_lba (sb (cpart f)) \<le> lba" "lba \<le> max_lba"
    by (rule alloc_block [OF ok far left])
  let ?g = "set_sector a m lba g"
  have gd: "inodes g = inodes f" "cur_part g = cur_part f" "sb (cpart g) = sb (cpart f)" using g(2) by (simp_all add: same_data_def)
  have okg: "fs_ok ?g" and cg: "cpart ?g = cpart g" "cur_part ?g = cur_part f" using g(3) gd by (simp_all add: set_sector_def)
  have "base \<le> lba" using base g(10) fs_okD(6,7) [OF ok] by linarith
  then have "sub32 lba base < nbits (block_bitmap (cpart ?g))" using base g(8,9) cg by auto
  then have "sub32 lba base div 4096 < nbits (block_bitmap (cpart ?g)) div 4096" by (rule fs_ok_sector [OF okg])
  then obtain h where h: "bitmap_sync (cur_part ?g) (sub32 lba base) BLOCK_BITMAP ?g = Some h" "same_data ?g h" "parts h = parts ?g" "fs_ok h"
    using block_bitmap_sync [OF okg] by blast
  have hd: "inodes h = inodes ?g" "cur_part h = cur_part f" "cpart h = cpart g"
    using h(2,3) cg by (simp_all add: same_data_def cpart_def)
  note b = blocks_okD [OF bl]
  have ss: "i_sectors (inodes h a) = (i_sectors (inodes f a))[m := lba]" using hd(1) gd(1) by (simp add: set_sector_def)
  note pc = part_cong [OF hd(3)]
  have "blocks_ok h a (Suc m)"
  proof -
    have t: "take (Suc m) ((i_sectors (inodes f a))[m := lba]) = take m (i_sectors (inodes f a)) @ [lba]"
      using b(1) m by (simp add: take_Suc_conv_app_nth)
    have sub: "set (take m (i_sectors (inodes f a))) \<subseteq> used_lbas f" using bl by (simp add: blocks_ok_def Let_def)
    then have "lba \<notin> set (take m (i_sectors (inodes f a)))" using g(5) by auto
    then show ?thesis unfolding blocks_ok_def Let_def ss t pc(1) g(6) using b m sub by auto
  qed
  moreover have "grew a f h"
    using g(2,6) h(2) hd gd pc(1) cg by (auto simp: grew_def same_data_def set_sector_def)
  ultimately show thesis
    using g(1,2,4,5,6,7) h(1,4) ss pc cg(2) by (intro that [of g lba h]) simp_all
qed

text \<open>The loop over the new blocks: they go to the inode and to the caller's array.\<close>

lemma alloc_direct_ok:
  assumes "fs_ok f" "far_free f" "n \<le> free_blocks f" "blocks_ok f a m" "m + n \<le> 12" "length blks = 140"
  shows "\<exists>g blks'. alloc_direct a blks m n f = Some (g, Some blks') \<and> fs_ok g \<and> far_free g \<and> blocks_ok g a (m + n) \<and>
    grew a f g \<and> free_blocks g = free_blocks f - n \<and> take m (i_sectors (inodes g a)) = take m (i_sectors (inodes f a)) \<and> length blks' = 140 \<and>
    (\<forall>k < m. blks' ! k = blks ! k) \<and> (\<forall>k. m \<le> k \<and> k < m + n \<longrightarrow> blks' ! k = i_sectors (inodes g a) ! k) \<and>
    set (take (m + n) (i_sectors (inodes g a))) \<inter> used_lbas f \<subseteq> set (take m (i_sectors (inodes f a)))"
  using assms
proof (induction n arbitrary: f m blks)
  case 0
  then show ?case by auto
next
  case (Suc n)
  note bl = blocks_okD [OF Suc.prems(4)]
  have m: "m < 12" "0 < free_blocks f" using Suc.prems(3,5) by simp_all
  obtain g lba h where h: "block_bitmap_alloc (cur_part f) f = Some (g, int lba)" "same_data f g" "lba \<notin> used_lbas f"
    "bitmap_sync (cur_part f) (sub32 lba (block_bitmap_lba (sb (cpart f)))) BLOCK_BITMAP (set_sector a m lba g) = Some h" "fs_ok h" "far_free h"
    "blocks_ok h a (Suc m)" "grew a f h" "free_blocks h = free_blocks f - 1"
    "i_sectors (inodes h a) = (i_sectors (inodes f a))[m := lba]" "used_lbas h = insert lba (used_lbas f)"
    by (rule add_block [OF Suc.prems(1,2) m(2) Suc.prems(4) m(1), of "block_bitmap_lba (sb (cpart f))"]) auto
  have gd: "inodes g = inodes f" "cur_part g = cur_part f" "sb (cpart g) = sb (cpart f)" using h(2) by (simp_all add: same_data_def)
  have z: "i_sectors (inodes f a) ! m = 0" using bl(5) m by simp
  have step: "alloc_direct a blks m (Suc n) f = alloc_direct a (blks[m := lba]) (m + 1) n h"
    using h(1,4) z m gd by (simp add: set_sector_def)
  obtain k blks' where k: "alloc_direct a (blks[m := lba]) (Suc m) n h = Some (k, Some blks')" "fs_ok k" "far_free k"
    "blocks_ok k a (Suc m + n)" "grew a h k" "free_blocks k = free_blocks h - n" "take (Suc m) (i_sectors (inodes k a)) = take (Suc m) (i_sectors (inodes h a))"
    "length blks' = 140" "\<forall>j < Suc m. blks' ! j = blks[m := lba] ! j"
    "\<forall>j. Suc m \<le> j \<and> j < Suc m + n \<longrightarrow> blks' ! j = i_sectors (inodes k a) ! j"
    "set (take (Suc m + n) (i_sectors (inodes k a))) \<inter> used_lbas h \<subseteq> set (take (Suc m) (i_sectors (inodes h a)))"
  proof -
    have "n \<le> free_blocks h" "Suc m + n \<le> 12" "length (blks[m := lba]) = 140" using Suc.prems(3,5,6) h(9) by simp_all
    from Suc.IH [OF h(5,6) this(1) h(7) this(2,3)] show thesis using that by blast
  qed
  have old: "take (Suc m) (i_sectors (inodes h a)) = take m (i_sectors (inodes f a)) @ [lba]"
    using h(10) bl(1) m by (simp add: take_Suc_conv_app_nth)
  have pre: "take m (i_sectors (inodes k a)) = take m (i_sectors (inodes f a))"
    using arg_cong [OF k(7), of "take m"] h(10) by (simp add: take_take)
  have at: "i_sectors (inodes k a) ! m = lba"
    using arg_cong [OF k(7), of "\<lambda>xs. xs ! m"] h(10) bl(1) m by simp
  have "blks' ! j = i_sectors (inodes k a) ! j" if "m \<le> j" "j < m + Suc n" for j
    using that k(9,10) at Suc.prems(5,6) by (cases "j = m") auto
  moreover have "\<forall>j < m. blks' ! j = blks ! j" using k(9) by simp
  moreover have "set (take (m + Suc n) (i_sectors (inodes k a))) \<inter> used_lbas f \<subseteq> set (take m (i_sectors (inodes f a)))"
    using k(11) h(3,11) unfolding old by auto
  ultimately show ?case
    unfolding step using k(1,2,3,4,6,8) h(9) pre grew_trans [OF h(8) k(5)] by auto
qed

text \<open>The blocks for a write that stays in the direct blocks, the first block of an empty file apart.\<close>

lemma write_blocks_ok:
  assumes "fs_ok f" "far_free f" "will - m \<le> free_blocks f" "blocks_ok f a m" "0 < m" "m \<le> will" "will \<le> 12"
  shows "\<exists>g blks. write_blocks a m will f = Some (g, Some blks) \<and> fs_ok g \<and> far_free g \<and> blocks_ok g a will \<and>
    grew a f g \<and> free_blocks g = free_blocks f - (will - m) \<and> take m (i_sectors (inodes g a)) = take m (i_sectors (inodes f a)) \<and> length blks = 140 \<and>
    (\<forall>k. m - 1 \<le> k \<and> k < will \<longrightarrow> blks ! k = i_sectors (inodes g a) ! k) \<and>
    set (take will (i_sectors (inodes g a))) \<inter> used_lbas f \<subseteq> set (take m (i_sectors (inodes f a)))"
proof -
  note bl = blocks_okD [OF assms(4)]
  let ?blks = "(replicate 140 0)[m - 1 := i_sectors (inodes f a) ! (m - 1)]"
  have nz: "i_sectors (inodes f a) ! (m - 1) \<noteq> 0" using used_lbas_range(3) [OF assms(1) bl(4) [of "m - 1"]] assms(5) by simp
  have len: "length ?blks = 140" by simp
  have last: "?blks ! (m - 1) = i_sectors (inodes f a) ! (m - 1)" using assms(6,7) by simp
  show ?thesis
  proof (cases "will = m")
    case True
    then have "write_blocks a m will f = Some (f, Some ?blks)" using assms(7) by (simp add: write_blocks_def Let_def)
    moreover have "\<forall>k. m - 1 \<le> k \<and> k < will \<longrightarrow> ?blks ! k = i_sectors (inodes f a) ! k"
    proof (intro allI impI)
      fix k assume "m - 1 \<le> k \<and> k < will"
      then have "k = m - 1" using True by linarith
      then show "?blks ! k = i_sectors (inodes f a) ! k" using last by simp
    qed
    ultimately show ?thesis using assms(1,2,4) True len by auto
  next
    case False
    then have lt: "m < will" using assms(6) by simp
    have run: "write_blocks a m will f = alloc_direct a ?blks m (will - m) f"
      using lt assms(5,7) nz by (simp add: write_blocks_def Let_def)
    obtain g blks where g: "alloc_direct a ?blks m (will - m) f = Some (g, Some blks)" "fs_ok g" "far_free g"
      "blocks_ok g a (m + (will - m))" "grew a f g" "free_blocks g = free_blocks f - (will - m)" "take m (i_sectors (inodes g a)) = take m (i_sectors (inodes f a))" "length blks = 140"
      "\<forall>k < m. blks ! k = ?blks ! k" "\<forall>k. m \<le> k \<and> k < m + (will - m) \<longrightarrow> blks ! k = i_sectors (inodes g a) ! k"
      "set (take (m + (will - m)) (i_sectors (inodes g a))) \<inter> used_lbas f \<subseteq> set (take m (i_sectors (inodes f a)))"
      using alloc_direct_ok [OF assms(1,2,3,4) _ len] assms(7) lt by auto
    have "i_sectors (inodes g a) ! (m - 1) = i_sectors (inodes f a) ! (m - 1)"
      using arg_cong [OF g(7), of "\<lambda>xs. xs ! (m - 1)"] assms(5) by simp
    then have "blks ! k = i_sectors (inodes g a) ! k" if "m - 1 \<le> k" "k < will" for k
      using that g(9,10) last assms(5) by (cases "k = m - 1") auto
    then show ?thesis unfolding run using g lt by auto
  qed
qed



section \<open>The contents\<close>

definition file_sectors :: "machine \<Rightarrow> u32 \<Rightarrow> u8 list list" where
  "file_sectors f a = map (sectors f (my_disk (cpart f))) (take 12 (i_sectors (inodes f a)))"

definition file_bytes :: "machine \<Rightarrow> u32 \<Rightarrow> u8 list" where
  "file_bytes f a = concat (file_sectors f a)"

definition contents :: "machine \<Rightarrow> u32 \<Rightarrow> u8 list" where
  "contents f a = take (i_size (inodes f a)) (file_bytes f a)"

lemma length_concat_sectors: "\<forall>x \<in> set L. length x = 512 \<Longrightarrow> length (concat L) = 512 * length L"
  by (induction L) simp_all

lemma take_concat:
  assumes "\<forall>x \<in> set L. length x = 512" "k < length L" "n \<le> 512"
  shows "take (512 * k + n) (concat L) = take (512 * k) (concat L) @ take n (L ! k)"
proof -
  have "\<forall>x \<in> set (take k L). length x = 512" using assms(1) by (meson in_set_takeD)
  then have len: "length (concat (take k L)) = 512 * k" using length_concat_sectors [of "take k L"] assms(2) by simp
  have "concat L = concat (take k L) @ L ! k @ concat (drop (Suc k) L)"
    using id_take_nth_drop [OF assms(2)] by (metis concat.simps(2) concat_append)
  then show ?thesis using len assms by (simp add: nth_mem)
qed

lemma take_concat_update:
  assumes "\<forall>x \<in> set L. length x = 512" "k < length L" "length b = 512" "n \<le> 512"
  shows "take (512 * k + n) (concat (L[k := b])) = take (512 * k) (concat L) @ take n b"
proof -
  have l: "\<forall>x \<in> set (L[k := b]). length x = 512" using assms(1,3) by (auto dest!: set_update_subset_insert [THEN subsetD])
  have "take (512 * j) (concat (L[k := b])) = take (512 * j) (concat L)" if "j \<le> k" for j
    using that
  proof (induction j)
    case (Suc j)
    then show ?case
      using take_concat [OF l, of j 512] take_concat [OF assms(1), of j 512] assms(2)
      by (simp add: add.commute [of 512])
  qed simp
  then show ?thesis using take_concat [OF l, of k n] assms(2,4) by simp
qed

lemma take_concat_append:
  assumes "\<forall>x \<in> set L. length x = 512" "pos div 512 < length L" "length b = 512" "pos mod 512 + c \<le> 512"
    "take (pos mod 512 + c) b = take (pos mod 512) (L ! (pos div 512)) @ xs"
  shows "take (pos + c) (concat (L[pos div 512 := b])) = take pos (concat L) @ xs"
proof -
  define k off where "k = pos div 512" and "off = pos mod 512"
  have pos: "pos = 512 * k + off" by (simp add: k_def off_def)
  have "take (512 * k + (off + c)) (concat (L[k := b])) = take (512 * k) (concat L) @ take (off + c) b"
    using assms by (intro take_concat_update) (simp_all add: k_def off_def)
  moreover have "take (512 * k + off) (concat L) = take (512 * k) (concat L) @ take off (L ! k)"
    using assms by (intro take_concat) (simp_all add: k_def off_def)
  ultimately show ?thesis using assms(5) unfolding k_def [symmetric] off_def [symmetric] by (simp add: pos add.assoc)
qed

lemma length_file_sectors:
  assumes "fs_ok f" "length (i_sectors (inodes f a)) = 13"
  shows "length (file_sectors f a) = 12" "\<forall>x \<in> set (file_sectors f a). length x = 512"
  using fs_okD(2) [OF assms(1)] assms(2) by (auto simp: file_sectors_def wf_disk_def)

lemma file_sectors_nth:
  assumes "blocks_ok f a m" "k < 12"
  shows "file_sectors f a ! k = sectors f (my_disk (cpart f)) (i_sectors (inodes f a) ! k)"
  using blocks_okD(1) [OF assms(1)] assms(2) by (simp add: file_sectors_def)

text \<open>A block of the file is written: no other block is.\<close>

lemma block_neq:
  assumes "fs_ok f" "blocks_ok f a m" "k < m" "j < 12" "j \<noteq> k"
  shows "i_sectors (inodes f a) ! j \<noteq> i_sectors (inodes f a) ! k"
proof (cases "j < m")
  case True
  note b = blocks_okD [OF assms(2)]
  have "take m (i_sectors (inodes f a)) ! j \<noteq> take m (i_sectors (inodes f a)) ! k"
    using b(1,2,3) True assms(3,5) by (subst nth_eq_iff_index_eq) simp_all
  then show ?thesis using True assms(3) by simp
next
  case False
  then have "i_sectors (inodes f a) ! j = 0" using assms(4) by (intro blocks_okD(5) [OF assms(2)]) simp_all
  moreover have "0 < i_sectors (inodes f a) ! k" by (rule used_lbas_range(3) [OF assms(1) blocks_okD(4) [OF assms(2,3)]])
  ultimately show ?thesis by simp
qed

lemma file_sectors_write:
  assumes ok: "fs_ok f" and bl: "blocks_ok f a m" and k: "k < m" and len: "length b = 512"
  shows "file_sectors (write_sects (my_disk (cpart f)) (i_sectors (inodes f a) ! k) 1 b f) a = (file_sectors f a)[k := b]"
proof (rule nth_equalityI)
  let ?g = "write_sects (my_disk (cpart f)) (i_sectors (inodes f a) ! k) 1 b f"
  have l: "length (i_sectors (inodes f a)) = 13" by (rule blocks_okD(1) [OF bl])
  show "length (file_sectors ?g a) = length ((file_sectors f a)[k := b])" by (simp add: file_sectors_def)
  fix j assume "j < length (file_sectors ?g a)"
  then have j: "j < 12" using l by (simp add: file_sectors_def)
  show "file_sectors ?g a ! j = (file_sectors f a)[k := b] ! j"
    using j l block_neq [OF ok bl k j] sectors_write_one [OF len, of "my_disk (cpart f)" "i_sectors (inodes f a) ! k" f]
    by (cases "j = k") (simp_all add: file_sectors_def)
qed

text \<open>One step of the loop of \<open>file_write\<close>: a part of the caller's bytes goes behind the end of the file.\<close>

lemma write_step:
  assumes ok: "fs_ok f" and fd: "fd_inode (file_table f ! i) = a" and bl: "blocks_ok f a m" and w: "w < length src"
    and sz: "(i_size (inodes f a) + (length src - w)) div 512 < m" and lb: "length blks = 140"
    and blks: "\<forall>k. i_size (inodes f a) div 512 \<le> k \<and> k < m \<longrightarrow> blks ! k = i_sectors (inodes f a) ! k"
    and first: "first \<or> i_size (inodes f a) mod 512 = 0"
  defines "c \<equiv> chunk_size (i_size (inodes f a)) (length src - w)"
  obtains h where "write_loop i blks src (length src) w first f = write_loop i blks src (length src) (w + c) False h" "fs_ok h"
    "blocks_ok h a m" "cpart h = cpart f" "parts h = parts f" "cur_part h = cur_part f" "krn h = krn f"
    "file_table h = (file_table f)[i := (file_table f ! i)\<lparr>fd_pos := w32 (fd_pos (file_table f ! i) + c)\<rparr>]"
    "inodes h = (inodes f)(a := (inodes f a)\<lparr>i_size := i_size (inodes f a) + c\<rparr>)"
    "take (i_size (inodes f a) + c) (file_bytes h a) = take (i_size (inodes f a)) (file_bytes f a) @ take c (drop w src)"
    "\<forall>s. s \<notin> set (take m (i_sectors (inodes f a))) \<longrightarrow> sectors h (my_disk (cpart f)) s = sectors f (my_disk (cpart f)) s"
proof -
  note b = blocks_okD [OF bl]
  let ?n = "length src" and ?pos = "i_size (inodes f a)" and ?dk = "my_disk (cpart f)" and ?ss = "i_sectors (inodes f a)"
  let ?k = "?pos div 512" and ?off = "?pos mod 512"
  have c0: "c \<le> ?n - w" "?off + c \<le> 512"
    using chunk_size_bounds(2) [of ?pos "?n - w"] chunk_size_bounds(3) [of ?pos "?n - w"] by (simp_all add: c_def)
  have "?k \<le> (?pos + (?n - w)) div 512" by (rule div_le_mono) simp
  then have k: "?k < m" "?k < 12" using sz b(2) by linarith+
  let ?lba = "?ss ! ?k"
  have lba: "?lba \<le> max_lba" by (rule used_lbas_range(2) [OF ok b(4) [OF k(1)]])
  define old where "old = (if first then sectors f ?dk ?lba else replicate 512 0)"
  let ?data = "take c (drop w src)"
  let ?b = "put_at old ?off ?data"
  have old: "length old = 512" using fs_okD(2) [OF ok] by (simp add: old_def wf_disk_def)
  moreover have "length ?data = c" using c0(1) by simp
  ultimately have l512: "length ?b = 512" and tb: "take (?off + c) ?b = take ?off old @ ?data"
    using c0(2) by (simp_all add: put_at_def)
  let ?g = "write_sects ?dk ?lba 1 ?b f"
  define h where "h = upd_file i (\<lambda>x. x\<lparr>fd_pos := w32 (fd_pos x + c)\<rparr>) (upd_inode a (\<lambda>n. n\<lparr>i_size := w32 (i_size n + c)\<rparr>) ?g)"
  have "(if first then ide_read ?dk ?lba 1 f else Some (f, replicate 512 0)) = Some (f, old)"
    using read_block [OF ok lba] by (simp add: old_def)
  moreover have "rd blks ?k = Some ?lba" using blks k lb by simp
  moreover have "w + c \<le> ?n" using c0(1) w by linarith
  ultimately have step: "write_loop i blks src ?n w first f = write_loop i blks src ?n (w + c) False h"
    using write_block [OF ok lba l512] w fd by (subst write_loop.simps) (simp add: Let_def h_def c_def)
  have "(?pos + (?n - w)) div 512 < 12" using sz b(2) by linarith
  then have "?pos + (?n - w) < 6144" by (simp add: div_less_iff_less_mult)
  then have ih: "inodes h = (inodes f)(a := (inodes f a)\<lparr>i_size := ?pos + c\<rparr>)" using c0(1) by (simp add: h_def upd_file_def)
  have cp: "cpart h = cpart f" "parts h = parts f" "cur_part h = cur_part f" "krn h = krn f" "used_lbas h = used_lbas f"
    "file_table h = (file_table f)[i := (file_table f ! i)\<lparr>fd_pos := w32 (fd_pos (file_table f ! i) + c)\<rparr>]" "sectors h = sectors ?g"
    by (simp_all add: h_def upd_file_def used_lbas_def cpart_def)
  have okh: "fs_ok h" using fs_ok_write [OF ok l512]
    by (simp add: h_def upd_file_def fs_ok_def Let_def cpart_def drive_ready_def chan_ready_def wf_disk_def part_ok_def)
  have blh: "blocks_ok h a m" using bl by (simp add: blocks_ok_def Let_def ih cp)
  note L = length_file_sectors [OF ok b(1)]
  have fs: "file_sectors h a = (file_sectors f a)[?k := ?b]"
    using file_sectors_write [OF ok bl k(1) l512] unfolding file_sectors_def cp(1,7) by (simp add: ih)
  have "take ?off old = take ?off (file_sectors f a ! ?k)" using first file_sectors_nth [OF bl k(2)] by (auto simp: old_def)
  then have bytes: "take (?pos + c) (file_bytes h a) = take ?pos (file_bytes f a) @ ?data"
    unfolding file_bytes_def fs using k(2) tb by (intro take_concat_append [OF L(2) _ l512 c0(2)]) (simp_all add: L(1))
  have "?lba \<in> set (take m ?ss)" using k(1) b(1,2) by (auto simp: in_set_conv_nth intro!: exI [of _ ?k])
  then have "\<forall>s. s \<notin> set (take m ?ss) \<longrightarrow> sectors h ?dk s = sectors f ?dk s"
    using sectors_write_one [OF l512, of ?dk ?lba f] by (auto simp: cp(7))
  then show thesis using that step okh blh cp ih bytes by blast
qed

text \<open>The loop of \<open>file_write\<close>, from the end of the file on.\<close>

lemma write_loop_ok:
  assumes "fs_ok f" "i < length (file_table f)" "fd_inode (file_table f ! i) = a" "blocks_ok f a m"
    "w \<le> length src" "(i_size (inodes f a) + (length src - w)) div 512 < m" "length blks = 140"
    "\<forall>k. i_size (inodes f a) div 512 \<le> k \<and> k < m \<longrightarrow> blks ! k = i_sectors (inodes f a) ! k"
    "w < length src \<longrightarrow> first \<or> i_size (inodes f a) mod 512 = 0"
  shows "\<exists>g p. write_loop i blks src (length src) w first f = Some g \<and> fs_ok g \<and> krn g = krn f \<and> parts g = parts f \<and>
    cur_part g = cur_part f \<and>
    inodes g = (inodes f)(a := (inodes f a)\<lparr>i_size := i_size (inodes f a) + (length src - w)\<rparr>) \<and>
    file_table g = (file_table f)[i := (file_table f ! i)\<lparr>fd_pos := p\<rparr>] \<and>
    take (i_size (inodes f a) + (length src - w)) (file_bytes g a) = take (i_size (inodes f a)) (file_bytes f a) @ drop w src \<and>
    (\<forall>s. s \<notin> set (take m (i_sectors (inodes f a))) \<longrightarrow> sectors g (my_disk (cpart f)) s = sectors f (my_disk (cpart f)) s)"
  using assms
proof (induction "length src - w" arbitrary: f w first rule: less_induct)
  case less
  let ?n = "length src" and ?pos = "i_size (inodes f a)" and ?dk = "my_disk (cpart f)" and ?ss = "i_sectors (inodes f a)"
  show ?case
  proof (cases "w < ?n")
    case False
    then have "w = ?n" using less.prems(5) by simp
    moreover have "(file_table f)[i := (file_table f ! i)\<lparr>fd_pos := fd_pos (file_table f ! i)\<rparr>] = file_table f" by simp
    ultimately show ?thesis using less.prems(1)
      by (intro exI [of _ f] exI [of _ "fd_pos (file_table f ! i)"]) (simp add: write_loop.simps)
  next
    case True
    let ?c = "chunk_size ?pos (?n - w)"
    have c0: "0 < ?c" "?c \<le> ?n - w" using chunk_size_bounds(1) [of "?n - w" ?pos] chunk_size_bounds(2) [of ?pos "?n - w"] True by simp_all
    have fst: "first \<or> ?pos mod 512 = 0" using less.prems(9) True by simp
    obtain h where step: "write_loop i blks src ?n w first f = write_loop i blks src ?n (w + ?c) False h" and h: "fs_ok h"
      "blocks_ok h a m" "cpart h = cpart f" "parts h = parts f" "cur_part h = cur_part f" "krn h = krn f"
      "file_table h = (file_table f)[i := (file_table f ! i)\<lparr>fd_pos := w32 (fd_pos (file_table f ! i) + ?c)\<rparr>]"
      "inodes h = (inodes f)(a := (inodes f a)\<lparr>i_size := ?pos + ?c\<rparr>)"
      "take (?pos + ?c) (file_bytes h a) = take ?pos (file_bytes f a) @ take ?c (drop w src)"
      "\<forall>s. s \<notin> set (take m ?ss) \<longrightarrow> sectors h ?dk s = sectors f ?dk s"
      by (rule write_step [OF less.prems(1,3,4) True less.prems(6,7,8) fst])
    have sh: "i_size (inodes h a) = ?pos + ?c" "i_sectors (inodes h a) = ?ss" by (simp_all add: h)
    have nxt: "?pos + ?c + (?n - (w + ?c)) = ?pos + (?n - w)" using c0(2) True by simp
    have p9: "w + ?c < ?n \<longrightarrow> False \<or> i_size (inodes h a) mod 512 = 0"
    proof
      assume "w + ?c < ?n"
      then have "?c = 512 - ?pos mod 512" by (auto simp: chunk_size_def Let_def split: if_splits)
      moreover have "?pos = 512 * (?pos div 512) + ?pos mod 512" by simp
      ultimately have "?pos + ?c = 512 * (?pos div 512) + 512" using mod_less_divisor [of 512 ?pos] by linarith
      then show "False \<or> i_size (inodes h a) mod 512 = 0" by (simp add: sh)
    qed
    have p8: "\<forall>j. i_size (inodes h a) div 512 \<le> j \<and> j < m \<longrightarrow> blks ! j = i_sectors (inodes h a) ! j"
      using less.prems(8) div_le_mono [of ?pos "?pos + ?c" 512] unfolding sh by (meson le_add1 order_trans)
    have p6: "(i_size (inodes h a) + (?n - (w + ?c))) div 512 < m" unfolding sh nxt by (rule less.prems(6))
    have p3: "i < length (file_table h)" "fd_inode (file_table h ! i) = a" using less.prems(2,3) by (simp_all add: h)
    have dec: "?n - (w + ?c) < ?n - w" and lim: "w + ?c \<le> ?n" using c0 True by linarith+
    from less.hyps [OF dec h(1) p3 h(2) lim p6 less.prems(7) p8 p9]
    obtain g p where g: "write_loop i blks src ?n (w + ?c) False h = Some g" "fs_ok g" "krn g = krn h" "parts g = parts h"
      "cur_part g = cur_part h" "inodes g = (inodes h)(a := (inodes h a)\<lparr>i_size := ?pos + ?c + (?n - (w + ?c))\<rparr>)"
      "file_table g = (file_table h)[i := (file_table h ! i)\<lparr>fd_pos := p\<rparr>]"
      "take (?pos + ?c + (?n - (w + ?c))) (file_bytes g a) = take (?pos + ?c) (file_bytes h a) @ drop (w + ?c) src"
      "\<forall>s. s \<notin> set (take m ?ss) \<longrightarrow> sectors g ?dk s = sectors h ?dk s"
      unfolding sh h(3) by blast
    have "take ?c (drop w src) @ drop (w + ?c) src = drop w src" by (metis append_take_drop_id drop_drop add.commute)
    then have "take (?pos + (?n - w)) (file_bytes g a) = take ?pos (file_bytes f a) @ drop w src" using g(8) h(9) nxt by simp
    then show ?thesis unfolding step using g(1-7,9) nxt less.prems(2) h(10) by (intro exI [of _ g] exI [of _ p]) (simp add: h)
  qed
qed



section \<open>Appending\<close>

definition nblocks :: "inode \<Rightarrow> nat" where
  "nblocks n = (if i_sectors n ! 0 = 0 then 0 else i_size n div 512 + 1)"

text \<open>The first block of an empty file, as \<open>file_write\<close> allocates it.\<close>

definition first_block :: "u32 \<Rightarrow> machine \<Rightarrow> (machine \<times> bool) option" where
  "first_block a f = (if i_sectors (inodes f a) ! 0 = 0 then do {
       (f, block_lba) \<leftarrow> block_bitmap_alloc (cur_part f) f;
       if block_lba = -1 then Some (f, False)
       else do {
         let f = set_sector a 0 (nat block_lba) f;
         let block_bitmap_idx = sub32 (nat block_lba) (data_start_lba (sb (cpart f)));
         ASSERT (block_bitmap_idx \<noteq> 0);
         f \<leftarrow> bitmap_sync (cur_part f) block_bitmap_idx BLOCK_BITMAP f;
         Some (f, True)
       }
     } else Some (f, True))"

lemma first_block_ok:
  assumes ok: "fs_ok f" and far: "far_free f" and root: "data_start_lba (sb (cpart f)) \<in> used_lbas f"
    and bl: "blocks_ok f a (nblocks (inodes f a))" and empty: "i_sectors (inodes f a) ! 0 = 0 \<longrightarrow> i_size (inodes f a) = 0"
    and left: "i_size (inodes f a) div 512 + 1 - nblocks (inodes f a) \<le> free_blocks f"
  obtains g where "first_block a f = Some (g, True)" "fs_ok g" "far_free g" "blocks_ok g a (i_size (inodes f a) div 512 + 1)"
    "grew a f g" "free_blocks g = free_blocks f - (i_size (inodes f a) div 512 + 1 - nblocks (inodes f a))"
    "take (nblocks (inodes f a)) (i_sectors (inodes g a)) = take (nblocks (inodes f a)) (i_sectors (inodes f a))"
    "set (take (i_size (inodes f a) div 512 + 1) (i_sectors (inodes g a))) \<inter> used_lbas f \<subseteq> set (take (nblocks (inodes f a)) (i_sectors (inodes f a)))"
proof (cases "i_sectors (inodes f a) ! 0 = 0")
  case True
  then have z: "nblocks (inodes f a) = 0" "i_size (inodes f a) = 0" using empty by (simp_all add: nblocks_def)
  have l: "0 < free_blocks f" "blocks_ok f a 0" using left bl z by simp_all
  obtain g lba h where h: "block_bitmap_alloc (cur_part f) f = Some (g, int lba)" "same_data f g" "lba \<notin> used_lbas f"
    "bitmap_sync (cur_part f) (sub32 lba (data_start_lba (sb (cpart f)))) BLOCK_BITMAP (set_sector a 0 lba g) = Some h" "fs_ok h" "far_free h"
    "blocks_ok h a (Suc 0)" "grew a f h" "free_blocks h = free_blocks f - 1"
    "i_sectors (inodes h a) = (i_sectors (inodes f a))[0 := lba]" "used_lbas h = insert lba (used_lbas f)"
    by (rule add_block [OF ok far l, of "data_start_lba (sb (cpart f))"]) auto
  have gd: "cur_part g = cur_part f" "sb (cpart g) = sb (cpart f)" using h(2) by (simp_all add: same_data_def)
  have "lba \<in> used_lbas h" by (simp add: h(11))
  then have "data_start_lba (sb (cpart f)) \<le> lba" using used_lbas_range(1) [OF h(5)] grew_frame(6) [OF h(8)] by simp
  moreover have "lba \<noteq> data_start_lba (sb (cpart f))" using root h(3) by auto
  ultimately have "sub32 lba (data_start_lba (sb (cpart f))) \<noteq> 0" by simp
  then have "first_block a f = Some (h, True)" using True h(1,4) gd by (simp add: first_block_def set_sector_def Let_def)
  moreover have "set (take 1 (i_sectors (inodes h a))) \<inter> used_lbas f = {}"
  proof -
    have "length (i_sectors (inodes f a)) = 13" by (rule blocks_okD(1) [OF bl])
    then have "take 1 (i_sectors (inodes h a)) = [lba]" using h(10) by (cases "i_sectors (inodes f a)") simp_all
    then show ?thesis using h(3) by simp
  qed
  ultimately show thesis using h z by (intro that [of h]) simp_all
next
  case False
  then have "nblocks (inodes f a) = i_size (inodes f a) div 512 + 1" by (simp add: nblocks_def)
  then show thesis using assms(1,2,4) False by (intro that [of f]) (auto simp: first_block_def)
qed

text \<open>All blocks for a file of \<open>will\<close> blocks.\<close>

lemma grow_file:
  assumes ok: "fs_ok f" and far: "far_free f" and root: "data_start_lba (sb (cpart f)) \<in> used_lbas f"
    and bl: "blocks_ok f a (nblocks (inodes f a))" and empty: "i_sectors (inodes f a) ! 0 = 0 \<longrightarrow> i_size (inodes f a) = 0"
    and will: "i_size (inodes f a) div 512 + 1 \<le> will" "will \<le> 12" and left: "will - nblocks (inodes f a) \<le> free_blocks f"
  obtains g h blks where "first_block a f = Some (g, True)" "i_size (inodes g a) = i_size (inodes f a)"
    "write_blocks a (i_size (inodes f a) div 512 + 1) will g = Some (h, Some blks)" "fs_ok h" "far_free h" "blocks_ok h a will"
    "grew a f h" "free_blocks h = free_blocks f - (will - nblocks (inodes f a))" "take (nblocks (inodes f a)) (i_sectors (inodes h a)) = take (nblocks (inodes f a)) (i_sectors (inodes f a))"
    "length blks = 140" "\<forall>k. i_size (inodes f a) div 512 \<le> k \<and> k < will \<longrightarrow> blks ! k = i_sectors (inodes h a) ! k"
    "set (take will (i_sectors (inodes h a))) \<inter> used_lbas f \<subseteq> set (take (nblocks (inodes f a)) (i_sectors (inodes f a)))"
proof -
  let ?nb = "nblocks (inodes f a)" and ?has = "i_size (inodes f a) div 512 + 1"
  have nb: "?nb \<le> ?has" by (simp add: nblocks_def)
  have "?has - ?nb \<le> free_blocks f" using left will(1) by linarith
  then obtain g where g: "first_block a f = Some (g, True)" "fs_ok g" "far_free g" "blocks_ok g a ?has"
    "grew a f g" "free_blocks g = free_blocks f - (?has - ?nb)"
    "take ?nb (i_sectors (inodes g a)) = take ?nb (i_sectors (inodes f a))"
    "set (take ?has (i_sectors (inodes g a))) \<inter> used_lbas f \<subseteq> set (take ?nb (i_sectors (inodes f a)))"
    by (rule first_block_ok [OF ok far root bl empty])
  have "will - ?has \<le> free_blocks g" using left will(1) nb g(6) by linarith
  from write_blocks_ok [OF g(2,3) this g(4) _ will(1,2)]
  obtain h blks where h: "write_blocks a ?has will g = Some (h, Some blks)" "fs_ok h" "far_free h" "blocks_ok h a will"
    "grew a g h" "free_blocks h = free_blocks g - (will - ?has)" "take ?has (i_sectors (inodes h a)) = take ?has (i_sectors (inodes g a))" "length blks = 140"
    "\<forall>k. ?has - 1 \<le> k \<and> k < will \<longrightarrow> blks ! k = i_sectors (inodes h a) ! k"
    "set (take will (i_sectors (inodes h a))) \<inter> used_lbas g \<subseteq> set (take ?has (i_sectors (inodes g a)))" by auto
  have "take ?nb (i_sectors (inodes h a)) = take ?nb (i_sectors (inodes f a))"
    using arg_cong [OF h(7), of "take ?nb"] g(7) nb by (simp add: take_take min_absorb1)
  moreover have "set (take will (i_sectors (inodes h a))) \<inter> used_lbas f \<subseteq> set (take ?nb (i_sectors (inodes f a)))"
    using h(10) g(8) grew_frame(10) [OF g(5)] by blast
  moreover have "free_blocks h = free_blocks f - (will - ?nb)" using h(6) g(6) nb will(1) by simp
  ultimately show thesis
    using g(1) h(1-5,8,9) grew_trans [OF g(5) h(5)] grew_frame(1) [OF g(5)] by (intro that [of g h blks]) simp_all
qed

text \<open>The first \<open>m\<close> blocks decide what the first \<open>512 * m\<close> bytes are.\<close>

lemma file_bytes_cong:
  assumes "fs_ok f" "blocks_ok f a m" "take m (i_sectors (inodes g a)) = take m (i_sectors (inodes f a))" "my_disk (cpart g) = my_disk (cpart f)"
    "\<And>x. x \<in> set (take m (i_sectors (inodes f a))) \<Longrightarrow> sectors g (my_disk (cpart f)) x = sectors f (my_disk (cpart f)) x" "sz \<le> 512 * m"
  shows "take sz (file_bytes g a) = take sz (file_bytes f a)"
proof -
  note b = blocks_okD [OF assms(2)]
  let ?S = "\<lambda>f a. map (sectors f (my_disk (cpart f))) (take m (i_sectors (inodes f a)))"
  have split: "file_bytes k a = concat (?S k a) @ concat (map (sectors k (my_disk (cpart k))) (drop m (take 12 (i_sectors (inodes k a)))))" for k
  proof -
    have "take 12 (i_sectors (inodes k a)) = take m (i_sectors (inodes k a)) @ drop m (take 12 (i_sectors (inodes k a)))"
      using append_take_drop_id [of m "take 12 (i_sectors (inodes k a))"] b(2) by (simp add: take_take min_absorb1)
    then show ?thesis unfolding file_bytes_def file_sectors_def by (metis concat_append map_append)
  qed
  have same: "?S g a = ?S f a" using assms(3,4,5) by simp
  have "length (concat (?S f a)) = 512 * m"
    using length_concat_sectors [of "?S f a"] fs_okD(2) [OF assms(1)] b(1,2) by (simp add: wf_disk_def)
  then show ?thesis using split [of f] split [of g] same assms(6) by simp
qed

lemma contents_grew:
  assumes "grew a f g" "fs_ok f" "blocks_ok f a m" "take m (i_sectors (inodes g a)) = take m (i_sectors (inodes f a))" "sz \<le> 512 * m"
  shows "take sz (file_bytes g a) = take sz (file_bytes f a)"
proof (rule file_bytes_cong [OF assms(2,3,4) grew_frame(5) [OF assms(1)] _ assms(5)])
  fix x assume "x \<in> set (take m (i_sectors (inodes f a)))"
  then have "x \<in> used_lbas f" using assms(3) by (auto simp: blocks_ok_def Let_def)
  then show "sectors g (my_disk (cpart f)) x = sectors f (my_disk (cpart f)) x" using assms(1) used_lbas_range(1) [OF assms(2)] by (simp add: grew_def)
qed

text \<open>The inode goes to its slot in the table; the buffer of 512 bytes is enough for one that lies in one sector.\<close>

lemma inode_sync_one:
  assumes ok: "fs_ok f" and wf: "wf_inode ino" and one: "i_no ino mod 256 * 76 mod 512 \<le> 436"
  shows "\<exists>f'. inode_sync (cur_part f) ino 512 f = Some f' \<and> same_data f f' \<and> parts f' = parts f \<and> fs_ok f' \<and>
    disk_inode f' (cur_part f) (i_no ino mod 256) = pure_inode ino"
proof -
  let ?n = "i_no ino mod 256" and ?x = "inode_bytes (pure_inode ino)" and ?p = "cpart f"
  note d = fs_okD [OF ok]
  have dok: "disk_ok f (cur_part f)" using d(1,2,7,8,9) by (simp add: disk_ok_def Let_def cpart_def)
  have n: "?n < 4096" using mod_less_divisor [of 256 "i_no ino"] by linarith
  obtain pos where pos: "inode_locate (parts f (cur_part f)) ?n = Some pos" by (rule inode_locate_bounds [OF n])
  have two: "\<not> two_sec pos" using pos one n by (auto simp: inode_locate_def Let_def inode_size_def)
  have x: "length ?x = inode_size" by (rule length_inode_bytes [OF wf_pure_inode [OF wf]])
  note u = table_update [OF dok n x pos, unfolded cpart_def [symmetric]]
  obtain b f' where b: "buf_write (read_sects f (my_disk ?p) (sec_lba pos) 1) (off_size pos) ?x = Some b"
      "ide_write (my_disk ?p) (sec_lba pos) b 1 f = Some f'" "table_bytes f' (cur_part f) = put_at (table_bytes f (cur_part f)) (?n * inode_size) ?x"
      "f' = write_sects (my_disk ?p) (sec_lba pos) 1 b f" "length b = 512"
    using u(2) two by auto
  have "inode_sync (cur_part f) ino 512 f = Some f'"
    using pos u(1,3) b(1,2) two by (simp add: inode_sync_def Let_def pure_inode_def cpart_def)
  moreover have "same_data f f'" using u(4) two d(7) unfolding b(4) by (auto simp: same_data_def write_sects_def cpart_def)
  moreover have "fs_ok f'" unfolding b(4) by (rule fs_ok_write [OF ok b(5)])
  moreover have "disk_inode f' (cur_part f) ?n = pure_inode ino"
    using disk_inode_put [OF _ n n x b(3)] d(2) inode_of_bytes [OF wf_pure_inode [OF wf], of "[]"] by (simp add: cpart_def)
  ultimately show ?thesis using b(4) by (intro exI [of _ f']) simp
qed

text \<open>An open file in the direct blocks, by its index in \<open>file_table\<close>.\<close>

definition file_ok :: "machine \<Rightarrow> nat \<Rightarrow> bool" where
  "file_ok f i \<longleftrightarrow> (let a = fd_inode (file_table f ! i); n = inodes f a in
     fs_ok f \<and> far_free f \<and> data_start_lba (sb (cpart f)) \<in> used_lbas f \<and> i < length (file_table f) \<and> wf_inode n \<and>
     i_no n mod 256 * 76 mod 512 \<le> 436 \<and> blocks_ok f a (nblocks n) \<and> i_size n < 6144 \<and> (i_sectors n ! 0 = 0 \<longrightarrow> i_size n = 0))"

definition file_contents :: "machine \<Rightarrow> nat \<Rightarrow> u8 list" where
  "file_contents f i = contents f (fd_inode (file_table f ! i))"

lemma file_okD:
  assumes "file_ok f i" "a = fd_inode (file_table f ! i)"
  shows "fs_ok f" "far_free f" "data_start_lba (sb (cpart f)) \<in> used_lbas f" "i < length (file_table f)" "wf_inode (inodes f a)"
    "i_no (inodes f a) mod 256 * 76 mod 512 \<le> 436" "blocks_ok f a (nblocks (inodes f a))" "i_size (inodes f a) < 6144"
    "i_sectors (inodes f a) ! 0 = 0 \<longrightarrow> i_size (inodes f a) = 0"
  using assms by (simp_all add: file_ok_def Let_def)

lemma same_drive_file:
  assumes "same_drive f f'"
  shows "file_ok f' i = file_ok f i" "file_contents f' i = file_contents f i" "file_table f' = file_table f" "inodes f' = inodes f"
    "sectors f' = sectors f" "cpart f' = cpart f" "cur_part f' = cur_part f" "used_lbas f' = used_lbas f" "free_blocks f' = free_blocks f"
    "disk_inode f' = disk_inode f"
proof -
  have s: "sectors f' = sectors f" "inodes f' = inodes f" "file_table f' = file_table f" "cur_part f' = cur_part f" "cpart f' = cpart f"
    "parts f' = parts f"
    using assms by (auto simp: same_drive_def cpart_def)
  note pc = part_cong [OF s(5)]
  have "blocks_ok f' a m = blocks_ok f a m" for a m by (simp add: blocks_ok_def Let_def s pc)
  then show "file_ok f' i = file_ok f i" by (simp add: file_ok_def Let_def s pc same_drive_fs_ok [OF assms])
  show "file_contents f' i = file_contents f i" by (simp add: file_contents_def contents_def file_bytes_def file_sectors_def s)
  show "file_table f' = file_table f" "inodes f' = inodes f" "sectors f' = sectors f" "cpart f' = cpart f" "cur_part f' = cur_part f"
    "used_lbas f' = used_lbas f" "free_blocks f' = free_blocks f" by (simp_all add: s pc)
  show "disk_inode f' = disk_inode f" by (intro ext) (simp add: disk_inode_def table_bytes_def read_sects_def s)
qed

text \<open>What a write leaves behind.\<close>

definition appended :: "nat \<Rightarrow> u8 list \<Rightarrow> machine \<Rightarrow> machine \<Rightarrow> bool" where
  "appended i src f g \<longleftrightarrow> (let a = fd_inode (file_table f ! i) in
     file_ok g i \<and> fd_inode (file_table g ! i) = a \<and> file_contents g i = file_contents f i @ src \<and> used_lbas f \<subseteq> used_lbas g \<and>
     free_blocks g + nblocks (inodes g a) = free_blocks f + nblocks (inodes f a) \<and>
     my_disk (cpart g) = my_disk (cpart f) \<and> cur_part g = cur_part f \<and>
     (\<forall>b. b \<noteq> a \<longrightarrow> inodes g b = inodes f b) \<and> (\<forall>j. j \<noteq> i \<longrightarrow> file_table g ! j = file_table f ! j) \<and>
     (\<forall>s \<in> used_lbas f - set (take (nblocks (inodes f a)) (i_sectors (inodes f a))). sectors g (my_disk (cpart f)) s = sectors f (my_disk (cpart f)) s) \<and>
     disk_inode g (cur_part g) (i_no (inodes g a) mod 256) = pure_inode (inodes g a))"

lemma upd_file_ok [simp]:
  "fs_ok (upd_file i q f) = fs_ok f" "blocks_ok (upd_file i q f) a m = blocks_ok f a m" "inodes (upd_file i q f) = inodes f"
  "cpart (upd_file i q f) = cpart f" "parts (upd_file i q f) = parts f" "cur_part (upd_file i q f) = cur_part f" "krn (upd_file i q f) = krn f"
  "sectors (upd_file i q f) = sectors f" "file_bytes (upd_file i q f) b = file_bytes f b"
  by (simp_all add: upd_file_def fs_ok_def Let_def cpart_def drive_ready_def chan_ready_def wf_disk_def part_ok_def blocks_ok_def
      used_lbas_def file_bytes_def file_sectors_def)

text \<open>With the blocks at hand: the bytes, and the inode, go to the disk.\<close>

lemma store_file:
  assumes ok: "fs_ok h" and i: "i < length (file_table h)" and a: "fd_inode (file_table h ! i) = a" and bl: "blocks_ok h a m"
    and m: "m = (i_size (inodes h a) + length src) div 512 + 1" and blks: "length blks = 140"
      "\<forall>k. i_size (inodes h a) div 512 \<le> k \<and> k < m \<longrightarrow> blks ! k = i_sectors (inodes h a) ! k"
    and wf: "wf_inode (inodes h a)" and one: "i_no (inodes h a) mod 256 * 76 mod 512 \<le> 436"
  obtains g k q where "write_loop i blks src (length src) 0 True (upd_file i (\<lambda>x. x\<lparr>fd_pos := p\<rparr>) h) = Some g"
    "inode_sync (cur_part h) (inodes g a) 512 g = Some k" "fs_ok k" "krn k = krn h" "parts k = parts h" "cur_part g = cur_part h" "cur_part k = cur_part h"
    "inodes k = (inodes h)(a := (inodes h a)\<lparr>i_size := i_size (inodes h a) + length src\<rparr>)"
    "file_table k = (file_table h)[i := (file_table h ! i)\<lparr>fd_pos := q\<rparr>]"
    "take (i_size (inodes h a) + length src) (file_bytes k a) = take (i_size (inodes h a)) (file_bytes h a) @ src"
    "\<forall>s \<ge> data_start_lba (sb (cpart h)). s \<notin> set (take m (i_sectors (inodes h a))) \<longrightarrow>
       sectors k (my_disk (cpart h)) s = sectors h (my_disk (cpart h)) s"
    "disk_inode k (cur_part h) (i_no (inodes k a) mod 256) = pure_inode (inodes k a)" "wf_inode (inodes k a)"
proof -
  let ?n = "length src" and ?sz = "i_size (inodes h a)"
  let ?h = "upd_file i (\<lambda>x. x\<lparr>fd_pos := p\<rparr>) h"
  have fth: "file_table ?h = (file_table h)[i := (file_table h ! i)\<lparr>fd_pos := p\<rparr>]" by (simp add: upd_file_def)
  have "m \<le> 12" by (rule blocks_okD(2) [OF bl])
  have "\<exists>g p'. write_loop i blks src ?n 0 True ?h = Some g \<and> fs_ok g \<and> krn g = krn ?h \<and> parts g = parts ?h \<and> cur_part g = cur_part ?h \<and>
    inodes g = (inodes ?h)(a := (inodes ?h a)\<lparr>i_size := i_size (inodes ?h a) + (?n - 0)\<rparr>) \<and>
    file_table g = (file_table ?h)[i := (file_table ?h ! i)\<lparr>fd_pos := p'\<rparr>] \<and>
    take (i_size (inodes ?h a) + (?n - 0)) (file_bytes g a) = take (i_size (inodes ?h a)) (file_bytes ?h a) @ drop 0 src \<and>
    (\<forall>s. s \<notin> set (take m (i_sectors (inodes ?h a))) \<longrightarrow> sectors g (my_disk (cpart ?h)) s = sectors ?h (my_disk (cpart ?h)) s)"
    by (rule write_loop_ok) (use ok i a bl m blks in \<open>simp_all add: fth\<close>)
  then obtain g q where g: "write_loop i blks src ?n 0 True ?h = Some g" "fs_ok g" "krn g = krn h" "parts g = parts h" "cur_part g = cur_part h"
    "inodes g = (inodes h)(a := (inodes h a)\<lparr>i_size := ?sz + ?n\<rparr>)" "file_table g = (file_table h)[i := (file_table h ! i)\<lparr>fd_pos := q\<rparr>]"
    "take (?sz + ?n) (file_bytes g a) = take ?sz (file_bytes h a) @ src"
    "\<forall>s. s \<notin> set (take m (i_sectors (inodes h a))) \<longrightarrow> sectors g (my_disk (cpart h)) s = sectors h (my_disk (cpart h)) s"
    using i by (auto simp: fth)
  have cg: "cpart g = cpart h" using g(4,5) by (simp add: cpart_def)
  have "?sz + ?n < 6144" using m \<open>m \<le> 12\<close> by (simp add: div_less_iff_less_mult less_eq_Suc_le [symmetric])
  then have wg: "wf_inode (inodes g a)" using wf by (simp add: g(6) wf_inode_def)
  obtain k where k: "inode_sync (cur_part g) (inodes g a) 512 g = Some k" "same_data g k" "parts k = parts g" "fs_ok k"
    "disk_inode k (cur_part g) (i_no (inodes g a) mod 256) = pure_inode (inodes g a)"
    using inode_sync_one [OF g(2) wg] one by (auto simp: g(6))
  have kd: "inodes k = inodes g" "file_table k = file_table g" "krn k = krn g" "cur_part k = cur_part h" "cpart k = cpart h"
    "\<forall>s \<ge> data_start_lba (sb (cpart h)). sectors k (my_disk (cpart h)) s = sectors g (my_disk (cpart h)) s"
    using k(2,3) g(4,5) cg by (simp_all add: same_data_def cpart_def)
  have "used_lbas k = used_lbas g" "used_lbas g = used_lbas h" using kd(5) cg by (simp_all add: used_lbas_def)
  then have gk: "grew a g k" and bg: "blocks_ok g a m"
    using k(2) bl by (auto simp: grew_def same_data_def intro: exI [of _ "i_sectors (inodes g a)"]) (simp add: blocks_ok_def Let_def g(6))
  have "?sz + ?n \<le> 512 * m" using m by linarith
  then have "take (?sz + ?n) (file_bytes k a) = take (?sz + ?n) (file_bytes g a)"
    by (intro contents_grew [OF gk g(2) bg]) (simp_all add: kd(1))
  then have "take (?sz + ?n) (file_bytes k a) = take ?sz (file_bytes h a) @ src" using g(8) by simp
  then show thesis using g k kd cg wg by (intro that [of g k q]) simp_all
qed

lemma grew_wf:
  assumes gr: "grew a f h" and wf: "wf_inode (inodes f a)" and ok: "fs_ok h" and bl: "blocks_ok h a m"
  shows "wf_inode (inodes h a)"
proof -
  have "i_sectors (inodes h a) ! j < 2 ^ 32" if "j < 13" for j
  proof (cases "j < m")
    case True
    then show ?thesis using used_lbas_range(2) [OF ok blocks_okD(4) [OF bl True]] by (simp add: max_lba_def)
  qed (use that blocks_okD(5) [OF bl] in simp)
  then show ?thesis using wf grew_frame [OF gr] blocks_okD(1) [OF bl] by (auto simp: wf_inode_def list_all_length)
qed

text \<open>The blocks that were added and the bytes that were stored make the file of the specification.\<close>

lemma grown_stored_appended:
  assumes fo: "file_ok f i" and a: "a = fd_inode (file_table f ! i)"
    and will: "will = (i_size (inodes f a) + length src) div 512 + 1" "i_size (inodes f a) + length src < 6144"
      "will - nblocks (inodes f a) \<le> free_blocks f"
    and h: "far_free h" "blocks_ok h a will" "grew a f h" "free_blocks h = free_blocks f - (will - nblocks (inodes f a))"
      "take (nblocks (inodes f a)) (i_sectors (inodes h a)) = take (nblocks (inodes f a)) (i_sectors (inodes f a))" "fs_ok h"
      "set (take will (i_sectors (inodes h a))) \<inter> used_lbas f \<subseteq> set (take (nblocks (inodes f a)) (i_sectors (inodes f a)))"
    and k: "fs_ok k" "parts k = parts h" "cur_part k = cur_part h"
      "inodes k = (inodes h)(a := (inodes h a)\<lparr>i_size := i_size (inodes h a) + length src\<rparr>)"
      "file_table k = (file_table h)[i := (file_table h ! i)\<lparr>fd_pos := q\<rparr>]"
      "take (i_size (inodes h a) + length src) (file_bytes k a) = take (i_size (inodes h a)) (file_bytes h a) @ src"
      "\<forall>s \<ge> data_start_lba (sb (cpart h)). s \<notin> set (take will (i_sectors (inodes h a))) \<longrightarrow>
         sectors k (my_disk (cpart h)) s = sectors h (my_disk (cpart h)) s"
      "disk_inode k (cur_part h) (i_no (inodes k a) mod 256) = pure_inode (inodes k a)" "wf_inode (inodes k a)"
  shows "appended i src f k"
proof -
  let ?n = "length src" and ?sz = "i_size (inodes f a)"
  note o = file_okD [OF fo a] and gr = grew_frame [OF h(3)]
  have ck: "cpart k = cpart h" using k(2,3) by (simp add: cpart_def)
  note pk = part_cong [OF ck]
  have ai: "fd_inode (file_table k ! i) = a" "i < length (file_table k)" using o(4) a by (simp_all add: k(5) gr(2))
  have ik: "i_sectors (inodes k a) = i_sectors (inodes h a)" "i_size (inodes k a) = ?sz + ?n" "i_no (inodes k a) = i_no (inodes f a)"
    by (simp_all add: k(4) gr)
  have "0 < i_sectors (inodes h a) ! 0" by (rule used_lbas_range(3) [OF h(6) blocks_okD(4) [OF h(2)]]) (simp add: will(1))
  then have nz: "i_sectors (inodes k a) ! 0 \<noteq> 0" by (simp add: ik)
  then have nb: "nblocks (inodes k a) = will" by (simp add: nblocks_def ik will(1))
  have "blocks_ok k a will" using h(2) by (simp add: blocks_ok_def Let_def ik pk)
  then have fk: "file_ok k i"
    using k(1,9) h(1) o(3,6) gr(6,10) ai will(2) nz by (auto simp: file_ok_def Let_def ck pk nb ik)
  have "take ?sz (file_bytes h a) = take ?sz (file_bytes f a)"
    by (rule contents_grew [OF h(3) o(1,7) h(5)]) (use o(9) in \<open>auto simp: nblocks_def\<close>)
  then have "file_contents k i = file_contents f i @ src"
    using k(6) gr(1) unfolding file_contents_def contents_def ai(1) a [symmetric] ik(2) by simp
  moreover have "nblocks (inodes f a) \<le> will" by (simp add: nblocks_def will(1) div_le_mono)
  then have "free_blocks k + nblocks (inodes k a) = free_blocks f + nblocks (inodes f a)" using h(4) will(3) by (simp add: pk nb)
  moreover have "sectors k (my_disk (cpart f)) x = sectors f (my_disk (cpart f)) x"
    if "x \<in> used_lbas f" "x \<notin> set (take (nblocks (inodes f a)) (i_sectors (inodes f a)))" for x
    using k(7) h(3,7) gr(5,6) used_lbas_range(1) [OF o(1) that(1)] that by (auto simp: grew_def)
  moreover have "\<forall>b. b \<noteq> a \<longrightarrow> inodes k b = inodes f b" "\<forall>j. j \<noteq> i \<longrightarrow> file_table k ! j = file_table f ! j"
    using gr(9) by (simp_all add: k(4,5) gr(2))
  ultimately show ?thesis
    unfolding appended_def Let_def a [symmetric] using fk ai(1) gr(4,5,10) ck k(3,8) by (auto simp: pk)
qed

lemma same_drive_refl: "same_drive f f"
  by (auto simp: same_drive_def intro: exI [of _ "krn f"])

lemma appended_drive:
  assumes "same_drive f f'" "same_drive g g'"
  shows "appended i src f' g' = appended i src f g"
  unfolding appended_def same_drive_file [OF assms(1)] same_drive_file [OF assms(2)] ..

lemma file_write_appends:
  assumes fo: "file_ok f i" and heap: "heap_ready (krn f)" and a: "a = fd_inode (file_table f ! i)"
    and fits: "i_size (inodes f a) + length src < 6144"
    and left: "(i_size (inodes f a) + length src) div 512 + 1 - nblocks (inodes f a) \<le> free_blocks f"
  shows "\<exists>g. file_write i src (length src) f = Some (g, int (length src)) \<and> heap_ready (krn g) \<and> appended i src f g"
proof -
  let ?n = "length src" and ?sz = "i_size (inodes f a)"
  let ?will = "(?sz + ?n) div 512 + 1"
  obtain s1 b1 s2 b2 s3 s4 where s:
    "sys_malloc 512 (krn f) = Some (s1, b1)" "b1 \<noteq> 0" "sys_malloc 560 s1 = Some (s2, b2)" "b2 \<noteq> 0"
    "sys_free b2 s2 = Some s3" "sys_free b1 s3 = Some s4" "borrowed (krn f) s4"
    "locks s2 = locks (krn f)" "running s2 = running (krn f)"
    by (rule borrow_two [OF heap, of 512 5 560 6]) auto
  let ?f = "f\<lparr>krn := s2\<rparr>"
  have sd: "same_drive f ?f" using s(8,9) by (auto simp: same_drive_def)
  note sf = same_drive_file [OF sd]
  have fo': "file_ok ?f i" and a': "a = fd_inode (file_table ?f ! i)" using fo a sf(1) by simp_all
  note o = file_okD [OF fo' a']
  have will: "?will \<le> 12" using fits by (simp add: div_less_iff_less_mult less_eq_Suc_le [symmetric])
  have lf: "?will - nblocks (inodes ?f a) \<le> free_blocks ?f" using left sf(9) by simp
  obtain g h blks where g: "first_block a ?f = Some (g, True)" "i_size (inodes g a) = ?sz"
    "write_blocks a (?sz div 512 + 1) ?will g = Some (h, Some blks)" "fs_ok h" "far_free h" "blocks_ok h a ?will"
    "grew a ?f h" "free_blocks h = free_blocks ?f - (?will - nblocks (inodes ?f a))"
    "take (nblocks (inodes ?f a)) (i_sectors (inodes h a)) = take (nblocks (inodes ?f a)) (i_sectors (inodes ?f a))"
    "length blks = 140" "\<forall>k. ?sz div 512 \<le> k \<and> k < ?will \<longrightarrow> blks ! k = i_sectors (inodes h a) ! k"
    "set (take ?will (i_sectors (inodes h a))) \<inter> used_lbas ?f \<subseteq> set (take (nblocks (inodes ?f a)) (i_sectors (inodes ?f a)))"
    by (rule grow_file [OF o(1,2,3,7,9) _ will lf, simplified]) (auto simp: div_le_mono)
  note gr = grew_frame [OF g(7)]
  have hi: "i_size (inodes h a) = ?sz" "i_no (inodes h a) = i_no (inodes f a)" "file_table h = file_table f" "krn h = s2" using gr by simp_all
  obtain g' k q where k: "write_loop i blks src ?n 0 True (upd_file i (\<lambda>x. x\<lparr>fd_pos := sub32 ?sz 1\<rparr>) h) = Some g'"
    "inode_sync (cur_part h) (inodes g' a) 512 g' = Some k" "fs_ok k" "krn k = krn h" "parts k = parts h" "cur_part g' = cur_part h" "cur_part k = cur_part h"
    "inodes k = (inodes h)(a := (inodes h a)\<lparr>i_size := i_size (inodes h a) + length src\<rparr>)"
    "file_table k = (file_table h)[i := (file_table h ! i)\<lparr>fd_pos := q\<rparr>]"
    "take (i_size (inodes h a) + length src) (file_bytes k a) = take (i_size (inodes h a)) (file_bytes h a) @ src"
    "\<forall>s \<ge> data_start_lba (sb (cpart h)). s \<notin> set (take ?will (i_sectors (inodes h a))) \<longrightarrow>
       sectors k (my_disk (cpart h)) s = sectors h (my_disk (cpart h)) s"
    "disk_inode k (cur_part h) (i_no (inodes k a) mod 256) = pure_inode (inodes k a)" "wf_inode (inodes k a)"
    by (rule store_file [OF g(4) _ _ g(6) _ g(10) _ grew_wf [OF g(7) o(5) g(4,6)], of i src]) (use o(4,6) a hi g(11) in auto)
  let ?k = "k\<lparr>krn := s4\<rparr>"
  have "w32 (?sz + ?n) = ?sz + ?n" "\<not> 512 * 140 < ?sz + ?n" "?will \<le> 140" using fits will by simp_all
  then have fw: "file_write i src ?n f = Some (?k, int ?n)"
    unfolding file_write_def first_block_def [symmetric] using s g(1,2,3) k(1,2,4,6) hi
    by (simp add: fs_malloc_def fs_free_def on_krn_def a [symmetric] Let_def)
  have "appended i src ?f k"
    by (rule grown_stored_appended [OF fo' a', where will = ?will and h = h and q = q]) (use fits lf g k in simp_all)
  moreover have "same_drive k ?k" using s(7,8,9) k(4) hi(4) by (auto simp: same_drive_def borrowed_def)
  ultimately have "appended i src f ?k" using appended_drive [OF sd same_drive_refl [of k]] appended_drive [OF same_drive_refl [of f]] by simp
  then show ?thesis using fw s(7) by (auto simp: borrowed_def)
qed


section \<open>Reading\<close>

lemma take_drop_concat:
  assumes "\<forall>x \<in> set L. length x = 512" "pos div 512 < length L" "pos mod 512 + c \<le> 512"
  shows "take c (drop (pos mod 512) (L ! (pos div 512))) = take c (drop pos (concat L))"
proof -
  define k off where "k = pos div 512" and "off = pos mod 512"
  have pos: "pos = 512 * k + off" by (simp add: k_def off_def)
  have k: "k < length L" "off + c \<le> 512" using assms(2,3) by (simp_all add: k_def off_def)
  have "length (take (512 * k) (concat L)) = 512 * k" using length_concat_sectors [OF assms(1)] k(1) by simp
  moreover have "take (512 * k + (off + c)) (concat L) = take (512 * k) (concat L) @ take (off + c) (L ! k)"
    by (rule take_concat [OF assms(1) k])
  ultimately have "drop pos (take (pos + c) (concat L)) = drop off (take (off + c) (L ! k))" by (simp add: pos add.assoc)
  then show ?thesis by (simp add: take_drop add.commute k_def [symmetric] off_def [symmetric])
qed

lemma read_loop_ok:
  assumes "fs_ok f" "i < length (file_table f)" "blocks_ok f a m" "r \<le> sz" "length blks = 140"
    "fd_pos (file_table f ! i) + (sz - r) \<le> 512 * m"
    "\<forall>k. fd_pos (file_table f ! i) div 512 \<le> k \<and> k < m \<and> 512 * k < fd_pos (file_table f ! i) + (sz - r) \<longrightarrow>
       blks ! k = i_sectors (inodes f a) ! k"
  shows "read_loop i blks sz r dst f = Some (upd_file i (\<lambda>x. x\<lparr>fd_pos := fd_pos x + (sz - r)\<rparr>) f,
    dst @ take (sz - r) (drop (fd_pos (file_table f ! i)) (file_bytes f a)))"
  using assms
proof (induction "sz - r" arbitrary: f r dst rule: less_induct)
  case less
  let ?pos = "fd_pos (file_table f ! i)" and ?dk = "my_disk (cpart f)" and ?ss = "i_sectors (inodes f a)"
  note ok = less.prems(1) and bl = less.prems(3)
  note b = blocks_okD [OF bl]
  show ?case
  proof (cases "r < sz")
    case False
    then have "r = sz" using less.prems(4) by simp
    moreover have "upd_file i (\<lambda>x. x\<lparr>fd_pos := fd_pos x + 0\<rparr>) f = f" by (simp add: upd_file_def)
    ultimately show ?thesis by (subst read_loop.simps) simp
  next
    case True
    let ?k = "?pos div 512" and ?c = "chunk_size ?pos (sz - r)"
    have c0: "0 < ?c" "?c \<le> sz - r" "?pos mod 512 + ?c \<le> 512"
      using chunk_size_bounds(1) [of "sz - r" ?pos] chunk_size_bounds(2) [of ?pos "sz - r"] chunk_size_bounds(3) [of ?pos "sz - r"] True by simp_all
    have "?pos < 512 * m" using less.prems(6) True by linarith
    then have k: "?k < m" "?k < 12" using b(2) by (simp_all add: div_less_iff_less_mult mult.commute)
    have "512 * ?k \<le> ?pos" by simp
    then have "512 * ?k < ?pos + (sz - r)" using True by linarith
    then have blk: "rd blks ?k = Some (?ss ! ?k)" using less.prems(5,7) k by simp
    have rdb: "ide_read ?dk (?ss ! ?k) 1 f = Some (f, file_sectors f a ! ?k)"
      using read_block [OF ok used_lbas_range(2) [OF ok b(4) [OF k(1)]]] file_sectors_nth [OF bl k(2)] by simp
    have w: "w32 (?pos + ?c) = ?pos + ?c" using less.prems(6) c0(2) b(2) by simp
    let ?h = "upd_file i (\<lambda>x. x\<lparr>fd_pos := fd_pos x + ?c\<rparr>) f"
    let ?x = "take ?c (drop (?pos mod 512) (file_sectors f a ! ?k))"
    have uh: "upd_file i (\<lambda>x. x\<lparr>fd_pos := w32 (fd_pos x + ?c)\<rparr>) f = ?h" using w by (simp add: upd_file_def)
    have step: "read_loop i blks sz r dst f = read_loop i blks sz (r + ?c) (dst @ ?x) ?h"
      by (subst read_loop.simps) (use True blk rdb in \<open>simp add: Let_def uh\<close>)
    have ph: "fd_pos (file_table ?h ! i) = ?pos + ?c" using less.prems(2) by (simp add: upd_file_def)
    have nxt: "?pos + ?c + (sz - (r + ?c)) = ?pos + (sz - r)" using c0(2) True by simp
    have mono: "?pos div 512 \<le> (?pos + ?c) div 512" by (rule div_le_mono) simp
    have "read_loop i blks sz (r + ?c) (dst @ ?x) ?h = Some (upd_file i (\<lambda>x. x\<lparr>fd_pos := fd_pos x + (sz - (r + ?c))\<rparr>) ?h,
        (dst @ ?x) @ take (sz - (r + ?c)) (drop (fd_pos (file_table ?h ! i)) (file_bytes ?h a)))"
    proof (rule less.hyps)
      show "sz - (r + ?c) < sz - r" "r + ?c \<le> sz" using c0 True by linarith+
      show "fd_pos (file_table ?h ! i) + (sz - (r + ?c)) \<le> 512 * m" unfolding ph nxt by (rule less.prems(6))
      show "\<forall>k. fd_pos (file_table ?h ! i) div 512 \<le> k \<and> k < m \<and> 512 * k < fd_pos (file_table ?h ! i) + (sz - (r + ?c)) \<longrightarrow>
          blks ! k = i_sectors (inodes ?h a) ! k"
        unfolding ph nxt using less.prems(7) mono by auto
      show "i < length (file_table ?h)" using less.prems(2) by (simp add: upd_file_def)
    qed (use ok bl less.prems(5) in simp_all)
    moreover have "upd_file i (\<lambda>x. x\<lparr>fd_pos := fd_pos x + (sz - (r + ?c))\<rparr>) ?h = upd_file i (\<lambda>x. x\<lparr>fd_pos := fd_pos x + (sz - r)\<rparr>) f"
      using less.prems(2) c0(2) True by (simp add: upd_file_def)
    moreover have "?x = take ?c (drop ?pos (file_bytes f a))"
      unfolding file_bytes_def using k(2) length_file_sectors [OF ok b(1)] c0(3) by (intro take_drop_concat) simp_all
    moreover have "take ?c (drop ?pos (file_bytes f a)) @ take (sz - (r + ?c)) (drop (?pos + ?c) (file_bytes f a))
        = take (sz - r) (drop ?pos (file_bytes f a))"
    proof -
      have "take (?c + (sz - (r + ?c))) (drop ?pos (file_bytes f a)) =
          take ?c (drop ?pos (file_bytes f a)) @ take (sz - (r + ?c)) (drop ?c (drop ?pos (file_bytes f a)))" by (rule take_add)
      moreover have "?c + (sz - (r + ?c)) = sz - r" using c0(2) True by simp
      ultimately show ?thesis by (simp add: add.commute)
    qed
    ultimately show ?thesis unfolding step ph by simp
  qed
qed

text \<open>A read anywhere in the file, and at its end.\<close>

lemma read_blocks_direct:
  assumes "j \<le> e" "e < 12"
  shows "\<exists>blks. read_blocks a j e f = Some (f, blks) \<and> length blks = 140 \<and> (\<forall>k. j \<le> k \<and> k \<le> e \<longrightarrow> blks ! k = i_sectors (inodes f a) ! k)"
  using assms by (auto simp: read_blocks_def Let_def intro!: nth_map_upt)

lemma length_file_contents:
  assumes "file_ok f i"
  shows "length (file_contents f i) = i_size (inodes f (fd_inode (file_table f ! i)))"
proof -
  note o = file_okD [OF assms refl]
  note L = length_file_sectors [OF o(1) blocks_okD(1) [OF o(7)]]
  have "length (file_bytes f (fd_inode (file_table f ! i))) = 6144" using length_concat_sectors [OF L(2)] L(1) by (simp add: file_bytes_def)
  then show ?thesis using o(8) by (simp add: file_contents_def contents_def)
qed

lemma file_read_reads:
  assumes fo: "file_ok f i" and heap: "heap_ready (krn f)" and p: "p = fd_pos (file_table f ! i)" "p + n < 2 ^ 32"
    and eof: "n = 0 \<and> p \<le> length (file_contents f i) \<or> p < length (file_contents f i)"
  shows "\<exists>k. file_read i n f = Some (upd_file i (\<lambda>x. x\<lparr>fd_pos := p + min n (length (file_contents f i) - p)\<rparr>) (f\<lparr>krn := k\<rparr>),
      take n (drop p (file_contents f i)), int (min n (length (file_contents f i) - p))) \<and> borrowed (krn f) k"
proof -
  define a where "a = fd_inode (file_table f ! i)"
  note o = file_okD [OF fo a_def]
  let ?len = "i_size (inodes f a)" and ?m = "nblocks (inodes f a)"
  have len: "length (file_contents f i) = ?len" unfolding a_def by (rule length_file_contents [OF fo])
  define sz where "sz = min n (?len - p)"
  have ple: "p \<le> ?len" using eof len by auto
  obtain s1 b1 s2 b2 s3 s4 where s:
    "sys_malloc 512 (krn f) = Some (s1, b1)" "b1 \<noteq> 0" "sys_malloc 560 s1 = Some (s2, b2)" "b2 \<noteq> 0"
    "sys_free b2 s2 = Some s3" "sys_free b1 s3 = Some s4" "borrowed (krn f) s4"
    "locks s2 = locks (krn f)" "running s2 = running (krn f)"
    by (rule borrow_two [OF heap, of 512 5 560 6]) auto
  let ?f = "f\<lparr>krn := s2\<rparr>"
  have sd: "same_drive f ?f" using s(8,9) by (auto simp: same_drive_def)
  note of = file_okD [OF fo [folded same_drive_file(1) [OF sd]], of a]
  have fdf: "fd_inode (file_table ?f ! i) = a" by (simp add: a_def)
  have psz: "p + sz \<le> ?len" using ple by (simp add: sz_def)
  then have e: "p div 512 \<le> (p + sz) div 512" "(p + sz) div 512 < 12" using o(8) by (simp_all add: div_le_mono div_less_iff_less_mult)
  obtain blks where blks: "read_blocks a (p div 512) ((p + sz) div 512) ?f = Some (?f, blks)" "length blks = 140"
    "\<forall>k. p div 512 \<le> k \<and> k \<le> (p + sz) div 512 \<longrightarrow> blks ! k = i_sectors (inodes ?f a) ! k"
    using read_blocks_direct [OF e] by blast
  have "?len \<le> 512 * ?m" using o(9) by (auto simp: nblocks_def)
  then have lm: "p + sz \<le> 512 * ?m" using psz by linarith
  have "512 * k < p + sz \<Longrightarrow> k \<le> (p + sz) div 512" for k by (simp add: less_eq_div_iff_mult_less_eq)
  then have loop: "read_loop i blks sz 0 [] ?f = Some (upd_file i (\<lambda>x. x\<lparr>fd_pos := fd_pos x + (sz - 0)\<rparr>) ?f,
      [] @ take (sz - 0) (drop (fd_pos (file_table ?f ! i)) (file_bytes ?f a)))"
    using of(1,4,7) fdf blks(2,3) lm p(1) by (intro read_loop_ok [where m = ?m]) auto
  have sub: "take sz (drop p (file_bytes f a)) = take n (drop p (file_contents f i))"
    by (simp add: file_contents_def contents_def a_def [symmetric] drop_take sz_def min.commute)
  have fb: "file_bytes ?f a = file_bytes f a" by (simp add: file_bytes_def file_sectors_def cpart_def)
  have loop': "read_loop i blks sz 0 [] ?f = Some (upd_file i (\<lambda>x. x\<lparr>fd_pos := fd_pos x + sz\<rparr>) ?f, take n (drop p (file_contents f i)))"
    using loop sub fb p(1) by simp
  have w: "w32 (p + n) = p + n" "w32 (p + sz) = p + sz" using p(2) by (simp_all add: sz_def)
  have szeq: "(if ?len < p + n then sub32 ?len p else n) = sz" using ple by (auto simp: sz_def)
  have nz: "\<not> (?len < p + n \<and> sz = 0)" using eof len ple by (auto simp: sz_def)
  have "file_read i n f = Some ((upd_file i (\<lambda>x. x\<lparr>fd_pos := fd_pos x + sz\<rparr>) ?f)\<lparr>krn := s4\<rparr>, take n (drop p (file_contents f i)), int sz)"
    unfolding file_read_def Let_def a_def [symmetric] p(1) [symmetric] w(1) szeq
    using s blks(1) loop' e nz w(2) by (simp add: fs_malloc_def fs_free_def on_krn_def)
  moreover have "(upd_file i (\<lambda>x. x\<lparr>fd_pos := fd_pos x + sz\<rparr>) ?f)\<lparr>krn := s4\<rparr> = upd_file i (\<lambda>x. x\<lparr>fd_pos := p + sz\<rparr>) (f\<lparr>krn := s4\<rparr>)"
    by (simp add: upd_file_def p(1))
  ultimately show ?thesis using s(7) len by (auto simp: sz_def)
qed

lemma file_read_eof:
  assumes "file_ok f i" "fd_pos (file_table f ! i) = length (file_contents f i)" "0 < n" "length (file_contents f i) + n < 2 ^ 32"
  shows "file_read i n f = Some (f, [], -1)"
  using assms length_file_contents [OF assms(1)] by (simp add: file_read_def Let_def)



section \<open>The contract of a byte store\<close>

text \<open>A number of writes in a row.\<close>

fun store_all :: "('b list \<Rightarrow> 's \<Rightarrow> ('s \<times> int) option) \<Rightarrow> 'b list list \<Rightarrow> 's \<Rightarrow> 's option" where
  "store_all put [] s = Some s"
| "store_all put (xs # xss) s = do { (s, _) \<leftarrow> put xs s; store_all put xss s }"

text \<open>
  The interface that a client of an open file relies on: bytes are appended as long as there is room for
  them, and are read back from any position.
\<close>

locale byte_store =
  fixes inv :: "'s \<Rightarrow> bool" and bytes_of :: "'s \<Rightarrow> 'b list" and room :: "'s \<Rightarrow> nat"
    and put :: "'b list \<Rightarrow> 's \<Rightarrow> ('s \<times> int) option" and get :: "nat \<Rightarrow> nat \<Rightarrow> 's \<Rightarrow> ('s \<times> 'b list \<times> int) option"
  assumes put: "inv s \<Longrightarrow> length xs \<le> room s \<Longrightarrow>
      \<exists>s'. put xs s = Some (s', int (length xs)) \<and> inv s' \<and> bytes_of s' = bytes_of s @ xs \<and> room s = room s' + length xs"
    and get: "inv s \<Longrightarrow> p < length (bytes_of s) \<Longrightarrow> p + n < 2 ^ 32 \<Longrightarrow>
      \<exists>s'. get p n s = Some (s', take n (drop p (bytes_of s)), int (min n (length (bytes_of s) - p))) \<and> inv s' \<and> bytes_of s' = bytes_of s"
begin

lemma store_list:
  "inv s \<Longrightarrow> length (concat xss) \<le> room s \<Longrightarrow>
    \<exists>s'. store_all put xss s = Some s' \<and> inv s' \<and> bytes_of s' = bytes_of s @ concat xss"
proof (induction xss arbitrary: s)
  case (Cons xs xss)
  obtain s' where s': "put xs s = Some (s', int (length xs))" "inv s'" "bytes_of s' = bytes_of s @ xs" "room s = room s' + length xs"
    using put [OF Cons.prems(1), of xs] Cons.prems(2) by auto
  then have "length (concat xss) \<le> room s'" using Cons.prems(2) by simp
  then show ?case using Cons.IH [OF s'(2)] s' by auto
qed simp

end

definition seek :: "nat \<Rightarrow> nat \<Rightarrow> machine \<Rightarrow> machine" where
  "seek i p f = upd_file i (\<lambda>x. x\<lparr>fd_pos := p\<rparr>) f"

text \<open>The blocks that the file has or can get, and the bytes that fit into them.\<close>

definition file_capacity :: "machine \<Rightarrow> nat \<Rightarrow> nat" where
  "file_capacity f i = nblocks (inodes f (fd_inode (file_table f ! i))) + free_blocks f"

definition file_room :: "machine \<Rightarrow> nat \<Rightarrow> nat" where
  "file_room f i = min 12 (file_capacity f i) * 512 - 1 - length (file_contents f i)"

definition file_usable :: "machine \<Rightarrow> nat \<Rightarrow> bool" where
  "file_usable f i \<longleftrightarrow> file_ok f i \<and> heap_ready (krn f) \<and> 0 < file_capacity f i"

lemma seek_frame:
  "file_ok (seek i p f) i = file_ok f i" "file_contents (seek i p f) i = file_contents f i" "krn (seek i p f) = krn f"
  "i < length (file_table f) \<Longrightarrow> fd_pos (file_table (seek i p f) ! i) = p" "file_capacity (seek i p f) i = file_capacity f i"
proof -
  have a: "fd_inode (file_table (seek i p f) ! i) = fd_inode (file_table f ! i)" by (cases "i < length (file_table f)") (simp_all add: seek_def upd_file_def list_update_beyond)
  have c: "cpart (seek i p f) = cpart f" by (simp add: seek_def)
  show "file_ok (seek i p f) i = file_ok f i" unfolding file_ok_def Let_def a part_cong [OF c] c by (simp add: seek_def) (simp add: upd_file_def)
  show "file_contents (seek i p f) i = file_contents f i" unfolding file_contents_def contents_def a by (simp add: seek_def)
  show "krn (seek i p f) = krn f" by (simp add: seek_def)
  show "fd_pos (file_table (seek i p f) ! i) = p" if "i < length (file_table f)" using that by (simp add: seek_def upd_file_def)
  show "file_capacity (seek i p f) i = file_capacity f i" unfolding file_capacity_def a part_cong [OF c] by (simp add: seek_def)
qed

lemma seek_after_read: "i < length (file_table f) \<Longrightarrow> upd_file i (\<lambda>x. x\<lparr>fd_pos := q\<rparr>) ((seek i p f)\<lparr>krn := k\<rparr>) = seek i q (f\<lparr>krn := k\<rparr>)"
  by (simp add: seek_def upd_file_def)

lemma borrowed_file:
  assumes "borrowed (krn f) k"
  shows "same_drive f (f\<lparr>krn := k\<rparr>)" "heap_ready k"
  using assms by (auto simp: borrowed_def same_drive_def)

lemma file_usable_write:
  assumes u: "file_usable f i" and r: "length xs \<le> file_room f i"
  obtains g where "file_write i xs (length xs) f = Some (g, int (length xs))" "heap_ready (krn g)" "appended i xs f g"
proof -
  let ?a = "fd_inode (file_table f ! i)"
  have fo: "file_ok f i" and hp: "heap_ready (krn f)" and cap: "0 < file_capacity f i" using u by (simp_all add: file_usable_def)
  note o = file_okD [OF fo refl] and len = length_file_contents [OF fo]
  define m where "m = min 12 (file_capacity f i)"
  have m: "0 < m" "m \<le> 12" "m \<le> nblocks (inodes f ?a) + free_blocks f" using cap by (simp_all add: m_def file_capacity_def)
  have sz: "i_size (inodes f ?a) < 512 * m"
  proof (cases "i_sectors (inodes f ?a) ! 0 = 0")
    case False
    then have "i_size (inodes f ?a) div 512 + 1 \<le> m" using blocks_okD(2) [OF o(7)] by (simp add: m_def file_capacity_def nblocks_def)
    then show ?thesis by linarith
  qed (use o(9) m(1) in simp)
  have fit: "i_size (inodes f ?a) + length xs < 512 * m" using r sz by (simp add: file_room_def m_def [symmetric] len)
  then have "i_size (inodes f ?a) + length xs < 6144" using m(2) by linarith
  moreover have "(i_size (inodes f ?a) + length xs) div 512 < m" using fit by (simp add: div_less_iff_less_mult mult.commute)
  then have "(i_size (inodes f ?a) + length xs) div 512 + 1 - nblocks (inodes f ?a) \<le> free_blocks f" using m(3) by linarith
  ultimately show thesis using file_write_appends [OF fo hp refl] that by blast
qed

interpretation files: byte_store "\<lambda>f. file_usable f i" "\<lambda>f. file_contents f i" "\<lambda>f. file_room f i"
  "\<lambda>xs. file_write i xs (length xs)" "\<lambda>p n f. file_read i n (seek i p f)"
proof unfold_locales
  fix f :: machine and xs :: "u8 list"
  let ?a = "fd_inode (file_table f ! i)"
  assume u: "file_usable f i" and r: "length xs \<le> file_room f i"
  obtain g where g: "file_write i xs (length xs) f = Some (g, int (length xs))" "heap_ready (krn g)" "appended i xs f g"
    by (rule file_usable_write [OF u r])
  have ap: "file_ok g i" "fd_inode (file_table g ! i) = ?a" "file_contents g i = file_contents f i @ xs"
    "free_blocks g + nblocks (inodes g ?a) = free_blocks f + nblocks (inodes f ?a)" using g(3) by (simp_all add: appended_def Let_def)
  then have cap: "file_capacity g i = file_capacity f i" by (simp add: file_capacity_def)
  then have "file_room f i = file_room g i + length xs" using ap(3) r by (simp add: file_room_def)
  then show "\<exists>g. file_write i xs (length xs) f = Some (g, int (length xs)) \<and> file_usable g i \<and> file_contents g i = file_contents f i @ xs \<and>
      file_room f i = file_room g i + length xs"
    using g(1,2) ap cap u by (auto simp: file_usable_def)
next
  fix f :: machine and p n
  assume u: "file_usable f i" and p: "p < length (file_contents f i)" "p + n < 2 ^ 32"
  then have fo: "file_ok f i" and hp: "heap_ready (krn f)" and cap: "0 < file_capacity f i" by (simp_all add: file_usable_def)
  note il = file_okD(4) [OF fo refl]
  note sk = seek_frame(1,2,3,5) [of i p f] and ps = seek_frame(4) [OF il, of p]
  let ?sz = "min n (length (file_contents f i) - p)"
  obtain k where k: "file_read i n (seek i p f) = Some (upd_file i (\<lambda>x. x\<lparr>fd_pos := p + ?sz\<rparr>) ((seek i p f)\<lparr>krn := k\<rparr>),
      take n (drop p (file_contents f i)), int ?sz)" "borrowed (krn f) k"
    using file_read_reads [of "seek i p f" i p n] fo hp p by (auto simp: sk ps)
  let ?g = "seek i (p + ?sz) (f\<lparr>krn := k\<rparr>)"
  note bf = borrowed_file [OF k(2)]
  note sf = same_drive_file [OF bf(1)]
  have "file_capacity (f\<lparr>krn := k\<rparr>) i = file_capacity f i" by (simp add: file_capacity_def sf(9))
  then have "file_usable ?g i" "file_contents ?g i = file_contents f i"
    using fo bf(2) cap by (simp_all add: file_usable_def seek_frame sf(1,2))
  then show "\<exists>g. file_read i n (seek i p f) = Some (g, take n (drop p (file_contents f i)), int ?sz) \<and> file_usable g i \<and> file_contents g i = file_contents f i"
    using k(1) seek_after_read [OF il] by auto
qed





section \<open>Witnesses\<close>

text \<open>
  A partition of 3072 blocks, the first one of which is in use, with two empty files: the bits of its
  bitmap from 3072 on are set.
\<close>

definition sample_block_bits :: bitmap where
  "sample_block_bits = \<lparr>btmp_bytes_len = 512, bits = 1 # replicate 383 0 @ replicate 128 0xff\<rparr>"

definition sample_file :: machine where
  "sample_file = sample_machine\<lparr>krn := sample_buffers,
     parts := (\<lambda>_. \<lparr>start_lba = 2048, sec_cnt = 20000, my_disk = (0, 1), part_name = replicate 8 0, sb = sample_sb,
        block_bitmap = sample_block_bits, inode_bitmap = sample_bitmap, open_inodes = []\<rparr>),
     inodes := (\<lambda>_. \<lparr>i_no = 1, i_size = 0, i_open_cnts = 1, write_deny = False, i_sectors = replicate 13 0\<rparr>),
     file_table := [\<lparr>fd_pos = 0, fd_flag = 2, fd_inode = 0xc0100010\<rparr>, \<lparr>fd_pos = 0, fd_flag = 2, fd_inode = 0xc0100060\<rparr>]\<rparr>"

lemma sample_file_part [simp]:
  "cpart sample_file = \<lparr>start_lba = 2048, sec_cnt = 20000, my_disk = (0, 1), part_name = replicate 8 0, sb = sample_sb,
     block_bitmap = sample_block_bits, inode_bitmap = sample_bitmap, open_inodes = []\<rparr>"
  "krn sample_file = sample_buffers"
  "inodes sample_file a = \<lparr>i_no = 1, i_size = 0, i_open_cnts = 1, write_deny = False, i_sectors = replicate 13 0\<rparr>"
  "file_table sample_file = [\<lparr>fd_pos = 0, fd_flag = 2, fd_inode = 0xc0100010\<rparr>, \<lparr>fd_pos = 0, fd_flag = 2, fd_inode = 0xc0100060\<rparr>]"
  by (simp_all add: sample_file_def cpart_def)

lemma sample_block_used: "i \<in> used sample_block_bits \<longleftrightarrow> i = 0 \<or> 3072 \<le> i \<and> i < 4096"
proof -
  have one: "bit (1 :: u8) k \<longleftrightarrow> k = 0" for k by (simp add: bit_1_iff)
  have ff: "bit (0xff :: u8) k" if "k < 8" for k
  proof -
    have eq: "(0xff :: u8) = mask 8" by (simp add: mask_eq_exp_minus_1)
    show ?thesis unfolding eq bit_mask_iff using that by simp
  qed
  consider "i < 8" | "8 \<le> i" "i < 3072" | "3072 \<le> i" "i < 4096" | "4096 \<le> i" by linarith
  then show ?thesis
  proof cases
    case 1
    then show ?thesis by (auto simp: used_def nbits_def bit_at_def sample_block_bits_def one)
  next
    case 2
    then have "0 < i div 8" "i div 8 < 384" by (simp_all add: div_less_iff_less_mult div_greater_zero_iff)
    then have "bits sample_block_bits ! (i div 8) = 0" by (simp add: sample_block_bits_def nth_append nth_Cons')
    then show ?thesis using 2 by (simp add: used_def bit_at_def)
  next
    case 3
    then have "384 \<le> i div 8" "i div 8 < 512" by (simp_all add: div_less_iff_less_mult less_eq_div_iff_mult_less_eq)
    then have "bits sample_block_bits ! (i div 8) = 0xff" by (simp add: sample_block_bits_def nth_append nth_Cons')
    then show ?thesis using 3 ff by (simp add: used_def bit_at_def nbits_def sample_block_bits_def)
  next
    case 4
    then show ?thesis by (simp add: used_def nbits_def sample_block_bits_def)
  qed
qed

lemma sample_block_used_set: "used sample_block_bits = insert 0 {3072..<4096}" "nbits sample_block_bits = 4096"
proof -
  show "used sample_block_bits = insert 0 {3072..<4096}" by (rule set_eqI) (simp add: sample_block_used)
  show "nbits sample_block_bits = 4096" by (simp add: nbits_def sample_block_bits_def)
qed

lemma sample_used_lbas: "used_lbas sample_file = (\<lambda>i. 2664 + i) ` insert 0 {3072..<4096}"
  by (simp add: used_lbas_def sample_block_used_set sample_sb_def)

lemma sample_file_fs: "fs_ok sample_file"
proof -
  have "drive_ready sample_file (0, 1)" "wf_disk sample_file (0, 1)"
    using sample_machine_ready
    by (simp_all add: drive_ready_def chan_ready_def wf_disk_def lock_free_def)
      (simp_all add: sample_file_def sample_machine_def sample_buffers_def sample_kernel_def)
  moreover have "part_ok (cur_part sample_file) sample_file"
    by (simp add: part_ok_def sample_file_def wf_bitmap_def nbits_def sample_bitmap_def sample_block_bits_def)
  ultimately show ?thesis
    unfolding fs_ok_def
    by (simp add: sample_block_used_set sample_sb_def max_lba_def dirent_size_def) (simp add: sample_block_bits_def)
qed

lemma sample_file_far: "far_free sample_file"
proof -
  have less: "b < 5736" if "2664 \<le> b" "b - 2664 < 4096" "b \<notin> used_lbas sample_file" for b :: nat
  proof (rule ccontr)
    assume "\<not> b < 5736"
    then have "b - 2664 \<in> insert 0 {3072..<4096}" using that(2) by simp
    then have "2664 + (b - 2664) \<in> used_lbas sample_file" unfolding sample_used_lbas by (rule imageI)
    then show False using that(1,3) by simp
  qed
  have base: "data_start_lba (sb (cpart sample_file)) = 2664" "block_bitmap_lba (sb (cpart sample_file)) = 2050"
    "nbits (block_bitmap (cpart sample_file)) = 4096"
    by (simp_all add: sample_sb_def sample_block_used_set)
  have "b - 2050 < 4096" if "2664 \<le> b \<and> b - 2664 < 4096 \<and> b \<notin> used_lbas sample_file" for b :: nat
    using less [of b] that by linarith
  then show ?thesis unfolding far_free_def base by blast
qed

lemma sample_file_usable: "file_usable sample_file i" "file_room sample_file i = 6143" "file_contents sample_file i = []" if "i < 2" for i
proof -
  have card: "card (used_lbas sample_file) = 1025" using card_used_lbas(1) [of sample_file] by (simp add: sample_block_used_set)
  have il: "i < length (file_table sample_file)" using that by simp
  have "wf_inode (inodes sample_file a)" for a by (simp add: wf_inode_def list_all_iff)
  moreover have "blocks_ok sample_file a 0" for a by (simp add: blocks_ok_def)
  moreover have "(2664 :: nat) \<in> used_lbas sample_file" unfolding sample_used_lbas by simp
  ultimately have fo: "file_ok sample_file i" using sample_file_fs sample_file_far il by (simp add: file_ok_def Let_def nblocks_def sample_sb_def)
  moreover have cap: "file_capacity sample_file i = 3071" by (simp add: file_capacity_def free_blocks_def nblocks_def card sample_block_used_set)
  ultimately show "file_usable sample_file i" using sample_buffers_ready by (simp add: file_usable_def)
  show c: "file_contents sample_file i = []" by (simp add: file_contents_def contents_def)
  show "file_room sample_file i = 6143" by (simp add: file_room_def cap c)
qed



end
