(* ===== verification/Fork_Spec.thy ===== *)
theory Fork_Spec
  imports Process
begin

text \<open>
  The memory of a forked process: \<open>copy_body_stack3\<close> of \<^verbatim>\<open>userprog/fork.c\<close> moves the pages of the parent
  one by one through a kernel buffer, switching between the two page directories.
\<close>

section \<open>Address spaces\<close>

abbreviation space :: "u32 \<Rightarrow> kernel \<Rightarrow> kernel" where
  "space d s \<equiv> s\<lparr>cr3 := d\<rparr>"

definition tables :: "kernel \<Rightarrow> u32 \<Rightarrow> u32 set" where
  "tables s d = {page_frame (pde_of (space d s) v) |v. present (pde_of (space d s) v)}"

text \<open>The user part of the address space: below the last gigabyte.\<close>

definition user_va :: "u32 \<Rightarrow> bool" where
  "user_va v \<longleftrightarrow> unat (PDE_IDX v) < 768"

definition user_frames :: "kernel \<Rightarrow> u32 \<Rightarrow> u32 set" where
  "user_frames s d = {page_frame q |v q. user_va v \<and> translate (space d s) v = Some q}"

lemma space_self: "cr3 s = d \<Longrightarrow> space d s = s"
  by simp

lemma tablesI: "present (pde_of (space d s) v) \<Longrightarrow> page_frame (pde_of (space d s) v) \<in> tables s d"
  by (auto simp: tables_def)

lemma self_mapped_pde:
  "self_mapped s \<longleftrightarrow> present (pde_of s (pde_ptr 0)) \<and> page_frame (pde_of s (pde_ptr 0)) = page_frame (cr3 s)"
  by (simp add: self_mapped_def pde_of_def pde_ptr_fields)

lemma dir_in_tables: "self_mapped (space d s) \<Longrightarrow> page_frame d \<in> tables s d"
  using tablesI [of d s "pde_ptr 0"] by (simp add: self_mapped_pde)

lemma space_frame [simp]:
  "owned (space d s) = owned s" "pools_ok (space d s) = pools_ok s" "taken_frames pf (space d s) = taken_frames pf s"
  "frames pf (space d s) = frames pf s"
  by (simp_all add: fun_eq_iff owned_def taken_frames_def frames_def get_pool_def pools_ok_def cong: if_cong)

text \<open>An address space depends on the contents of its directory and its tables only.\<close>

definition tables_kept :: "u32 \<Rightarrow> kernel \<Rightarrow> kernel \<Rightarrow> bool" where
  "tables_kept d s t \<longleftrightarrow> (\<forall>a. page_frame a \<in> tables s d \<longrightarrow> phys t a = phys s a)"

lemma translate_agree:
  assumes sm: "self_mapped (space d s)" and kept: "tables_kept d s t"
  shows "pde_of (space d t) v = pde_of (space d s) v" "translate (space d t) v = translate (space d s) v"
proof -
  have ag: "page_frame a \<in> tables s d \<Longrightarrow> phys t a = phys s a" for a using kept by (simp add: tables_kept_def)
  have pde: "pde_of (space d t) w = pde_of (space d s) w" for w
    using ag [of "page_frame d + PDE_IDX w * 4"] dir_in_tables [OF sm] by (simp add: pde_of_def PDE_IDX_small)
  then show "pde_of (space d t) v = pde_of (space d s) v" .
  have "phys t (pte_addr (space d s) v) = phys s (pte_addr (space d s) v)" if "present (pde_of (space d s) v)"
    using ag tablesI [OF that] by simp
  then show "translate (space d t) v = translate (space d s) v"
    by (auto simp: translate_def pde pte_addr_def)
qed

lemma space_agree:
  assumes "self_mapped (space d s)" "tables_kept d s t"
  shows "self_mapped (space d t)" "tables_disjoint (space d t) = tables_disjoint (space d s)" "tables t d = tables s d"
    "user_frames t d = user_frames s d"
  using assms(1) translate_agree [OF assms]
  by (simp_all add: self_mapped_pde tables_disjoint_def tables_def user_frames_def)

lemma mm_ok_agree:
  assumes mm: "mm_ok (space d s)" and ag: "tables_kept d s t"
    and ok: "pools_ok t" and ow: "\<forall>f. owned s f \<longrightarrow> owned t f"
  shows "mm_ok (space d t)"
proof -
  have sm: "self_mapped (space d s)" using mm by (simp add: mm_ok_def)
  show ?thesis
    using mm ok ow space_agree [OF sm ag] by (auto simp: mm_ok_def translate_agree [OF sm ag])
qed

lemma data_frame_tables: "self_mapped (space d s) \<Longrightarrow> data_frame (space d s) f \<longleftrightarrow> f \<notin> tables s d"
  using dir_in_tables [of d s] by (auto simp: data_frame_def tables_def)


section \<open>Copying a page\<close>

definition page_copy :: "u32 \<Rightarrow> u32 \<Rightarrow> nat \<Rightarrow> nat \<Rightarrow> (u32 \<Rightarrow> u32) \<Rightarrow> u32 \<Rightarrow> u32" where
  "page_copy fd fs k n m a = (if \<exists>i. k \<le> i \<and> i < k + n \<and> a = fd + of_nat i * 4 then m (fs + (a - fd)) else m a)"

lemma unat_small: "i < 1024 \<Longrightarrow> unat (of_nat i :: u32) < 1024"
  by (simp add: unat_of_nat)

lemma word_index: "i < 1024 \<Longrightarrow> page_frame f = f \<Longrightarrow> page_frame (f + of_nat i * 4) = f"
  using page_frame_entry [OF unat_small, of i f] by simp

lemma word_offset: "i < 1024 \<Longrightarrow> page_frame f = f \<Longrightarrow> (f + of_nat i * 4) AND 0xfff = of_nat i * 4"
proof -
  assume i: "i < 1024" and f: "page_frame f = f"
  have m: "unat (of_nat i * 4 :: u32) = i * 4" using i by (subst unat_mult4_small) (simp_all add: unat_of_nat)
  have "unat (f + of_nat i * 4) = unat f div 4096 * 4096 + i * 4"
    using unat_frame_plus [OF unat_small [OF i], of f] f i by (simp add: unat_of_nat)
  then show ?thesis using i m by (intro word_unat_eq_iff [THEN iffD2]) (simp add: unat_offset)
qed

lemma word_inj: "i < 1024 \<Longrightarrow> j < 1024 \<Longrightarrow> of_nat i * 4 = (of_nat j * 4 :: u32) \<Longrightarrow> i = j"
proof -
  assume h: "i < 1024" "j < 1024" "of_nat i * 4 = (of_nat j * 4 :: u32)"
  then have "unat (of_nat i * 4 :: u32) = unat (of_nat j * 4 :: u32)" by simp
  then show "i = j" using h(1,2) by (subst (asm) (1 2) unat_mult4_small) (simp_all add: unat_of_nat)
qed

lemma translate_word:
  assumes "page_frame v = v" "translate s v = Some f" "i < 1024"
  shows "translate s (v + of_nat i * 4) = Some (f + of_nat i * 4)" "page_frame f = f"
proof -
  have "v AND 0xfff = 0" by (rule aligned_offset [OF assms(1)])
  then show f: "page_frame f = f" using assms(2) by (auto simp: translate_def split: if_splits)
  show "translate s (v + of_nat i * 4) = Some (f + of_nat i * 4)"
    using translate_same_page [of "v + of_nat i * 4" v s] assms f by (simp add: word_index word_offset)
qed

lemma page_copy_step:
  assumes "page_frame fd = fd" "page_frame fs = fs" "fd \<noteq> fs" "k + Suc n \<le> 1024"
  shows "page_copy fd fs (Suc k) n (m(fd + of_nat k * 4 := m (fs + of_nat k * 4))) = page_copy fd fs k (Suc n) m"
proof
  fix a
  have other: "fs + of_nat i * 4 \<noteq> fd + of_nat j * 4" if "i < 1024" "j < 1024" for i j
    using word_index [OF that(1) assms(2)] word_index [OF that(2) assms(1)] assms(3) by metis
  show "page_copy fd fs (Suc k) n (m(fd + of_nat k * 4 := m (fs + of_nat k * 4))) a = page_copy fd fs k (Suc n) m a"
  proof (cases "\<exists>i. k \<le> i \<and> i < k + Suc n \<and> a = fd + of_nat i * 4")
    case True
    then obtain i where i: "k \<le> i" "i < k + Suc n" "a = fd + of_nat i * 4" by blast
    have l: "page_copy fd fs k (Suc n) m a = m (fs + of_nat i * 4)" using True i(3) by (auto simp: page_copy_def)
    show ?thesis
    proof (cases "i = k")
      case True
      have "\<not> (\<exists>j. Suc k \<le> j \<and> j < Suc k + n \<and> a = fd + of_nat j * 4)"
      proof
        assume "\<exists>j. Suc k \<le> j \<and> j < Suc k + n \<and> a = fd + of_nat j * 4"
        then obtain j where j: "Suc k \<le> j" "j < Suc k + n" "a = fd + of_nat j * 4" by blast
        then have "of_nat k * 4 = (of_nat j * 4 :: u32)" using i(3) True by simp
        then have "k = j" using word_inj [of k j] j(2) assms(4) by simp
        then show False using j(1) by simp
      qed
      then show ?thesis using l True i(3) by (simp add: page_copy_def)
    next
      case False
      then have "\<exists>j. Suc k \<le> j \<and> j < Suc k + n \<and> a = fd + of_nat j * 4" using i by (intro exI [of _ i]) simp
      then show ?thesis using l i(3) other [of i k] i(2) assms(4) by (simp add: page_copy_def i(3))
    qed
  next
    case False
    then have a: "a \<noteq> fd + of_nat k * 4" and n: "\<not> (\<exists>j. Suc k \<le> j \<and> j < Suc k + n \<and> a = fd + of_nat j * 4)"
      by (auto dest: spec [of _ k])
    show ?thesis unfolding page_copy_def if_not_P [OF False] if_not_P [OF n] using a by simp
  qed
qed

lemma copy_words_page:
  assumes al: "page_frame dst = dst" "page_frame src = src"
    and tr: "translate s dst = Some fd" "translate s src = Some fs" and ne: "fd \<noteq> fs" and df: "data_frame s fd" and n: "k + n \<le> 1024"
  shows "copy_words (dst + of_nat k * 4) (src + of_nat k * 4) n s = Some (s\<lparr>phys := page_copy fd fs k n (phys s)\<rparr>)"
  using tr df n
proof (induction n arbitrary: k s)
  case 0
  have "page_copy fd fs k 0 (phys s) = phys s" by (rule ext) (auto simp: page_copy_def)
  then show ?case by simp
next
  case (Suc n)
  have k: "k < 1024" using Suc.prems(4) by simp
  note d = translate_word [OF al(1) Suc.prems(1) k] and c = translate_word [OF al(2) Suc.prems(2) k]
  let ?t = "s\<lparr>phys := (phys s)(fd + of_nat k * 4 := phys s (fs + of_nat k * 4))\<rparr>"
  have dk: "data_frame s (page_frame (fd + of_nat k * 4))" using Suc.prems(3) word_index [OF k d(2)] by simp
  note st = data_store [OF d(1) dk, of "phys s (fs + of_nat k * 4)"]
  have next4: "x + of_nat k * 4 + 4 = x + of_nat (Suc k) * 4" for x :: u32 by simp
  have "copy_words (dst + of_nat (Suc k) * 4) (src + of_nat (Suc k) * 4) n ?t = Some (?t\<lparr>phys := page_copy fd fs (Suc k) n (phys ?t)\<rparr>)"
    by (rule Suc.IH) (use Suc.prems st(2) in \<open>simp_all add: same_map_def\<close>)
  moreover have "load s (src + of_nat k * 4) = Some (phys s (fs + of_nat k * 4))" by (simp add: load_def c(1))
  ultimately show ?case
    using st(1) page_copy_step [OF d(2) c(2) ne Suc.prems(4), of "phys s"] by (simp add: next4 del: of_nat_Suc)
qed


section \<open>A new page\<close>

definition free_frames :: "pool_flags \<Rightarrow> kernel \<Rightarrow> u32 set" where
  "free_frames pf s = frames pf s - taken_frames pf s"

lemma finite_free_frames [simp]: "finite (free_frames pf s)"
  by (simp add: free_frames_def frames_def)

lemma free_frames_card:
  assumes "frames pf t = frames pf s" "taken_frames pf t \<subseteq> insert f (taken_frames pf s)"
  shows "card (free_frames pf s) \<le> Suc (card (free_frames pf t))"
proof -
  have "free_frames pf s \<subseteq> insert f (free_frames pf t)" using assms by (auto simp: free_frames_def)
  then have "card (free_frames pf s) \<le> card (insert f (free_frames pf t))" by (intro card_mono) simp_all
  then show ?thesis using card_insert_le_m1 [of "Suc (card (free_frames pf t))"] card_insert_if [of "free_frames pf t" f] by (auto split: if_splits)
qed

text \<open>What \<open>page_table_add\<close> writes: the directory entry and the table of the page, which is fresh if there was none.\<close>

lemma page_table_add_effect:
  assumes mm: "mm_ok s" and v: "PDE_IDX v \<noteq> 1023" and un: "translate s v = None" and room: "free_frames PF_KERNEL s \<noteq> {}"
  obtains t f where "page_table_add s v p = Some t" "t = s\<lparr>kernel_pool := kernel_pool t, phys := phys t\<rparr>"
    "present (pde_of t v)" "page_frame (pde_of t v) = f" "\<And>w. PDE_IDX w \<noteq> PDE_IDX v \<Longrightarrow> pde_of t w = pde_of s w"
    "\<And>a. page_frame a \<noteq> f \<Longrightarrow> page_frame a \<noteq> page_frame (cr3 s) \<Longrightarrow> phys t a = phys s a"
    "present (pde_of s v) \<and> page_frame (pde_of s v) = f \<or> \<not> present (pde_of s v) \<and> \<not> owned s f"
    "frames PF_KERNEL t = frames PF_KERNEL s" "taken_frames PF_KERNEL t \<subseteq> insert f (taken_frames PF_KERNEL s)"
proof -
  let ?e = "p OR PG_US_U OR PG_RW_W OR PG_P_1"
  have ok: "pools_ok s" and sm: "self_mapped s" and td: "tables_disjoint s" using mm by (simp_all add: mm_ok_def)
  show thesis
  proof (cases "present (pde_of s v)")
    case True
    let ?t = "s\<lparr>phys := (phys s)(pte_addr s v := ?e)\<rparr>"
    have "page_frame (pte_addr s v) \<noteq> page_frame (cr3 s)" using table_frame_neq_cr3 [OF sm td True v] by simp
    then have pde: "pde_of ?t w = pde_of s w" for w by (rule pde_of_upd)
    have "page_table_add s v p = Some ?t"
      using un True by (simp add: page_table_add_present [OF sm True] translate_def split: if_splits)
    then show thesis
      by (rule that [of ?t "page_frame (pde_of s v)"]) (use True pde in \<open>auto simp: frames_def taken_frames_def get_pool_def\<close>)
  next
    case False
    obtain s1 f where af: "alloc_frame PF_KERNEL s = Some (s1, f)" "taken_frames PF_KERNEL s1 = insert f (taken_frames PF_KERNEL s)"
      "frames PF_KERNEL s1 = frames PF_KERNEL s"
      using alloc_frame_ok [OF ok, of PF_KERNEL] room by (auto simp: free_frames_def)
    then obtain kp where kp: "palloc (kernel_pool s) = Some (kp, f)" "s1 = s\<lparr>kernel_pool := kp\<rparr>"
      by (auto simp: alloc_frame_def get_pool_def set_pool_def bind_Some_iff)
    note fr = alloc_frame_fresh [OF ok af(1)]
    have ff: "fresh_frame s f" using fr(1,4) mm unfolding fresh_frame_def mm_ok_def by blast
    define s2 where "s2 = with_table s kp v f"
    note w = with_table_facts [OF sm td ff False s2_def] and new = page_table_add_new [OF sm td ff False kp(1) s2_def, of p]
    let ?t = "s2\<lparr>phys := (phys s2)(pte_addr s2 v := ?e)\<rparr>"
    have "page_frame (pte_addr s2 v) \<noteq> page_frame (cr3 s2)" using table_frame_neq_cr3 [OF w(1-3) v] by simp
    then have "pde_of ?t x = pde_of s2 x" for x by (rule pde_of_upd)
    then have pde: "pde_of ?t x = (if PDE_IDX x = PDE_IDX v then f OR PG_US_U OR PG_RW_W OR PG_P_1 else pde_of s x)" for x
      using pde_of_with_table [OF sm ff, of kp v x, folded s2_def] by simp
    have pf: "page_frame (pte_addr s2 v) = f" using w(3) pde_of_with_table [OF sm ff, of kp v v, folded s2_def] fr(4) by simp
    have out: "phys ?t a = phys s a" if "page_frame a \<noteq> f" "page_frame a \<noteq> page_frame (cr3 s)" for a
      using that pf page_frame_entry [OF PDE_IDX_small, of "cr3 s" v] by (auto simp: s2_def with_table_def)
    have k: "kernel_pool ?t = kp" "frames PF_KERNEL ?t = frames PF_KERNEL s1" "taken_frames PF_KERNEL ?t = taken_frames PF_KERNEL s1"
      by (simp_all add: s2_def with_table_def kp(2) frames_def taken_frames_def get_pool_def)
    show thesis
      by (rule that [OF new]) (use False pde fr(1,4) out k af(2,3) in \<open>auto simp: s2_def with_table_def\<close>)
  qed
qed


text \<open>
  A page \<open>v\<close> added to the active address space: it is mapped to the frame \<open>g\<close>, which was free, and its
  table is \<open>f\<close>, which was free too or has been its table before.
\<close>

definition page_added :: "u32 \<Rightarrow> kernel \<Rightarrow> kernel \<Rightarrow> u32 \<Rightarrow> u32 \<Rightarrow> bool" where
  "page_added v s t f g \<longleftrightarrow> mm_ok t \<and> cr3 t = cr3 s \<and>
     translate t v = Some (g + (v AND 0xfff)) \<and> page_frame g = g \<and> \<not> owned s g \<and> f \<noteq> g \<and>
     (\<forall>w. PDE_IDX w \<noteq> 1023 \<and> page_frame w \<noteq> page_frame v \<longrightarrow> translate t w = translate s w) \<and>
     (\<forall>x. owned s x \<longrightarrow> owned t x) \<and> present (pde_of t v) \<and> page_frame (pde_of t v) = f \<and>
     (\<forall>w. PDE_IDX w \<noteq> PDE_IDX v \<longrightarrow> pde_of t w = pde_of s w) \<and>
     (\<forall>a. page_frame a \<noteq> f \<and> page_frame a \<noteq> page_frame (cr3 s) \<longrightarrow> phys t a = phys s a) \<and>
     (present (pde_of s v) \<and> page_frame (pde_of s v) = f \<or> \<not> present (pde_of s v) \<and> \<not> owned s f) \<and>
     (\<forall>pf. card (free_frames pf s) \<le> Suc (card (free_frames pf t)))"

lemma page_addedD:
  assumes "page_added v s t f g"
  shows "mm_ok t" "cr3 t = cr3 s" "translate t v = Some (g + (v AND 0xfff))" "page_frame g = g" "\<not> owned s g" "f \<noteq> g"
    "\<And>w. PDE_IDX w \<noteq> 1023 \<Longrightarrow> page_frame w \<noteq> page_frame v \<Longrightarrow> translate t w = translate s w"
    "\<And>x. owned s x \<Longrightarrow> owned t x" "present (pde_of t v)" "page_frame (pde_of t v) = f"
    "\<And>w. PDE_IDX w \<noteq> PDE_IDX v \<Longrightarrow> pde_of t w = pde_of s w"
    "\<And>a. page_frame a \<noteq> f \<Longrightarrow> page_frame a \<noteq> page_frame (cr3 s) \<Longrightarrow> phys t a = phys s a"
    "present (pde_of s v) \<and> page_frame (pde_of s v) = f \<or> \<not> present (pde_of s v) \<and> \<not> owned s f"
    "\<And>pf. card (free_frames pf s) \<le> Suc (card (free_frames pf t))"
  using assms by (simp_all add: page_added_def)

lemma same_memory:
  assumes "phys t = phys s" "cr3 t = cr3 s" "kernel_pool t = kernel_pool s" "user_pool t = user_pool s"
  shows "mm_ok t = mm_ok s" "owned t f = owned s f" "free_frames pf t = free_frames pf s" "taken_frames pf t = taken_frames pf s" "frames pf t = frames pf s"
proof -
  have g: "get_pool pf t = get_pool pf s" for pf using assms(3,4) by (cases pf) (simp_all add: get_pool_def)
  then show f: "taken_frames pf t = taken_frames pf s" "frames pf t = frames pf s" for pf by (simp_all add: taken_frames_def frames_def)
  then show "free_frames pf t = free_frames pf s" by (simp add: free_frames_def)
  show ow: "owned t f = owned s f" for f by (simp add: owned_def f assms)
  show "mm_ok t = mm_ok s"
    unfolding mm_ok_def translate_cong [OF assms(1,2)] maps_cong [OF assms(1,2)] ow pools_ok_def assms(3,4) ..
qed

lemma page_added_cong:
  assumes s: "phys s' = phys s" "cr3 s' = cr3 s" "kernel_pool s' = kernel_pool s" "user_pool s' = user_pool s"
    and t: "phys t' = phys t" "cr3 t' = cr3 t" "kernel_pool t' = kernel_pool t" "user_pool t' = user_pool t"
  shows "page_added v s' t' f g = page_added v s t f g"
  unfolding page_added_def same_memory [OF s] same_memory [OF t] translate_cong [OF s(1,2)] translate_cong [OF t(1,2)] s(1,2) t(1,2) ..

lemma add_user_page:
  assumes mm: "mm_ok s" and v: "PDE_IDX v \<noteq> 1023" and un: "translate s v = None"
    and room: "free_frames PF_KERNEL s \<noteq> {}" "free_frames PF_USER s \<noteq> {}"
  obtains up w f g where "palloc (user_pool s) = Some (up, g)" "g \<noteq> 0" "page_table_add (s\<lparr>user_pool := up\<rparr>) v g = Some w"
    "w = s\<lparr>kernel_pool := kernel_pool w, user_pool := up, phys := phys w\<rparr>" "page_added v s w f g"
proof -
  have ok: "pools_ok s" using mm by (simp add: mm_ok_def)
  obtain u g where af: "alloc_frame PF_USER s = Some (u, g)" "taken_frames PF_USER u = insert g (taken_frames PF_USER s)"
    "frames PF_USER u = frames PF_USER s"
    using alloc_frame_ok [OF ok, of PF_USER] room(2) by (auto simp: free_frames_def)
  then obtain up where up: "palloc (user_pool s) = Some (up, g)" "u = s\<lparr>user_pool := up\<rparr>"
    by (auto simp: alloc_frame_def get_pool_def set_pool_def bind_Some_iff)
  note fr = alloc_frame_fresh [OF ok af(1)] and mu = alloc_frame_mm [OF mm af(1)]
  have us: "phys u = phys s" "cr3 u = cr3 s" "kernel_pool u = kernel_pool s" using up(2) by simp_all
  note tu = translate_cong [OF us(1,2)]
  have fu: "frames PF_KERNEL u = frames PF_KERNEL s" "taken_frames PF_KERNEL u = taken_frames PF_KERNEL s"
    using us(3) by (simp_all add: frames_def taken_frames_def get_pool_def)
  have ru: "free_frames PF_KERNEL u \<noteq> {}" using room(1) fu by (simp add: free_frames_def)
  obtain w f where w: "page_table_add u v g = Some w" "w = u\<lparr>kernel_pool := kernel_pool w, phys := phys w\<rparr>"
    "present (pde_of w v)" "page_frame (pde_of w v) = f" "\<And>x. PDE_IDX x \<noteq> PDE_IDX v \<Longrightarrow> pde_of w x = pde_of u x"
    "\<And>a. page_frame a \<noteq> f \<Longrightarrow> page_frame a \<noteq> page_frame (cr3 u) \<Longrightarrow> phys w a = phys u a"
    "present (pde_of u v) \<and> page_frame (pde_of u v) = f \<or> \<not> present (pde_of u v) \<and> \<not> owned u f"
    "frames PF_KERNEL w = frames PF_KERNEL u" "taken_frames PF_KERNEL w \<subseteq> insert f (taken_frames PF_KERNEL u)"
    by (rule page_table_add_effect [OF mu v _ ru, of g]) (use un tu in simp_all)
  have lw: "cr3 w = cr3 u" "user_pool w = user_pool u" by (subst w(2), simp)+
  have og: "owned u g" and oo: "\<And>x. owned u x \<longleftrightarrow> owned s x \<or> x = g" using fr(2) by simp_all
  note pt = page_table_add_mm [OF mu w(1) v fr(4) og]
  have "\<not> owned u f \<or> page_frame (pde_of s v) = f \<and> present (pde_of s v)" using w(7) tu by auto
  then have fn: "f \<noteq> g" using og mm fr(1) by (auto simp: mm_ok_def)
  have "frames pf w = frames pf s" "taken_frames pf w \<subseteq> insert (if pf = PF_KERNEL then f else g) (taken_frames pf s)" for pf
    using w(8,9) fu af(2,3) lw(2) by (cases pf; simp add: frames_def taken_frames_def get_pool_def)+
  then have "card (free_frames pf s) \<le> Suc (card (free_frames pf w))" for pf by (rule free_frames_card)
  then have "page_added v s w f g"
    unfolding page_added_def using pt w(3-7) fr(1,4) fn lw(1) tu us oo by auto
  moreover have "w = s\<lparr>kernel_pool := kernel_pool w, user_pool := up, phys := phys w\<rparr>" by (subst w(2)) (simp add: up(2))
  ultimately show thesis by (intro that [OF up(1) fr(3) w(1) [unfolded up(2)]])
qed

text \<open>The page is taken under the lock of the user pool.\<close>

lemma get_page_effect:
  assumes mm: "mm_ok s" and l: "lock_free s UserPoolLock" "running s \<noteq> 0" and v: "PDE_IDX v \<noteq> 1023" and un: "translate s v = None"
    and room: "free_frames PF_KERNEL s \<noteq> {}" "free_frames PF_USER s \<noteq> {}"
  obtains t f g where "get_a_page_without_opvaddrbitmap PF_USER v s = Some (t, v)" "page_added v s t f g"
    "t = s\<lparr>kernel_pool := kernel_pool t, user_pool := user_pool t, phys := phys t\<rparr>"
proof -
  let ?h = "held s UserPoolLock 1"
  have hc: "phys ?h = phys s" "cr3 ?h = cr3 s" "kernel_pool ?h = kernel_pool s" "user_pool ?h = user_pool s"
    by (simp_all add: held_def upd_lock_def)
  note h = same_memory [OF hc] translate_cong [OF hc(1,2)]
  obtain up w f g where w: "palloc (user_pool ?h) = Some (up, g)" "g \<noteq> 0" "page_table_add (?h\<lparr>user_pool := up\<rparr>) v g = Some w"
    "w = ?h\<lparr>kernel_pool := kernel_pool w, user_pool := up, phys := phys w\<rparr>" "page_added v ?h w f g"
    by (rule add_user_page [of ?h v]) (use mm v un room h in simp_all)
  let ?t = "w\<lparr>locks := locks s\<rparr>"
  have "locks w = locks ?h" "running w = running s" by (subst w(4), simp add: held_def upd_lock_def)+
  then have rel: "lock_release UserPoolLock w = Some ?t" by (rule lock_release_held [OF l(1)])
  have run: "get_a_page_without_opvaddrbitmap PF_USER v s = Some (?t, v)"
    using lock_take_unheld [OF l] w(1-3) rel by (simp add: get_a_page_without_opvaddrbitmap_def get_pool_def set_pool_def pool_lock_def Let_def)
  have "user_pool w = up" by (subst w(4)) simp
  then have eq: "?t = s\<lparr>kernel_pool := kernel_pool ?t, user_pool := user_pool ?t, phys := phys ?t\<rparr>"
    by (subst w(4)) (simp add: held_def upd_lock_def)
  have "page_added v ?h ?t f g = page_added v ?h w f g" "page_added v ?h ?t f g = page_added v s ?t f g"
    by (rule page_added_cong; simp add: hc)+
  then have "page_added v s ?t f g" using w(5) by simp
  then show thesis by (rule that [OF run _ eq])
qed


section \<open>Parent and child\<close>

text \<open>
  The two address spaces during a fork: the directories \<open>p\<close> and \<open>c\<close> share the tables of the kernel's
  gigabyte, the tables of the user part are their own, and the frames of the user pages and of the buffer
  are neither shared nor page tables.
\<close>

definition kernel_va :: "u32 \<Rightarrow> bool" where
  "kernel_va v \<longleftrightarrow> 768 \<le> unat (PDE_IDX v) \<and> PDE_IDX v \<noteq> 1023"

definition fork_ok :: "u32 \<Rightarrow> u32 \<Rightarrow> u32 \<Rightarrow> u32 \<Rightarrow> u32 \<Rightarrow> u32 \<Rightarrow> kernel \<Rightarrow> bool" where
  "fork_ok p c parent child buf_page b s \<longleftrightarrow>
     page_frame p = p \<and> page_frame c = c \<and> mm_ok (space p s) \<and> mm_ok (space c s) \<and>
     lock_free s UserPoolLock \<and> running s \<noteq> 0 \<and>
     (\<forall>v. kernel_va v \<longrightarrow> pde_of (space c s) v = pde_of (space p s) v) \<and> c \<notin> tables s p \<and>
     (\<forall>v. user_va v \<and> present (pde_of (space c s) v) \<longrightarrow> page_frame (pde_of (space c s) v) \<notin> tables s p) \<and>
     kernel_va buf_page \<and> page_frame buf_page = buf_page \<and> translate (space p s) buf_page = Some b \<and>
     pgdir (tasks s parent) \<noteq> 0 \<and> kernel_va (pgdir (tasks s parent)) \<and> translate (space p s) (pgdir (tasks s parent)) = Some p \<and>
     pgdir (tasks s child) \<noteq> 0 \<and> kernel_va (pgdir (tasks s child)) \<and> translate (space p s) (pgdir (tasks s child)) = Some c \<and>
     insert b (user_frames s p \<union> user_frames s c) \<inter> (tables s p \<union> tables s c) = {} \<and>
     user_frames s p \<inter> user_frames s c = {} \<and> b \<notin> user_frames s p \<union> user_frames s c"

lemma fork_okD:
  assumes "fork_ok p c parent child buf_page b s"
  shows "page_frame p = p" "page_frame c = c" "mm_ok (space p s)" "mm_ok (space c s)" "lock_free s UserPoolLock" "running s \<noteq> 0"
    "\<And>v. kernel_va v \<Longrightarrow> pde_of (space c s) v = pde_of (space p s) v" "c \<notin> tables s p"
    "\<And>v. user_va v \<Longrightarrow> present (pde_of (space c s) v) \<Longrightarrow> page_frame (pde_of (space c s) v) \<notin> tables s p"
    "kernel_va buf_page" "page_frame buf_page = buf_page" "translate (space p s) buf_page = Some b"
    "pgdir (tasks s parent) \<noteq> 0" "kernel_va (pgdir (tasks s parent))" "translate (space p s) (pgdir (tasks s parent)) = Some p"
    "pgdir (tasks s child) \<noteq> 0" "kernel_va (pgdir (tasks s child))" "translate (space p s) (pgdir (tasks s child)) = Some c"
    "insert b (user_frames s p \<union> user_frames s c) \<inter> (tables s p \<union> tables s c) = {}"
    "user_frames s p \<inter> user_frames s c = {}" "b \<notin> user_frames s p \<union> user_frames s c"
    "self_mapped (space p s)" "self_mapped (space c s)" "pools_ok s"
  using assms unfolding fork_ok_def by (auto simp: mm_ok_def)

lemma fork_ok_space [simp]:
  "tables (space d s) e = tables s e" "user_frames (space d s) e = user_frames s e" "lock_free (space d s) l = lock_free s l"
  "free_frames pf (space d s) = free_frames pf s"
  "fork_ok p c parent child buf_page b (space d s) = fork_ok p c parent child buf_page b s"
  by (simp_all add: tables_def user_frames_def lock_free_def free_frames_def fork_ok_def)

lemma kernel_translate:
  assumes "fork_ok p c parent child buf_page b s" "kernel_va v"
  shows "translate (space c s) v = translate (space p s) v"
  using fork_okD(7) [OF assms] by (simp add: translate_def pte_addr_def)

lemma user_not_window: "user_va v \<Longrightarrow> PDE_IDX v \<noteq> 1023"
  by (auto simp: user_va_def)

lemma user_not_kernel: "user_va v \<Longrightarrow> kernel_va w \<Longrightarrow> PDE_IDX w \<noteq> PDE_IDX v"
  by (auto simp: user_va_def kernel_va_def)

lemma mm_ok_owned:
  assumes "mm_ok (space d s)"
  shows "f \<in> tables s d \<Longrightarrow> owned s f" "f \<in> user_frames s d \<Longrightarrow> owned s f"
    "PDE_IDX v \<noteq> 1023 \<Longrightarrow> translate (space d s) v = Some q \<Longrightarrow> owned s (page_frame q)"
  using assms unfolding mm_ok_def tables_def user_frames_def by (auto dest: user_not_window)

lemma user_framesI: "user_va v \<Longrightarrow> translate (space d s) v = Some q \<Longrightarrow> page_frame q \<in> user_frames s d"
  by (auto simp: user_frames_def)

text \<open>Writing a frame that is no page table changes neither address space.\<close>

lemma fork_ok_data:
  assumes ok: "fork_ok p c parent child buf_page b s" and t: "t = s\<lparr>phys := m\<rparr>"
    and ag: "\<And>a. page_frame a \<noteq> x \<Longrightarrow> m a = phys s a" and x: "x \<notin> tables s p \<union> tables s c"
  shows "fork_ok p c parent child buf_page b t" "translate (space p t) v = translate (space p s) v"
    "translate (space c t) v = translate (space c s) v"
proof -
  note o = fork_okD [OF ok]
  have agp: "tables_kept p s t" and agc: "tables_kept c s t" unfolding tables_kept_def t using ag x by (simp_all, metis+)
  note tp = translate_agree [OF o(22) agp] and tc = translate_agree [OF o(23) agc]
  note sp = space_agree [OF o(22) agp] and sc = space_agree [OF o(23) agc]
  have e: "kernel_pool t = kernel_pool s" "user_pool t = user_pool s" "tasks t = tasks s" "locks t = locks s" "running t = running s"
    by (simp_all add: t)
  have ow: "owned t f = owned s f" "pools_ok t = pools_ok s" for f
    by (simp_all add: t owned_def taken_frames_def get_pool_def pools_ok_def)
  have mm: "mm_ok (space p t)" "mm_ok (space c t)"
    using mm_ok_agree [OF o(3) agp] mm_ok_agree [OF o(4) agc] ow o(24) by simp_all
  show "translate (space p t) v = translate (space p s) v" "translate (space c t) v = translate (space c s) v" by (simp_all only: tp tc)
  have lf: "lock_free t UserPoolLock = lock_free s UserPoolLock" using e by (simp add: lock_free_def)
  show "fork_ok p c parent child buf_page b t"
    using ok unfolding fork_ok_def tp tc sp(3,4) sc(3,4) e lf by (elim conjE) (intro conjI; (assumption | rule mm))
qed


text \<open>A new page of the child changes its own tables only.\<close>

lemma added_tables:
  assumes "page_added v (space c s) t f g"
  shows "tables t c \<subseteq> insert f (tables s c)"
proof
  note ad = page_addedD [OF assms]
  have ct: "space c t = t" using ad(2) by simp
  fix x assume "x \<in> tables t c"
  then obtain w where w: "present (pde_of t w)" "x = page_frame (pde_of t w)" unfolding tables_def ct by blast
  show "x \<in> insert f (tables s c)"
  proof (cases "PDE_IDX w = PDE_IDX v")
    case True
    then have "pde_of t w = pde_of t v" by (simp add: pde_of_def)
    then show ?thesis using w(2) ad(10) by simp
  next
    case False
    then show ?thesis using ad(11) [OF False] w tablesI [of c s w] by simp
  qed
qed

lemma added_frames:
  assumes "page_added v (space c s) t f g" "page_frame v = v"
  shows "translate t v = Some g" "user_frames t c \<subseteq> insert g (user_frames s c)"
proof -
  note ad = page_addedD [OF assms(1)]
  have ct: "space c t = t" using ad(2) by simp
  show tv: "translate t v = Some g" using ad(3) aligned_offset [OF assms(2)] by simp
  show "user_frames t c \<subseteq> insert g (user_frames s c)"
  proof
    fix x assume "x \<in> user_frames t c"
    then obtain w q where w: "user_va w" "translate t w = Some q" "x = page_frame q" unfolding user_frames_def ct by blast
    show "x \<in> insert g (user_frames s c)"
    proof (cases "page_frame w = v")
      case True
      then have "q = page_frame g + (w AND 0xfff)" using translate_same_page [of w v t] assms(2) tv w(2) by simp
      then show ?thesis using w(3) ad(4) page_frame_offset [of g w] by simp
    next
      case False
      then show ?thesis using ad(7) [of w] w assms(2) user_not_window user_framesI [of w c s q] by simp
    qed
  qed
qed

lemma fork_ok_used:
  assumes ok: "fork_ok p c parent child buf_page b s" and x: "x \<in> insert b (user_frames s p \<union> user_frames s c)"
  shows "owned s x"
proof -
  note o = fork_okD [OF ok]
  show ?thesis
    using x mm_ok_owned(2) [OF o(3)] mm_ok_owned(2) [OF o(4)] mm_ok_owned(3) [OF o(3) _ o(12)] o(10) translate_word(2) [OF o(11,12), of 0]
    by (auto simp: kernel_va_def)
qed

lemma fork_ok_page:
  assumes ok: "fork_ok p c parent child buf_page b s" and v: "user_va v" "page_frame v = v" and un: "translate (space c s) v = None"
    and room: "free_frames PF_KERNEL s \<noteq> {}" "free_frames PF_USER s \<noteq> {}"
  obtains t g where "get_a_page_without_opvaddrbitmap PF_USER v (space c s) = Some (t, v)" "cr3 t = c" "tasks t = tasks s"
    "fork_ok p c parent child buf_page b t" "translate (space c t) v = Some g" "page_frame g = g"
    "g \<notin> tables t p \<union> tables t c" "g \<notin> insert b (user_frames s p \<union> user_frames s c)"
    "\<And>w. translate (space p t) w = translate (space p s) w"
    "\<And>w. user_va w \<Longrightarrow> page_frame w \<noteq> v \<Longrightarrow> translate (space c t) w = translate (space c s) w"
    "\<And>a. page_frame a \<in> insert b (user_frames s p \<union> user_frames s c) \<Longrightarrow> phys t a = phys s a"
    "\<And>pf. card (free_frames pf s) \<le> Suc (card (free_frames pf t))"
proof -
  note o = fork_okD [OF ok]
  obtain t f g where run: "get_a_page_without_opvaddrbitmap PF_USER v (space c s) = Some (t, v)" and added: "page_added v (space c s) t f g"
    and eq: "t = (space c s)\<lparr>kernel_pool := kernel_pool t, user_pool := user_pool t, phys := phys t\<rparr>"
    by (rule get_page_effect [of "space c s" v]) (use o(4-6) v un room user_not_window in simp_all)
  note t = page_addedD [OF added, simplified] and tc = added_tables [OF added] and uf = added_frames [OF added v(2)]
  have e: "cr3 t = c" "tasks t = tasks s" "locks t = locks s" "running t = running s" by (subst eq, simp)+
  have ct: "space c t = t" using e(1) by simp
  have f: "f \<notin> tables s p" "f \<in> tables s c \<or> \<not> owned s f"
    using t(13) o(9) [OF v(1)] mm_ok_owned(1) [OF o(3), of f] tablesI [of c s v] by auto
  have out: "phys t a = phys s a" if "page_frame a \<noteq> f" "page_frame a \<noteq> c" for a using t(12) [of a] that o(2) by simp
  have agp: "tables_kept p s t" unfolding tables_kept_def using out f(1) o(8) by metis
  note tp = translate_agree [OF o(22) agp] and sp = space_agree [OF o(22) agp]
  have mm: "mm_ok (space p t)" "mm_ok (space c t)"
    using mm_ok_agree [OF o(3) agp] t(1,8) ct by (simp_all add: mm_ok_def)
  have free: "x \<notin> insert f (tables s p \<union> tables s c)" if "x \<in> insert b (user_frames s p \<union> user_frames s c)" for x
    using that fork_ok_used [OF ok that] f o(19) by blast
  have gt: "g \<notin> tables t p \<union> tables t c"
    using t(5,6) tc mm_ok_owned(1) [OF o(3)] mm_ok_owned(1) [OF o(4)] unfolding sp(3) by blast
  have gn: "g \<notin> insert b (user_frames s p \<union> user_frames s c)" using fork_ok_used [OF ok] t(5) by blast
  have kern: "pde_of (space c t) w = pde_of (space p t) w" if "kernel_va w" for w
    using t(11) [OF user_not_kernel [OF v(1) that]] o(7) [OF that] tp(1) ct by simp
  have usr: "page_frame (pde_of (space c t) w) \<notin> tables t p" if w: "user_va w" "present (pde_of (space c t) w)" for w
  proof (cases "PDE_IDX w = PDE_IDX v")
    case True
    then have "pde_of t w = pde_of t v" by (simp add: pde_of_def)
    then show ?thesis using f(1) t(10) unfolding ct sp(3) by simp
  next
    case False
    then show ?thesis using t(11) [OF False] o(9) [OF w(1)] w(2) unfolding ct sp(3) by simp
  qed
  have fk: "fork_ok p c parent child buf_page b t"
    unfolding fork_ok_def tp(2) sp(3,4) e(2)
  proof (intro conjI allI impI)
    show "lock_free t UserPoolLock" "running t \<noteq> 0" using o(5,6) e(3,4) by (simp_all add: lock_free_def)
    show "insert b (user_frames s p \<union> user_frames t c) \<inter> (tables s p \<union> tables t c) = {}"
      using uf(2) tc free gt unfolding sp(3) by blast
    show "user_frames s p \<inter> user_frames t c = {}" "b \<notin> user_frames s p \<union> user_frames t c" using uf(2) gn o(20,21) by blast+
  qed (use o mm kern usr sp(3) in simp_all)
  have tw: "translate (space c t) w = translate (space c s) w" if "user_va w" "page_frame w \<noteq> v" for w
    using t(7) [of w] that v(2) user_not_window ct by simp
  have keep: "phys t a = phys s a" if "page_frame a \<in> insert b (user_frames s p \<union> user_frames s c)" for a
    using out [of a] free [OF that] dir_in_tables [OF o(23)] o(2) by auto
  show thesis
    by (rule that [OF run e(1,2) fk _ t(4) gt gn tp(2) tw keep]) (use uf(1) ct t(14) in simp_all)
qed


section \<open>One page of the parent\<close>

lemma page_copy_out: "page_frame fd = fd \<Longrightarrow> page_frame a \<noteq> fd \<Longrightarrow> page_copy fd fs 0 1024 m a = m a"
  using word_index [of _ fd] by (auto simp: page_copy_def)

lemma page_copy_in: "i < 1024 \<Longrightarrow> page_copy fd fs 0 1024 m (fd + of_nat i * 4) = m (fs + of_nat i * 4)"
  by (auto simp: page_copy_def)

lemma word_in_page:
  assumes "page_frame w = v" "w AND 3 = 0"
  obtains i where "i < 1024" "w = v + of_nat i * 4"
proof -
  have "w AND 3 = take_bit 2 w" by (simp add: take_bit_eq_mask mask_eq_exp_minus_1)
  then have "unat w mod 4 = 0" using assms(2) unat_take [of 2 w] by simp
  then have m: "unat w mod 4096 mod 4 = 0" by (simp add: mod_mod_cancel)
  define i where "i = unat w mod 4096 div 4"
  have i: "i < 1024" by (simp add: i_def div_less_iff_less_mult)
  have "i * 4 = unat w mod 4096" unfolding i_def by (rule dvd_div_mult_self [OF mod_0_imp_dvd [OF m]])
  moreover have "unat (page_frame w + of_nat i * 4) = unat w div 4096 * 4096 + i * 4"
    using unat_frame_plus [OF unat_small [OF i], of w] i by (simp add: unat_of_nat)
  ultimately have "unat (page_frame w + of_nat i * 4) = unat w"
    by simp
  then show thesis using that [OF i] assms(1) by (simp add: word_unat_eq_iff)
qed

lemma addr_v2p_mapped: "self_mapped s \<Longrightarrow> translate s v = Some pa \<Longrightarrow> addr_v2p s v = Some pa"
  by (auto simp: addr_v2p_def load_pte_ptr translate_def page_frame_def split: if_splits)

lemma fork_activate:
  assumes ok: "fork_ok p c parent child buf_page b s" and d: "d = p \<or> d = c"
  shows "page_dir_activate (space d s) parent = Some (space p s)" "page_dir_activate (space d s) child = Some (space c s)"
proof -
  note o = fork_okD [OF ok]
  have "translate (space d s) (pgdir (tasks s parent)) = Some p" "translate (space d s) (pgdir (tasks s child)) = Some c"
    using d o(15,18) kernel_translate [OF ok] o(14,17) by auto
  moreover have "self_mapped (space d s)" using d o(22,23) by auto
  ultimately show "page_dir_activate (space d s) parent = Some (space p s)" "page_dir_activate (space d s) child = Some (space c s)"
    using o(13,16) by (simp_all add: page_dir_activate_def addr_v2p_mapped)
qed


text \<open>The copy through the buffer: the page \<open>v\<close> of the child is at a new frame \<open>g\<close> with the words of the parent's frame \<open>q\<close>.\<close>

lemma copy_user_page_words:
  assumes ok: "fork_ok p c parent child buf_page b s" and cr: "cr3 s = p" and v: "user_va v" "page_frame v = v"
    and tr: "translate (space p s) v = Some q" "translate (space c s) v = None"
    and room: "free_frames PF_KERNEL s \<noteq> {}" "free_frames PF_USER s \<noteq> {}"
  obtains t g where "copy_user_page child parent buf_page v s = Some t" "cr3 t = p" "fork_ok p c parent child buf_page b t" "tasks t = tasks s"
    "\<And>w. translate (space p t) w = translate (space p s) w"
    "\<And>w. user_va w \<Longrightarrow> page_frame w \<noteq> v \<Longrightarrow> translate (space c t) w = translate (space c s) w" "translate (space c t) v = Some g"
    "\<And>a. page_frame a \<in> user_frames s p \<union> user_frames s c \<Longrightarrow> phys t a = phys s a"
    "\<And>i. i < 1024 \<Longrightarrow> phys t (g + of_nat i * 4) = phys s (q + of_nat i * 4)"
    "\<And>pf. card (free_frames pf s) \<le> Suc (card (free_frames pf t))"
proof -
  note o = fork_okD [OF ok]
  have sp: "space p s = s" using cr by simp
  have al: "page_frame b = b" "page_frame q = q"
    using translate_word(2) [OF o(11,12), of 0] translate_word(2) [OF v(2) tr(1), of 0] by simp_all
  have q: "q \<in> user_frames s p" using user_framesI [OF v(1) tr(1)] al(2) by simp
  have bq: "b \<noteq> q" using o(21) q by blast
  have bt: "b \<notin> tables s p \<union> tables s c" using o(19) by blast
  have "data_frame s b" using data_frame_tables [OF o(22)] bt sp by simp
  define s1 where "s1 = s\<lparr>phys := page_copy b q 0 1024 (phys s)\<rparr>"
  have c1: "copy_words buf_page v 1024 s = Some s1"
    using copy_words_page [OF o(11) v(2) _ _ bq \<open>data_frame s b\<close>, of 0 1024] o(12) tr(1) sp by (simp add: s1_def)
  note f1 = fork_ok_data [OF ok s1_def page_copy_out [OF al(1)] bt]
  have uf1: "user_frames s1 p = user_frames s p" "user_frames s1 c = user_frames s c" by (simp_all add: user_frames_def f1(2,3))
  have fr1: "free_frames pf s1 = free_frames pf s" for pf
    by (cases pf) (simp_all add: free_frames_def frames_def taken_frames_def get_pool_def s1_def)
  obtain u g where u: "get_a_page_without_opvaddrbitmap PF_USER v (space c s1) = Some (u, v)" "cr3 u = c" "tasks u = tasks s1"
    "fork_ok p c parent child buf_page b u" "translate (space c u) v = Some g" "page_frame g = g"
    "g \<notin> tables u p \<union> tables u c" "g \<notin> insert b (user_frames s1 p \<union> user_frames s1 c)"
    "\<And>w. translate (space p u) w = translate (space p s1) w"
    "\<And>w. user_va w \<Longrightarrow> page_frame w \<noteq> v \<Longrightarrow> translate (space c u) w = translate (space c s1) w"
    "\<And>a. page_frame a \<in> insert b (user_frames s1 p \<union> user_frames s1 c) \<Longrightarrow> phys u a = phys s1 a"
    "\<And>pf. card (free_frames pf s1) \<le> Suc (card (free_frames pf u))"
    by (rule fork_ok_page [OF f1(1) v]) (use tr(2) f1(3) room fr1 in simp_all)
  note o2 = fork_okD [OF u(4)]
  have su: "space c u = u" using u(2) by simp
  have gb: "g \<noteq> b" using u(8) by simp
  have "data_frame u g" using data_frame_tables [OF o2(23)] u(7) su by simp
  moreover have "translate u buf_page = Some b" using kernel_translate [OF u(4) o2(10)] o2(12) su by simp
  moreover define t where "t = u\<lparr>phys := page_copy g b 0 1024 (phys u)\<rparr>"
  ultimately have c2: "copy_words v buf_page 1024 u = Some t"
    using copy_words_page [OF v(2) o(11) _ _ gb, of u 0 1024] u(5) su by simp
  note f2 = fork_ok_data [OF u(4) t_def page_copy_out [OF u(6)] u(7)]
  have st: "space c t = t" using u(2) by (simp add: t_def)
  have cr1: "cr3 s1 = p" using cr by (simp add: s1_def)
  have a1: "page_dir_activate s1 child = Some (space c s1)"
    using fork_activate(2) [OF f1(1), of p] space_self [of s1, OF cr1] by simp
  have a2: "page_dir_activate t parent = Some (space p t)" using fork_activate(1) [OF f2(1), of c] st by simp
  have run: "copy_user_page child parent buf_page v s = Some (space p t)"
    by (simp only: copy_user_page_def c1 a1 u(1) c2 a2 bind.bind_lunit prod.case)
  have keep: "phys t a = phys s a" if "page_frame a \<in> user_frames s p \<union> user_frames s c" for a
  proof -
    have "page_frame a \<noteq> g" "page_frame a \<noteq> b" using that u(8) o(21) uf1 by auto
    then show ?thesis using u(11) [of a] that uf1 page_copy_out [OF u(6)] page_copy_out [OF al(1)] by (simp add: t_def s1_def)
  qed
  have tp: "translate (space p t) w = translate (space p s) w" for w using f1(2) f2(2) u(9) by simp
  have tc: "translate (space c t) w = translate (space c s) w" if "user_va w" "page_frame w \<noteq> v" for w
    using f1(3) f2(3) u(10) that by simp
  have wds: "phys t (g + of_nat i * 4) = phys s (q + of_nat i * 4)" if i: "i < 1024" for i
  proof -
    have "phys t (g + of_nat i * 4) = phys s1 (b + of_nat i * 4)"
      using page_copy_in [OF i] u(11) [of "b + of_nat i * 4"] word_index [OF i al(1)] by (simp add: t_def)
    then show ?thesis using page_copy_in [OF i] by (simp add: s1_def)
  qed
  have fr: "card (free_frames pf s) \<le> Suc (card (free_frames pf (space p t)))" for pf
    using u(12) [of pf] fr1 [of pf] by (simp add: t_def) (cases pf; simp add: free_frames_def frames_def taken_frames_def get_pool_def)
  show thesis
    by (rule that [OF run, of g]) (use f2(1,3) u(3,5) tp tc keep wds fr in \<open>simp_all add: t_def s1_def\<close>)
qed

lemma copy_user_page_step:
  assumes ok: "fork_ok p c parent child buf_page b s" and cr: "cr3 s = p" and v: "user_va v" "page_frame v = v"
    and tr: "translate (space p s) v = Some q" "translate (space c s) v = None"
    and room: "free_frames PF_KERNEL s \<noteq> {}" "free_frames PF_USER s \<noteq> {}"
  obtains t where "copy_user_page child parent buf_page v s = Some t" "cr3 t = p" "fork_ok p c parent child buf_page b t" "tasks t = tasks s"
    "\<And>w. translate (space p t) w = translate (space p s) w"
    "\<And>w. user_va w \<Longrightarrow> load (space p t) w = load (space p s) w"
    "\<And>w. user_va w \<Longrightarrow> page_frame w \<noteq> v \<Longrightarrow> translate (space c t) w = translate (space c s) w \<and> load (space c t) w = load (space c s) w"
    "\<And>w. page_frame w = v \<Longrightarrow> w AND 3 = 0 \<Longrightarrow> load (space c t) w = load (space p s) w"
    "\<And>pf. card (free_frames pf s) \<le> Suc (card (free_frames pf t))"
proof -
  obtain t g where t: "copy_user_page child parent buf_page v s = Some t" "cr3 t = p" "fork_ok p c parent child buf_page b t" "tasks t = tasks s"
    "\<And>w. translate (space p t) w = translate (space p s) w"
    "\<And>w. user_va w \<Longrightarrow> page_frame w \<noteq> v \<Longrightarrow> translate (space c t) w = translate (space c s) w" "translate (space c t) v = Some g"
    "\<And>a. page_frame a \<in> user_frames s p \<union> user_frames s c \<Longrightarrow> phys t a = phys s a"
    "\<And>i. i < 1024 \<Longrightarrow> phys t (g + of_nat i * 4) = phys s (q + of_nat i * 4)"
    "\<And>pf. card (free_frames pf s) \<le> Suc (card (free_frames pf t))"
    by (rule copy_user_page_words [OF ok cr v tr room]) (rule that)
  have lk: "load (space d t) w = load (space d s) w"
    if "user_va w" "translate (space d t) w = translate (space d s) w" "d = p \<or> d = c" for w d
  proof (cases "translate (space d s) w")
    case (Some x)
    then show ?thesis using user_framesI [OF that(1) Some] t(8) [of x] that(2,3) by (auto simp: load_def)
  qed (use that(2) in \<open>simp add: load_def\<close>)
  have new: "load (space c t) w = load (space p s) w" if w: "page_frame w = v" "w AND 3 = 0" for w
  proof -
    obtain i where i: "i < 1024" "w = v + of_nat i * 4" by (rule word_in_page [OF w])
    show ?thesis
      using translate_word(1) [OF v(2) tr(1) i(1)] translate_word(1) [OF v(2) t(7) i(1)] t(9) [OF i(1)] i(2) by (simp add: load_def)
  qed
  show thesis by (rule that [OF t(1-5)]) (use lk t(5,6) new t(10) in auto)
qed


section \<open>All pages of the parent\<close>

fun copy_pages :: "u32 \<Rightarrow> u32 \<Rightarrow> u32 \<Rightarrow> u32 list \<Rightarrow> kernel \<Rightarrow> kernel option" where
  "copy_pages child parent buf_page [] s = Some s"
| "copy_pages child parent buf_page (v # vs) s = do {
     s \<leftarrow> copy_user_page child parent buf_page v s;
     copy_pages child parent buf_page vs s
   }"

fun set_bits :: "nat \<Rightarrow> u8 list \<Rightarrow> nat list" where
  "set_bits k [] = []"
| "set_bits k (x # xs) = map (\<lambda>j. k * 8 + j) (filter (bit x) [0..<8]) @ set_bits (Suc k) xs"

lemma copy_pages_append:
  "copy_pages child parent buf_page (us @ vs) s = copy_pages child parent buf_page us s \<bind> copy_pages child parent buf_page vs"
proof (induction us arbitrary: s)
  case (Cons u us)
  note eq = ext [of "copy_pages child parent buf_page (us @ vs)", OF Cons.IH]
  then show ?case by (simp add: bind_assoc)
qed simp

lemma copy_bits_pages:
  "copy_bits child parent buf_page start x k js s =
     copy_pages child parent buf_page (map (\<lambda>j. page_at start (k * 8 + j)) (filter (bit x) js)) s"
proof (induction js arbitrary: s)
  case (Cons j js)
  have "push_bit j BITMAP_MASK AND x \<noteq> 0 \<longleftrightarrow> bit x j"
    using and_exp_eq_0_iff_not_bit [of x j] by (simp add: BITMAP_MASK_def push_bit_eq_mult and.commute)
  moreover note ext [of "copy_bits child parent buf_page start x k js", OF Cons.IH]
  ultimately show ?case by (simp add: page_at_def add.commute)
qed simp

lemma copy_bytes_pages:
  "copy_bytes child parent buf_page start xs k s = copy_pages child parent buf_page (map (page_at start) (set_bits k xs)) s"
proof (induction xs arbitrary: k s)
  case (Cons x xs)
  have "filter (bit x) [0..<8] = []" if "x = 0" using that by simp
  moreover note ext [of "copy_bytes child parent buf_page start xs (Suc k)", OF Cons.IH]
  ultimately show ?case by (simp add: copy_bits_pages copy_pages_append comp_def)
qed simp

lemma set_bits_mem:
  "i \<in> set (set_bits k xs) \<longleftrightarrow> k * 8 \<le> i \<and> i < (k + length xs) * 8 \<and> bit (xs ! (i div 8 - k)) (i mod 8)"
proof (induction xs arbitrary: k)
  case (Cons x xs)
  show ?case
  proof (cases "i < Suc k * 8")
    case True
    then have "i \<notin> set (set_bits (Suc k) xs)" by (simp add: Cons.IH)
    moreover have "i \<in> (\<lambda>j. k * 8 + j) ` {j. j < 8 \<and> bit x j} \<longleftrightarrow> k * 8 \<le> i \<and> bit x (i mod 8)"
    proof
      assume "k * 8 \<le> i \<and> bit x (i mod 8)"
      moreover from this have "i = k * 8 + i mod 8" using True by (metis add.commute div_mult_mod_eq div_nat_eqI mult.commute)
      ultimately show "i \<in> (\<lambda>j. k * 8 + j) ` {j. j < 8 \<and> bit x j}" by (intro image_eqI [of _ _ "i mod 8"]) simp_all
    qed auto
    moreover have "i div 8 - k = 0" using True by (simp add: less_mult_imp_div_less less_Suc_eq_le div_le_mono)
    ultimately show ?thesis using True by auto
  next
    case False
    then have "Suc k \<le> i div 8" by (simp add: less_eq_div_iff_mult_less_eq)
    then have "i div 8 - k = Suc (i div 8 - Suc k)" by simp
    then show ?thesis using False by (auto simp: Cons.IH)
  qed
qed simp

lemma distinct_set_bits: "distinct (set_bits k xs)"
  by (induction xs arbitrary: k) (auto simp: distinct_map inj_on_def set_bits_mem)

lemma set_bits_used: "wf_bitmap bm \<Longrightarrow> set (set_bits 0 (take (btmp_bytes_len bm) (bits bm))) = used bm"
  by (auto simp: set_bits_mem used_def nbits_def bit_at_def wf_bitmap_def less_mult_imp_div_less)


lemma copy_pages_ok:
  assumes "fork_ok p c parent child buf_page b s" "cr3 s = p" "distinct vs"
    and "\<forall>v \<in> set vs. user_va v \<and> page_frame v = v \<and> translate (space p s) v \<noteq> None \<and> translate (space c s) v = None"
    and "length vs \<le> card (free_frames PF_KERNEL s)" "length vs \<le> card (free_frames PF_USER s)"
  shows "\<exists>t. copy_pages child parent buf_page vs s = Some t \<and> fork_ok p c parent child buf_page b t \<and> cr3 t = p \<and>
    (\<forall>w. user_va w \<longrightarrow> load (space p t) w = load (space p s) w) \<and>
    (\<forall>w. user_va w \<and> w AND 3 = 0 \<and> page_frame w \<in> set vs \<longrightarrow> load (space c t) w = load (space p s) w) \<and>
    (\<forall>w. user_va w \<and> page_frame w \<notin> set vs \<longrightarrow> load (space c t) w = load (space c s) w)"
  using assms
proof (induction vs arbitrary: s)
  case (Cons v vs)
  obtain q where v: "user_va v" "page_frame v = v" "translate (space p s) v = Some q" "translate (space c s) v = None"
    using Cons.prems(4) by auto
  have room: "free_frames PF_KERNEL s \<noteq> {}" "free_frames PF_USER s \<noteq> {}" using Cons.prems(5,6) by auto
  obtain u where u: "copy_user_page child parent buf_page v s = Some u" "cr3 u = p" "fork_ok p c parent child buf_page b u" "tasks u = tasks s"
    "\<And>w. translate (space p u) w = translate (space p s) w"
    "\<And>w. user_va w \<Longrightarrow> load (space p u) w = load (space p s) w"
    "\<And>w. user_va w \<Longrightarrow> page_frame w \<noteq> v \<Longrightarrow> translate (space c u) w = translate (space c s) w \<and> load (space c u) w = load (space c s) w"
    "\<And>w. page_frame w = v \<Longrightarrow> w AND 3 = 0 \<Longrightarrow> load (space c u) w = load (space p s) w"
    "\<And>pf. card (free_frames pf s) \<le> Suc (card (free_frames pf u))"
    by (rule copy_user_page_step [OF Cons.prems(1,2) v room]) (rule that)
  have rest: "user_va x \<and> page_frame x = x \<and> translate (space p u) x \<noteq> None \<and> translate (space c u) x = None" if "x \<in> set vs" for x
    using that Cons.prems(3,4) u(5) [of x] u(7) [of x] by auto
  have "length vs \<le> card (free_frames PF_KERNEL u)" "length vs \<le> card (free_frames PF_USER u)"
    using Cons.prems(5,6) u(9) [of PF_KERNEL] u(9) [of PF_USER] by simp_all
  then obtain t where t: "copy_pages child parent buf_page vs u = Some t" "fork_ok p c parent child buf_page b t" "cr3 t = p"
    "\<forall>w. user_va w \<longrightarrow> load (space p t) w = load (space p u) w"
    "\<forall>w. user_va w \<and> w AND 3 = 0 \<and> page_frame w \<in> set vs \<longrightarrow> load (space c t) w = load (space p u) w"
    "\<forall>w. user_va w \<and> page_frame w \<notin> set vs \<longrightarrow> load (space c t) w = load (space c u) w"
    using Cons.IH [OF u(3,2)] Cons.prems(3) rest by auto
  have "v \<notin> set vs" using Cons.prems(3) by simp
  then show ?case using t u(1,6,7,8) by (intro exI [of _ t]) auto
qed auto

text \<open>A write of one process to its user part is not seen by the other.\<close>

lemma store_isolated:
  assumes ok: "fork_ok p c parent child buf_page b s" and d: "d = p \<and> e = c \<or> d = c \<and> e = p"
    and st: "user_va v" "store (space d s) v x = Some u" and w: "user_va w"
  shows "load (space e u) w = load (space e s) w"
proof -
  note o = fork_okD [OF ok]
  obtain a where a: "translate (space d s) v = Some a" "phys u = (phys s)(a := x)"
    using st(2) by (auto simp: store_def bind_Some_iff)
  have f: "page_frame a \<in> user_frames s d" by (rule user_framesI [OF st(1) a(1)])
  have sm: "self_mapped (space e s)" using d o(22,23) by auto
  have "tables_kept e s u" using f d o(19) a(2) unfolding tables_kept_def by (auto split: if_splits)
  then have tr: "translate (space e u) w = translate (space e s) w" by (rule translate_agree(2) [OF sm])
  show ?thesis
  proof (cases "translate (space e s) w")
    case (Some y)
    have "page_frame y \<in> user_frames s e" by (rule user_framesI [OF w Some])
    then have "y \<noteq> a" using f d o(20) by auto
    then show ?thesis using tr Some a(2) by (simp add: load_def)
  qed (use tr in \<open>simp add: load_def\<close>)
qed

lemma user_page_at:
  assumes "page_frame st = st" "unat st + 4096 * n \<le> 0xc0000000" "i < n"
  shows "user_va (page_at st i)" "page_frame (page_at st i) = page_at st i" "unat (page_at st i) = unat st + 4096 * i"
proof -
  have n: "unat (of_nat i :: u32) = i" using assms(2,3) by (subst unat_of_nat) simp
  have "unat (of_nat i * PG_SIZE :: u32) = i * 4096"
    using assms(2,3) n by (subst unat_word_ariths(2)) (simp add: PG_SIZE_def)
  then show u: "unat (page_at st i) = unat st + 4096 * i"
    unfolding page_at_def using assms(2,3) by (subst unat_add_small) simp_all
  show "page_frame (page_at st i) = page_at st i" by (rule aligned_page_at [OF assms(1)])
  have "unat (page_at st i) < 0xc0000000" using u assms(2,3) by linarith
  then show "user_va (page_at st i)" by (simp add: user_va_def unat_PDE_IDX div_less_iff_less_mult)
qed

text \<open>
  C8. Fork copies the memory: when the child has no user page yet and there are enough frames,
  \<open>copy_body_stack3\<close> returns with the parent active and its memory unchanged, and every word of a page in
  the parent's bitmap, and no other, can be read in the child with the value it has in the parent.  From then on a
  write of one of them to its user memory is not seen by the other.
\<close>

theorem fork_copies_memory:
  assumes ok: "fork_ok p c parent child buf_page b s" "cr3 s = p"
    and bm: "vaddr_bitmap (userprog_vaddr (tasks s parent)) = bm" "wf_bitmap bm"
    and start: "vaddr_start (userprog_vaddr (tasks s parent)) = st" "page_frame st = st" "unat st + 4096 * nbits bm \<le> 0xc0000000"
    and maps: "\<forall>i \<in> used bm. translate s (page_at st i) \<noteq> None" "\<forall>v. user_va v \<longrightarrow> translate (space c s) v = None"
    and room: "card (used bm) \<le> card (free_frames PF_KERNEL s)" "card (used bm) \<le> card (free_frames PF_USER s)"
  shows "\<exists>t. copy_body_stack3 child parent buf_page s = Some t \<and> cr3 t = p \<and>
    (\<forall>w. user_va w \<longrightarrow> load (space p t) w = load (space p s) w) \<and>
    (\<forall>w. user_va w \<and> w AND 3 = 0 \<longrightarrow>
      load (space c t) w = (if page_frame w \<in> page_at st ` used bm then load (space p s) w else None)) \<and>
    (\<forall>v w x u. user_va v \<and> user_va w \<longrightarrow>
      (store (space c t) v x = Some u \<longrightarrow> load (space p u) w = load (space p t) w) \<and>
      (store (space p t) v x = Some u \<longrightarrow> load (space c u) w = load (space c t) w))"
proof -
  let ?is = "set_bits 0 (take (btmp_bytes_len bm) (bits bm))"
  let ?vs = "map (page_at st) ?is"
  have ids: "set ?is = used bm" by (rule set_bits_used [OF bm(2)])
  have "i < nbits bm" if "i \<in> used bm" for i using that by (simp add: used_def)
  note pg = user_page_at [OF start(2,3) this]
  have "inj_on (page_at st) (used bm)" by (rule inj_onI) (use pg(3) in \<open>metis add_left_cancel mult_left_cancel zero_neq_numeral\<close>)
  then have dist: "distinct ?vs" using distinct_set_bits [of 0] ids by (simp add: distinct_map)
  have len: "length ?vs = card (used bm)" using distinct_card [OF distinct_set_bits [of 0 "take (btmp_bytes_len bm) (bits bm)"]] ids by simp
  have sp: "space p s = s" by (rule space_self [OF ok(2)])
  have all: "\<forall>v \<in> set ?vs. user_va v \<and> page_frame v = v \<and> translate (space p s) v \<noteq> None \<and> translate (space c s) v = None"
    using pg maps ids sp by auto
  obtain t where t: "copy_pages child parent buf_page ?vs s = Some t" "fork_ok p c parent child buf_page b t" "cr3 t = p"
    "\<forall>w. user_va w \<longrightarrow> load (space p t) w = load (space p s) w"
    "\<forall>w. user_va w \<and> w AND 3 = 0 \<and> page_frame w \<in> set ?vs \<longrightarrow> load (space c t) w = load (space p s) w"
    "\<forall>w. user_va w \<and> page_frame w \<notin> set ?vs \<longrightarrow> load (space c t) w = load (space c s) w"
    using copy_pages_ok [OF ok dist all] room len by metis
  have "copy_body_stack3 child parent buf_page s = Some t"
    using t(1) bm start(1) by (simp add: copy_body_stack3_def copy_bytes_pages Let_def wf_bitmap_def)
  moreover have "load (space c s) w = None" if "user_va w" for w using maps(2) that by (simp add: load_def)
  then have "\<forall>w. user_va w \<and> w AND 3 = 0 \<longrightarrow>
      load (space c t) w = (if page_frame w \<in> page_at st ` used bm then load (space p s) w else None)"
    using t(5,6) ids by auto
  moreover have "\<forall>v w x u. user_va v \<and> user_va w \<longrightarrow>
      (store (space c t) v x = Some u \<longrightarrow> load (space p u) w = load (space p t) w) \<and>
      (store (space p t) v x = Some u \<longrightarrow> load (space c u) w = load (space c t) w)"
    using store_isolated [OF t(2), of c p] store_isolated [OF t(2), of p c] by blast
  ultimately show ?thesis using t(3,4) by blast
qed


section \<open>Witness\<close>

text \<open>
  A parent with the page directory at 1 MB and one user page, with the word 42 in it, and a child whose
  directory holds the shared kernel table and itself.
\<close>

definition fork_phys :: "u32 \<Rightarrow> u32" where
  "fork_phys = (\<lambda>_. 0)(0x100080 := 0x103007, 0x100c00 := 0x102007, 0x100ffc := 0x100007, 0x101c00 := 0x102007, 0x101ffc := 0x101007,
     0x102400 := 0x105007, 0x102404 := 0x100007, 0x102408 := 0x101007, 0x103120 := 0x104007, 0x104000 := 42)"

definition sample_fork :: kernel where
  "sample_fork = sample_kernel\<lparr>phys := fork_phys, tasks := (\<lambda>_. sample_task)(
     0x9e000 := sample_task\<lparr>pgdir := 0xc0101000,
       userprog_vaddr := \<lparr>vaddr_bitmap = \<lparr>btmp_bytes_len = 1, bits = [1]\<rparr>, bits_ptr = 0, vaddr_start = 0x8048000\<rparr>\<rparr>,
     0x9f000 := sample_task\<lparr>pgdir := 0xc0102000\<rparr>)\<rparr>"

lemma fork_phys_entry:
  assumes "unat i < 1024"
  shows "fork_phys (0x100000 + i * 4) = (if i = 32 then 0x103007 else if i = 768 then 0x102007 else if i = 1023 then 0x100007 else 0)"
    "fork_phys (0x101000 + i * 4) = (if i = 768 then 0x102007 else if i = 1023 then 0x101007 else 0)"
    "fork_phys (0x102000 + i * 4) = (if i = 256 then 0x105007 else if i = 257 then 0x100007 else if i = 258 then 0x101007 else 0)"
    "fork_phys (0x103000 + i * 4) = (if i = 72 then 0x104007 else 0)"
proof -
  have inj: "a + i * 4 = b + j * 4 \<longleftrightarrow> a = b \<and> i = j" if "page_frame a = a" "page_frame b = b" "unat j < 1024" for a b j :: u32
    using entry_inj [OF assms that(3), of a b] that(1,2) by simp
  have e: "a + i * 4 = x \<longleftrightarrow> a = b \<and> i = j" if "page_frame a = a" "x = b + j * 4" "page_frame b = b" "unat j < 1024" for a b j x :: u32
    using inj [OF that(1,3,4)] that(2) by simp
  have "page_frame 0x100000 = 0x100000" "page_frame 0x101000 = 0x101000" "page_frame 0x102000 = 0x102000" "page_frame 0x103000 = 0x103000" "page_frame 0x104000 = 0x104000"
    by (simp_all add: page_frame_def)
  note pf = this
  have eqs: "a + i * 4 = 0x100080 \<longleftrightarrow> a = 0x100000 \<and> i = 32" "a + i * 4 = 0x100c00 \<longleftrightarrow> a = 0x100000 \<and> i = 768" "a + i * 4 = 0x100ffc \<longleftrightarrow> a = 0x100000 \<and> i = 1023"
    "a + i * 4 = 0x101c00 \<longleftrightarrow> a = 0x101000 \<and> i = 768" "a + i * 4 = 0x101ffc \<longleftrightarrow> a = 0x101000 \<and> i = 1023"
    "a + i * 4 = 0x102400 \<longleftrightarrow> a = 0x102000 \<and> i = 256" "a + i * 4 = 0x102404 \<longleftrightarrow> a = 0x102000 \<and> i = 257" "a + i * 4 = 0x102408 \<longleftrightarrow> a = 0x102000 \<and> i = 258"
    "a + i * 4 = 0x103120 \<longleftrightarrow> a = 0x103000 \<and> i = 72" "a + i * 4 = 0x104000 \<longleftrightarrow> a = 0x104000 \<and> i = 0" if "page_frame a = a" for a
    by (rule e [OF that]; simp add: pf)+
  show "fork_phys (0x100000 + i * 4) = (if i = 32 then 0x103007 else if i = 768 then 0x102007 else if i = 1023 then 0x100007 else 0)"
    unfolding fork_phys_def fun_upd_apply eqs [OF pf(1)] by simp
  show "fork_phys (0x101000 + i * 4) = (if i = 768 then 0x102007 else if i = 1023 then 0x101007 else 0)"
    unfolding fork_phys_def fun_upd_apply eqs [OF pf(2)] by simp
  show "fork_phys (0x102000 + i * 4) = (if i = 256 then 0x105007 else if i = 257 then 0x100007 else if i = 258 then 0x101007 else 0)"
    unfolding fork_phys_def fun_upd_apply eqs [OF pf(3)] by simp
  show "fork_phys (0x103000 + i * 4) = (if i = 72 then 0x104007 else 0)"
    unfolding fork_phys_def fun_upd_apply eqs [OF pf(4)] by simp
qed


lemma sample_fork_pde:
  "pde_of (space 0x100000 sample_fork) v =
     (if PDE_IDX v = 32 then 0x103007 else if PDE_IDX v = 768 then 0x102007 else if PDE_IDX v = 1023 then 0x100007 else 0)"
  "pde_of (space 0x101000 sample_fork) v = (if PDE_IDX v = 768 then 0x102007 else if PDE_IDX v = 1023 then 0x101007 else 0)"
  using fork_phys_entry(1,2) [OF PDE_IDX_small, of v] by (simp_all add: pde_of_def sample_fork_def page_frame_def)

lemma sample_fork_translate:
  assumes "pde_of (space d sample_fork) v = e" "present e"
  shows "translate (space d sample_fork) v = (if present (fork_phys (page_frame e + PTE_IDX v * 4))
    then Some (page_frame (fork_phys (page_frame e + PTE_IDX v * 4)) + (v AND 0xfff)) else None)"
proof -
  have "phys (space d sample_fork) = fork_phys" by (simp add: sample_fork_def)
  then show ?thesis using assms by (simp only: translate_def pte_addr_def simp_thms)
qed

lemma sample_fork_user:
  assumes "PDE_IDX v = 32"
  shows "translate (space 0x100000 sample_fork) v = (if PTE_IDX v = 72 then Some (0x104000 + (v AND 0xfff)) else None)"
proof -
  have e: "pde_of (space 0x100000 sample_fork) v = 0x103007" "present 0x103007" "page_frame 0x103007 = 0x103000"
    using assms by (simp_all add: sample_fork_pde present_def page_frame_def)
  show ?thesis unfolding sample_fork_translate [OF e(1,2)] e(3) fork_phys_entry(4) [OF PTE_IDX_small]
    by (simp add: present_def page_frame_def)
qed

lemma sample_fork_kernel:
  assumes "PDE_IDX v = 768" "d = 0x100000 \<or> d = 0x101000"
  shows "translate (space d sample_fork) v = (if PTE_IDX v = 256 then Some (0x105000 + (v AND 0xfff)) else
     if PTE_IDX v = 257 then Some (0x100000 + (v AND 0xfff)) else if PTE_IDX v = 258 then Some (0x101000 + (v AND 0xfff)) else None)"
proof -
  have e: "pde_of (space d sample_fork) v = 0x102007" "present 0x102007" "page_frame 0x102007 = 0x102000"
    using assms by (auto simp: sample_fork_pde present_def page_frame_def)
  show ?thesis unfolding sample_fork_translate [OF e(1,2)] e(3) fork_phys_entry(3) [OF PTE_IDX_small]
    by (simp add: present_def page_frame_def)
qed

lemma sample_fork_unmapped:
  "PDE_IDX v \<noteq> 32 \<Longrightarrow> PDE_IDX v \<noteq> 768 \<Longrightarrow> PDE_IDX v \<noteq> 1023 \<Longrightarrow> translate (space 0x100000 sample_fork) v = None"
  "PDE_IDX v \<noteq> 768 \<Longrightarrow> PDE_IDX v \<noteq> 1023 \<Longrightarrow> translate (space 0x101000 sample_fork) v = None"
  by (simp_all add: translate_def sample_fork_pde present_def)

lemma sample_fork_sets:
  "tables sample_fork 0x100000 = {0x103000, 0x102000, 0x100000}" "tables sample_fork 0x101000 = {0x102000, 0x101000}"
  "user_frames sample_fork 0x100000 \<subseteq> {0x104000}" "user_frames sample_fork 0x101000 = {}"
proof -
  have idx: "PDE_IDX 0x8048000 = 32" "PDE_IDX 0xc0000000 = 768" "PDE_IDX 0xffc00000 = 1023" by (simp_all add: PDE_IDX_def)
  have mem: "f \<in> tables sample_fork d" if "pde_of (space d sample_fork) v = e" "present e" "page_frame e = f" for d v e f
    using tablesI [of d sample_fork v] that by simp
  have in1: "{0x103000, 0x102000, 0x100000} \<subseteq> tables sample_fork 0x100000"
    using mem [OF sample_fork_pde(1) [of "0x8048000"]] mem [OF sample_fork_pde(1) [of "0xc0000000"]] mem [OF sample_fork_pde(1) [of "0xffc00000"]]
    by (simp add: idx present_def page_frame_def)
  have in2: "{0x102000, 0x101000} \<subseteq> tables sample_fork 0x101000"
    using mem [OF sample_fork_pde(2) [of "0xc0000000"]] mem [OF sample_fork_pde(2) [of "0xffc00000"]]
    by (simp add: idx present_def page_frame_def)
  have "tables sample_fork 0x100000 \<subseteq> {0x103000, 0x102000, 0x100000}" "tables sample_fork 0x101000 \<subseteq> {0x102000, 0x101000}"
    unfolding tables_def sample_fork_pde by (auto simp: present_def page_frame_def split: if_splits)
  then show "tables sample_fork 0x100000 = {0x103000, 0x102000, 0x100000}" "tables sample_fork 0x101000 = {0x102000, 0x101000}"
    using in1 in2 by blast+
  have n: "PDE_IDX v \<noteq> 768" "PDE_IDX v \<noteq> 1023" if "user_va v" for v using that by (auto simp: user_va_def)
  have "page_frame q = 0x104000" if "user_va v" "translate (space 0x100000 sample_fork) v = Some q" for v q
    using that n [OF that(1)] sample_fork_user [of v] sample_fork_unmapped(1) [of v] page_frame_offset [of "0x104000" v]
    by (cases "PDE_IDX v = 32") (auto simp: page_frame_def split: if_splits)
  then show "user_frames sample_fork 0x100000 \<subseteq> {0x104000}" by (auto simp: user_frames_def)
  show "user_frames sample_fork 0x101000 = {}" using n sample_fork_unmapped(2) by (auto simp: user_frames_def)
qed


lemma sample_fork_owned: "f < 0x200000 \<Longrightarrow> owned sample_fork f" "pools_ok sample_fork"
  by (simp_all add: owned_def sample_fork_def sample_kernel_def pools_ok_def sample_bitmap_def wf_bitmap_def nbits_def page_frame_def)

lemma sample_fork_mapped:
  assumes "PDE_IDX v \<noteq> 1023" "translate (space d sample_fork) v = Some q" "d = 0x100000 \<or> d = 0x101000"
  shows "page_frame q < 0x200000"
proof -
  have f: "page_frame (0x104000 + (v AND 0xfff)) = 0x104000" "page_frame (0x105000 + (v AND 0xfff)) = 0x105000"
    "page_frame (0x100000 + (v AND 0xfff)) = 0x100000" "page_frame (0x101000 + (v AND 0xfff)) = 0x101000"
    using page_frame_offset [of "0x104000" v] page_frame_offset [of "0x105000" v] page_frame_offset [of "0x100000" v] page_frame_offset [of "0x101000" v]
    by (simp_all add: page_frame_def)
  consider "PDE_IDX v = 768" | "d = 0x100000" "PDE_IDX v = 32" | "PDE_IDX v \<noteq> 768" "d = 0x100000 \<longrightarrow> PDE_IDX v \<noteq> 32" by blast
  then show ?thesis
  proof cases
    case 1
    then show ?thesis using assms(2) sample_fork_kernel [OF 1 assms(3)] f by (auto split: if_splits)
  next
    case 2
    then show ?thesis using assms(2) sample_fork_user [OF 2(2)] f by (auto split: if_splits)
  next
    case 3
    then show ?thesis using assms sample_fork_unmapped [of v] by auto
  qed
qed

lemma sample_fork_mm: "mm_ok (space 0x100000 sample_fork)" "mm_ok (space 0x101000 sample_fork)"
proof -
  have p: "self_mapped (space 0x100000 sample_fork)" "self_mapped (space 0x101000 sample_fork)"
    unfolding self_mapped_pde sample_fork_pde pde_ptr_fields by (simp_all add: present_def page_frame_def)
  have td: "tables_disjoint (space 0x100000 sample_fork)" "tables_disjoint (space 0x101000 sample_fork)"
    unfolding tables_disjoint_def sample_fork_pde by (auto simp: present_def page_frame_def)
  have tb: "owned sample_fork f" if "f \<in> tables sample_fork 0x100000 \<union> tables sample_fork 0x101000" for f
    using that by (intro sample_fork_owned) (auto simp: sample_fork_sets)
  have tr: "owned sample_fork (page_frame q)"
    if "PDE_IDX v \<noteq> 1023" "translate (space d sample_fork) v = Some q" "d = 0x100000 \<or> d = 0x101000" for d v q
    by (rule sample_fork_owned(1) [OF sample_fork_mapped [OF that]])
  have "owned sample_fork (page_frame (pde_of (space d sample_fork) v))"
    if "present (pde_of (space d sample_fork) v)" "d = 0x100000 \<or> d = 0x101000" for d v
    using tb tablesI [OF that(1)] that(2) by blast
  then show "mm_ok (space 0x100000 sample_fork)" "mm_ok (space 0x101000 sample_fork)"
    using p td sample_fork_owned(2) tr unfolding mm_ok_def space_frame by blast+
qed

lemma sample_fork_ok: "fork_ok 0x100000 0x101000 0x9e000 0x9f000 0xc0100000 0x105000 sample_fork"
proof -
  have tk: "tasks sample_fork 0x9e000 = sample_task\<lparr>pgdir := 0xc0101000,
      userprog_vaddr := \<lparr>vaddr_bitmap = \<lparr>btmp_bytes_len = 1, bits = [1]\<rparr>, bits_ptr = 0, vaddr_start = 0x8048000\<rparr>\<rparr>"
    "tasks sample_fork 0x9f000 = sample_task\<lparr>pgdir := 0xc0102000\<rparr>"
    by (simp_all add: sample_fork_def)
  have k: "PDE_IDX 0xc0100000 = 768" "PDE_IDX 0xc0101000 = 768" "PDE_IDX 0xc0102000 = 768"
    "PTE_IDX 0xc0100000 = 256" "PTE_IDX 0xc0101000 = 257" "PTE_IDX 0xc0102000 = 258"
    by (simp_all add: PDE_IDX_def PTE_IDX_def)
  have tr: "translate (space 0x100000 sample_fork) 0xc0100000 = Some 0x105000" "translate (space 0x100000 sample_fork) 0xc0101000 = Some 0x100000"
    "translate (space 0x100000 sample_fork) 0xc0102000 = Some 0x101000"
    by (simp_all add: sample_fork_kernel k)
  have kv: "kernel_va 0xc0100000" "kernel_va 0xc0101000" "kernel_va 0xc0102000" by (simp_all add: kernel_va_def k)
  have l: "lock_free sample_fork UserPoolLock" "running sample_fork \<noteq> 0"
    by (simp_all add: lock_free_def sample_fork_def sample_kernel_def)
  have sh: "pde_of (space 0x101000 sample_fork) v = pde_of (space 0x100000 sample_fork) v" if "kernel_va v" for v
    using that by (auto simp: sample_fork_pde kernel_va_def)
  have us: "\<not> present (pde_of (space 0x101000 sample_fork) v)" if "user_va v" for v
    using that by (auto simp: sample_fork_pde user_va_def present_def)
  have uf: "x \<in> user_frames sample_fork 0x100000 \<Longrightarrow> x = 0x104000" for x using sample_fork_sets(3) by blast
  have dj: "insert 0x105000 (user_frames sample_fork 0x100000 \<union> user_frames sample_fork 0x101000) \<inter>
      (tables sample_fork 0x100000 \<union> tables sample_fork 0x101000) = {}"
    "0x105000 \<notin> user_frames sample_fork 0x100000 \<union> user_frames sample_fork 0x101000"
    unfolding sample_fork_sets(1,2,4) by (auto dest: uf)
  have us': "\<forall>v. user_va v \<and> present (pde_of (space 0x101000 sample_fork) v) \<longrightarrow>
      page_frame (pde_of (space 0x101000 sample_fork) v) \<notin> tables sample_fork 0x100000"
    using us by blast
  show ?thesis unfolding fork_ok_def
    by (intro conjI sample_fork_mm l dj us')
      (use tr kv sh in \<open>simp_all add: tk sample_fork_sets(1,4), simp_all add: page_frame_def\<close>)
qed

lemma sample_fork_free: "free_frames PF_KERNEL sample_fork \<noteq> {}" "free_frames PF_USER sample_fork \<noteq> {}"
proof -
  have u: "used sample_bitmap = {}" "0 < nbits sample_bitmap" by (auto simp: used_def bit_at_def nbits_def sample_bitmap_def nth_Cons')
  then have "taken_frames pf sample_fork = {}" "frames pf sample_fork \<noteq> {}" for pf
    by (cases pf; simp add: taken_frames_def frames_def get_pool_def sample_fork_def sample_kernel_def; blast)+
  then show "free_frames PF_KERNEL sample_fork \<noteq> {}" "free_frames PF_USER sample_fork \<noteq> {}" by (simp_all add: free_frames_def)
qed

lemma fork_copies_memory_witness:
  "\<exists>t. copy_body_stack3 0x9f000 0x9e000 0xc0100000 sample_fork = Some t \<and>
    load (space 0x101000 t) 0x8048000 = Some 42 \<and> load (space 0x101000 t) 0x8049000 = None \<and> load (space 0x100000 t) 0x8048000 = Some 42"
proof -
  let ?bm = "\<lparr>btmp_bytes_len = 1, bits = [1]\<rparr> :: bitmap"
  have bm: "vaddr_bitmap (userprog_vaddr (tasks sample_fork 0x9e000)) = ?bm" "vaddr_start (userprog_vaddr (tasks sample_fork 0x9e000)) = 0x8048000"
    "cr3 sample_fork = 0x100000"
    by (simp_all add: sample_fork_def sample_kernel_def)
  have us: "used ?bm = {0}" by (auto simp: used_def nbits_def bit_at_def bit_1_iff)
  have i: "PDE_IDX 0x8048000 = 32" "PTE_IDX 0x8048000 = 72" "PDE_IDX 0x8049000 = 32" by (simp_all add: PDE_IDX_def PTE_IDX_def)
  have sp: "space 0x100000 sample_fork = sample_fork" by (rule space_self [OF bm(3)])
  have tr: "translate sample_fork 0x8048000 = Some 0x104000" using sample_fork_user [OF i(1)] i(2) sp by simp
  have ld: "load sample_fork 0x8048000 = Some 42" by (simp add: load_def tr) (simp add: sample_fork_def fork_phys_def)
  have un: "\<forall>v. user_va v \<longrightarrow> translate (space 0x101000 sample_fork) v = None"
    by (intro allI impI sample_fork_unmapped(2)) (auto simp: user_va_def)
  have room: "1 \<le> card (free_frames PF_KERNEL sample_fork)" "1 \<le> card (free_frames PF_USER sample_fork)"
    using sample_fork_free by (simp_all add: Suc_le_eq card_gt_0_iff)
  obtain t where t: "copy_body_stack3 0x9f000 0x9e000 0xc0100000 sample_fork = Some t"
    "\<forall>w. user_va w \<longrightarrow> load (space 0x100000 t) w = load (space 0x100000 sample_fork) w"
    "\<forall>w. user_va w \<and> w AND 3 = 0 \<longrightarrow>
      load (space 0x101000 t) w = (if page_frame w \<in> page_at 0x8048000 ` {0} then load (space 0x100000 sample_fork) w else None)"
    using fork_copies_memory [OF sample_fork_ok bm(3) bm(1) _ bm(2) _ _ _ un] us tr room
    by (auto simp: wf_bitmap_def nbits_def page_frame_def)
  have "user_va 0x8048000" "user_va 0x8049000" by (simp_all add: user_va_def i)
  then show ?thesis using t ld sp by (intro exI [of _ t]) (simp add: page_frame_def)
qed

end
