(* ===== verification/Ide_Init.thy ===== *)
theory Ide_Init
  imports Ide Console
begin

text \<open>
  \<^verbatim>\<open>device/ide.c\<close>, the part that runs at start-up: identification of the disks and the partition tables.
\<close>

section \<open>The partition table\<close>

record partition_table_entry =
  fs_type :: u8
  pt_start_lba :: nat
  pt_sec_cnt :: nat

definition pt_entry_of :: "u8 list \<Rightarrow> partition_table_entry" where
  "pt_entry_of bs = \<lparr>fs_type = bs ! 4, pt_start_lba = get32 (drop 8 bs), pt_sec_cnt = get32 (drop 12 bs)\<rparr>"

definition boot_sector :: "u8 list \<Rightarrow> partition_table_entry list" where
  "boot_sector bs = map (\<lambda>k. pt_entry_of (drop (446 + 16 * k) bs)) [0..<4]"

text \<open>The sector with the table: the buffer and the four entries.  The address is not compared with \<open>NULL\<close>.\<close>

definition read_table :: "hd_id \<Rightarrow> nat \<Rightarrow> machine \<Rightarrow> (machine \<times> u32 \<times> partition_table_entry list) option" where
  "read_table dk ext_lba f = do {
     (f, bs) \<leftarrow> fs_malloc 512 f;
     ASSERT (bs \<noteq> 0);
     (f, io_buf) \<leftarrow> ide_read dk ext_lba 1 f;
     Some (f, bs, boot_sector io_buf)
   }"

definition add_partition :: "part_id \<Rightarrow> nat \<Rightarrow> nat \<Rightarrow> nat \<Rightarrow> machine \<Rightarrow> machine option" where
  "add_partition part start cnt n f = do {
     let dk = fst part;
     hd_name \<leftarrow> cstr (disk_name f dk);
     (nm, _) \<leftarrow> sprintf (part_name (parts f part)) (str ''%s%d'') [Arg_str hd_name, Arg_int (of_nat n)];
     let f = upd_part part (\<lambda>p. p\<lparr>start_lba := start, sec_cnt := cnt, my_disk := dk, part_name := nm\<rparr>) f;
     Some (f\<lparr>partition_list := partition_list f @ [part]\<rparr>)
   }"

partial_function (option) partition_scan_from ::
    "hd_id \<Rightarrow> nat \<Rightarrow> u32 \<Rightarrow> partition_table_entry list \<Rightarrow> machine \<Rightarrow> machine option" where
  "partition_scan_from dk ext_lba bs es f = (case es of
       [] \<Rightarrow> fs_free bs f
     | p # es \<Rightarrow>
         if fs_type p = 5 then do {
           let lba = (if ext_lba_base f \<noteq> 0 then w32 (pt_start_lba p + ext_lba_base f) else pt_start_lba p);
           let f = (if ext_lba_base f \<noteq> 0 then f else f\<lparr>ext_lba_base := pt_start_lba p\<rparr>);
           (f, bs', es') \<leftarrow> read_table dk lba f;
           f \<leftarrow> partition_scan_from dk lba bs' es' f;
           partition_scan_from dk ext_lba bs es f
         } else if fs_type p \<noteq> 0 then
           (if ext_lba = 0 then do {
              ASSERT (p_no f < 4);
              f \<leftarrow> add_partition (dk, p_no f) (w32 (ext_lba + pt_start_lba p)) (pt_sec_cnt p) (p_no f + 1) f;
              let f = f\<lparr>p_no := p_no f + 1\<rparr>;
              ASSERT (p_no f < 4);
              partition_scan_from dk ext_lba bs es f
            } else do {
              ASSERT (l_no f < 8);
              f \<leftarrow> add_partition (dk, 4 + l_no f) (w32 (ext_lba + pt_start_lba p)) (pt_sec_cnt p) (l_no f + 5) f;
              let f = f\<lparr>l_no := l_no f + 1\<rparr>;
              if l_no f \<ge> 8 then Some f else partition_scan_from dk ext_lba bs es f
            })
         else partition_scan_from dk ext_lba bs es f)"

definition partition_scan :: "hd_id \<Rightarrow> nat \<Rightarrow> machine \<Rightarrow> machine option" where
  "partition_scan dk ext_lba f = do {
     (f, bs, es) \<leftarrow> read_table dk ext_lba f;
     partition_scan_from dk ext_lba bs es f
   }"

section \<open>Identification\<close>

text \<open>
  The drive answers with strings whose bytes are swapped in pairs.  The index is a \<open>uint8_t\<close>, so the loop
  would not end for 256 bytes and more; it runs out of its arrays then.
\<close>

partial_function (option) swap_loop :: "u8 list \<Rightarrow> u32 \<Rightarrow> nat \<Rightarrow> u8 \<Rightarrow> u8 list \<Rightarrow> (u8 list \<times> u8) option" where
  "swap_loop dst len k idx arr =
     (if ucast idx < len then do {
        x \<leftarrow> rd dst k;
        arr \<leftarrow> wr arr (unat idx + 1) x;
        y \<leftarrow> rd dst (k + 1);
        arr \<leftarrow> wr arr (unat idx) y;
        swap_loop dst len (k + 2) (idx + 2) arr
      } else Some (arr, idx))"

definition swap_pairs_bytes :: "u8 list \<Rightarrow> u8 list \<Rightarrow> u32 \<Rightarrow> u8 list option" where
  "swap_pairs_bytes dst arr len = do {
     (arr, idx) \<leftarrow> swap_loop dst len 0 0 arr;
     wr arr (unat idx) 0
   }"

text \<open>
  \<open>id_info\<close> is the block of 512 bytes that the drive answers, \<open>raw\<close> the 64 bytes of the array \<open>buf\<close> before.
  The product \<open>sectors * 512\<close> is a 32-bit one.
\<close>

definition identify_disk :: "u8 list \<Rightarrow> u8 list \<Rightarrow> hd_id \<Rightarrow> machine \<Rightarrow> machine option" where
  "identify_disk id_info raw dk f = do {
     let f = cmd_out (fst dk) f;
     f \<leftarrow> wait_disk (fst dk) f;
     ASSERT (busy_wait (ata_status f (fst dk)));
     hd_name \<leftarrow> cstr (disk_name f dk);
     arr \<leftarrow> swap_pairs_bytes (drop (10 * 2) id_info) raw 20;
     sn \<leftarrow> cstr arr;
     f \<leftarrow> printk (str (''disk %s info:'' @ newline @ ''SN: %s'' @ newline)) [Arg_str hd_name, Arg_str sn] f;
     arr \<leftarrow> swap_pairs_bytes (drop (27 * 2) id_info) (replicate 64 0) 40;
     md \<leftarrow> cstr arr;
     f \<leftarrow> printk (str (''MODULE: %s'' @ newline)) [Arg_str md] f;
     let sectors_cnt = (of_nat (get32 (drop (60 * 2) id_info)) :: u32);
     f \<leftarrow> printk (str (''SECTORS: %d'' @ newline)) [Arg_int sectors_cnt] f;
     printk (str (''CAPACITY: %dMB'' @ newline)) [Arg_int (sectors_cnt * 512 div 1024 div 1024)] f
   }"


section \<open>Start-up of the driver\<close>

definition partition_info :: "part_id \<Rightarrow> machine \<Rightarrow> machine option" where
  "partition_info part f = do {
     nm \<leftarrow> cstr (part_name (parts f part));
     printk (str ('' %s start_lba:0x%x, sec_cnt:0x%x'' @ newline))
       [Arg_str nm, Arg_int (of_nat (start_lba (parts f part))), Arg_int (of_nat (sec_cnt (parts f part)))] f
   }"

text \<open>The traversal of the list of partitions, with a function that never asks to stop.\<close>

fun partition_infos :: "part_id list \<Rightarrow> machine \<Rightarrow> machine option" where
  "partition_infos [] f = Some f"
| "partition_infos (p # ps) f = do { f \<leftarrow> partition_info p f; partition_infos ps f }"

text \<open>One channel; the interrupt handler, which \<open>ide_init\<close> registers here, is part of the whole system (theory \<open>System\<close>).\<close>

definition init_channel :: "nat \<Rightarrow> machine \<Rightarrow> machine option" where
  "init_channel ch f = do {
     (nm, _) \<leftarrow> sprintf (chan_name (channels f ch)) (str ''ide%d'') [Arg_int (of_nat ch)];
     let f = f\<lparr>channels := (channels f)(ch := \<lparr>chan_name = nm, port_base = (if ch = 0 then 0x1f0 else 0x170),
            irq_no = (if ch = 0 then 0x20 + 14 else 0x20 + 15), expecting_intr = False\<rparr>)\<rparr>;
     let k = upd_lock (ChannelLock ch) lock_init (krn f);
     Some (f\<lparr>krn := upd_lock (DiskDone ch) (\<lambda>x. sema_init x 0) k\<rparr>)
   }"

definition init_disk :: "(hd_id \<Rightarrow> u8 list) \<Rightarrow> u8 list \<Rightarrow> nat \<Rightarrow> nat \<Rightarrow> machine \<Rightarrow> machine option" where
  "init_disk id_info raw ch dev f = do {
     (nm, _) \<leftarrow> sprintf (disk_name f (ch, dev)) (str ''sd%c'') [Arg_int (of_nat (97 + ch * 2 + dev))];
     let f = f\<lparr>disk_name := (disk_name f)((ch, dev) := nm)\<rparr>;
     f \<leftarrow> identify_disk (id_info (ch, dev)) raw (ch, dev) f;
     f \<leftarrow> (if dev \<noteq> 0 then partition_scan (ch, dev) 0 f else Some f);
     Some (f\<lparr>p_no := 0, l_no := 0\<rparr>)
   }"

fun init_channels :: "(hd_id \<Rightarrow> u8 list) \<Rightarrow> u8 list \<Rightarrow> nat \<Rightarrow> nat \<Rightarrow> machine \<Rightarrow> machine option" where
  "init_channels id_info raw 0 ch f = Some f"
| "init_channels id_info raw (Suc left) ch f = do {
     f \<leftarrow> init_channel ch f;
     f \<leftarrow> init_disk id_info raw ch 0 f;
     f \<leftarrow> init_disk id_info raw ch 1 f;
     init_channels id_info raw left (ch + 1) f
   }"

text \<open>\<open>hd_cnt\<close> is the byte at address 0x475.  There are two channels in the array.\<close>

definition ide_init :: "(hd_id \<Rightarrow> u8 list) \<Rightarrow> u8 list \<Rightarrow> nat \<Rightarrow> machine \<Rightarrow> machine option" where
  "ide_init id_info raw hd_cnt f = do {
     f \<leftarrow> printk (str (''ide_init start'' @ newline)) [] f;
     ASSERT (hd_cnt > 0);
     let f = f\<lparr>partition_list := [], channel_cnt := DIV_ROUND_UP hd_cnt 2\<rparr>;
     ASSERT (channel_cnt f \<le> 2);
     f \<leftarrow> init_channels id_info raw (channel_cnt f) 0 f;
     f \<leftarrow> printk (str (newline @ ''all partition info'' @ newline)) [] f;
     f \<leftarrow> partition_infos (partition_list f) f;
     printk (str (''ide_init done'' @ newline)) [] f
   }"


section \<open>Properties\<close>

lemma four_primary:
  assumes "p_no f + length es \<ge> 4" "list_all (\<lambda>e. fs_type e \<noteq> 0 \<and> fs_type e \<noteq> 5) es" "es \<noteq> []"
  shows "partition_scan_from dk 0 bs es f = None"
  using assms
proof (induction es arbitrary: f)
  case (Cons e es)
  show ?case
  proof (cases "add_partition (dk, p_no f) (w32 (0 + pt_start_lba e)) (pt_sec_cnt e) (p_no f + 1) f")
    case None
    then show ?thesis using Cons.prems by (subst partition_scan_from.simps) simp
  next
    case (Some g)
    then have g: "p_no g = p_no f" by (auto simp: add_partition_def bind_Some_iff Let_def upd_part_def)
    show ?thesis
    proof (cases "p_no f + 1 < 4")
      case True
      then have "es \<noteq> []" using Cons.prems(1) by auto
      then have "partition_scan_from dk 0 bs es (g\<lparr>p_no := p_no f + 1\<rparr>) = None"
        using Cons.IH [of "g\<lparr>p_no := p_no f + 1\<rparr>"] Cons.prems by simp
      then show ?thesis using Some g Cons.prems by (subst partition_scan_from.simps) (simp add: Let_def)
    next
      case False
      then show ?thesis using Some g Cons.prems by (subst partition_scan_from.simps) (simp add: Let_def)
    qed
  qed
qed simp

text \<open>
  The partition arrays have room for four primary partitions, but the assertion behind the
  increment of \<open>p_no\<close> admits three: on a disk with four of them the scan ends in a panic.
\<close>

theorem partition_scan_four_primary_panics:
  assumes "drive_ready f dk" "wf_disk f dk" "fs_malloc 512 f = Some (g, bs)" "bs \<noteq> 0"
    and "drive_ready g dk" "sectors g = sectors f" "p_no g = 0"
    and "list_all (\<lambda>e. fs_type e \<noteq> 0 \<and> fs_type e \<noteq> 5) (boot_sector (sectors f dk 0))"
  shows "partition_scan dk 0 f = None"
proof -
  have "wf_disk g dk" using assms(2,6) by (simp add: wf_disk_def)
  then have "ide_read dk 0 1 g = Some (g, sectors f dk 0)"
    using ide_read_eq [OF assms(5), of 1 0] assms(6) by (simp add: max_lba_def read_sects_def)
  then have "read_table dk 0 f = Some (g, bs, boot_sector (sectors f dk 0))" using assms(3,4) by (simp add: read_table_def)
  moreover have "length (boot_sector (sectors f dk 0)) = 4" by (simp add: boot_sector_def)
  ultimately show ?thesis using four_primary [of g "boot_sector (sectors f dk 0)" dk bs] assms(7,8) by (simp add: partition_scan_def boot_sector_def)
qed

text \<open>The strings of the identification block.\<close>

fun swapped :: "u8 list \<Rightarrow> u8 list" where
  "swapped (x # y # xs) = y # x # swapped xs"
| "swapped xs = xs"

lemma swapped_simps [simp]: "length (swapped xs) = length xs" "swapped (swapped xs) = xs"
  by (induction xs rule: swapped.induct) simp_all

lemma u8_index: "k < 256 \<Longrightarrow> unat (of_nat k :: u8) = k" "k < 256 \<Longrightarrow> (ucast (of_nat k :: u8) :: u32) = of_nat k"
  by (simp_all add: unat_of_nat word_unat_eq_iff unsigned_ucast_eq take_bit_nat_eq_self)

lemma swap_loop_pairs:
  assumes "length xs = 2 * m" "length pre + 2 * m \<le> 254" "length pre + 2 * m < length arr"
  shows "swap_loop (pre @ xs @ post) (of_nat (length pre + 2 * m)) (length pre) (of_nat (length pre)) arr =
    Some (take (length pre) arr @ swapped xs @ drop (length pre + 2 * m) arr, of_nat (length pre + 2 * m))"
  using assms
proof (induction m arbitrary: xs pre arr)
  case 0
  then show ?case by (subst swap_loop.simps) (simp add: u8_index)
next
  case (Suc m)
  obtain x y ys where xs: "xs = x # y # ys" "length ys = 2 * m"
    using Suc.prems(1) by (cases xs; cases "tl xs") auto
  let ?k = "length pre" and ?n = "length pre + 2 * Suc m"
  have u: "unat (of_nat ?k :: u8) = ?k" using Suc.prems(2) by (simp add: u8_index)
  have c: "(ucast (of_nat ?k :: u8) :: u32) < of_nat ?n"
  proof -
    have "unat (of_nat j :: u32) = j" if "j \<le> 254" for j using that by (simp add: unat_of_nat)
    from this [of ?k] this [of ?n] show ?thesis using Suc.prems(2) by (simp only: u8_index(2) word_less_nat_alt) simp
  qed
  let ?arr = "arr[Suc ?k := x, ?k := y]"
  have ih: "swap_loop ((pre @ [x, y]) @ ys @ post) (of_nat (length (pre @ [x, y]) + 2 * m)) (length (pre @ [x, y])) (of_nat (length (pre @ [x, y]))) ?arr =
    Some (take (length (pre @ [x, y])) ?arr @ swapped ys @ drop (length (pre @ [x, y]) + 2 * m) ?arr, of_nat (length (pre @ [x, y]) + 2 * m))"
    by (rule Suc.IH) (use xs(2) Suc.prems in simp_all)
  have t: "take (?k + 2) ?arr = take ?k arr @ [y, x]"
    using Suc.prems(3) by (simp add: take_Suc_conv_app_nth numeral_2_eq_2)
  have d: "drop (?k + 2 + 2 * m) ?arr = drop ?n arr" by simp
  have w: "wr arr (Suc ?k) x = Some (arr[Suc ?k := x])" "wr (arr[Suc ?k := x]) ?k y = Some ?arr" using Suc.prems(3) by simp_all
  have r: "rd (pre @ xs @ post) ?k = Some x" "rd (pre @ xs @ post) (?k + 1) = Some y" by (simp_all add: xs(1) rd_def nth_append)
  have "swap_loop (pre @ xs @ post) (of_nat ?n) ?k (of_nat ?k) arr = swap_loop (pre @ xs @ post) (of_nat ?n) (?k + 2) (of_nat ?k + 2) ?arr"
    by (subst swap_loop.simps) (use c u w r in simp)
  then show ?case using ih t d by (simp add: xs(1) add.assoc add.commute [of 2])
qed

text \<open>
  \<open>swap_pairs_bytes\<close> swaps the bytes of every pair, for an even number of at most 254 bytes, and puts a
  terminator behind them; swapping twice gives the bytes back.
\<close>

theorem swap_pairs_bytes_swaps:
  assumes "even n" "n \<le> 254" "n \<le> length dst" "n < length arr"
  shows "swap_pairs_bytes dst arr (of_nat n) = Some (swapped (take n dst) @ 0 # drop (Suc n) arr) \<and>
    swapped (swapped (take n dst)) = take n dst"
proof -
  obtain m where m: "n = 2 * m" using assms(1) by (elim evenE)
  have "swap_loop dst (of_nat n) 0 0 arr = Some (swapped (take n dst) @ drop n arr, of_nat n)"
    using swap_loop_pairs [of "take n dst" m "[]" arr "drop n dst"] assms m by simp
  moreover have "unat (of_nat n :: u8) = n" using assms(2) by (simp add: u8_index)
  moreover have "drop n arr = arr ! n # drop (Suc n) arr" using assms(4) by (rule Cons_nth_drop_Suc [symmetric])
  ultimately show ?thesis using assms(3,4) by (simp add: swap_pairs_bytes_def list_update_append)
qed

lemma swap_pairs_bytes_swaps_witness: "swap_pairs_bytes (str ''AHDR'') (replicate 6 7) 4 = Some (str ''HARD'' @ [0, 7])"
  using swap_pairs_bytes_swaps [of 4 "str ''AHDR''" "replicate 6 7"] by (simp add: str_def)

text \<open>The primary partitions of a table, entered one after the other.\<close>

fun placed :: "hd_id \<Rightarrow> u8 list \<Rightarrow> nat \<Rightarrow> partition_table_entry list \<Rightarrow> machine \<Rightarrow> machine" where
  "placed dk d n [] f = f"
| "placed dk d n (e # es) f = placed dk d (Suc n) es
     ((upd_part (dk, n) (\<lambda>p. p\<lparr>start_lba := pt_start_lba e, sec_cnt := pt_sec_cnt e, my_disk := dk,
        part_name := d @ [0x31 + of_nat n] @ replicate (7 - length d) 0\<rparr>) f)
      \<lparr>partition_list := partition_list f @ [(dk, n)], p_no := Suc n\<rparr>)"

lemma part_name_text:
  assumes "0 \<notin> set d" "length d < 7" "n < 4"
  shows "sprintf (replicate 8 0) (str ''%s%d'') [Arg_str d, Arg_int (of_nat (n + 1))] =
    Some (d @ [0x31 + of_nat n] @ replicate (7 - length d) 0, Suc (length d))"
proof -
  have n: "conv_d (of_nat (n + 1)) = [0x31 + of_nat n]" "0 \<noteq> (0x31 + of_nat n :: u8)"
  proof -
    have "n = 0 \<or> n = 1 \<or> n = 2 \<or> n = 3" using assms(3) by linarith
    then show "conv_d (of_nat (n + 1)) = [0x31 + of_nat n]" "0 \<noteq> (0x31 + of_nat n :: u8)"
      by (elim disjE; simp add: conv_d_def itoa.simps digit_def)+
  qed
  have f: "format_text (str ''%s%d'') [Arg_str d, Arg_int (of_nat (n + 1))] = Some (d @ [0x31 + of_nat n])"
    using n(1) by (simp add: str_def)
  show ?thesis using sprintf_text [OF f, of 8] assms n(2) by (simp add: Suc_diff_le)
qed

lemma scan_placed:
  assumes "list_all (\<lambda>e. fs_type e \<noteq> 5 \<and> pt_start_lba e < 2 ^ 32) es" "p_no f + length (filter (\<lambda>e. fs_type e \<noteq> 0) es) < 4"
    and "cstr (disk_name f dk) = Some d" "length d < 7" "\<forall>i. p_no f \<le> i \<and> i < 4 \<longrightarrow> part_name (parts f (dk, i)) = replicate 8 0"
  shows "partition_scan_from dk 0 bs es f = fs_free bs (placed dk d (p_no f) (filter (\<lambda>e. fs_type e \<noteq> 0) es) f)"
  using assms
proof (induction es arbitrary: f)
  case Nil
  then show ?case by (simp add: partition_scan_from.simps)
next
  case (Cons e es)
  show ?case
  proof (cases "fs_type e = 0")
    case True
    then show ?thesis using Cons.IH [of f] Cons.prems by (subst partition_scan_from.simps) simp
  next
    case False
    let ?n = "p_no f"
    have d: "0 \<notin> set d" using Cons.prems(3) by (auto simp: cstr_def dest: set_takeWhileD split: if_splits)
    have n: "?n < 4" "Suc ?n < 4" and e: "fs_type e \<noteq> 5" "w32 (pt_start_lba e) = pt_start_lba e" using Cons.prems(1,2) False by simp_all
    let ?u = "upd_part (dk, ?n) (\<lambda>p. p\<lparr>start_lba := pt_start_lba e, sec_cnt := pt_sec_cnt e, my_disk := dk,
        part_name := d @ [0x31 + of_nat ?n] @ replicate (7 - length d) 0\<rparr>) f"
    let ?g = "?u\<lparr>partition_list := partition_list f @ [(dk, ?n)], p_no := Suc ?n\<rparr>"
    have nm: "part_name (parts f (dk, ?n)) = replicate 8 0" using Cons.prems(5) n(1) by simp
    have "add_partition (dk, ?n) (pt_start_lba e) (pt_sec_cnt e) (?n + 1) f = Some (?u\<lparr>partition_list := partition_list f @ [(dk, ?n)]\<rparr>)"
      unfolding add_partition_def Let_def fst_conv nm Cons.prems(3) bind.bind_lunit part_name_text [OF d Cons.prems(4) n(1)] prod.case
      by (simp add: upd_part_def)
    moreover have "partition_scan_from dk 0 bs es ?g = fs_free bs (placed dk d (p_no ?g) (filter (\<lambda>e. fs_type e \<noteq> 0) es) ?g)"
      by (rule Cons.IH) (use Cons.prems False in \<open>simp_all add: upd_part_def\<close>)
    ultimately show ?thesis using False e n by (subst partition_scan_from.simps) (simp add: upd_part_def)
  qed
qed

lemma placed_list: "partition_list (placed dk d n es f) = partition_list f @ map (Pair dk) [n..<n + length es]"
proof (induction es arbitrary: n f)
  case (Cons e es)
  have "[n..<n + length (e # es)] = n # [Suc n..<Suc n + length es]" by (simp add: upt_conv_Cons del: upt_Suc)
  then show ?case unfolding placed.simps by (subst Cons.IH) simp
qed simp

lemma placed_frame [simp]: "krn (placed dk d n es f) = krn f" "p_no f = n \<Longrightarrow> p_no (placed dk d n es f) = n + length es"
  by (induction es arbitrary: n f) (simp_all add: upd_part_def)

lemma placed_other: "(\<forall>i < length es. q \<noteq> (dk, n + i)) \<Longrightarrow> parts (placed dk d n es f) q = parts f q"
proof (induction es arbitrary: n f)
  case (Cons e es)
  have "\<forall>i < length es. q \<noteq> (dk, Suc n + i)" "q \<noteq> (dk, n)" using Cons.prems by (auto dest: spec [of _ 0] spec [of _ "Suc _"])
  then show ?case unfolding placed.simps by (subst Cons.IH) (simp_all add: upd_part_def)
qed simp

lemma placed_part:
  "i < length es \<Longrightarrow> parts (placed dk d n es f) (dk, n + i) = (parts f (dk, n + i))\<lparr>start_lba := pt_start_lba (es ! i),
     sec_cnt := pt_sec_cnt (es ! i), my_disk := dk, part_name := d @ [0x31 + of_nat (n + i)] @ replicate (7 - length d) 0\<rparr>"
proof (induction es arbitrary: n f i)
  case (Cons e es)
  show ?case
  proof (cases i)
    case 0
    then show ?thesis using placed_other [of es "(dk, n)" dk "Suc n"] by (simp add: upd_part_def)
  next
    case (Suc j)
    then show ?thesis using Cons.prems Cons.IH [of j "Suc n"] by (simp add: upd_part_def)
  qed
qed simp



section \<open>Witness\<close>

text \<open>A second disk \<open>sdb\<close> with one partition of type 0x83 with 20000 sectors at sector 2048.\<close>

definition sample_table :: machine where
  "sample_table = sample_machine\<lparr>krn := sample_buffers, disk_name := (\<lambda>_. str ''sdb'' @ replicate 5 0),
     sectors := (\<lambda>_ _. replicate 450 0 @ [0x83, 0, 0, 0] @ put32 2048 @ put32 20000 @ replicate 50 0)\<rparr>"

lemma sample_table_entries:
  "filter (\<lambda>e. fs_type e \<noteq> 0) (boot_sector (sectors sample_table dk 0)) = [\<lparr>fs_type = 0x83, pt_start_lba = 2048, pt_sec_cnt = 20000\<rparr>]"
  by (simp add: boot_sector_def pt_entry_of_def sample_table_def upt_rec nth_append drop_Cons' put32_def)


end
