(* ===== verification/System.thy ===== *)
theory System
  imports Shell Keyboard Ide_Init
begin

text \<open>
  Start-up and the edges of the kernel: the timer chip (\<^verbatim>\<open>device/timer.c\<close>), segment descriptors
  (\<^verbatim>\<open>userprog/tss.c\<close>, \<^verbatim>\<open>kernel/global.h\<close>), exceptions (\<^verbatim>\<open>kernel/interrupt.c\<close>), panics
  (\<^verbatim>\<open>kernel/debug.c\<close>, \<^verbatim>\<open>lib/user/assert.c\<close>), system calls (\<^verbatim>\<open>userprog/syscall_init.c\<close>,
  \<^verbatim>\<open>lib/user/syscall.c\<close>, the handler in \<^verbatim>\<open>kernel/kernel.asm\<close>), \<^verbatim>\<open>kernel/init.c\<close>, \<^verbatim>\<open>kernel/main.c\<close> and
  the programs under \<^verbatim>\<open>command/\<close>.

  The record \<open>system\<close> is the machine together with the tables that the processor and the handlers read;
  writes to I/O ports are kept as the list of port and value pairs.
\<close>

section \<open>The tables of the processor\<close>

datatype handler = General_intr_handler | Intr_timer_handler | Intr_keyboard_handler | Intr_hd_handler

record gdt_desc =
  limit_low_word :: u16
  base_low_word :: u16
  base_mid_byte :: u8
  attr_low_byte :: u8
  limit_high_attr_high :: u8
  base_high_byte :: u8

text \<open>The task state segment: the fields that are ever set, of 27 words; the others stay 0.\<close>

record tss =
  esp0 :: u32
  ss0 :: u32
  io_base :: u32

datatype sys_fun =
  Sys_getpid | Sys_write | Sys_malloc | Sys_free | Sys_fork | Sys_read | Sys_putchar | Cls_screen | Sys_getcwd | Sys_open |
  Sys_close | Sys_lseek | Sys_unlink | Sys_mkdir | Sys_opendir | Sys_closedir | Sys_chdir | Sys_rmdir | Sys_readdir |
  Sys_rewinddir | Sys_stat | Sys_ps | Console_str_color | Sys_create | Sys_execv | Sys_exit | Sys_wait | Sys_pipe |
  Sys_fd_redirect | Sys_help

record system =
  mach :: machine
  idt :: "gate_desc list"
  idt_table :: "handler list"
  intr_name :: "u8 list list"
  idtr :: "nat \<times> u32"
  gdt :: "gdt_desc list"
  gdtr :: "nat \<times> u32"
  tr :: u16
  tss_seg :: tss
  ports :: "(u16 \<times> u8) list"
  syscall_table :: "sys_fun option list"

definition outs :: "(u16 \<times> u8) list \<Rightarrow> system \<Rightarrow> system" where
  "outs ps s = s\<lparr>ports := ports s @ ps\<rparr>"

definition on_mach :: "(machine \<Rightarrow> machine option) \<Rightarrow> system \<Rightarrow> system option" where
  "on_mach g s = do { f \<leftarrow> g (mach s); Some (s\<lparr>mach := f\<rparr>) }"

definition say :: "string \<Rightarrow> system \<Rightarrow> system option" where
  "say txt = on_mach (on_scr (put_str (str (txt @ newline))))"

definition set_handler :: "u8 \<Rightarrow> handler \<Rightarrow> system \<Rightarrow> system option" where
  "set_handler vec h s = do { t \<leftarrow> register_handler (idt_table s) vec h; Some (s\<lparr>idt_table := t\<rparr>) }"


section \<open>The timer\<close>

definition IRQ0_FREQUENCY :: nat where "IRQ0_FREQUENCY = 100"
definition INPUT_FREQUENCY :: nat where "INPUT_FREQUENCY = 1193180"
definition COUNTER0_VALUE :: nat where "COUNTER0_VALUE = INPUT_FREQUENCY div IRQ0_FREQUENCY"
definition mil_seconds_per_intr :: nat where "mil_seconds_per_intr = 1000 div IRQ0_FREQUENCY"

text \<open>The cast binds tighter than the shift: the second byte of the counter is the first one shifted by 8.\<close>

definition frequency_set :: "u8 \<Rightarrow> u8 \<Rightarrow> u8 \<Rightarrow> u8 \<Rightarrow> u16 \<Rightarrow> (u16 \<times> u8) list" where
  "frequency_set counter_port counter_on rwl counter_mode counter_value =
     [(0x43, push_bit 6 counter_on OR push_bit 4 rwl OR push_bit 1 counter_mode),
      (ucast counter_port, ucast counter_value),
      (ucast counter_port, ucast (drop_bit 8 (ucast (ucast counter_value :: u8) :: u32)))]"

definition timer_init :: "system \<Rightarrow> system option" where
  "timer_init s = do {
     s \<leftarrow> say ''time_init start'' s;
     let s = outs (frequency_set 0x40 0 3 2 (of_nat COUNTER0_VALUE)) s;
     s \<leftarrow> set_handler 0x20 Intr_timer_handler s;
     say ''timer_init done'' s
   }"

text \<open>
  One test of the loop in \<open>tisks_to_sleep\<close>: the thread gives the processor away, and tests again when it
  is back, or it has slept long enough.
\<close>

datatype sleep_result = Slept kernel | Yielded kernel intr_status

definition tisks_to_sleep :: "u32 \<Rightarrow> u32 \<Rightarrow> kernel \<Rightarrow> sleep_result option" where
  "tisks_to_sleep start_ticks sleep_ticks s =
     (if total_ticks s - start_ticks < sleep_ticks then do { (s, old) \<leftarrow> thread_yield s; Some (Yielded s old) }
      else Some (Slept s))"

definition round_up_ticks :: "u32 \<Rightarrow> u32" where
  "round_up_ticks m = (m + of_nat mil_seconds_per_intr - 1) div of_nat mil_seconds_per_intr"

definition mtime_sleep :: "u32 \<Rightarrow> kernel \<Rightarrow> sleep_result option" where
  "mtime_sleep m_seconds s = do {
     let sleep_ticks = round_up_ticks m_seconds;
     ASSERT (sleep_ticks > 0);
     tisks_to_sleep (total_ticks s) sleep_ticks s
   }"

definition stime_sleep :: "u32 \<Rightarrow> kernel \<Rightarrow> sleep_result option" where
  "stime_sleep s_seconds s = do {
     let sleep_ticks = round_up_ticks (s_seconds * 1000);
     ASSERT (sleep_ticks > 0);
     tisks_to_sleep (total_ticks s) sleep_ticks s
   }"


section \<open>Segment descriptors\<close>

definition SELECTOR_K_STACK :: u16 where "SELECTOR_K_STACK = push_bit 3 2 + push_bit 2 0 + 0"
definition SELECTOR_TSS :: u16 where "SELECTOR_TSS = push_bit 3 4 + push_bit 2 0 + 0"

definition GDT_ATTR_HIGH :: u8 where
  "GDT_ATTR_HIGH = push_bit 7 1 + push_bit 6 1 + push_bit 5 0 + push_bit 4 0"
definition GDT_CODE_ATTR_LOW_DPL3 :: u8 where
  "GDT_CODE_ATTR_LOW_DPL3 = push_bit 7 1 + push_bit 5 3 + push_bit 4 1 + 8"
definition GDT_DATA_ATTR_LOW_DPL3 :: u8 where
  "GDT_DATA_ATTR_LOW_DPL3 = push_bit 7 1 + push_bit 5 3 + push_bit 4 1 + 2"
definition TSS_ATTR_HIGH :: u8 where
  "TSS_ATTR_HIGH = push_bit 7 1 + push_bit 6 0 + push_bit 5 0 + push_bit 4 0 + 0"
definition TSS_ATTR_LOW :: u8 where
  "TSS_ATTR_LOW = push_bit 7 1 + push_bit 5 0 + push_bit 4 0 + 9"

definition make_gdt_desc :: "u32 \<Rightarrow> u32 \<Rightarrow> u8 \<Rightarrow> u8 \<Rightarrow> gdt_desc" where
  "make_gdt_desc desc_base limit attr_low attr_high =
     \<lparr>limit_low_word = ucast (limit AND 0x0000ffff),
      base_low_word = ucast (desc_base AND 0x0000ffff),
      base_mid_byte = ucast (drop_bit 16 (desc_base AND 0x00ff0000)),
      attr_low_byte = attr_low,
      limit_high_attr_high = ucast (drop_bit 16 (limit AND 0x000f0000) + ucast attr_high),
      base_high_byte = ucast (drop_bit 24 desc_base)\<rparr>"

definition tss_size :: u32 where "tss_size = 108"

text \<open>\<open>tss_addr\<close> is where the compiler puts the segment; the table at 0xc0000900 has seven entries.\<close>

definition tss_init :: "u32 \<Rightarrow> system \<Rightarrow> system option" where
  "tss_init tss_addr s = do {
     s \<leftarrow> say ''tss_init start'' s;
     let s = s\<lparr>tss_seg := \<lparr>esp0 = 0, ss0 = ucast SELECTOR_K_STACK, io_base = tss_size\<rparr>\<rparr>;
     g \<leftarrow> wr (gdt s) 4 (make_gdt_desc tss_addr (tss_size - 1) TSS_ATTR_LOW TSS_ATTR_HIGH);
     g \<leftarrow> wr g 5 (make_gdt_desc 0 0xfffff GDT_CODE_ATTR_LOW_DPL3 GDT_ATTR_HIGH);
     g \<leftarrow> wr g 6 (make_gdt_desc 0 0xfffff GDT_DATA_ATTR_LOW_DPL3 GDT_ATTR_HIGH);
     let s = s\<lparr>gdt := g, gdtr := (7 * 8 - 1, 0xc0000900), tr := SELECTOR_TSS\<rparr>;
     say ''tss_init and ltr done'' s
   }"


section \<open>Exceptions and panics\<close>

text \<open>A function that ends in an endless loop leaves the system as it is then.\<close>

datatype outcome = Returns system | Spins system

definition general_intr_handler :: "u32 \<Rightarrow> u8 \<Rightarrow> system \<Rightarrow> outcome option" where
  "general_intr_handler cr2 vec_nr s =
     (if vec_nr = 0x27 \<or> vec_nr = 0x2f then Some (Returns s)
      else do {
        s \<leftarrow> say ''!!!!!   excetion message begin   !!!!!'' s;
        s \<leftarrow> on_mach (on_scr (put_str (str ''        ''))) s;
        nm \<leftarrow> rd (intr_name s) (unat vec_nr);
        s \<leftarrow> on_mach (on_scr (put_str nm)) s;
        s \<leftarrow> (if vec_nr = 14 then do {
                s \<leftarrow> on_mach (on_scr (put_str (str (newline @ ''page fault addr is '')))) s;
                on_mach (on_scr (put_int cr2)) s
              } else Some s);
        s \<leftarrow> say (newline @ ''!!!!!   excetion message end    !!!!!'') s;
        Some (Spins s)
      })"

definition exception_names :: "u8 list list" where
  "exception_names =
     map str [''#DE Divide Error'', ''#DB Debug Exception'', ''NMI Interrupt'', ''#BP Breakpoint Exception'',
       ''#OF Overflow Exception'', ''#BR BOUND Range Exceeded Exception'', ''#UD Invalid Opcode Exception'',
       ''#NM Device Not Available Exception'', ''#DF Double Fault Exception'', ''Coprocessor Segment Overrun'',
       ''#TS Invalid TSS Exception'', ''#NP Segment Not Present'', ''#SS Stack Fault Exception'',
       ''#GP General Protection Exception'', ''#PF Page-Fault Exception'', ''unknow'', ''#MF x87 FPU Floating-Point Error'',
       ''#AC Alignment Check Exception'', ''#MC Machine-Check Exception'', ''#XF SIMD Floating-Point Exception'']"

definition exception_init :: "system \<Rightarrow> system" where
  "exception_init s = s\<lparr>idt_table := replicate IDT_DESC_CNT General_intr_handler,
     intr_name := exception_names @ replicate (IDT_DESC_CNT - 20) (str ''unknow'')\<rparr>"

definition idt_init :: "(nat \<Rightarrow> u32) \<Rightarrow> u32 \<Rightarrow> u32 \<Rightarrow> system \<Rightarrow> system option" where
  "idt_init intr_entry_table syscall_handler idt_addr s = do {
     s \<leftarrow> say ''idt_init start'' s;
     s \<leftarrow> say ''   idt_desc_init done'' (s\<lparr>idt := idt_desc_init intr_entry_table syscall_handler\<rparr>);
     s \<leftarrow> say ''   pic_init done'' (outs pic_init (exception_init s));
     say ''idt_init done'' (s\<lparr>idtr := (8 * IDT_DESC_CNT - 1, idt_addr)\<rparr>)
   }"

definition panic_spin :: "u8 list \<Rightarrow> u32 \<Rightarrow> u8 list \<Rightarrow> u8 list \<Rightarrow> machine \<Rightarrow> machine option" where
  "panic_spin file line func condition f = do {
     let f = f\<lparr>krn := fst (intr_disable (krn f))\<rparr>;
     f \<leftarrow> on_scr (put_str (str (newline @ newline @ newline @ ''!!!!! error !!!!!'' @ newline))) f;
     f \<leftarrow> on_scr (put_str (str ''filename:'')) f;
     f \<leftarrow> on_scr (put_str file) f;
     f \<leftarrow> on_scr (put_char 0x0a) f;
     f \<leftarrow> on_scr (put_str (str ''line:'')) f;
     f \<leftarrow> on_scr (put_int line) f;
     f \<leftarrow> on_scr (put_char 0x0a) f;
     f \<leftarrow> on_scr (put_str (str ''funtion:'')) f;
     f \<leftarrow> on_scr (put_str func) f;
     f \<leftarrow> on_scr (put_char 0x0a) f;
     f \<leftarrow> on_scr (put_str (str ''condition:'')) f;
     f \<leftarrow> on_scr (put_str condition) f;
     on_scr (put_char 0x0a) f
   }"

definition user_spin :: "u8 list \<Rightarrow> u32 \<Rightarrow> u8 list \<Rightarrow> u8 list \<Rightarrow> machine \<Rightarrow> int io_result option" where
  "user_spin file line func condition f =
     printf (newline @ newline @ newline @ newline @ ''filename %s'' @ newline @ ''line %d'' @ newline @ ''function %s'' @ newline @
             ''condition %s'' @ newline)
       [Arg_str file, Arg_int line, Arg_str func, Arg_str condition] f"


section \<open>System calls\<close>

datatype SYSCALL_NR =
  SYS_GETPID | SYS_WRITE | SYS_MALLOC | SYS_FREE | SYS_FORK | SYS_READ | SYS_PUTCHAR | SYS_CLEAR | SYS_GETCWD |
  SYS_OPEN | SYS_CLOSE | SYS_LSEEK | SYS_UNLINK | SYS_MKDIR | SYS_OPENDIR | SYS_CLOSEDIR | SYS_CHDIR | SYS_RMDIR |
  SYS_READDIR | SYS_REWINDDIR | SYS_STAT | SYS_PS | SYS_PUT_COLOR | SYS_CREAT | SYS_EXECV | SYS_EXIT | SYS_WAIT |
  SYS_PIPE | SYS_FD_REDIRECT | SYS_HELP

text \<open>The enumeration numbers the calls from 0 on.\<close>

fun sys_nr :: "SYSCALL_NR \<Rightarrow> nat" where
  "sys_nr SYS_GETPID = 0"
| "sys_nr SYS_WRITE = 1"
| "sys_nr SYS_MALLOC = 2"
| "sys_nr SYS_FREE = 3"
| "sys_nr SYS_FORK = 4"
| "sys_nr SYS_READ = 5"
| "sys_nr SYS_PUTCHAR = 6"
| "sys_nr SYS_CLEAR = 7"
| "sys_nr SYS_GETCWD = 8"
| "sys_nr SYS_OPEN = 9"
| "sys_nr SYS_CLOSE = 10"
| "sys_nr SYS_LSEEK = 11"
| "sys_nr SYS_UNLINK = 12"
| "sys_nr SYS_MKDIR = 13"
| "sys_nr SYS_OPENDIR = 14"
| "sys_nr SYS_CLOSEDIR = 15"
| "sys_nr SYS_CHDIR = 16"
| "sys_nr SYS_RMDIR = 17"
| "sys_nr SYS_READDIR = 18"
| "sys_nr SYS_REWINDDIR = 19"
| "sys_nr SYS_STAT = 20"
| "sys_nr SYS_PS = 21"
| "sys_nr SYS_PUT_COLOR = 22"
| "sys_nr SYS_CREAT = 23"
| "sys_nr SYS_EXECV = 24"
| "sys_nr SYS_EXIT = 25"
| "sys_nr SYS_WAIT = 26"
| "sys_nr SYS_PIPE = 27"
| "sys_nr SYS_FD_REDIRECT = 28"
| "sys_nr SYS_HELP = 29"

text \<open>The calls that a user program can make, with their arguments in the order of the C functions.\<close>

datatype user_call =
  U_getpid | U_write u32 u32 u32 | U_malloc u32 | U_free u32 | U_fork | U_read u32 u32 u32 | U_putchar u32 | U_clear |
  U_getcwd u32 u32 | U_open u32 u32 | U_close u32 | U_lseek u32 u32 u32 | U_unlink u32 | U_mkdir u32 | U_opendir u32 |
  U_closedir u32 | U_chdir u32 | U_rmdir u32 | U_readdir u32 | U_rewinddir u32 | U_stat u32 u32 | U_ps |
  U_put_color u32 u32 | U_creat u32 | U_execv u32 u32 | U_exit u32 | U_wait u32 | U_pipe u32 | U_fd_redirect u32 u32 |
  U_help

text \<open>The macros \<open>_syscall0\<close> to \<open>_syscall3\<close> load the registers; those they do not name keep their values.\<close>

record regs =
  eax :: u32
  ebx :: u32
  ecx :: u32
  edx :: u32

definition syscall0 :: "SYSCALL_NR \<Rightarrow> regs \<Rightarrow> regs" where
  "syscall0 nr r = r\<lparr>eax := of_nat (sys_nr nr)\<rparr>"

definition syscall1 :: "SYSCALL_NR \<Rightarrow> u32 \<Rightarrow> regs \<Rightarrow> regs" where
  "syscall1 nr a r = r\<lparr>eax := of_nat (sys_nr nr), ebx := a\<rparr>"

definition syscall2 :: "SYSCALL_NR \<Rightarrow> u32 \<Rightarrow> u32 \<Rightarrow> regs \<Rightarrow> regs" where
  "syscall2 nr a b r = r\<lparr>eax := of_nat (sys_nr nr), ebx := a, ecx := b\<rparr>"

definition syscall3 :: "SYSCALL_NR \<Rightarrow> u32 \<Rightarrow> u32 \<Rightarrow> u32 \<Rightarrow> regs \<Rightarrow> regs" where
  "syscall3 nr a b c r = r\<lparr>eax := of_nat (sys_nr nr), ebx := a, ecx := b, edx := c\<rparr>"

fun user_stub :: "user_call \<Rightarrow> regs \<Rightarrow> regs" where
  "user_stub (U_getpid) = syscall0 SYS_GETPID"
| "user_stub (U_write a b c) = syscall3 SYS_WRITE a b c"
| "user_stub (U_malloc a) = syscall1 SYS_MALLOC a"
| "user_stub (U_free a) = syscall1 SYS_FREE a"
| "user_stub (U_fork) = syscall0 SYS_FORK"
| "user_stub (U_read a b c) = syscall3 SYS_READ a b c"
| "user_stub (U_putchar a) = syscall1 SYS_PUTCHAR a"
| "user_stub (U_clear) = syscall0 SYS_CLEAR"
| "user_stub (U_getcwd a b) = syscall2 SYS_GETCWD a b"
| "user_stub (U_open a b) = syscall2 SYS_OPEN a b"
| "user_stub (U_close a) = syscall1 SYS_CLOSE a"
| "user_stub (U_lseek a b c) = syscall3 SYS_LSEEK a b c"
| "user_stub (U_unlink a) = syscall1 SYS_UNLINK a"
| "user_stub (U_mkdir a) = syscall1 SYS_MKDIR a"
| "user_stub (U_opendir a) = syscall1 SYS_OPENDIR a"
| "user_stub (U_closedir a) = syscall1 SYS_CLOSEDIR a"
| "user_stub (U_chdir a) = syscall1 SYS_CHDIR a"
| "user_stub (U_rmdir a) = syscall1 SYS_RMDIR a"
| "user_stub (U_readdir a) = syscall1 SYS_READDIR a"
| "user_stub (U_rewinddir a) = syscall1 SYS_REWINDDIR a"
| "user_stub (U_stat a b) = syscall2 SYS_STAT a b"
| "user_stub (U_ps) = syscall0 SYS_PS"
| "user_stub (U_put_color a b) = syscall2 SYS_PUT_COLOR a b"
| "user_stub (U_creat a) = syscall1 SYS_CREAT a"
| "user_stub (U_execv a b) = syscall2 SYS_EXECV a b"
| "user_stub (U_exit a) = syscall1 SYS_EXIT a"
| "user_stub (U_wait a) = syscall1 SYS_WAIT a"
| "user_stub (U_pipe a) = syscall1 SYS_PIPE a"
| "user_stub (U_fd_redirect a b) = syscall2 SYS_FD_REDIRECT a b"
| "user_stub (U_help) = syscall0 SYS_HELP"

text \<open>The assignments to the table, in their order.\<close>

definition syscall_init_table :: "(SYSCALL_NR \<times> sys_fun) list" where
  "syscall_init_table =
     [(SYS_GETPID, Sys_getpid), (SYS_WRITE, Sys_write), (SYS_MALLOC, Sys_malloc), (SYS_FREE, Sys_free),
      (SYS_FORK, Sys_fork), (SYS_READ, Sys_read), (SYS_PUTCHAR, Sys_putchar), (SYS_CLEAR, Cls_screen),
      (SYS_GETCWD, Sys_getcwd), (SYS_OPEN, Sys_open), (SYS_CLOSE, Sys_close), (SYS_LSEEK, Sys_lseek),
      (SYS_UNLINK, Sys_unlink), (SYS_MKDIR, Sys_mkdir), (SYS_OPENDIR, Sys_opendir), (SYS_CLOSEDIR, Sys_closedir),
      (SYS_CHDIR, Sys_chdir), (SYS_RMDIR, Sys_rmdir), (SYS_READDIR, Sys_readdir), (SYS_REWINDDIR, Sys_rewinddir),
      (SYS_STAT, Sys_stat), (SYS_PS, Sys_ps), (SYS_PUT_COLOR, Console_str_color), (SYS_CREAT, Sys_create),
      (SYS_EXECV, Sys_execv), (SYS_EXIT, Sys_exit), (SYS_WAIT, Sys_wait), (SYS_PIPE, Sys_pipe),
      (SYS_FD_REDIRECT, Sys_fd_redirect), (SYS_HELP, Sys_help)]"

fun set_syscalls :: "(SYSCALL_NR \<times> sys_fun) list \<Rightarrow> sys_fun option list \<Rightarrow> sys_fun option list option" where
  "set_syscalls [] table = Some table"
| "set_syscalls ((nr, fn) # es) table = do { table \<leftarrow> wr table (sys_nr nr) (Some fn); set_syscalls es table }"

definition syscall_init :: "system \<Rightarrow> system option" where
  "syscall_init s = do {
     s \<leftarrow> say ''syscall_init start'' s;
     table \<leftarrow> set_syscalls syscall_init_table (syscall_table s);
     say ''syscall_init done'' (s\<lparr>syscall_table := table\<rparr>)
   }"

text \<open>
  The handler of the interrupt 0x80 pushes the three registers and calls through the table; an empty
  entry, or a number outside of the table, is a wild call.
\<close>

definition syscall_handler :: "sys_fun option list \<Rightarrow> regs \<Rightarrow> (sys_fun \<times> u32 list) option" where
  "syscall_handler table r = do { fn \<leftarrow> rd table (unat (eax r)); fn \<leftarrow> fn; Some (fn, [ebx r, ecx r, edx r]) }"


section \<open>Start-up\<close>

text \<open>
  The total memory is the word at 0xb00 and the number of disks the byte at 0x475, where the loader and
  the BIOS leave them; \<open>raw\<close> is what the memory of the bitmaps holds.  The addresses that the linker
  chooses, and what the pages of the new kernel stacks hold, are the fields of \<open>image\<close>.
\<close>

record image =
  intr_entry_table :: "nat \<Rightarrow> u32"
  syscall_entry :: u32
  idt_addr :: u32
  tss_addr :: u32
  init_addr :: u32
  start_process_addr :: u32
  idle_addr :: u32
  init_stack :: thread_stack
  idle_stack :: thread_stack

definition mem_init :: "u32 \<Rightarrow> (nat \<Rightarrow> u8) \<Rightarrow> kernel \<Rightarrow> kernel option" where
  "mem_init mem_bytes_total raw s = do {
     s \<leftarrow> mem_pool_init mem_bytes_total raw s;
     ds \<leftarrow> block_desc_init (k_block_descs s);
     Some (s\<lparr>k_block_descs := ds\<rparr>)
   }"

definition keyboard_setup :: "machine \<Rightarrow> machine" where
  "keyboard_setup f = (let (q, k) = keyboard_init (kbd_buf f) (krn f) in f\<lparr>kbd_buf := q, krn := k\<rparr>)"

text \<open>\<open>ide_init\<close> registers its handler for every channel.\<close>

fun hd_handlers :: "nat \<Rightarrow> nat \<Rightarrow> system \<Rightarrow> system option" where
  "hd_handlers 0 ch s = Some s"
| "hd_handlers (Suc n) ch s = do {
     s \<leftarrow> set_handler (irq_no (channels (mach s) ch)) Intr_hd_handler s;
     hd_handlers n (ch + 1) s
   }"

definition init_all :: "image \<Rightarrow> u32 \<Rightarrow> (nat \<Rightarrow> u8) \<Rightarrow> (hd_id \<Rightarrow> u8 list) \<Rightarrow> u8 list \<Rightarrow> nat \<Rightarrow> u8 list \<Rightarrow> system \<Rightarrow> system option" where
  "init_all im mem_bytes_total raw id_info stack hd_cnt padding s = do {
     s \<leftarrow> say ''init_all'' s;
     s \<leftarrow> idt_init (intr_entry_table im) (syscall_entry im) (idt_addr im) s;
     s \<leftarrow> timer_init s;
     s \<leftarrow> say ''mem_init start'' s;
     s \<leftarrow> on_mach (on_krn (mem_init mem_bytes_total raw)) s;
     s \<leftarrow> say ''mem_init done'' s;
     s \<leftarrow> say ''keyboard init start'' s;
     s \<leftarrow> set_handler 0x21 Intr_keyboard_handler (s\<lparr>mach := keyboard_setup (mach s)\<rparr>);
     s \<leftarrow> say ''keyboard init done'' s;
     s \<leftarrow> tss_init (tss_addr im) s;
     s \<leftarrow> say ''thread_init start'' s;
     s \<leftarrow> on_mach (on_krn (thread_init (init_addr im) (start_process_addr im) (idle_addr im) (init_stack im) (idle_stack im))) s;
     s \<leftarrow> say ''thread_init done'' s;
     s \<leftarrow> syscall_init (s\<lparr>mach := console_init (mach s)\<rparr>);
     s \<leftarrow> on_mach (ide_init id_info stack hd_cnt) s;
     s \<leftarrow> hd_handlers (channel_cnt (mach s)) 0 s;
     on_mach (filesys_init padding) s
   }"

text \<open>
  The pieces of the banner in \<open>main\<close>: with a colour through \<open>put_color\<close>, without one through \<open>printf\<close>.
\<close>

fun show_pieces :: "(u8 option \<times> string) list \<Rightarrow> machine \<Rightarrow> unit io_result option" where
  "show_pieces [] f = Some (Finished f ())"
| "show_pieces ((None, txt) # ps) f = io_bind (printf txt [] f) (\<lambda>f _. show_pieces ps f)"
| "show_pieces ((Some colour, txt) # ps) f = do { f \<leftarrow> console_str_color (str txt) colour f; show_pieces ps f }"

definition banner :: "(u8 option \<times> string) list" where
  "banner =
     [(None, newline),
      (Some 11, ''             ______            ____  _____     '' @ newline),
      (Some 11, ''            / ____/           / __ '' @ [CHR 0x5C] @ ''/ ___/     ''),
      (Some 11, ''Name:''), (None, ''G-OS'' @ newline),
      (Some 11, ''           / / __   ______   / / / /'' @ [CHR 0x5C] @ ''__ '' @ [CHR 0x5C] @ ''      ''),
      (Some 11, ''Version:''), (None, ''1.0.0.0'' @ newline),
      (Some 11, ''          / /_/ /  /_____/  / /_/ /___/ /      ''),
      (Some 11, ''Architecture:''), (None, ''X86'' @ newline),
      (Some 11, ''          '' @ [CHR 0x5C] @ ''____/            '' @ [CHR 0x5C] @ ''____//____/       ''),
      (Some 11, ''Language:''), (None, ''C'' @ newline), (None, newline)]
     @ map (\<lambda>i. (Some (of_nat (7 + i mod 9)), ''-'')) [0..<80]
     @ [(None, newline @ newline)]"

text \<open>\<open>main\<close> of the kernel; \<open>Finished\<close> is the endless loop at its end.\<close>

definition kernel_main ::
    "image \<Rightarrow> u32 \<Rightarrow> (nat \<Rightarrow> u8) \<Rightarrow> (hd_id \<Rightarrow> u8 list) \<Rightarrow> u8 list \<Rightarrow> nat \<Rightarrow> u8 list \<Rightarrow> system \<Rightarrow> (system \<times> unit io_result) option" where
  "kernel_main im mem_bytes_total raw id_info stack hd_cnt padding s = do {
     s \<leftarrow> say ''I am kernel'' s;
     s \<leftarrow> init_all im mem_bytes_total raw id_info stack hd_cnt padding s;
     let f = (mach s)\<lparr>krn := fst (intr_enable (krn (mach s)))\<rparr>;
     r \<leftarrow> io_bind (show_pieces banner (f\<lparr>scr := cls_screen (scr f)\<rparr>)) (\<lambda>f _. do {
       f \<leftarrow> console_put_str (str ''[rabbit@localhost /]$ '') f;
       Some (Finished f ())
     });
     Some (s, r)
   }"

text \<open>
  The first user process.  \<open>init\<close> forks; the parent collects children forever, one of them in a round,
  and the child is the shell.  \<open>st0\<close> is what the variable \<open>status\<close> holds.
\<close>

definition init_round :: "u32 \<Rightarrow> machine \<Rightarrow> unit io_result option" where
  "init_round st0 f = do {
     w \<leftarrow> sys_wait (krn f);
     let report = (\<lambda>k child_pid st. io_bind
       (printf (''I`m init, My pid is 1, I recieve a child, It`s pid is %d, status is %d'' @ newline)
          [Arg_int (word_of_int child_pid), Arg_int st] (f\<lparr>krn := k\<rparr>)) (\<lambda>f _. Some (Finished f ())));
     case w of
       Waiting k _ \<Rightarrow> Some (Asleep (f\<lparr>krn := k\<rparr>))
     | No_child k \<Rightarrow> report k (-1) st0
     | Collected k st child_pid \<Rightarrow> report k child_pid (word_of_int st)
   }"

definition init_process :: "u32 \<Rightarrow> u32 \<Rightarrow> machine \<Rightarrow> unit io_result option" where
  "init_process intr_exit st0 f = do { (f, ret_pid) \<leftarrow> sys_fork intr_exit f; init_round st0 f }"

text \<open>
  \<open>load_user_code\<close> copies a program from sector 300 of the first disk into a file.  The buffer holds
  what is in the sectors.
\<close>

definition load_user_code :: "uninit \<Rightarrow> nat \<Rightarrow> u8 list \<Rightarrow> machine \<Rightarrow> unit io_result option" where
  "load_user_code u sz nm f = do {
     let sec_cnt = DIV_ROUND_UP sz 512;
     namebuf \<leftarrow> buf_strcat (slash # replicate 15 0) nm;
     path \<leftarrow> cstr namebuf;
     (f, prog_buf) \<leftarrow> fs_malloc sz f;
     ASSERT (prog_buf \<noteq> 0);
     (f, bytes) \<leftarrow> ide_read (0, 0) 300 sec_cnt f;
     (f, fd) \<leftarrow> sys_open u path (O_CREAT + O_RDWR) f;
     io_bind (if fd \<noteq> -1 then sys_write fd bytes sz f else Some (Finished f 0)) (\<lambda>f n.
       if n = -1 then do { f \<leftarrow> printk (str (''file write error!'' @ newline)) [] f; None }
       else do { (f, _) \<leftarrow> sys_close fd f; Some (Finished f ()) })
   }"


section \<open>Programs\<close>

text \<open>
  \<^verbatim>\<open>command/cat.c\<close>: the result is the status the program ends with.  \<open>before\<close> is the byte in front of the
  buffer, and the heap block holds what was read last.
\<close>

partial_function (option) cat_loop :: "u8 \<Rightarrow> int \<Rightarrow> nat \<Rightarrow> machine \<Rightarrow> unit io_result option" where
  "cat_loop before fd buf_size f = do {
     r \<leftarrow> sys_read before fd buf_size f;
     case r of
       Asleep f \<Rightarrow> Some (Asleep f)
     | Finished f (bytes, n) \<Rightarrow>
         if n = -1 then Some (Finished f ())
         else do {
           r \<leftarrow> sys_write 1 bytes (nat n) f;
           case r of Asleep f \<Rightarrow> Some (Asleep f) | Finished f _ \<Rightarrow> cat_loop before fd buf_size f
         }
   }"

definition cat_path :: "u8 list \<Rightarrow> machine \<Rightarrow> (machine \<times> u8 list) option" where
  "cat_path arg f =
     (if arg = [] \<or> arg ! 0 \<noteq> slash then do {
        (f, abs_path, _) \<leftarrow> getcwd (replicate 512 0) f;
        abs_path \<leftarrow> buf_strcat abs_path [slash];
        abs_path \<leftarrow> buf_strcat abs_path arg;
        path \<leftarrow> cstr abs_path;
        Some (f, path)
      } else do {
        abs_path \<leftarrow> buf_write (replicate 512 0) 0 arg;
        path \<leftarrow> cstr abs_path;
        Some (f, path)
      })"

definition cat_main :: "uninit \<Rightarrow> u8 \<Rightarrow> u8 list list \<Rightarrow> machine \<Rightarrow> int io_result option" where
  "cat_main u before args f =
     (if length args > 2 then
        io_bind (printf (''cat: only support 1 argument.'' @ newline @ ''eg: cat filename'' @ newline) [] f)
          (\<lambda>f _. Some (Finished f (-2)))
      else if length args = 1 then
        io_bind (sys_read before 0 512 f) (\<lambda>f (bytes, _). do {
          arr \<leftarrow> buf_write (replicate 512 0) 0 bytes;
          txt \<leftarrow> cstr arr;
          io_bind (printf (''%s'' @ newline) [Arg_str txt] f) (\<lambda>f _. Some (Finished f 0))
        })
      else do {
        (f, p) \<leftarrow> fs_malloc 1024 f;
        if p = 0 then io_bind (printf (''cat: malloc memory failed'' @ newline) [] f) (\<lambda>f _. Some (Finished f (-11)))
        else do {
          arg \<leftarrow> rd args 1;
          (f, path) \<leftarrow> cat_path arg f;
          (f, fd) \<leftarrow> sys_open u path 0 f;
          if fd = -1 then io_bind (printf (''cat: open: open %s failed'' @ newline) [Arg_str arg] f) (\<lambda>f _. Some (Finished f (-1)))
          else io_bind (cat_loop before fd 1024 f) (\<lambda>f _. do {
            f \<leftarrow> fs_free p f;
            (f, _) \<leftarrow> sys_close fd f;
            Some (Finished f 66)
          })
        }
      })"

text \<open>\<^verbatim>\<open>command/pipe_test.c\<close>, behind the calls of \<open>pipe\<close> and \<open>fork\<close>: what the parent and the child do.\<close>

definition pipe_test_parent :: "int \<Rightarrow> int \<Rightarrow> machine \<Rightarrow> int io_result option" where
  "pipe_test_parent fd0 fd1 f = do {
     (f, _) \<leftarrow> sys_close fd0 f;
     io_bind (sys_write fd1 (str ''Hi, my son, I love you!'' @ [0]) 24 f) (\<lambda>f n.
     io_bind (printf (''write len:%d'' @ newline) [Arg_int (word_of_int n)] f) (\<lambda>f _.
     io_bind (printf (newline @ ''I`m father, my pid is %d'' @ newline) [Arg_int (sys_getpid f)] f) (\<lambda>f _.
     Some (Finished f 8))))
   }"

definition pipe_test_child :: "u8 \<Rightarrow> int \<Rightarrow> int \<Rightarrow> machine \<Rightarrow> int io_result option" where
  "pipe_test_child before fd0 fd1 f = do {
     (f, _) \<leftarrow> sys_close fd1 f;
     io_bind (sys_read before fd0 24 f) (\<lambda>f (bytes, n). do {
       arr \<leftarrow> buf_write (replicate 32 0) 0 bytes;
       txt \<leftarrow> cstr arr;
       io_bind (printf (''read len:%d'' @ newline) [Arg_int (word_of_int n)] f) (\<lambda>f _.
       io_bind (printf (''I`m child, my father said to me: '' @ [CHR 0x22] @ ''%s'' @ [CHR 0x22] @ newline) [Arg_str txt] f) (\<lambda>f _.
       io_bind (printf (newline @ ''I`m child, my pid is %d'' @ newline) [Arg_int (sys_getpid f)] f) (\<lambda>f _.
       Some (Finished f 9))))
     })
   }"

definition prog_no_arg :: "u8 list list \<Rightarrow> machine \<Rightarrow> int io_result option" where
  "prog_no_arg args f = do {
     a0 \<leftarrow> rd args 0;
     a1 \<leftarrow> rd args 1;
     io_bind (printf (''prog_no_arg from disk'' @ newline) [] f) (\<lambda>f _.
     io_bind (printf (''argc:%d ,argv[0]:%s ,argv[1]:%s'' @ newline) [Arg_int (of_nat (length args)), Arg_str a0, Arg_str a1] f) (\<lambda>f _.
     Some (Finished f 0)))
   }"

end
