(* ===== verification/System_Spec.thy ===== *)
theory System_Spec
  imports System
begin

text \<open>
  What holds of the edges of the kernel: the system call table, the segment descriptors, the timer, and
  the pages of a program's segment.
\<close>

section \<open>A concrete system\<close>

definition sample_system :: system where
  "sample_system = \<lparr>mach = sample_machine, idt = [], idt_table = replicate 0x81 General_intr_handler, intr_name = [],
     idtr = (0, 0), gdt = replicate 7 (make_gdt_desc 0 0 0 0), gdtr = (0, 0), tr = 0,
     tss_seg = \<lparr>esp0 = 0, ss0 = 0, io_base = 0\<rparr>, ports = [], syscall_table = replicate 32 None\<rparr>"

lemma sample_system_simps [simp]:
  "screen_ok (scr (mach sample_system))" "length (syscall_table sample_system) = 32"
  "length (gdt sample_system) = 7" "length (idt_table sample_system) = 129"
  by (simp_all add: sample_system_def sample_machine_def sample_screen_def screen_ok_def cell_def)


section \<open>System calls\<close>

text \<open>The kernel function and the arguments that a call of a user program stands for.\<close>

fun kernel_call :: "user_call \<Rightarrow> sys_fun \<times> u32 list" where
  "kernel_call (U_getpid) = (Sys_getpid, [])"
| "kernel_call (U_write a b c) = (Sys_write, [a, b, c])"
| "kernel_call (U_malloc a) = (Sys_malloc, [a])"
| "kernel_call (U_free a) = (Sys_free, [a])"
| "kernel_call (U_fork) = (Sys_fork, [])"
| "kernel_call (U_read a b c) = (Sys_read, [a, b, c])"
| "kernel_call (U_putchar a) = (Sys_putchar, [a])"
| "kernel_call (U_clear) = (Cls_screen, [])"
| "kernel_call (U_getcwd a b) = (Sys_getcwd, [a, b])"
| "kernel_call (U_open a b) = (Sys_open, [a, b])"
| "kernel_call (U_close a) = (Sys_close, [a])"
| "kernel_call (U_lseek a b c) = (Sys_lseek, [a, b, c])"
| "kernel_call (U_unlink a) = (Sys_unlink, [a])"
| "kernel_call (U_mkdir a) = (Sys_mkdir, [a])"
| "kernel_call (U_opendir a) = (Sys_opendir, [a])"
| "kernel_call (U_closedir a) = (Sys_closedir, [a])"
| "kernel_call (U_chdir a) = (Sys_chdir, [a])"
| "kernel_call (U_rmdir a) = (Sys_rmdir, [a])"
| "kernel_call (U_readdir a) = (Sys_readdir, [a])"
| "kernel_call (U_rewinddir a) = (Sys_rewinddir, [a])"
| "kernel_call (U_stat a b) = (Sys_stat, [a, b])"
| "kernel_call (U_ps) = (Sys_ps, [])"
| "kernel_call (U_put_color a b) = (Console_str_color, [a, b])"
| "kernel_call (U_creat a) = (Sys_create, [a])"
| "kernel_call (U_execv a b) = (Sys_execv, [a, b])"
| "kernel_call (U_exit a) = (Sys_exit, [a])"
| "kernel_call (U_wait a) = (Sys_wait, [a])"
| "kernel_call (U_pipe a) = (Sys_pipe, [a])"
| "kernel_call (U_fd_redirect a b) = (Sys_fd_redirect, [a, b])"
| "kernel_call (U_help) = (Sys_help, [])"

lemma set_syscalls_full:
  assumes "length table = 32"
  shows "set_syscalls syscall_init_table table = Some (map (\<lambda>e. Some (snd e)) syscall_init_table @ drop 30 table)"
proof -
  have step: "take n (xs[n := v]) = take n xs" "drop n (xs[n := v]) = v # drop (Suc n) xs" if "n < length xs" for n and xs :: "'a list" and v
    using that by (simp_all add: drop_update_swap Cons_nth_drop_Suc [symmetric])
  have gen: "set_syscalls es xs = Some (take n xs @ map (\<lambda>e. Some (snd e)) es @ drop (n + length es) xs)"
    if "map (\<lambda>e. sys_nr (fst e)) es = [n..<n + length es]" "n + length es \<le> length xs" for es n xs
    using that
  proof (induction es arbitrary: n xs)
    case (Cons e es)
    obtain nr fn where e: "e = (nr, fn)" by (cases e)
    have nr: "sys_nr nr = n" and es: "map (\<lambda>e. sys_nr (fst e)) es = [Suc n..<Suc n + length es]"
      using Cons.prems(1) by (simp_all add: e upt_conv_Cons del: upt_Suc)
    have n: "n < length xs" using Cons.prems(2) by simp
    have "set_syscalls es (xs[n := Some fn])
        = Some (take (Suc n) (xs[n := Some fn]) @ map (\<lambda>e. Some (snd e)) es @ drop (Suc n + length es) (xs[n := Some fn]))"
      using Cons.prems(2) by (intro Cons.IH es) simp
    then show ?case using n by (simp add: e nr take_Suc_conv_app_nth)
  qed simp
  have "map (\<lambda>e. sys_nr (fst e)) syscall_init_table = [0..<0 + length syscall_init_table]"
    by (simp add: syscall_init_table_def upt_conv_Cons)
  moreover have "length syscall_init_table = 30" by (simp add: syscall_init_table_def)
  ultimately show ?thesis using gen [of syscall_init_table 0 table] assms by simp
qed

lemma say_ok:
  assumes "screen_ok (scr (mach s))"
  shows "\<exists>sc. say txt s = Some (s\<lparr>mach := (mach s)\<lparr>scr := sc\<rparr>\<rparr>) \<and> screen_ok sc"
proof -
  obtain sc where "put_str (str (txt @ newline)) (scr (mach s)) = Some sc" "screen_ok sc"
    using put_str_color_ok [OF assms] unfolding put_str_def by blast
  then show ?thesis by (auto simp: say_def on_mach_def on_scr_def)
qed

text \<open>
  C26. System calls: \<open>syscall_init\<close> fills the table so that every stub of the user library, whatever the
  registers hold, reaches the kernel function of its name with its arguments in their order.
\<close>

theorem user_stub_reaches_kernel:
  assumes "length (syscall_table s) = 32" "screen_ok (scr (mach s))"
  shows "\<exists>s'. syscall_init s = Some s' \<and>
     (\<forall>c r. \<exists>args. syscall_handler (syscall_table s') (user_stub c r) = Some (fst (kernel_call c), args) \<and>
        take (length (snd (kernel_call c))) args = snd (kernel_call c))"
proof -
  obtain sc where sc: "say ''syscall_init start'' s = Some (s\<lparr>mach := (mach s)\<lparr>scr := sc\<rparr>\<rparr>)" "screen_ok sc"
    using say_ok [OF assms(2)] by blast
  let ?t = "map (\<lambda>e. Some (snd e)) syscall_init_table @ drop 30 (syscall_table s)"
  let ?s = "s\<lparr>mach := (mach s)\<lparr>scr := sc\<rparr>, syscall_table := ?t\<rparr>"
  obtain sc' where "say ''syscall_init done'' ?s = Some (?s\<lparr>mach := (mach ?s)\<lparr>scr := sc'\<rparr>\<rparr>)"
    using say_ok [of ?s] sc(2) by auto
  then have "syscall_init s = Some (?s\<lparr>mach := (mach ?s)\<lparr>scr := sc'\<rparr>\<rparr>)"
    using sc(1) set_syscalls_full [OF assms(1)] by (simp add: syscall_init_def)
  moreover have "\<exists>args. syscall_handler ?t (user_stub c r) = Some (fst (kernel_call c), args) \<and>
      take (length (snd (kernel_call c))) args = snd (kernel_call c)" for c r
    by (cases c) (simp_all add: syscall_handler_def syscall_init_table_def syscall0_def syscall1_def syscall2_def syscall3_def rd_def)
  ultimately show ?thesis by simp
qed

lemma user_stub_reaches_kernel_witness:
  "\<exists>s' args. syscall_init sample_system = Some s' \<and>
     syscall_handler (syscall_table s') (user_stub (U_write 1 2 3) \<lparr>eax = 0, ebx = 0, ecx = 0, edx = 0\<rparr>) = Some (Sys_write, args) \<and>
     take 3 args = [1, 2, 3]"
proof -
  obtain s' where s': "syscall_init sample_system = Some s'"
    "\<forall>c r. \<exists>args. syscall_handler (syscall_table s') (user_stub c r) = Some (fst (kernel_call c), args) \<and>
      take (length (snd (kernel_call c))) args = snd (kernel_call c)"
    using user_stub_reaches_kernel [of sample_system] by auto
  then show "\<exists>s' args. syscall_init sample_system = Some s' \<and>
     syscall_handler (syscall_table s') (user_stub (U_write 1 2 3) \<lparr>eax = 0, ebx = 0, ecx = 0, edx = 0\<rparr>) = Some (Sys_write, args) \<and>
     take 3 args = [1, 2, 3]"
    using s'(2) [rule_format, of "U_write 1 2 3"] by (auto simp: numeral_3_eq_3)
qed


section \<open>Segment descriptors\<close>

text \<open>How the processor reads a descriptor, and the one that a selector names.\<close>

definition desc_base :: "gdt_desc \<Rightarrow> u32" where
  "desc_base d = push_bit 24 (ucast (base_high_byte d)) OR push_bit 16 (ucast (base_mid_byte d)) OR ucast (base_low_word d)"

definition desc_limit :: "gdt_desc \<Rightarrow> u32" where
  "desc_limit d = push_bit 16 (ucast (limit_high_attr_high d AND 0x0f)) OR ucast (limit_low_word d)"

definition desc_dpl :: "gdt_desc \<Rightarrow> u8" where
  "desc_dpl d = drop_bit 5 (attr_low_byte d) AND 3"

definition desc_granular :: "gdt_desc \<Rightarrow> bool" where
  "desc_granular d = bit (limit_high_attr_high d) 7"

definition selected :: "gdt_desc list \<Rightarrow> u32 \<Rightarrow> gdt_desc option" where
  "selected table sel = rd table (unat (drop_bit 3 sel))"

definition selector_rpl :: "u32 \<Rightarrow> u8" where
  "selector_rpl sel = ucast (sel AND 3)"

lemmas word_bits = bit_or_iff bit_push_bit_iff bit_unsigned_iff bit_drop_bit_eq comp_def bit_and_iff bit_0_eq

lemma bit_low_masks:
  "bit (0xffff :: u32) n \<longleftrightarrow> n < 16" "bit (0x0f :: u8) n \<longleftrightarrow> n < 4"
  "bit (0xff0000 :: u32) n \<longleftrightarrow> 16 \<le> n \<and> n < 24" "bit (0xf0000 :: u32) n \<longleftrightarrow> 16 \<le> n \<and> n < 20"
proof -
  have eq: "(0xffff :: u32) = mask 16" "(0x0f :: u8) = mask 4" "(0xff0000 :: u32) = push_bit 16 (mask 8)" "(0xf0000 :: u32) = push_bit 16 (mask 4)"
    by (simp_all add: mask_eq_exp_minus_1)
  show "bit (0xffff :: u32) n \<longleftrightarrow> n < 16" "bit (0x0f :: u8) n \<longleftrightarrow> n < 4"
    "bit (0xff0000 :: u32) n \<longleftrightarrow> 16 \<le> n \<and> n < 24" "bit (0xf0000 :: u32) n \<longleftrightarrow> 16 \<le> n \<and> n < 20"
    unfolding eq bit_push_bit_iff bit_mask_iff by auto
qed

lemma desc_base_make: "desc_base (make_gdt_desc b l al ah) = b"
proof (rule bit_word_eqI)
  fix n assume "n < LENGTH(32)"
  then show "bit (desc_base (make_gdt_desc b l al ah)) n = bit b n"
    unfolding desc_base_def make_gdt_desc_def gdt_desc.simps word_bits bit_low_masks by (cases "n < 24") auto
qed

lemma high_nibble: "ah AND 0x0f = 0 \<Longrightarrow> n < 4 \<Longrightarrow> \<not> bit ah n" for ah :: u8
  using bit_and_iff [of ah "0x0f" n] unfolding bit_low_masks by auto

lemma limit_high_make:
  assumes "ah AND 0x0f = 0"
  shows "limit_high_attr_high (make_gdt_desc b l al ah) = ucast (drop_bit 16 (l AND 0x000f0000)) OR ah"
proof -
  note ah = high_nibble [OF assms]
  have "drop_bit 16 (l AND 0x000f0000) + ucast ah = drop_bit 16 (l AND 0x000f0000) OR (ucast ah :: u32)"
    by (rule disjunctive_add_eq_or) (rule bit_word_eqI, unfold word_bits bit_low_masks, use ah in auto)
  moreover have "ucast (drop_bit 16 (l AND 0x000f0000) OR (ucast ah :: u32)) = (ucast (drop_bit 16 (l AND 0x000f0000)) OR ah :: u8)"
    by (rule bit_word_eqI) (unfold word_bits, auto)
  ultimately show ?thesis by (simp add: make_gdt_desc_def)
qed

lemma desc_limit_make:
  assumes "ah AND 0x0f = 0"
  shows "desc_limit (make_gdt_desc b l al ah) = l AND mask 20"
proof -
  note ah = high_nibble [OF assms]
  have lo: "limit_low_word (make_gdt_desc b l al ah) = ucast (l AND 0xffff)" by (simp add: make_gdt_desc_def)
  show ?thesis unfolding desc_limit_def limit_high_make [OF assms] lo
    by (rule bit_word_eqI) (unfold word_bits bit_low_masks bit_mask_iff, use ah in auto)
qed




section \<open>The timer\<close>

lemma unat_round_up_ticks:
  assumes "unat m + 9 < 2 ^ 32"
  shows "unat (round_up_ticks m) = (unat m + 9) div 10"
proof -
  have "round_up_ticks m = (m + 9) div 10" by (simp add: round_up_ticks_def mil_seconds_per_intr_def IRQ0_FREQUENCY_def algebra_simps)
  moreover have "unat (m + 9) = unat m + 9" using assms by (simp add: unat_word_ariths)
  ultimately show ?thesis by (simp add: unat_div)
qed

text \<open>
  C17. Sleeping: \<open>mtime_sleep\<close> starts its loop with the current tick count, and a test of the loop ends the
  sleep exactly when the ticks since then, of 10 milliseconds each, add up to the time asked for, also
  when the 32-bit tick counter wraps around in between.
\<close>

theorem mtime_sleep_duration:
  assumes "0 < m" "unat m + 9 < 2 ^ 32" "passed < 2 ^ 32" "total_ticks s' = total_ticks s + of_nat passed"
  shows "mtime_sleep m s = tisks_to_sleep (total_ticks s) (round_up_ticks m) s \<and>
    (tisks_to_sleep (total_ticks s) (round_up_ticks m) s' = Some (Slept s') \<longleftrightarrow> unat m \<le> 10 * passed)"
proof -
  have n: "unat (round_up_ticks m) = (unat m + 9) div 10" by (rule unat_round_up_ticks [OF assms(2)])
  have "0 < unat m" using assms(1) by (simp add: word_less_nat_alt)
  then have "round_up_ticks m > 0" using n by (simp add: word_less_nat_alt)
  then have start: "mtime_sleep m s = tisks_to_sleep (total_ticks s) (round_up_ticks m) s" by (simp add: mtime_sleep_def)
  have "unat (total_ticks s' - total_ticks s) = passed"
    using assms(3,4) by (simp add: unat_of_nat)
  then have "total_ticks s' - total_ticks s < round_up_ticks m \<longleftrightarrow> passed < (unat m + 9) div 10"
    by (simp add: word_less_nat_alt n)
  moreover have "passed < (unat m + 9) div 10 \<longleftrightarrow> \<not> unat m \<le> 10 * passed" by linarith
  ultimately have "tisks_to_sleep (total_ticks s) (round_up_ticks m) s' = Some (Slept s') \<longleftrightarrow> unat m \<le> 10 * passed"
    by (auto simp: tisks_to_sleep_def bind_Some_iff)
  with start show ?thesis by simp
qed

lemma mtime_sleep_duration_witness:
  "tisks_to_sleep 0xffffffff (round_up_ticks 25) (sample_kernel\<lparr>total_ticks := 2\<rparr>) = Some (Slept (sample_kernel\<lparr>total_ticks := 2\<rparr>))"
  using mtime_sleep_duration [of 25 3 "sample_kernel\<lparr>total_ticks := 2\<rparr>" "sample_kernel\<lparr>total_ticks := 0xffffffff\<rparr>"] by simp

text \<open>
  C18. The counter of the timer chip: \<open>timer_init\<close> asks for 11931, which is 100 interrupts a second, but the
  bytes it writes make up 155: the high byte is lost, and the chip interrupts 7697 times a second.
\<close>

theorem timer_init_counter:
  assumes "screen_ok (scr (mach s))" "length (idt_table s) = 0x81"
  shows "\<exists>s' lo hi. timer_init s = Some s' \<and> idt_table s' ! 0x20 = Intr_timer_handler \<and>
    ports s' = ports s @ [(0x43, 0x34), (0x40, lo), (0x40, hi)] \<and>
    COUNTER0_VALUE = 11931 \<and> unat lo + 256 * unat hi = 155"
proof -
  obtain sc where sc: "say ''time_init start'' s = Some (s\<lparr>mach := (mach s)\<lparr>scr := sc\<rparr>\<rparr>)" "screen_ok sc"
    using say_ok [OF assms(1)] by blast
  let ?p = "[(0x43, 0x34), (0x40, 0x9b), (0x40, 0)]"
  have p: "frequency_set 0x40 0 3 2 (of_nat COUNTER0_VALUE) = ?p"
    by (simp add: frequency_set_def COUNTER0_VALUE_def INPUT_FREQUENCY_def IRQ0_FREQUENCY_def)
  let ?s = "s\<lparr>mach := (mach s)\<lparr>scr := sc\<rparr>, ports := ports s @ ?p, idt_table := (idt_table s)[0x20 := Intr_timer_handler]\<rparr>"
  obtain sc' where "say ''timer_init done'' ?s = Some (?s\<lparr>mach := (mach ?s)\<lparr>scr := sc'\<rparr>\<rparr>)"
    using say_ok [of ?s] sc(2) by auto
  then have "timer_init s = Some (?s\<lparr>mach := (mach ?s)\<lparr>scr := sc'\<rparr>\<rparr>)"
    using sc(1) assms(2) by (simp add: timer_init_def p outs_def set_handler_def register_handler_def)
  then show ?thesis
    using assms(2) by (intro exI [of _ "?s\<lparr>mach := (mach ?s)\<lparr>scr := sc'\<rparr>\<rparr>"] exI [of _ "0x9b"] exI [of _ 0])
      (simp add: COUNTER0_VALUE_def INPUT_FREQUENCY_def IRQ0_FREQUENCY_def)
qed

lemma timer_init_counter_witness:
  "\<exists>s' lo hi. timer_init sample_system = Some s' \<and> ports s' = [(0x43, 0x34), (0x40, lo), (0x40, hi)] \<and> unat lo + 256 * unat hi = 155"
proof -
  have "ports sample_system = []" by (simp add: sample_system_def)
  then show "\<exists>s' lo hi. timer_init sample_system = Some s' \<and> ports s' = [(0x43, 0x34), (0x40, lo), (0x40, hi)] \<and> unat lo + 256 * unat hi = 155"
    using timer_init_counter [of sample_system] by auto
qed


section \<open>The pages of a segment\<close>

text \<open>
  \<open>segment_load\<close> allocates the pages from the one of the first byte of the segment to the one of its
  last byte, no more and no less, for every segment that ends in the address space.
\<close>

theorem occupy_pages_span:
  assumes "0 < sz" "unat va + unat sz \<le> 2 ^ 32"
  shows "occupy_pages va sz = (unat va + unat sz - 1) div 4096 - unat va div 4096 + 1"
proof -
  define v n where "v = unat va" and "n = unat sz"
  have "va AND 0xfff = va AND mask 12" by (simp add: mask_eq_exp_minus_1)
  then have "unat (va AND 0xfff) = v mod 4096" by (simp add: v_def unat_mod take_bit_eq_mask [symmetric] take_bit_eq_mod)
  moreover have "v mod 4096 < 4096" by simp
  ultimately have first: "unat (PG_SIZE - (va AND 0xfff)) = 4096 - v mod 4096"
    by (subst unat_sub) (simp_all add: PG_SIZE_def word_le_nat_alt)
  have n: "0 < n" "v + n \<le> 2 ^ 32" using assms by (simp_all add: v_def n_def word_less_nat_alt)
  have split: "v = 4096 * (v div 4096) + v mod 4096" by simp
  have span: "(v + n - 1) div 4096 = v div 4096 + (v mod 4096 + n - 1) div 4096"
  proof -
    have "v + n - 1 = v div 4096 * 4096 + (v mod 4096 + n - 1)" using n(1) split by simp
    then show ?thesis by (metis div_mult_self3 zero_neq_numeral)
  qed
  show ?thesis
  proof (cases "n > 4096 - v mod 4096")
    case True
    define left where "left = sz - (PG_SIZE - (va AND 0xfff)) + PG_SIZE - 1"
    have "unat (sz - (PG_SIZE - (va AND 0xfff))) = n - (4096 - v mod 4096)"
      using True first by (subst unat_sub) (simp_all add: word_le_nat_alt n_def)
    moreover have "n - (4096 - v mod 4096) + 4095 < 2 ^ 32" using n(2) True by (simp add: mod_less_eq_dividend)
    moreover have "left = sz - (PG_SIZE - (va AND 0xfff)) + 4095" by (simp add: left_def PG_SIZE_def)
    ultimately have left: "unat left = n - (4096 - v mod 4096) + 4095" by (simp add: unat_word_ariths)
    moreover have "n - (4096 - v mod 4096) + 4095 = v mod 4096 + n - 1" using True mod_less_divisor [of 4096 v] by linarith
    ultimately have "unat (left div PG_SIZE) = (v mod 4096 + n - 1) div 4096" by (simp only: unat_div) (simp add: PG_SIZE_def)
    moreover have "(v mod 4096 + n - 1) div 4096 + 1 < 2 ^ 32"
    proof -
      have "v mod 4096 + n - 1 \<le> 2 ^ 32" using n(2) mod_less_eq_dividend [of v 4096] by linarith
      then have "(v mod 4096 + n - 1) div 4096 \<le> 2 ^ 32 div 4096" by (rule div_le_mono)
      then show ?thesis by simp
    qed
    ultimately have "unat (left div PG_SIZE + 1) = (v mod 4096 + n - 1) div 4096 + 1" by (simp add: unat_word_ariths)
    moreover have "occupy_pages va sz = unat (left div PG_SIZE + 1)"
      using True first by (simp add: occupy_pages_def Let_def left_def word_less_nat_alt n_def)
    ultimately show ?thesis using span by (simp add: v_def n_def)
  next
    case False
    then have "(v mod 4096 + n - 1) div 4096 = 0" using n(1) by (simp add: div_eq_0_iff)
    moreover have "occupy_pages va sz = 1" using False first by (simp add: occupy_pages_def Let_def word_less_nat_alt n_def)
    ultimately show ?thesis using span by (simp add: v_def n_def)
  qed
qed

lemma occupy_pages_span_witness: "occupy_pages 0x8048ff0 0x1020 = 3"
  using occupy_pages_span [of "0x1020" "0x8048ff0"] by simp

end
