(* ===== verification/Spec2Isabelle.thy ===== *)
theory Spec2Isabelle
  imports CString KList Heap Thread Keyboard Fs_Spec Dir_Spec Shell_Spec File_Spec Fork_Spec System_Spec
begin

text \<open>
  Verification of tinykernel, a 32-bit x86 kernel in C with paging, preemptive threads, user processes,
  a disk file system and a shell.  File names are relative to \<^verbatim>\<open>src\<close>.

  \<^bold>\<open>The program.\<close>  \<^verbatim>\<open>kernel\<close> manages memory and interrupts, \<^verbatim>\<open>thread\<close> schedules threads and gives locks,
  \<^verbatim>\<open>device\<close> drives the timer, the keyboard, the console and the disks, \<^verbatim>\<open>fs\<close> is the file system,
  \<^verbatim>\<open>userprog\<close> makes processes out of threads (address spaces, \<open>fork\<close>, \<open>exec\<close>, \<open>exit\<close>, \<open>wait\<close>, system calls),
  \<^verbatim>\<open>lib\<close> has strings, formatted output, bitmaps and lists, and \<^verbatim>\<open>shell\<close> and \<^verbatim>\<open>command\<close> run in user mode.  The
  timer interrupt drives the scheduler; locks put threads on waiting lists and wake them; the heap lives on
  pages from the page allocator; the file system allocates its buffers on the heap and reads sectors under
  the lock of the disk channel; pipes and the keyboard share the ring buffer.

  \<^bold>\<open>The state.\<close>  Three records, each part of the next: \<open>kernel\<close> (theory \<open>Kernel\<close>: threads by the address of
  their PCB, the two thread lists, the locks, the memory pools, the page tables as words of physical memory,
  \<open>cr3\<close> and the interrupt flag), \<open>machine\<close> (theory \<open>Fs_Data\<close>: the kernel with the disks, the partitions, the
  open inodes and files, the ring buffers and the screen) and \<open>system\<close> (theory \<open>System\<close>: the machine with the
  descriptor tables and the bytes sent to the ports).  A handler is a function from the state to an option:
  \<open>None\<close> is a failed assertion, a page fault, an array access out of range, or a loop that does not end;
  the code's own error codes are values.  An operation that may put its thread to sleep returns where it
  sleeps (\<open>Asleep\<close>), or, for semaphores, is a step relation over all threads.  Unsigned words are
  \<open>u8\<close>, \<open>u16\<close>, \<open>u32\<close>; sizes and sector numbers of the file system are natural numbers with \<open>w32\<close> and \<open>sub32\<close>
  where the code can leave 32 bits.

  \<^bold>\<open>The theories\<close>, in the order of the imports.
  \<^item> \<open>Prelude\<close>: words, arrays with bounds (\<open>rd\<close>, \<open>wr\<close>), assertions, collections of rewrite rules.
  \<^item> \<open>Bitmap\<close> (\<^verbatim>\<open>lib/kernel/bitmap.c\<close>): the four operations; a scan finds the first free run.
  \<open>Slot_Pool\<close> is the contract of the allocators on bitmaps, a locale that \<open>Memory\<close> (frames), \<open>Thread\<close> (pids)
  and \<open>Inode\<close> (inodes and blocks) interpret.
  \<^item> \<open>CString\<close> (\<^verbatim>\<open>lib/string.c\<close>) on a byte-addressed memory: termination and results of all loops.
  \<^item> \<open>Interrupt\<close> (\<^verbatim>\<open>kernel/interrupt.c\<close>): the flag, the gates, the handlers; \<open>KList\<close> (\<^verbatim>\<open>lib/kernel/list.c\<close>): the pointer
  structure refines HOL lists, through the locale \<open>intrusive_queue\<close>; the kernel record then has lists.
  \<^item> \<open>Kernel\<close>, \<open>Paging\<close>, \<open>Sched\<close>, \<open>Sync\<close>, \<open>Memory\<close>, \<open>Heap\<close>, \<open>Heap_Avail\<close>, \<open>Thread\<close> (\<^verbatim>\<open>kernel/memory.c\<close>, \<^verbatim>\<open>thread/thread.c\<close>,
  \<^verbatim>\<open>thread/sync.c\<close>, \<^verbatim>\<open>userprog/process.c\<close>, parts of \<^verbatim>\<open>userprog/wait_exit.c\<close>): page tables against the memory
  management unit, the scheduler's invariant and fairness, mutual exclusion and no lost wake-ups for every
  interleaving of steps, fresh pages and blocks, pids, creation, exit and wait.
  \<^item> \<open>Ioqueue\<close>, \<open>Keyboard\<close> (\<^verbatim>\<open>device/ioqueue.c\<close>, \<^verbatim>\<open>shell/pipe.c\<close>, \<^verbatim>\<open>device/keyboard.c\<close>): the ring refines a bounded queue
  (locale \<open>byte_queue\<close>); typing a text queues the text.
  \<^item> \<open>Stdio\<close>, \<open>Print\<close>, \<open>Console\<close> (\<^verbatim>\<open>lib/stdio.c\<close>, \<^verbatim>\<open>lib/kernel/print.c\<close>, \<^verbatim>\<open>device/console.c\<close>, \<^verbatim>\<open>lib/kernel/stdio_kernel.c\<close>):
  formatting against a reference, the screen's bounds.
  \<^item> \<open>Fs_Data\<close>, \<open>Ide\<close>, \<open>Ide_Init\<close>, \<open>Inode\<close>, \<open>Dir\<close>, \<open>File\<close>, \<open>Fs\<close> (\<^verbatim>\<open>device/ide.c\<close>, \<^verbatim>\<open>fs\<close>): the disk driver and the whole file
  system down to the bytes of the sectors.  \<open>Fs_Inv\<close>, \<open>Fs_Spec\<close>, \<open>Dir_Spec\<close>, \<open>File_Spec\<close>: a sector that is written is
  read back; inodes and bitmaps on the disk; the layout of a formatted partition; a directory refines a finite
  map (locale \<open>name_table\<close>), a file refines a list of bytes (locale \<open>byte_store\<close>), and files do not interfere.
  \<^item> \<open>Process\<close>, \<open>Fork_Spec\<close> (\<^verbatim>\<open>userprog/fork.c\<close>, \<^verbatim>\<open>userprog/exec.c\<close>, \<^verbatim>\<open>userprog/wait_exit.c\<close>): the child of a fork
  gets the memory of its parent and neither sees the writes of the other afterwards.
  \<^item> \<open>Shell\<close>, \<open>Shell_Spec\<close> (\<^verbatim>\<open>shell\<close>): commands and paths against reference definitions.
  \<^item> \<open>System\<close>, \<open>System_Spec\<close> (\<^verbatim>\<open>device/timer.c\<close>, \<^verbatim>\<open>userprog/tss.c\<close>, \<^verbatim>\<open>userprog/syscall_init.c\<close>, \<^verbatim>\<open>lib/user\<close>, \<^verbatim>\<open>kernel/init.c\<close>,
  \<^verbatim>\<open>kernel/main.c\<close>, \<^verbatim>\<open>command\<close>): start-up and the system call path.

  \<^bold>\<open>Bounds.\<close>  No fuel is used: loops are structural, have a termination proof, or are \<open>partial_function\<close> in the
  option type, where running forever is \<open>None\<close> and the lemmas prove that a result is returned.  The loop of
  \<open>busy_wait\<close> counts its 30000 milliseconds as the code does.

  \<^bold>\<open>Parameters.\<close>  What is not in \<^verbatim>\<open>src\<close> or not written in C is an argument: addresses of labels (\<open>intr_exit\<close>,
  \<open>idle\<close>, entry points), the size of the memory and the number of disks that the loader left in memory, the
  answers of the drives (\<open>ata_status\<close>, the identification block) and the contents of uninitialised arrays.

  \<^bold>\<open>Not modelled.\<close>  \<^verbatim>\<open>lib/kernel/io.c\<close>, \<^verbatim>\<open>boot\<close>, \<^verbatim>\<open>kernel/kernel.asm\<close> and \<^verbatim>\<open>thread/switch.asm\<close> are assembly; \<open>schedule\<close> ends with
  the choice of the next thread and its address space.  The translation look-aside buffer is left out: the
  translation is always that of the tables.  The functions in \<^verbatim>\<open>kernel/main.c\<close> that are empty endless loops are left
  out.  So are the messages that the file system, \<open>mem_pool_init\<close>, \<open>create_page_dir\<close> and \<open>thread_yield\<close> print; those of the
  start-up of the other parts, of the disk driver, of exceptions and of failed assertions are modelled.
\<close>

end
